(* ===== verification/Daqiri_Prelude.thy ===== *)
theory Daqiri_Prelude
  imports Main "HOL-Library.Word"
begin

text \<open>
  Shared vocabulary of the development: the machine integer types of the C++ sources, the
  collections of rewrite rules that the component theories extend, and the lemmas on words
  that several components use (power-of-two masks, the bit-smearing idiom of the
  round-up-to-a-power-of-two routines, and alignment arithmetic).
\<close>

unbundle bit_operations_syntax

type_synonym u8 = "8 word"
type_synonym u16 = "16 word"
type_synonym u32 = "32 word"
type_synonym u64 = "64 word"

named_theorems ring_simps "unfolding rules of the ring and of what is built on it"
named_theorems rdma_simps "unfolding rules of the RDMA components"
named_theorems cfg_simps "unfolding rules of the configuration components"

section \<open>Words\<close>

lemma unat_pow2:
  assumes "k < LENGTH('a)"
  shows "unat (2 ^ k :: 'a::len word) = 2 ^ k"
proof -
  have "unat (of_nat (2 ^ k) :: 'a word) = 2 ^ k"
    using assms by (simp only: unat_of_nat) simp
  then show ?thesis by simp
qed

lemma unat_pow2_mask:
  assumes "k < LENGTH('a)"
  shows "unat (2 ^ k - 1 :: 'a::len word) = 2 ^ k - 1"
proof -
  have "(2 ^ k :: 'a word) \<noteq> 0"
    using unat_pow2 [OF assms] by (metis power_not_zero unat_0 zero_neq_numeral)
  then show ?thesis
    by (simp add: unat_minus_one unat_pow2 [OF assms])
qed

lemma unat_inc:
  fixes w v :: "'a::len word"
  assumes "w < v"
  shows "unat (w + 1) = Suc (unat w)"
proof -
  have "unat w < unat v" using assms by (simp add: word_less_nat_alt)
  moreover have "unat v < 2 ^ LENGTH('a)" by (rule unsigned_less)
  ultimately have "unat w + unat (1::'a word) < 2 ^ LENGTH('a)"
    unfolding unat_1 by linarith
  then have "unat (w + 1) = unat w + unat (1::'a word)" by (rule unat_add_lem [THEN iffD1])
  then show ?thesis by simp
qed

lemma unat_and_pow2_mask:
  fixes w :: "'a::len word"
  shows "unat (w AND (2 ^ k - 1)) = unat w mod 2 ^ k"
proof -
  have "w AND (2 ^ k - 1) = take_bit k w"
    by (simp add: mask_eq_exp_minus_1 take_bit_eq_mask)
  then show ?thesis
    by (simp only: unsigned_take_bit_eq) (simp add: take_bit_eq_mod)
qed

text \<open>
  The idiom \<^verbatim>\<open>v |= v >> 1; v |= v >> 2; v |= v >> 4; ...\<close>: after shifts by
  \<^verbatim>\<open>1, 2, ..., j/2\<close> bit \<open>n\<close> of the result is set exactly when one of the bits
  \<open>n, ..., n + j - 1\<close> of the original word is.
\<close>

definition smears :: "nat \<Rightarrow> 'a::len word \<Rightarrow> 'a word \<Rightarrow> bool" where
  "smears j v w \<longleftrightarrow> (\<forall>n. bit w n \<longleftrightarrow> (\<exists>m. n \<le> m \<and> m < n + j \<and> bit v m))"

lemma smears_refl: "smears 1 v v"
proof -
  have "n \<le> m \<and> m < n + 1 \<longleftrightarrow> m = n" for m n :: nat by auto
  then show ?thesis unfolding smears_def by (metis (no_types))
qed

lemma smears_double:
  assumes "smears j v w"
  shows "smears (2 * j) v (w OR drop_bit j w)"
  unfolding smears_def
proof (intro allI iffI)
  fix n
  assume "bit (w OR drop_bit j w) n"
  then have "bit w n \<or> bit w (j + n)" by (simp add: bit_or_iff bit_drop_bit_eq)
  then show "\<exists>m\<ge>n. m < n + 2 * j \<and> bit v m"
  proof
    assume "bit w n"
    then obtain m where "n \<le> m" "m < n + j" "bit v m" using assms unfolding smears_def by blast
    then show ?thesis by (intro exI [of _ m]) simp
  next
    assume "bit w (j + n)"
    then obtain m where "j + n \<le> m" "m < j + n + j" "bit v m" using assms unfolding smears_def by blast
    then show ?thesis by (intro exI [of _ m]) simp
  qed
next
  fix n
  assume "\<exists>m\<ge>n. m < n + 2 * j \<and> bit v m"
  then obtain m where m: "n \<le> m" "m < n + 2 * j" "bit v m" by blast
  show "bit (w OR drop_bit j w) n"
  proof (cases "m < n + j")
    case True
    with m assms have "bit w n" by (auto simp: smears_def)
    then show ?thesis by (simp add: bit_or_iff)
  next
    case False
    with m assms have "bit w (j + n)" by (auto simp: smears_def intro!: exI [of _ m])
    then show ?thesis by (simp add: bit_or_iff bit_drop_bit_eq)
  qed
qed

lemma smears_full:
  fixes v w :: "'a::len word"
  assumes sm: "smears j v w" and len: "LENGTH('a) \<le> j" and nz: "v \<noteq> 0"
  obtains h where "h < LENGTH('a)" "w = mask (Suc h)" "2 ^ h \<le> unat v" "unat v < 2 ^ Suc h"
proof -
  define h where "h = Max {m. bit v m}"
  have fin: "finite {m. bit v m}"
    by (rule finite_subset [of _ "{..<LENGTH('a)}"]) (auto dest: bit_imp_le_length)
  have ne: "{m. bit v m} \<noteq> {}" using nz by (auto intro: bit_word_eqI)
  have hb: "bit v h" using Max_in [OF fin ne] by (simp add: h_def)
  have hmax: "m \<le> h" if "bit v m" for m using that fin by (simp add: h_def)
  have hl: "h < LENGTH('a)" using hb by (rule bit_imp_le_length)
  have "bit w n \<longleftrightarrow> n \<le> h" for n
    using sm hb hmax hl len unfolding smears_def by (metis le_trans trans_less_add2 less_le_trans)
  then have w: "w = mask (Suc h)"
    by (intro bit_word_eqI) (auto simp: bit_mask_iff less_Suc_eq_le)
  have "bit (unat v) h" using hb hl by (simp add: bit_unsigned_iff)
  then have lo: "2 ^ h \<le> unat v"
    by (metis bit_iff_odd div_less even_zero leI)
  have "take_bit (Suc h) v = v"
    by (intro bit_word_eqI) (auto simp: bit_take_bit_iff less_Suc_eq_le dest: hmax)
  then have up: "unat v < 2 ^ Suc h"
    by (metis take_bit_nat_less_exp unsigned_take_bit_eq)
  show thesis using that hl w lo up by blast
qed

lemma smears_1D: "smears 1 v w \<Longrightarrow> smears 2 v (w OR drop_bit 1 w)"
  using smears_double [of 1 v w] by simp

lemma mask_Suc_plus_1:
  assumes "Suc h < LENGTH('a)"
  shows "mask (Suc h) + 1 = (2 ^ Suc h :: 'a::len word)"
  by (simp add: mask_eq_exp_minus_1)

lemma and_not_pow2_mask: "(w::'a::len word) AND NOT (2 ^ k - 1) = w - take_bit k w"
proof -
  have "(w AND NOT (mask k)) + (w AND mask k) = (w AND NOT (mask k)) OR (w AND mask k)"
    by (rule disjunctive_add_eq_or) (auto simp: bit_eq_iff bit_simps)
  also have "\<dots> = w" by (rule bit_word_eqI) (auto simp: bit_simps)
  finally show ?thesis by (simp add: take_bit_eq_mask mask_eq_exp_minus_1 algebra_simps)
qed

lemma mod_add_left_cancelD: "(a + i) mod n = (a + j) mod n \<Longrightarrow> i mod n = j mod (n::nat)"
proof -
  assume "(a + i) mod n = (a + j) mod n"
  then have "(int a + int i) mod int n = (int a + int j) mod int n"
    by (metis of_nat_add zmod_int)
  then have "int i mod int n = int j mod int n" by (simp add: mod_eq_dvd_iff)
  then show ?thesis by (simp flip: zmod_int)
qed

lemma unat_and_not_pow2_mask:
  fixes w :: "'a::len word"
  shows "unat (w AND NOT (2 ^ k - 1)) = unat w div 2 ^ k * 2 ^ k"
proof -
  have "w AND NOT (2 ^ k - 1) = w - take_bit k w"
    by (rule and_not_pow2_mask)
  moreover have "take_bit k w \<le> w"
    by (metis unsigned_take_bit_eq take_bit_nat_less_eq_self word_le_nat_alt)
  ultimately have "unat (w AND NOT (2 ^ k - 1)) = unat w - take_bit k (unat w)"
    by (simp add: unat_sub_if' word_le_nat_alt unsigned_take_bit_eq)
  then show ?thesis
    by (simp add: take_bit_eq_mod minus_mod_eq_div_mult)
qed

lemma unat_plus_of_nat_mod:
  fixes c :: "'a::len word"
  assumes "k \<le> LENGTH('a)"
  shows "unat (c + of_nat i) mod 2 ^ k = (unat c + i) mod 2 ^ k"
proof -
  have "(2::nat) ^ k dvd 2 ^ LENGTH('a)" using assms by (simp add: le_imp_power_dvd)
  then show ?thesis
    by (simp add: unat_word_ariths unat_of_nat mod_mod_cancel mod_add_right_eq)
qed

lemma pow2_index_inj:
  fixes c :: "'a::len word"
  assumes "k \<le> LENGTH('a)" "i < 2 ^ k" "j < 2 ^ k"
    and "(c + of_nat i) AND (2 ^ k - 1) = (c + of_nat j) AND (2 ^ k - 1)"
  shows "i = j"
proof -
  have "(unat c + i) mod 2 ^ k = (unat c + j) mod 2 ^ k"
    using arg_cong [OF assms(4), of unat] assms(1)
    by (simp add: unat_and_pow2_mask unat_plus_of_nat_mod)
  then have "i mod 2 ^ k = j mod 2 ^ k"
    by (rule mod_add_left_cancelD)
  with assms(2,3) show ?thesis by simp
qed

section \<open>Windows on a circular array\<close>

text \<open>The entries \<open>c, c + 1, ..., c + n - 1\<close> of an array of \<open>2 ^ k\<close> slots that is indexed by the low bits
  of a wrapping counter.\<close>

definition window :: "nat \<Rightarrow> ('a::len word \<Rightarrow> 'b) \<Rightarrow> 'a word \<Rightarrow> nat \<Rightarrow> 'b list" where
  "window k f c n = map (\<lambda>i. f ((c + of_nat i) AND (2 ^ k - 1))) [0..<n]"

lemma window_0 [simp]: "window k f c 0 = []"
  by (simp add: window_def)

lemma length_window [simp]: "length (window k f c n) = n"
  by (simp add: window_def)

lemma window_Suc: "window k f c (Suc n) = f (c AND (2 ^ k - 1)) # window k f (c + 1) n"
  by (simp add: window_def upt_conv_Cons map_Suc_upt [symmetric] algebra_simps del: upt_Suc)

lemma window_push:
  assumes "k \<le> LENGTH('a)" "n < 2 ^ k"
  shows "window k (f((c + of_nat n) AND (2 ^ k - 1) := x)) (c::'a::len word) (Suc n) = window k f c n @ [x]"
proof -
  have "(c + of_nat i) AND (2 ^ k - 1) \<noteq> (c + of_nat n) AND (2 ^ k - 1)" if "i < n" for i
    using pow2_index_inj [of k i n c] assms that by auto
  then show ?thesis by (simp add: window_def)
qed

lemma window_upd_before:
  assumes "k \<le> LENGTH('a)" "n < 2 ^ k"
  shows "window k (f(c AND (2 ^ k - 1) := x)) ((c::'a::len word) + 1) n = window k f (c + 1) n"
proof -
  have "(c + 1 + of_nat i) AND (2 ^ k - 1) \<noteq> c AND (2 ^ k - 1)" if "i < n" for i
    using pow2_index_inj [of k "Suc i" 0 c] assms that by (auto simp: algebra_simps)
  then show ?thesis by (simp add: window_def)
qed

end
