(* ===== verification/Queue_Interface.thy ===== *)
theory Queue_Interface
  imports Daqiri_Prelude "HOL-Library.Multiset"
begin

text \<open>
  The contract between the pointer ring (\<^verbatim>\<open>daqiri::Ring\<close>) and the components that keep
  their free elements in one: a bounded FIFO with single-element operations. The result of an
  operation is \<open>None\<close> when the code would spin for ever; the laws say that this does not
  happen in a state that satisfies the invariant. The locale's lemmas are what the object
  pool, the shared transmit pool and the buffer pools need.
\<close>

primrec enq_list :: "('q \<Rightarrow> 'a \<Rightarrow> (bool \<times> 'q) option) \<Rightarrow> 'q \<Rightarrow> 'a list \<Rightarrow> 'q option" where
  "enq_list enq q [] = Some q"
| "enq_list enq q (x # xs) =
     (case enq q x of None \<Rightarrow> None | Some (_, q') \<Rightarrow> enq_list enq q' xs)"

locale bounded_queue =
  fixes inv :: "'q \<Rightarrow> bool"
    and items :: "'q \<Rightarrow> 'a list"
    and cap :: "'q \<Rightarrow> nat"
    and enq :: "'q \<Rightarrow> 'a \<Rightarrow> (bool \<times> 'q) option"
    and deq :: "'q \<Rightarrow> ('a option \<times> 'q) option"
  assumes items_cap: "inv q \<Longrightarrow> length (items q) \<le> cap q"
    and enq_room: "inv q \<Longrightarrow> length (items q) < cap q \<Longrightarrow>
      \<exists>q'. enq q x = Some (True, q') \<and> inv q' \<and> items q' = items q @ [x] \<and> cap q' = cap q"
    and enq_full: "inv q \<Longrightarrow> length (items q) = cap q \<Longrightarrow> enq q x = Some (False, q)"
    and deq_Cons: "inv q \<Longrightarrow> items q = x # xs \<Longrightarrow>
      \<exists>q'. deq q = Some (Some x, q') \<and> inv q' \<and> items q' = xs \<and> cap q' = cap q"
    and deq_Nil: "inv q \<Longrightarrow> items q = [] \<Longrightarrow> deq q = Some (None, q)"
begin

lemma enq_list_fits:
  assumes "inv q" "length (items q) + length xs \<le> cap q"
  shows "\<exists>q'. enq_list enq q xs = Some q' \<and> inv q' \<and> items q' = items q @ xs \<and> cap q' = cap q"
  using assms
proof (induction xs arbitrary: q)
  case Nil
  then show ?case by simp
next
  case (Cons x xs)
  then obtain q1 where q1: "enq q x = Some (True, q1)" "inv q1" "items q1 = items q @ [x]"
    "cap q1 = cap q"
    using enq_room [of q x] by auto
  from q1 Cons.prems have "length (items q1) + length xs \<le> cap q1" by simp
  from Cons.IH [OF q1(2) this] q1 show ?case by auto
qed

lemma enq_total: "inv q \<Longrightarrow> \<exists>ok q'. enq q x = Some (ok, q') \<and> inv q' \<and> cap q' = cap q"
  using enq_room [of q x] enq_full [of q x] items_cap [of q] by (metis le_neq_implies_less)

lemma deq_total: "inv q \<Longrightarrow> \<exists>r q'. deq q = Some (r, q') \<and> inv q' \<and> cap q' = cap q"
  using deq_Cons [of q] deq_Nil [of q] by (cases "items q") force+

lemma deq_result:
  assumes "inv q" "deq q = Some (r, q')"
  shows "inv q' \<and> cap q' = cap q \<and>
    (case r of None \<Rightarrow> items q = [] \<and> q' = q | Some x \<Rightarrow> items q = x # items q')"
  using assms deq_Cons [of q] deq_Nil [of q] by (cases "items q") force+

lemma enq_result:
  assumes "inv q" "enq q x = Some (ok, q')"
  shows "inv q' \<and> cap q' = cap q \<and>
    (if ok then items q' = items q @ [x] \<and> length (items q) < cap q
     else q' = q \<and> length (items q) = cap q)"
  using assms enq_room [of q x] enq_full [of q x] items_cap [of q]
  by (cases "length (items q) < cap q") force+

text \<open>
  A free list that together with what was handed out always makes up the same collection:
  taking an element moves it to the outstanding ones, and giving an outstanding element back
  always finds room.
\<close>

lemma conserve_get:
  assumes "inv q" "mset (items q) + out = E" "deq q = Some (Some x, q')"
  shows "inv q' \<and> mset (items q') + add_mset x out = E \<and> cap q' = cap q"
  using deq_result [OF assms(1,3)] assms(2) by auto

lemma conserve_put:
  assumes "inv q" "mset (items q) + out = E" "size E \<le> cap q" "x \<in># out"
  shows "\<exists>q'. enq q x = Some (True, q') \<and> inv q' \<and> mset (items q') + (out - {#x#}) = E
    \<and> items q' = items q @ [x] \<and> cap q' = cap q"
proof -
  have "size (mset (items q)) + size out = size E" using assms(2) by (metis size_union)
  moreover have "0 < size out" using assms(4) by (auto simp: nonempty_has_size [symmetric])
  ultimately have "length (items q) < cap q" using assms(3) by simp
  then show ?thesis using enq_room [OF assms(1), of x] assms(2,4) by auto
qed

end

end
