(* ===== verification/Ring_Buffer.thy ===== *)
theory Ring_Buffer
  imports Queue_Interface
begin

text \<open>
  The pointer ring of \<^verbatim>\<open>src/src/daqiri_ring.h\<close> and the table sizing of
  \<^verbatim>\<open>src/src/rss.h\<close>. The four cursors are 32-bit words that wrap around; the slots are
  a memory indexed by 32-bit words. Each operation is the code's own sequence of loads and
  stores executed by one thread; the spin loop that waits for earlier producers or consumers
  is the \<open>None\<close> result when its condition can never become false. The interleaving of
  several threads is the subject of the theory of the concurrent ring.
\<close>

unbundle bit_operations_syntax

section \<open>Model\<close>

datatype RingMode = MPMC | SPSC

record 'a Ring =
  r_prod_head :: u32
  r_prod_tail :: u32
  r_cons_head :: u32
  r_cons_tail :: u32
  r_mask :: u32
  r_size :: u32
  r_single :: bool
  r_slots :: "u32 \<Rightarrow> 'a"

definition round_up_pow2 :: "u32 \<Rightarrow> u32" where
  "round_up_pow2 v =
     (if v < 2 then 2
      else
        let v = v - 1;
            v = v OR drop_bit 1 v;
            v = v OR drop_bit 2 v;
            v = v OR drop_bit 4 v;
            v = v OR drop_bit 8 v;
            v = v OR drop_bit 16 v
        in v + 1)"

text \<open>The first argument is what \<^verbatim>\<open>posix_memalign\<close> delivered: nothing, or a block
  whose contents are arbitrary.\<close>

definition ring_create :: "(u32 \<Rightarrow> 'a) option \<Rightarrow> u32 \<Rightarrow> RingMode \<Rightarrow> 'a Ring option" where
  "ring_create mem cnt mode =
     (let size = round_up_pow2 cnt in
      case mem of
        None \<Rightarrow> None
      | Some junk \<Rightarrow>
          Some \<lparr>r_prod_head = 0, r_prod_tail = 0, r_cons_head = 0, r_cons_tail = 0,
                r_mask = size - 1, r_size = size, r_single = (mode = SPSC), r_slots = junk\<rparr>)"

definition move_prod_head :: "'a Ring \<Rightarrow> u32 \<Rightarrow> u32 \<times> u32 \<times> 'a Ring" where
  "move_prod_head r n =
     (let head = r_prod_head r;
          cons = r_cons_tail r;
          free_entries = r_mask r + cons - head
      in if n > free_entries then (head, head, r)
         else (head + n, head, r\<lparr>r_prod_head := head + n\<rparr>))"

definition move_cons_head :: "'a Ring \<Rightarrow> u32 \<Rightarrow> u32 \<times> u32 \<times> 'a Ring" where
  "move_cons_head r n =
     (let head = r_cons_head r;
          prod = r_prod_tail r;
          entries = prod - head
      in if n > entries then (head, head, r)
         else (head + n, head, r\<lparr>r_cons_head := head + n\<rparr>))"

primrec write_slots :: "u32 \<Rightarrow> u32 \<Rightarrow> 'a list \<Rightarrow> (u32 \<Rightarrow> 'a) \<Rightarrow> u32 \<Rightarrow> 'a" where
  "write_slots msk h [] mem = mem"
| "write_slots msk h (x # xs) mem = write_slots msk (h + 1) xs (mem(h AND msk := x))"

primrec read_slots :: "u32 \<Rightarrow> u32 \<Rightarrow> nat \<Rightarrow> (u32 \<Rightarrow> 'a) \<Rightarrow> 'a list" where
  "read_slots msk h 0 mem = []"
| "read_slots msk h (Suc n) mem = mem (h AND msk) # read_slots msk (h + 1) n mem"

definition ring_enqueue_bulk :: "'a Ring \<Rightarrow> 'a list \<Rightarrow> u32 \<Rightarrow> (u32 \<times> 'a Ring) option" where
  "ring_enqueue_bulk r objs n =
     (if n = 0 then Some (0, r)
      else
        let (prod_next, prod_head, r1) = move_prod_head r n in
        if prod_next = prod_head then Some (0, r1)
        else
          let r2 = r1\<lparr>r_slots := write_slots (r_mask r1) prod_head (take (unat n) objs) (r_slots r1)\<rparr> in
          if \<not> r_single r2 \<and> r_prod_tail r2 \<noteq> prod_head then None
          else Some (n, r2\<lparr>r_prod_tail := prod_next\<rparr>))"

definition ring_dequeue_bulk :: "'a Ring \<Rightarrow> u32 \<Rightarrow> (u32 \<times> 'a list \<times> 'a Ring) option" where
  "ring_dequeue_bulk r n =
     (if n = 0 then Some (0, [], r)
      else
        let (cons_next, cons_head, r1) = move_cons_head r n in
        if cons_next = cons_head then Some (0, [], r1)
        else
          let objs = read_slots (r_mask r1) cons_head (unat n) (r_slots r1) in
          if \<not> r_single r1 \<and> r_cons_tail r1 \<noteq> cons_head then None
          else Some (n, objs, r1\<lparr>r_cons_tail := cons_next\<rparr>))"

definition ring_enqueue :: "'a Ring \<Rightarrow> 'a \<Rightarrow> (bool \<times> 'a Ring) option" where
  "ring_enqueue r obj =
     (case ring_enqueue_bulk r [obj] 1 of
        None \<Rightarrow> None
      | Some (k, r') \<Rightarrow> Some (k = 1, r'))"

definition ring_dequeue :: "'a Ring \<Rightarrow> ('a option \<times> 'a Ring) option" where
  "ring_dequeue r =
     (case ring_dequeue_bulk r 1 of
        None \<Rightarrow> None
      | Some (k, objs, r') \<Rightarrow> Some (if k = 1 then Some (hd objs) else None, r'))"

definition ring_count :: "'a Ring \<Rightarrow> u32" where
  "ring_count r = (r_prod_tail r - r_cons_tail r) AND r_mask r"

definition ring_capacity :: "'a Ring \<Rightarrow> u32" where
  "ring_capacity r = r_mask r"

text \<open>The loop doubles a 64-bit \<^verbatim>\<open>size_t\<close>; \<open>size << 1\<close> of the top bit is 0, and
  the loop then never ends. Fuel 65 covers every loop that ends.\<close>

primrec rss_loop :: "nat \<Rightarrow> u64 \<Rightarrow> u64 \<Rightarrow> u64 option" where
  "rss_loop 0 sz queue_count = None"
| "rss_loop (Suc fuel) sz queue_count =
     (if sz < queue_count then rss_loop fuel (push_bit 1 sz) queue_count else Some sz)"

definition rss_table_size :: "u64 \<Rightarrow> u64 option" where
  "rss_table_size queue_count = rss_loop 65 1 queue_count"

section \<open>Invariant and abstraction\<close>

text \<open>No operation is under way, the usable capacity is \<open>2 ^ k - 1\<close>, and the distance from
  the consumer cursor to the producer cursor, modulo wrap-around, is at most that.\<close>

definition ring_inv :: "'a Ring \<Rightarrow> bool" where
  "ring_inv r \<longleftrightarrow>
     (\<exists>k\<in>{1..31}. r_mask r = 2 ^ k - 1 \<and> r_size r = 2 ^ k)
     \<and> r_prod_head r = r_prod_tail r \<and> r_cons_head r = r_cons_tail r
     \<and> r_prod_tail r - r_cons_tail r \<le> r_mask r"

definition ring_items :: "'a Ring \<Rightarrow> 'a list" where
  "ring_items r = read_slots (r_mask r) (r_cons_tail r) (unat (r_prod_tail r - r_cons_tail r)) (r_slots r)"

definition ring_cap :: "'a Ring \<Rightarrow> nat" where
  "ring_cap r = unat (r_mask r)"

lemma ring_invE:
  assumes "ring_inv r"
  obtains k where "1 \<le> k" "k \<le> 31" "r_mask r = 2 ^ k - 1" "r_size r = 2 ^ k"
    "r_prod_head r = r_prod_tail r" "r_cons_head r = r_cons_tail r"
    "r_prod_tail r - r_cons_tail r \<le> r_mask r"
  using assms unfolding ring_inv_def by force

section \<open>Sizing\<close>

lemma round_up_pow2_smear:
  assumes "2 \<le> v"
  obtains h where "h < 32" "2 ^ h \<le> unat v - 1" "unat v - 1 < 2 ^ Suc h"
    "round_up_pow2 v = mask (Suc h) + 1"
proof -
  have v: "1 < v" "v \<noteq> 0" using assms by (auto simp: word_le_nat_alt word_less_nat_alt)
  then have nz: "v - 1 \<noteq> 0" by (auto simp: eq_iff_diff_eq_0 [symmetric])
  let ?w1 = "v - 1"
  let ?w2 = "?w1 OR drop_bit 1 ?w1"
  let ?w3 = "?w2 OR drop_bit 2 ?w2"
  let ?w4 = "?w3 OR drop_bit 4 ?w3"
  let ?w5 = "?w4 OR drop_bit 8 ?w4"
  let ?w6 = "?w5 OR drop_bit 16 ?w5"
  have "smears 2 ?w1 ?w2" using smears_double [OF smears_refl, of ?w1] by simp
  then have "smears 4 ?w1 ?w3" using smears_double by fastforce
  then have "smears 8 ?w1 ?w4" using smears_double by fastforce
  then have "smears 16 ?w1 ?w5" using smears_double by fastforce
  then have "smears 32 ?w1 ?w6" using smears_double by fastforce
  then obtain h where h: "h < LENGTH(32)" "?w6 = mask (Suc h)" "2 ^ h \<le> unat ?w1"
    "unat ?w1 < 2 ^ Suc h"
    using smears_full [of 32 ?w1 ?w6] nz by auto
  have "\<not> v < 2" using assms by simp
  then have "round_up_pow2 v = ?w6 + 1" by (simp only: round_up_pow2_def Let_def if_False)
  with h v show thesis by (intro that [of h]) (simp_all add: unat_minus_one)
qed

lemma round_up_pow2_cases:
  assumes "v \<le> 2 ^ 31"
  obtains k where "1 \<le> k" "k \<le> 31" "round_up_pow2 v = 2 ^ k" "unat v \<le> 2 ^ k"
    "k = 1 \<or> 2 ^ (k - 1) < unat v"
proof (cases "v < 2")
  case True
  then have "round_up_pow2 v = 2 ^ 1" by (simp add: round_up_pow2_def)
  moreover have "unat v \<le> 2 ^ 1" using True by (simp add: word_less_nat_alt)
  ultimately show thesis using that [of 1] by simp
next
  case False
  then have v2: "2 \<le> unat v" by (simp add: word_less_nat_alt not_less)
  obtain h where h: "h < 32" "2 ^ h \<le> unat v - 1" "unat v - 1 < 2 ^ Suc h"
    "round_up_pow2 v = mask (Suc h) + 1"
    using round_up_pow2_smear [of v] False by (metis linorder_not_less)
  have "unat v \<le> 2 ^ 31" using assms by (simp add: word_le_nat_alt)
  with h(2) v2 have "(2::nat) ^ h < 2 ^ 31" by linarith
  then have h31: "h < 31" by (rule power_less_imp_less_exp [rotated]) simp
  then have "round_up_pow2 v = 2 ^ Suc h"
    using h(4) mask_Suc_plus_1 [of h, where 'a = 32] by simp
  with h v2 h31 show thesis by (intro that [of "Suc h"]) auto
qed

lemma ring_create_inv:
  assumes "cnt \<le> 2 ^ 31"
  shows "\<exists>r. ring_create (Some junk) cnt mode = Some r \<and> ring_inv r \<and> ring_items r = []
    \<and> unat cnt - 1 \<le> ring_cap r \<and> r_single r = (mode = SPSC)"
proof -
  obtain k where k: "1 \<le> k" "k \<le> 31" "round_up_pow2 cnt = 2 ^ k" "unat cnt \<le> 2 ^ k"
    using round_up_pow2_cases [OF assms] by metis
  have "unat (2 ^ k - 1 :: u32) = 2 ^ k - 1" using unat_pow2_mask [of k, where 'a = 32] k by simp
  then show ?thesis
    using k by (auto simp: ring_create_def ring_inv_def ring_items_def ring_cap_def Let_def)
qed

section \<open>Slots\<close>

lemma read_slots_conv:
  "read_slots msk h n mem = map (\<lambda>i. mem ((h + of_nat i) AND msk)) [0..<n]"
  by (induction n arbitrary: h)
    (simp_all add: upt_conv_Cons map_Suc_upt [symmetric] algebra_simps del: upt_Suc)

lemma length_read_slots [simp]: "length (read_slots msk h n mem) = n"
  by (simp add: read_slots_conv)

lemma read_slots_append:
  "read_slots msk h (m + n) mem = read_slots msk h m mem @ read_slots msk (h + of_nat m) n mem"
  by (induction m arbitrary: h) (simp_all add: algebra_simps)

lemma write_slots_other:
  "(\<And>j. j < length xs \<Longrightarrow> idx \<noteq> (h + of_nat j) AND msk) \<Longrightarrow> write_slots msk h xs mem idx = mem idx"
proof (induction xs arbitrary: h mem)
  case Nil
  then show ?case by simp
next
  case (Cons x xs)
  have "idx \<noteq> h AND msk" using Cons.prems [of 0] by simp
  moreover have "write_slots msk (h + 1) xs (mem(h AND msk := x)) idx = (mem(h AND msk := x)) idx"
    using Cons.prems [of "Suc j" for j] by (intro Cons.IH) (simp add: algebra_simps)
  ultimately show ?case by simp
qed

lemma write_slots_at:
  assumes "k \<le> 32" "length xs \<le> 2 ^ k" "j < length xs"
  shows "write_slots (2 ^ k - 1) h xs mem ((h + of_nat j) AND (2 ^ k - 1)) = xs ! j"
  using assms(2,3)
proof (induction xs arbitrary: h mem j)
  case Nil
  then show ?case by simp
next
  case (Cons x xs)
  show ?case
  proof (cases j)
    case 0
    have "h AND (2 ^ k - 1) \<noteq> (h + 1 + of_nat i) AND (2 ^ k - 1)" if "i < length xs" for i
      using pow2_index_inj [of k 0 "Suc i" h] that Cons.prems assms(1)
      by (auto simp: algebra_simps)
    then show ?thesis using 0 by (simp add: write_slots_other)
  next
    case (Suc i)
    then show ?thesis using Cons.IH [of i "h + 1"] Cons.prems by (simp add: algebra_simps)
  qed
qed

lemma read_write_slots:
  assumes "k \<le> 32" "m + length xs \<le> 2 ^ k"
  shows "read_slots (2 ^ k - 1) c (m + length xs) (write_slots (2 ^ k - 1) (c + of_nat m) xs mem)
    = read_slots (2 ^ k - 1) c m mem @ xs"
proof -
  have "(c + of_nat i) AND (2 ^ k - 1) \<noteq> (c + of_nat m + of_nat j) AND (2 ^ k - 1)"
    if "i < m" "j < length xs" for i j
    using pow2_index_inj [of k i "m + j" c] that assms by (auto simp: algebra_simps)
  then have "read_slots (2 ^ k - 1) c m (write_slots (2 ^ k - 1) (c + of_nat m) xs mem)
      = read_slots (2 ^ k - 1) c m mem"
    by (simp add: read_slots_conv write_slots_other)
  moreover have "read_slots (2 ^ k - 1) (c + of_nat m) (length xs)
      (write_slots (2 ^ k - 1) (c + of_nat m) xs mem) = xs"
    using assms by (intro nth_equalityI) (simp_all add: read_slots_conv write_slots_at)
  ultimately show ?thesis by (simp add: read_slots_append)
qed

section \<open>Operations against the FIFO\<close>

lemma ring_free_entries:
  assumes "ring_inv r"
  shows "unat (r_mask r + r_cons_tail r - r_prod_head r) = ring_cap r - length (ring_items r)"
    and "length (ring_items r) \<le> ring_cap r"
proof -
  have le: "r_prod_tail r - r_cons_tail r \<le> r_mask r" and ph: "r_prod_head r = r_prod_tail r"
    using assms by (auto simp: ring_inv_def)
  have "r_mask r + r_cons_tail r - r_prod_head r = r_mask r - (r_prod_tail r - r_cons_tail r)"
    by (simp add: ph)
  then show "unat (r_mask r + r_cons_tail r - r_prod_head r) = ring_cap r - length (ring_items r)"
    by (simp only: unat_sub [OF le] ring_cap_def ring_items_def length_read_slots)
  show "length (ring_items r) \<le> ring_cap r"
    using le by (simp add: ring_cap_def ring_items_def word_le_nat_alt)
qed

lemma ring_enqueue_bulk_full:
  assumes "ring_inv r" "ring_cap r < length (ring_items r) + unat n"
  shows "ring_enqueue_bulk r objs n = Some (0, r)"
proof -
  have "n > r_mask r + r_cons_tail r - r_prod_head r"
    using ring_free_entries [OF assms(1)] assms(2) by (simp add: word_less_nat_alt)
  then show ?thesis by (simp add: ring_enqueue_bulk_def move_prod_head_def Let_def)
qed

lemma ring_enqueue_bulk_room:
  assumes "ring_inv r" "n \<noteq> 0" "length objs = unat n" "length (ring_items r) + unat n \<le> ring_cap r"
  shows "\<exists>r'. ring_enqueue_bulk r objs n = Some (n, r') \<and> ring_inv r'
    \<and> ring_items r' = ring_items r @ objs \<and> ring_cap r' = ring_cap r"
proof -
  obtain k where k: "1 \<le> k" "k \<le> 31" "r_mask r = 2 ^ k - 1" "r_size r = 2 ^ k"
    "r_prod_head r = r_prod_tail r" "r_cons_head r = r_cons_tail r"
    using assms(1) by (rule ring_invE)
  have cap: "ring_cap r = 2 ^ k - 1" using k unat_pow2_mask [of k, where 'a = 32]
    by (simp add: ring_cap_def)
  let ?len = "unat (r_prod_tail r - r_cons_tail r)"
  have fits: "?len + unat n \<le> 2 ^ k - 1" using assms(4) cap by (simp add: ring_items_def)
  have "\<not> n > r_mask r + r_cons_tail r - r_prod_head r"
    using ring_free_entries [OF assms(1)] assms(4) by (simp add: word_less_nat_alt)
  moreover have "r_prod_head r + n \<noteq> r_prod_head r" using assms(2) by simp
  ultimately have eq: "ring_enqueue_bulk r objs n = Some (n, r\<lparr>r_prod_head := r_prod_tail r + n,
      r_slots := write_slots (r_mask r) (r_prod_tail r) objs (r_slots r), r_prod_tail := r_prod_tail r + n\<rparr>)"
    using assms(2,3) k(5) by (simp add: ring_enqueue_bulk_def move_prod_head_def Let_def)
  have "(2::nat) ^ k \<le> 2 ^ 31" using k(2) by (rule power_increasing) simp
  with fits have "?len + unat n < 2 ^ LENGTH(32)" by simp
  then have "unat (r_prod_tail r - r_cons_tail r + n) = ?len + unat n"
    by (rule unat_add_lem [THEN iffD1])
  moreover have "r_prod_tail r + n - r_cons_tail r = r_prod_tail r - r_cons_tail r + n" by simp
  ultimately have sum: "unat (r_prod_tail r + n - r_cons_tail r) = ?len + unat n"
    by (simp only:)
  have "r_prod_tail r = r_cons_tail r + of_nat ?len" by simp
  then have "read_slots (r_mask r) (r_cons_tail r) (?len + unat n)
      (write_slots (r_mask r) (r_prod_tail r) objs (r_slots r)) = ring_items r @ objs"
    using read_write_slots [of k ?len objs "r_cons_tail r" "r_slots r"] k fits assms(3)
    by (simp add: ring_items_def)
  moreover have "r_prod_tail r + n - r_cons_tail r \<le> r_mask r"
    using sum fits cap by (simp add: word_le_nat_alt ring_cap_def)
  ultimately show ?thesis
    using eq k sum by (auto simp: ring_inv_def ring_items_def ring_cap_def)
qed

lemma ring_dequeue_bulk_short:
  assumes "ring_inv r" "length (ring_items r) < unat n"
  shows "ring_dequeue_bulk r n = Some (0, [], r)"
proof -
  have "n > r_prod_tail r - r_cons_head r"
    using assms by (auto simp: word_less_nat_alt ring_inv_def ring_items_def)
  then show ?thesis by (simp add: ring_dequeue_bulk_def move_cons_head_def Let_def)
qed

lemma ring_dequeue_bulk_enough:
  assumes "ring_inv r" "n \<noteq> 0" "unat n \<le> length (ring_items r)"
  shows "\<exists>r'. ring_dequeue_bulk r n = Some (n, take (unat n) (ring_items r), r') \<and> ring_inv r'
    \<and> ring_items r' = drop (unat n) (ring_items r) \<and> ring_cap r' = ring_cap r"
proof -
  obtain k where k: "1 \<le> k" "k \<le> 31" "r_mask r = 2 ^ k - 1" "r_size r = 2 ^ k"
    "r_prod_head r = r_prod_tail r" "r_cons_head r = r_cons_tail r"
    and le: "r_prod_tail r - r_cons_tail r \<le> r_mask r"
    using assms(1) by (rule ring_invE)
  let ?len = "unat (r_prod_tail r - r_cons_tail r)"
  have nle: "unat n \<le> ?len" using assms(3) by (simp add: ring_items_def)
  then have "\<not> n > r_prod_tail r - r_cons_head r" using k(6) by (simp add: word_less_nat_alt)
  moreover have "r_cons_head r + n \<noteq> r_cons_head r" using assms(2) by simp
  ultimately have eq: "ring_dequeue_bulk r n =
      Some (n, read_slots (r_mask r) (r_cons_tail r) (unat n) (r_slots r),
        r\<lparr>r_cons_head := r_cons_tail r + n, r_cons_tail := r_cons_tail r + n\<rparr>)"
    using assms(2) k(6) by (simp add: ring_dequeue_bulk_def move_cons_head_def Let_def)
  have dif: "r_prod_tail r - (r_cons_tail r + n) = r_prod_tail r - r_cons_tail r - n"
    by simp
  have sub: "unat (r_prod_tail r - r_cons_tail r - n) = ?len - unat n"
    using nle by (simp add: unat_sub word_le_nat_alt)
  have split: "ring_items r = read_slots (r_mask r) (r_cons_tail r) (unat n) (r_slots r)
      @ read_slots (r_mask r) (r_cons_tail r + n) (?len - unat n) (r_slots r)"
    using nle read_slots_append [of "r_mask r" "r_cons_tail r" "unat n" "?len - unat n" "r_slots r"]
    by (simp add: ring_items_def)
  have "r_prod_tail r - r_cons_tail r - n \<le> r_mask r"
    using sub le by (simp add: word_le_nat_alt)
  then show ?thesis
    using eq k sub split by (auto simp: ring_inv_def ring_items_def [of "r\<lparr>r_cons_head := _, r_cons_tail := _\<rparr>"] ring_cap_def dif)
qed

interpretation ring_q: bounded_queue ring_inv ring_items ring_cap ring_enqueue ring_dequeue
proof unfold_locales
  fix r :: "'a Ring" and x :: 'a and xs
  assume inv: "ring_inv r"
  show "length (ring_items r) \<le> ring_cap r" using inv by (rule ring_free_entries)
  show "\<exists>q'. ring_enqueue r x = Some (True, q') \<and> ring_inv q' \<and> ring_items q' = ring_items r @ [x]
      \<and> ring_cap q' = ring_cap r" if "length (ring_items r) < ring_cap r"
    using ring_enqueue_bulk_room [OF inv, of 1 "[x]"] that by (auto simp: ring_enqueue_def)
  show "ring_enqueue r x = Some (False, r)" if "length (ring_items r) = ring_cap r"
    using ring_enqueue_bulk_full [OF inv, of 1 "[x]"] that by (simp add: ring_enqueue_def)
  show "\<exists>q'. ring_dequeue r = Some (Some x, q') \<and> ring_inv q' \<and> ring_items q' = xs
      \<and> ring_cap q' = ring_cap r" if "ring_items r = x # xs"
    using ring_dequeue_bulk_enough [OF inv, of 1] that by (auto simp: ring_dequeue_def)
  show "ring_dequeue r = Some (None, r)" if "ring_items r = []"
    using ring_dequeue_bulk_short [OF inv, of 1] that by (simp add: ring_dequeue_def)
qed

lemma ring_count_items:
  assumes "ring_inv r"
  shows "unat (ring_count r) = length (ring_items r)"
proof -
  obtain k where k: "k \<le> 31" "r_mask r = 2 ^ k - 1" "r_prod_tail r - r_cons_tail r \<le> r_mask r"
    using assms by (rule ring_invE)
  then have "unat (r_prod_tail r - r_cons_tail r) \<le> 2 ^ k - 1"
    using unat_pow2_mask [of k, where 'a = 32] by (simp add: word_le_nat_alt)
  moreover have "(2::nat) ^ k - 1 < 2 ^ k" by simp
  ultimately have "unat (r_prod_tail r - r_cons_tail r) < 2 ^ k" by (rule le_less_trans)
  then show ?thesis by (simp add: ring_count_def ring_items_def k(2) unat_and_pow2_mask)
qed

section \<open>Sequences of bulk operations\<close>

text \<open>The specification is a list with a capacity: a bulk operation moves all of its elements or
  none, in FIFO order. A call is refused a bulk longer than what \<^verbatim>\<open>uint32_t\<close> holds by its type.\<close>

datatype 'a RingOp = EnqBulk "'a list" | DeqBulk u32

primrec ring_op :: "'a RingOp \<Rightarrow> 'a Ring \<Rightarrow> (u32 \<times> 'a list \<times> 'a Ring) option" where
  "ring_op (EnqBulk xs) r =
     (case ring_enqueue_bulk r xs (of_nat (length xs)) of
        None \<Rightarrow> None
      | Some (k, r') \<Rightarrow> Some (k, [], r'))"
| "ring_op (DeqBulk n) r = ring_dequeue_bulk r n"

primrec ring_run :: "'a RingOp list \<Rightarrow> 'a Ring \<Rightarrow> ((u32 \<times> 'a list) list \<times> 'a Ring) option" where
  "ring_run [] r = Some ([], r)"
| "ring_run (p # ps) r =
     (case ring_op p r of
        None \<Rightarrow> None
      | Some (k, out, r1) \<Rightarrow>
          (case ring_run ps r1 of None \<Rightarrow> None | Some (outs, r2) \<Rightarrow> Some ((k, out) # outs, r2)))"

primrec fifo_op :: "nat \<Rightarrow> 'a RingOp \<Rightarrow> 'a list \<Rightarrow> nat \<times> 'a list \<times> 'a list" where
  "fifo_op c (EnqBulk xs) q =
     (if length q + length xs \<le> c then (length xs, [], q @ xs) else (0, [], q))"
| "fifo_op c (DeqBulk n) q =
     (if unat n \<le> length q then (unat n, take (unat n) q, drop (unat n) q) else (0, [], q))"

primrec fifo_run :: "nat \<Rightarrow> 'a RingOp list \<Rightarrow> 'a list \<Rightarrow> (nat \<times> 'a list) list \<times> 'a list" where
  "fifo_run c [] q = ([], q)"
| "fifo_run c (p # ps) q =
     (case fifo_op c p q of (k, out, q1) \<Rightarrow>
        (case fifo_run c ps q1 of (outs, q2) \<Rightarrow> ((k, out) # outs, q2)))"

primrec op_fits :: "'a RingOp \<Rightarrow> bool" where
  "op_fits (EnqBulk xs) \<longleftrightarrow> length xs < 2 ^ 32"
| "op_fits (DeqBulk n) \<longleftrightarrow> True"

lemma unat_of_nat_u32 [simp]: "n < 2 ^ 32 \<Longrightarrow> unat (of_nat n :: u32) = n"
  by (simp add: unat_of_nat)

lemma ring_op_refines:
  assumes "ring_inv r" "op_fits p" "fifo_op (ring_cap r) p (ring_items r) = (k, out, q)"
  shows "\<exists>n r'. ring_op p r = Some (n, out, r') \<and> unat n = k \<and> ring_inv r'
    \<and> ring_items r' = q \<and> ring_cap r' = ring_cap r"
proof (cases p)
  case (EnqBulk xs)
  let ?n = "of_nat (length xs) :: u32"
  have n: "unat ?n = length xs" using assms(2) EnqBulk by simp
  consider "xs = []" | "?n \<noteq> 0" "length (ring_items r) + unat ?n \<le> ring_cap r"
    | "ring_cap r < length (ring_items r) + unat ?n"
    using n by (metis length_0_conv linorder_not_less unat_0)
  then show ?thesis
  proof cases
    case 1
    then show ?thesis using assms EnqBulk ring_free_entries(2) [OF assms(1)]
      by (simp add: ring_enqueue_bulk_def)
  next
    case 2
    then show ?thesis using ring_enqueue_bulk_room [OF assms(1) 2(1), of xs] n assms(3) EnqBulk
      by auto
  next
    case 3
    then show ?thesis using ring_enqueue_bulk_full [OF assms(1) 3, of xs] n assms(1,3) EnqBulk
      by auto
  qed
next
  case (DeqBulk n)
  consider "n = 0" | "n \<noteq> 0" "unat n \<le> length (ring_items r)" | "length (ring_items r) < unat n"
    by fastforce
  then show ?thesis
  proof cases
    case 1
    then show ?thesis using assms DeqBulk by (simp add: ring_dequeue_bulk_def)
  next
    case 2
    then show ?thesis using ring_dequeue_bulk_enough [OF assms(1) 2] assms(3) DeqBulk by auto
  next
    case 3
    then show ?thesis using ring_dequeue_bulk_short [OF assms(1) 3] assms(1,3) DeqBulk by auto
  qed
qed

lemma ring_run_refines:
  assumes "ring_inv r" "list_all op_fits ps"
    "fifo_run (ring_cap r) ps (ring_items r) = (outs, q)"
  shows "\<exists>nouts r'. ring_run ps r = Some (nouts, r') \<and> map (map_prod unat id) nouts = outs
    \<and> ring_inv r' \<and> ring_items r' = q \<and> ring_cap r' = ring_cap r"
  using assms
proof (induction ps arbitrary: r outs)
  case Nil
  then show ?case by simp
next
  case (Cons p ps)
  obtain k out q1 where f: "fifo_op (ring_cap r) p (ring_items r) = (k, out, q1)"
    by (metis prod_cases3)
  obtain n r1 where r1: "ring_op p r = Some (n, out, r1)" "unat n = k" "ring_inv r1"
    "ring_items r1 = q1" "ring_cap r1 = ring_cap r"
    using ring_op_refines [OF Cons.prems(1) _ f] Cons.prems(2) by auto
  obtain outs' where o: "fifo_run (ring_cap r1) ps (ring_items r1) = (outs', q)" "outs = (k, out) # outs'"
    using Cons.prems(3) f r1 by (auto split: prod.splits)
  with Cons.IH [OF r1(3) _ o(1)] Cons.prems(2) r1 show ?case by auto
qed

section \<open>Properties\<close>

text \<open>C1: a ring that \<^verbatim>\<open>Ring::create\<close> made for at most \<open>2 ^ 31\<close> slots is a bounded FIFO. For
  every sequence of bulk operations none spins, each returns what the bounded list returns
  (all of its elements or none, in order), and afterwards \<^verbatim>\<open>count()\<close> is the list's length.\<close>

theorem ring_is_bounded_fifo:
  assumes "cnt \<le> 2 ^ 31" "list_all op_fits ps"
    and "ring_create (Some junk) cnt mode = Some r"
    and "fifo_run (ring_cap r) ps [] = (outs, q)"
  shows "\<exists>nouts r'. ring_run ps r = Some (nouts, r') \<and> map (map_prod unat id) nouts = outs
    \<and> ring_items r' = q \<and> unat (ring_count r') = length q \<and> unat cnt - 1 \<le> ring_cap r"
proof -
  have r: "ring_inv r" "ring_items r = []" "unat cnt - 1 \<le> ring_cap r"
    using ring_create_inv [OF assms(1), of junk mode] assms(3) by auto
  then show ?thesis
    using ring_run_refines [of r ps outs q] ring_count_items assms(2,4) by fastforce
qed

theorem ring_is_bounded_fifo_witness:
  "\<exists>r nouts r'. ring_create (Some (\<lambda>_. 0)) 3 MPMC = Some r
    \<and> ring_run [EnqBulk [1, 2::nat], DeqBulk 1, EnqBulk [3, 4, 5], EnqBulk [6, 7], DeqBulk 3] r = Some (nouts, r')
    \<and> map (map_prod unat id) nouts = [(2, []), (1, [1]), (0, []), (2, []), (3, [2, 6, 7])]
    \<and> ring_items r' = []"
proof -
  let ?r = "\<lparr>r_prod_head = 0, r_prod_tail = 0, r_cons_head = 0, r_cons_tail = 0, r_mask = 3, r_size = 4,
    r_single = False, r_slots = \<lambda>_. 0 :: nat\<rparr>"
  let ?ps = "[EnqBulk [1, 2::nat], DeqBulk 1, EnqBulk [3, 4, 5], EnqBulk [6, 7], DeqBulk 3]"
  have r: "ring_create (Some (\<lambda>_. 0)) 3 MPMC = Some ?r"
    by (simp add: ring_create_def round_up_pow2_def)
  have run: "fifo_run (ring_cap ?r) ?ps [] = ([(2, []), (1, [1]), (0, []), (2, []), (3, [2, 6, 7])], [])"
    by (simp add: ring_cap_def)
  have fits: "list_all op_fits ?ps" by simp
  have small: "(3::u32) \<le> 2 ^ 31" by simp
  from ring_is_bounded_fifo [OF small fits r run] r show ?thesis by auto
qed

text \<open>Up to \<open>2 ^ 31\<close>, \<^verbatim>\<open>round_up_pow2\<close> is the least power of two (at least 2) that is not below
  its argument.\<close>

theorem round_up_pow2_least:
  assumes "v \<le> 2 ^ 31"
  shows "\<exists>k. 1 \<le> k \<and> k \<le> 31 \<and> round_up_pow2 v = 2 ^ k \<and> unat v \<le> 2 ^ k
    \<and> (\<forall>j. 1 \<le> j \<and> unat v \<le> 2 ^ j \<longrightarrow> k \<le> j)"
proof -
  obtain k where k: "1 \<le> k" "k \<le> 31" "round_up_pow2 v = 2 ^ k" "unat v \<le> 2 ^ k"
    "k = 1 \<or> 2 ^ (k - 1) < unat v"
    using round_up_pow2_cases [OF assms] .
  have "k \<le> j" if "1 \<le> j" "unat v \<le> 2 ^ j" for j
  proof (cases "k = 1")
    case False
    then have "(2::nat) ^ (k - 1) < 2 ^ j" using k(5) that(2) by linarith
    then have "k - 1 < j" by (rule power_less_imp_less_exp [rotated]) simp
    then show ?thesis by simp
  qed (use that in simp)
  with k show ?thesis by blast
qed

theorem round_up_pow2_least_witness:
  "\<exists>k. 1 \<le> k \<and> k \<le> 31 \<and> round_up_pow2 1025 = 2 ^ k \<and> unat (1025 :: u32) \<le> 2 ^ k
    \<and> (\<forall>j. 1 \<le> j \<and> unat (1025 :: u32) \<le> 2 ^ j \<longrightarrow> k \<le> j)"
  by (rule round_up_pow2_least) simp

text \<open>Above \<open>2 ^ 31\<close> the increment wraps: \<^verbatim>\<open>round_up_pow2\<close> returns 0, so \<^verbatim>\<open>Ring::create\<close>
  allocates no slot at all and yet reports a capacity of \<open>2 ^ 32 - 1\<close>.\<close>

theorem round_up_pow2_overflow:
  assumes "2 ^ 31 < cnt"
  shows "\<exists>r. ring_create (Some junk) cnt mode = Some r \<and> r_size r = 0 \<and> ring_capacity r = - 1"
proof -
  have "2 \<le> cnt" using assms by (simp add: word_le_nat_alt word_less_nat_alt)
  then obtain h where h: "h < 32" "2 ^ h \<le> unat cnt - 1" "unat cnt - 1 < 2 ^ Suc h"
    "round_up_pow2 cnt = mask (Suc h) + 1"
    using round_up_pow2_smear by blast
  have "(2::nat) ^ 31 < unat cnt" using assms by (simp add: word_less_nat_alt)
  with h(3) have "(2::nat) ^ 31 < 2 ^ Suc h" by linarith
  then have "31 < Suc h" by (rule power_less_imp_less_exp [rotated]) simp
  with h have "h = 31" by simp
  then have "round_up_pow2 cnt = 0" using h(4) by (simp add: mask_eq_exp_minus_1)
  then show ?thesis by (simp add: ring_create_def ring_capacity_def)
qed

theorem round_up_pow2_overflow_witness:
  "\<exists>r. ring_create (Some (\<lambda>_. ())) (2 ^ 31 + 1) MPMC = Some r \<and> r_size r = 0 \<and> ring_capacity r = - 1"
  by (rule round_up_pow2_overflow) simp

section \<open>Table sizing\<close>

lemma push_bit_pow2: "push_bit 1 (2 ^ k :: u64) = 2 ^ Suc k"
  by (simp add: push_bit_eq_mult)

lemma rss_loop_ends:
  assumes "unat q \<le> 2 ^ 63" "k \<le> 63" "64 - k \<le> fuel" "k = 0 \<or> 2 ^ (k - 1) < unat q"
  shows "\<exists>j\<le>63. rss_loop fuel (2 ^ k) q = Some (2 ^ j) \<and> unat q \<le> 2 ^ j \<and> (j = 0 \<or> 2 ^ (j - 1) < unat q)"
  using assms(2-4)
proof (induction fuel arbitrary: k)
  case (Suc fuel)
  have u: "unat (2 ^ k :: u64) = 2 ^ k" using unat_pow2 [of k, where 'a = 64] Suc.prems(1) by simp
  show ?case
  proof (cases "(2 :: nat) ^ k < unat q")
    case True
    then have "(2 :: nat) ^ k < 2 ^ 63" using assms(1) by linarith
    then have "Suc k \<le> 63" using power_less_imp_less_exp [of "2 :: nat" k 63] by simp
    with Suc.IH [of "Suc k"] Suc.prems True u show ?thesis
      by (simp add: push_bit_pow2 word_less_nat_alt mult.commute)
  next
    case False
    then show ?thesis using Suc.prems u by (intro exI [of _ k]) (simp add: word_less_nat_alt)
  qed
qed simp

lemma rss_loop_never:
  assumes "unat (q :: u64) > 2 ^ 63" "sz = 0 \<or> (\<exists>k\<le>63. sz = 2 ^ k)"
  shows "rss_loop fuel sz q = None"
  using assms(2)
proof (induction fuel arbitrary: sz)
  case (Suc fuel)
  have lt: "sz < q"
  proof (cases "sz = 0")
    case True
    then show ?thesis using assms(1) by (simp add: word_less_nat_alt)
  next
    case False
    then obtain k where k: "k \<le> 63" "sz = 2 ^ k" using Suc.prems by blast
    have "(2 :: nat) ^ k \<le> 2 ^ 63" using k(1) by (rule power_increasing) simp
    then show ?thesis using k assms(1) unat_pow2 [of k, where 'a = 64] by (simp add: word_less_nat_alt)
  qed
  have "push_bit 1 sz = 0 \<or> (\<exists>k\<le>63. push_bit 1 sz = 2 ^ k)"
  proof (cases "sz = 0 \<or> sz = 2 ^ 63")
    case True
    then show ?thesis by auto
  next
    case False
    then obtain k where "k \<le> 63" "sz = 2 ^ k" using Suc.prems by blast
    moreover from this False have "Suc k \<le> 63" by (cases "k = 63") auto
    ultimately show ?thesis using push_bit_pow2 [of k] by metis
  qed
  with lt Suc.IH [of "push_bit 1 sz"] show ?case by simp
qed simp

text \<open>C40: The table size is the least power of two that is not below the number of queues, for up to \<open>2 ^ 63\<close> queues;
  above that the doubled size wraps to zero and the loop never ends, whatever the number of rounds allowed.\<close>

theorem rss_table_size_least:
  "(if unat q \<le> 2 ^ 63
    then \<exists>k\<le>63. rss_table_size q = Some (2 ^ k) \<and> unat q \<le> 2 ^ k \<and> (k = 0 \<or> 2 ^ (k - 1) < unat q)
    else (\<nexists>fuel sz. rss_loop fuel 1 q = Some sz))"
proof (cases "unat q \<le> 2 ^ 63")
  case True
  then show ?thesis using rss_loop_ends [of q 0 65] by (simp add: rss_table_size_def)
next
  case False
  have "(1 :: u64) = 2 ^ 0" by simp
  then have "rss_loop fuel 1 q = None" for fuel using False by (intro rss_loop_never) auto
  then show ?thesis using False by simp
qed
end
