(* ===== verification/Ring_Concurrent.thy ===== *)
theory Ring_Concurrent
  imports Ring_Buffer
begin

text \<open>
  The pointer ring of \<^verbatim>\<open>src/src/daqiri_ring.h\<close> under concurrent use: every load, store and
  compare-and-exchange on a cursor and every access to a slot is one step, any number of threads
  interleave in any order, and the weak compare-and-exchange may fail at any time. Steps take
  effect in one global order; the fences that provide this on weakly ordered processors are not modelled.
  Beside the ring and the threads' positions the state keeps histories: the objects in the order
  in which their slots were reserved, published and given to consumers, and the number claimed
  by consumers.
\<close>

unbundle bit_operations_syntax

section \<open>Model\<close>

text \<open>Where a thread is in \<^verbatim>\<open>enqueue_bulk\<close> or \<^verbatim>\<open>dequeue_bulk\<close>: the arguments, the head it has loaded, and
  the entry number that head stands for.\<close>

datatype 'a RingPc =
    Idle
  | PLoaded "'a list" u32 nat        \<comment> \<open>has loaded the producer head\<close>
  | PChecked "'a list" u32 nat       \<comment> \<open>found room, will move the head\<close>
  | PWriting "'a list" u32 nat nat   \<comment> \<open>has reserved its slots and written that many\<close>
  | CLoaded u32 u32 nat              \<comment> \<open>has loaded the consumer head\<close>
  | CChecked u32 u32 nat             \<comment> \<open>found entries, will move the head\<close>
  | CReading u32 u32 nat "'a list"   \<comment> \<open>has claimed its slots and read these objects\<close>

record 'a RingState =
  c_ring :: "'a Ring"
  c_pc :: "nat \<Rightarrow> 'a RingPc"
  h_reserved :: "'a list"
  h_published :: "'a list"
  h_claimed :: nat
  h_delivered :: "'a list"

definition conc_init :: "'a Ring \<Rightarrow> 'a RingState" where
  "conc_init r = \<lparr>c_ring = r, c_pc = \<lambda>_. Idle, h_reserved = [], h_published = [], h_claimed = 0, h_delivered = []\<rparr>"

definition set_pc :: "nat \<Rightarrow> 'a RingPc \<Rightarrow> 'a RingState \<Rightarrow> 'a RingState" where
  "set_pc t pc s = s\<lparr>c_pc := (c_pc s)(t := pc)\<rparr>"

inductive ring_step :: "'a RingState \<Rightarrow> 'a RingState \<Rightarrow> bool" where
  enq_load: "c_pc s t = Idle \<Longrightarrow> objs \<noteq> [] \<Longrightarrow> length objs < 2 ^ 32 \<Longrightarrow>
    ring_step s (set_pc t (PLoaded objs (r_prod_head (c_ring s)) (length (h_reserved s))) s)"
| enq_full: "c_pc s t = PLoaded objs h i \<Longrightarrow>
    of_nat (length objs) > r_mask (c_ring s) + r_cons_tail (c_ring s) - h \<Longrightarrow>
    ring_step s (set_pc t Idle s)"
| enq_room: "c_pc s t = PLoaded objs h i \<Longrightarrow>
    \<not> of_nat (length objs) > r_mask (c_ring s) + r_cons_tail (c_ring s) - h \<Longrightarrow>
    ring_step s (set_pc t (PChecked objs h i) s)"
| enq_retry: "c_pc s t = PChecked objs h i \<Longrightarrow> \<not> r_single (c_ring s) \<Longrightarrow>
    ring_step s (set_pc t (PLoaded objs (r_prod_head (c_ring s)) (length (h_reserved s))) s)"
| enq_reserve: "c_pc s t = PChecked objs h i \<Longrightarrow> r_single (c_ring s) \<or> r_prod_head (c_ring s) = h \<Longrightarrow>
    ring_step s (set_pc t (PWriting objs h i 0)
      (s\<lparr>c_ring := (c_ring s)\<lparr>r_prod_head := h + of_nat (length objs)\<rparr>, h_reserved := h_reserved s @ objs\<rparr>))"
| enq_write: "c_pc s t = PWriting objs h i j \<Longrightarrow> j < length objs \<Longrightarrow>
    ring_step s (set_pc t (PWriting objs h i (Suc j))
      (s\<lparr>c_ring := (c_ring s)\<lparr>r_slots := (r_slots (c_ring s))((h + of_nat j) AND r_mask (c_ring s) := objs ! j)\<rparr>\<rparr>))"
| enq_publish: "c_pc s t = PWriting objs h i (length objs) \<Longrightarrow>
    r_single (c_ring s) \<or> r_prod_tail (c_ring s) = h \<Longrightarrow>
    ring_step s (set_pc t Idle
      (s\<lparr>c_ring := (c_ring s)\<lparr>r_prod_tail := h + of_nat (length objs)\<rparr>, h_published := h_published s @ objs\<rparr>))"
| deq_load: "c_pc s t = Idle \<Longrightarrow> n \<noteq> 0 \<Longrightarrow>
    ring_step s (set_pc t (CLoaded n (r_cons_head (c_ring s)) (h_claimed s)) s)"
| deq_empty: "c_pc s t = CLoaded n h i \<Longrightarrow> n > r_prod_tail (c_ring s) - h \<Longrightarrow> ring_step s (set_pc t Idle s)"
| deq_found: "c_pc s t = CLoaded n h i \<Longrightarrow> \<not> n > r_prod_tail (c_ring s) - h \<Longrightarrow>
    ring_step s (set_pc t (CChecked n h i) s)"
| deq_retry: "c_pc s t = CChecked n h i \<Longrightarrow> \<not> r_single (c_ring s) \<Longrightarrow>
    ring_step s (set_pc t (CLoaded n (r_cons_head (c_ring s)) (h_claimed s)) s)"
| deq_claim: "c_pc s t = CChecked n h i \<Longrightarrow> r_single (c_ring s) \<or> r_cons_head (c_ring s) = h \<Longrightarrow>
    ring_step s (set_pc t (CReading n h i [])
      (s\<lparr>c_ring := (c_ring s)\<lparr>r_cons_head := h + n\<rparr>, h_claimed := h_claimed s + unat n\<rparr>))"
| deq_read: "c_pc s t = CReading n h i acc \<Longrightarrow> length acc < unat n \<Longrightarrow>
    ring_step s (set_pc t
      (CReading n h i (acc @ [r_slots (c_ring s) ((h + of_nat (length acc)) AND r_mask (c_ring s))])) s)"
| deq_release: "c_pc s t = CReading n h i acc \<Longrightarrow> length acc = unat n \<Longrightarrow>
    r_single (c_ring s) \<or> r_cons_tail (c_ring s) = h \<Longrightarrow>
    ring_step s (set_pc t Idle
      (s\<lparr>c_ring := (c_ring s)\<lparr>r_cons_tail := h + n\<rparr>, h_delivered := h_delivered s @ acc\<rparr>))"

text \<open>The conditions of use. A loaded head is used while fewer than \<open>2 ^ 31\<close> entries have been reserved (claimed)
  since: a cursor of 32 bits cannot tell a head from one that is \<open>2 ^ 32\<close> entries older. A ring created
  for a single producer and a single consumer has at most one thread on either side.\<close>

fun producing :: "'a RingPc \<Rightarrow> bool" where
  "producing (PLoaded objs h i) = True"
| "producing (PChecked objs h i) = True"
| "producing (PWriting objs h i j) = True"
| "producing _ = False"

fun consuming :: "'a RingPc \<Rightarrow> bool" where
  "consuming (CLoaded n h i) = True"
| "consuming (CChecked n h i) = True"
| "consuming (CReading n h i acc) = True"
| "consuming _ = False"

fun recent :: "nat \<Rightarrow> nat \<Rightarrow> 'a RingPc \<Rightarrow> bool" where
  "recent ph ch (PLoaded objs h i) \<longleftrightarrow> ph < i + 2 ^ 31"
| "recent ph ch (PChecked objs h i) \<longleftrightarrow> ph < i + 2 ^ 31"
| "recent ph ch (CLoaded n h i) \<longleftrightarrow> ch < i + 2 ^ 31"
| "recent ph ch (CChecked n h i) \<longleftrightarrow> ch < i + 2 ^ 31"
| "recent ph ch _ \<longleftrightarrow> True"

definition proper_use :: "'a RingState \<Rightarrow> bool" where
  "proper_use s \<longleftrightarrow>
     (\<forall>t. recent (length (h_reserved s)) (h_claimed s) (c_pc s t)) \<and>
     (r_single (c_ring s) \<longrightarrow>
        (\<forall>t u. producing (c_pc s t) \<and> producing (c_pc s u) \<longrightarrow> t = u) \<and>
        (\<forall>t u. consuming (c_pc s t) \<and> consuming (c_pc s u) \<longrightarrow> t = u))"

inductive ring_reach :: "'a Ring \<Rightarrow> 'a RingState \<Rightarrow> bool" for r where
  init: "ring_reach r (conc_init r)"
| step: "ring_reach r s \<Longrightarrow> ring_step s s' \<Longrightarrow> proper_use s' \<Longrightarrow> ring_reach r s'"

section \<open>Intervals held by the threads\<close>

text \<open>The entries that the threads have reserved but not yet passed on lie side by side.\<close>

definition tiles :: "('p \<Rightarrow> nat set) \<Rightarrow> (nat \<Rightarrow> 'p) \<Rightarrow> nat \<Rightarrow> nat \<Rightarrow> bool" where
  "tiles f pc lo hi \<longleftrightarrow> (\<forall>t u. t \<noteq> u \<longrightarrow> f (pc t) \<inter> f (pc u) = {}) \<and> (\<Union>t. f (pc t)) = {lo..<hi}"

lemma UN_upd: "(\<Union>u. f ((pc(t := x)) u)) = f x \<union> (\<Union>u\<in>-{t}. f (pc u))"
  by (auto split: if_splits)

lemma tiles_rest:
  assumes "tiles f pc lo hi"
  shows "(\<Union>u\<in>-{t}. f (pc u)) = {lo..<hi} - f (pc t)"
proof -
  have d: "\<And>u. u \<noteq> t \<Longrightarrow> f (pc u) \<inter> f (pc t) = {}" and u: "{lo..<hi} = (\<Union>u. f (pc u))"
    using assms by (simp_all add: tiles_def)
  show ?thesis unfolding u using d by blast
qed

lemma tiles_same: "f x = f (pc t) \<Longrightarrow> tiles f (pc(t := x)) lo hi = tiles f pc lo hi"
proof -
  assume "f x = f (pc t)"
  then have "f ((pc(t := x)) u) = f (pc u)" for u by simp
  then show ?thesis by (simp only: tiles_def)
qed

lemma tiles_update:
  assumes "tiles f pc lo hi" "f x \<inter> ({lo..<hi} - f (pc t)) = {}" "f x \<union> ({lo..<hi} - f (pc t)) = {lo'..<hi'}"
  shows "tiles f (pc(t := x)) lo' hi'"
proof -
  have "f x \<inter> f (pc u) = {}" if "u \<noteq> t" for u
    using tiles_rest [OF assms(1), of t] that assms(2) by blast
  then show ?thesis
    using assms(1,3) tiles_rest [OF assms(1), of t] unfolding tiles_def UN_upd by (auto simp: Int_commute)
qed

lemma tiles_extend:
  assumes "tiles f pc lo hi" "f (pc t) = {}" "f x = {hi..<hi'}" "lo \<le> hi" "hi \<le> hi'"
  shows "tiles f (pc(t := x)) lo hi'"
  using assms(2-5) by (intro tiles_update [OF assms(1)]) auto

lemma tiles_retire:
  assumes "tiles f pc lo hi" "f (pc t) = {lo..<lo'}" "f x = {}" "lo \<le> lo'" "lo' \<le> hi"
  shows "tiles f (pc(t := x)) lo' hi"
  using assms(2-5) by (intro tiles_update [OF assms(1)]) auto

lemma tiles_within: "tiles f pc lo hi \<Longrightarrow> f (pc t) \<subseteq> {lo..<hi}"
  unfolding tiles_def by blast

lemma tiles_first:
  assumes "tiles f pc lo hi" "lo < hi"
  obtains t where "lo \<in> f (pc t)"
  using assms unfolding tiles_def by (metis UN_iff atLeastLessThan_iff le_refl)

section \<open>Invariant\<close>

fun writes :: "'a RingPc \<Rightarrow> nat set" where
  "writes (PWriting objs h i j) = {i..<i + length objs}"
| "writes _ = {}"

fun reads :: "'a RingPc \<Rightarrow> nat set" where
  "reads (CReading n h i acc) = {i..<i + unat n}"
| "reads _ = {}"

text \<open>What a thread's position says, given the objects in reservation order, the published, claimed and
  released numbers of entries, and the slots.\<close>

fun pc_ok :: "nat \<Rightarrow> 'a list \<Rightarrow> nat \<Rightarrow> nat \<Rightarrow> nat \<Rightarrow> (u32 \<Rightarrow> 'a) \<Rightarrow> 'a RingPc \<Rightarrow> bool" where
  "pc_ok k res pt ch ct mem Idle \<longleftrightarrow> True"
| "pc_ok k res pt ch ct mem (PLoaded objs h i) \<longleftrightarrow>
     objs \<noteq> [] \<and> length objs < 2 ^ 32 \<and> h = of_nat i \<and> i \<le> length res"
| "pc_ok k res pt ch ct mem (PChecked objs h i) \<longleftrightarrow>
     objs \<noteq> [] \<and> length objs < 2 ^ 32 \<and> h = of_nat i \<and> i \<le> length res \<and>
     (i = length res \<longrightarrow> i + length objs < ct + 2 ^ k)"
| "pc_ok k res pt ch ct mem (PWriting objs h i j) \<longleftrightarrow>
     objs \<noteq> [] \<and> h = of_nat i \<and> j \<le> length objs \<and> take (length objs) (drop i res) = objs \<and>
     (\<forall>m<j. mem (of_nat (i + m) AND (2 ^ k - 1)) = objs ! m)"
| "pc_ok k res pt ch ct mem (CLoaded n h i) \<longleftrightarrow> n \<noteq> 0 \<and> h = of_nat i \<and> i \<le> ch"
| "pc_ok k res pt ch ct mem (CChecked n h i) \<longleftrightarrow>
     n \<noteq> 0 \<and> h = of_nat i \<and> i \<le> ch \<and> (i = ch \<longrightarrow> i + unat n \<le> pt)"
| "pc_ok k res pt ch ct mem (CReading n h i acc) \<longleftrightarrow>
     n \<noteq> 0 \<and> h = of_nat i \<and> length acc \<le> unat n \<and> take (length acc) (drop i res) = acc"

text \<open>On a single-producer, single-consumer ring a loaded head is the current one.\<close>

fun current :: "nat \<Rightarrow> nat \<Rightarrow> 'a RingPc \<Rightarrow> bool" where
  "current ph ch (PLoaded objs h i) \<longleftrightarrow> i = ph"
| "current ph ch (PChecked objs h i) \<longleftrightarrow> i = ph"
| "current ph ch (CLoaded n h i) \<longleftrightarrow> i = ch"
| "current ph ch (CChecked n h i) \<longleftrightarrow> i = ch"
| "current ph ch _ \<longleftrightarrow> True"

definition cursors_ok :: "'a RingState \<Rightarrow> bool" where
  "cursors_ok s \<longleftrightarrow>
     r_prod_head (c_ring s) = of_nat (length (h_reserved s)) \<and> r_prod_tail (c_ring s) = of_nat (length (h_published s)) \<and>
     r_cons_head (c_ring s) = of_nat (h_claimed s) \<and> r_cons_tail (c_ring s) = of_nat (length (h_delivered s))"

definition window_ok :: "nat \<Rightarrow> 'a RingState \<Rightarrow> bool" where
  "window_ok k s \<longleftrightarrow>
     length (h_delivered s) \<le> h_claimed s \<and> h_claimed s \<le> length (h_published s) \<and>
     length (h_published s) \<le> length (h_reserved s) \<and> length (h_reserved s) < length (h_delivered s) + 2 ^ k"

definition slots_ok :: "nat \<Rightarrow> 'a list \<Rightarrow> nat \<Rightarrow> nat \<Rightarrow> (u32 \<Rightarrow> 'a) \<Rightarrow> bool" where
  "slots_ok k res ct pt mem \<longleftrightarrow> (\<forall>m. ct \<le> m \<and> m < pt \<longrightarrow> mem (of_nat m AND (2 ^ k - 1)) = res ! m)"

definition pcs_ok :: "nat \<Rightarrow> 'a RingState \<Rightarrow> bool" where
  "pcs_ok k s \<longleftrightarrow>
     (\<forall>t. pc_ok k (h_reserved s) (length (h_published s)) (h_claimed s) (length (h_delivered s)) (r_slots (c_ring s)) (c_pc s t)) \<and>
     (r_single (c_ring s) \<longrightarrow> (\<forall>t. current (length (h_reserved s)) (h_claimed s) (c_pc s t)))"

definition conc_inv :: "nat \<Rightarrow> 'a RingState \<Rightarrow> bool" where
  "conc_inv k s \<longleftrightarrow>
     k \<le> 31 \<and> r_mask (c_ring s) = 2 ^ k - 1 \<and> cursors_ok s \<and> window_ok k s \<and>
     h_published s = take (length (h_published s)) (h_reserved s) \<and>
     h_delivered s = take (length (h_delivered s)) (h_reserved s) \<and>
     slots_ok k (h_reserved s) (length (h_delivered s)) (length (h_published s)) (r_slots (c_ring s)) \<and>
     tiles writes (c_pc s) (length (h_published s)) (length (h_reserved s)) \<and>
     tiles reads (c_pc s) (length (h_delivered s)) (h_claimed s) \<and>
     pcs_ok k s"

lemma conc_inv_pc:
  "conc_inv k s \<Longrightarrow>
     pc_ok k (h_reserved s) (length (h_published s)) (h_claimed s) (length (h_delivered s)) (r_slots (c_ring s)) (c_pc s t)"
  by (simp add: conc_inv_def pcs_ok_def)

section \<open>Entry numbers and cursors\<close>

lemma of_nat_window:
  assumes "(of_nat a :: u32) = of_nat b" "a \<le> b" "b < a + 2 ^ 32"
  shows "a = b"
proof -
  have "a mod 2 ^ 32 = b mod 2 ^ 32"
    using arg_cong [OF assms(1), of unat] by (simp add: unat_of_nat)
  then have "2 ^ 32 dvd b - a" using mod_eq_dvd_iff_nat [OF assms(2), of "2 ^ 32"] by simp
  moreover have "b - a < 2 ^ 32" using assms(2,3) by linarith
  ultimately have "b - a = 0" using nat_dvd_not_less by blast
  with assms(2) show ?thesis by simp
qed

lemma unat_of_nat_diff:
  assumes "b \<le> a" "a < b + 2 ^ 32"
  shows "unat (of_nat a - of_nat b :: u32) = a - b"
proof -
  have "(of_nat a - of_nat b :: u32) = of_nat (a - b)" using assms(1) by (simp add: of_nat_diff)
  moreover have "a - b < 2 ^ LENGTH(32)" using assms by simp
  ultimately show ?thesis by (simp only: unat_of_nat mod_less)
qed

lemma slot_inj:
  assumes "k \<le> 31" "c \<le> a" "a < c + 2 ^ k" "c \<le> b" "b < c + 2 ^ k"
    "(of_nat a :: u32) AND (2 ^ k - 1) = of_nat b AND (2 ^ k - 1)"
  shows "a = b"
proof -
  have "of_nat a = (of_nat c + of_nat (a - c) :: u32)" "of_nat b = (of_nat c + of_nat (b - c) :: u32)"
    using assms(2,4) by (simp_all flip: of_nat_add)
  then have "a - c = b - c"
    using pow2_index_inj [of k "a - c" "b - c" "of_nat c :: u32"] assms by (simp add: less_diff_conv2)
  then show ?thesis using assms(2,4) by simp
qed

lemma free_exact:
  assumes "k \<le> 31" "i < ct + 2 ^ k" "ct < i + 2 ^ 31"
  shows "unat ((2 ^ k - 1) + of_nat ct - of_nat i :: u32) = ct + 2 ^ k - 1 - i"
proof -
  have "(2 :: nat) ^ k \<le> 2 ^ 31" using assms(1) by (rule power_increasing) simp
  moreover have "of_nat (ct + 2 ^ k - 1) = (of_nat (ct + 2 ^ k) - of_nat 1 :: u32)"
    by (rule of_nat_diff) (simp add: Suc_le_eq)
  then have "(2 ^ k - 1) + of_nat ct - of_nat i = (of_nat (ct + 2 ^ k - 1) - of_nat i :: u32)" by simp
  ultimately show ?thesis using assms by (simp only:) (rule unat_of_nat_diff, auto)
qed

section \<open>Frame lemmas\<close>

lemma take_drop_append:
  "take (length xs) (drop i res) = xs \<Longrightarrow> take (length xs) (drop i (res @ ys)) = xs"
  by (metis append_Nil2 append_take_drop_id drop_append length_take min.absorb_iff2 nle_le take_append take_eq_Nil2 diff_is_0_eq' length_drop)

lemma pc_ok_reserve:
  "pc_ok k res pt ch ct mem pc \<Longrightarrow> xs \<noteq> [] \<Longrightarrow> pc_ok k (res @ xs) pt ch ct mem pc"
  by (cases pc; cases xs) (simp_all add: take_drop_append del: take_append drop_append)

lemma pc_ok_publish: "pc_ok k res pt ch ct mem pc \<Longrightarrow> pt \<le> pt' \<Longrightarrow> pc_ok k res pt' ch ct mem pc"
  by (cases pc) auto

lemma pc_ok_claim: "pc_ok k res pt ch ct mem pc \<Longrightarrow> ch < ch' \<Longrightarrow> pc_ok k res pt ch' ct mem pc"
  by (cases pc) auto

lemma pc_ok_release: "pc_ok k res pt ch ct mem pc \<Longrightarrow> ct \<le> ct' \<Longrightarrow> pc_ok k res pt ch ct' mem pc"
  by (cases pc) auto

lemma pc_ok_write:
  assumes "pc_ok k res pt ch ct mem pc" "k \<le> 31" "writes pc \<subseteq> {ct..<ct + 2 ^ k}" "e \<in> {ct..<ct + 2 ^ k}" "e \<notin> writes pc"
  shows "pc_ok k res pt ch ct (mem(of_nat e AND (2 ^ k - 1) := x)) pc"
proof (cases pc)
  case (PWriting objs h i j)
  have "of_nat (i + m) AND (2 ^ k - 1) \<noteq> (of_nat e AND (2 ^ k - 1) :: u32)" if "m < j" for m
  proof
    assume eq: "of_nat (i + m) AND (2 ^ k - 1) = (of_nat e AND (2 ^ k - 1) :: u32)"
    have "i + m \<in> writes pc" using PWriting assms(1) that by simp
    moreover from this have "i + m = e"
      using slot_inj [OF assms(2) _ _ _ _ eq, of ct] assms(3,4) by auto
    ultimately show False using assms(5) by simp
  qed
  then show ?thesis using PWriting assms(1) by simp
qed (use assms(1) in simp_all)

lemma conc_inv_set_pc:
  assumes "conc_inv k s" "writes pc = writes (c_pc s t)" "reads pc = reads (c_pc s t)"
    "pc_ok k (h_reserved s) (length (h_published s)) (h_claimed s) (length (h_delivered s)) (r_slots (c_ring s)) pc"
    "r_single (c_ring s) \<longrightarrow> current (length (h_reserved s)) (h_claimed s) pc"
  shows "conc_inv k (set_pc t pc s)"
  using assms by (simp add: conc_inv_def set_pc_def cursors_ok_def window_ok_def pcs_ok_def tiles_same)

lemma current_other:
  "\<not> producing pc \<Longrightarrow> current ph ch pc = current ph' ch pc"
  "\<not> consuming pc \<Longrightarrow> current ph ch pc = current ph ch' pc"
  by (cases pc; simp)+

lemma conc_invD:
  assumes "conc_inv k s"
  shows "k \<le> 31" "r_mask (c_ring s) = 2 ^ k - 1" "cursors_ok s" "window_ok k s"
    "h_published s = take (length (h_published s)) (h_reserved s)"
    "h_delivered s = take (length (h_delivered s)) (h_reserved s)"
    "slots_ok k (h_reserved s) (length (h_delivered s)) (length (h_published s)) (r_slots (c_ring s))"
    "tiles writes (c_pc s) (length (h_published s)) (length (h_reserved s))"
    "tiles reads (c_pc s) (length (h_delivered s)) (h_claimed s)"
    "pcs_ok k s"
  using assms by (simp_all add: conc_inv_def)

lemma conc_inv_writes: "conc_inv k s \<Longrightarrow> writes (c_pc s t) \<subseteq> {length (h_published s)..<length (h_reserved s)}"
  by (rule tiles_within [OF conc_invD(8)])

lemma conc_inv_reads: "conc_inv k s \<Longrightarrow> reads (c_pc s t) \<subseteq> {length (h_delivered s)..<h_claimed s}"
  by (rule tiles_within [OF conc_invD(9)])

lemma window_small:
  assumes "conc_inv k s"
  shows "length (h_reserved s) < length (h_delivered s) + 2 ^ 31"
proof -
  have "(2 :: nat) ^ k \<le> 2 ^ 31" using conc_invD(1) [OF assms] by (rule power_increasing) simp
  then show ?thesis using conc_invD(4) [OF assms] by (simp add: window_ok_def)
qed

section \<open>The positions of a reservation and of a publication\<close>

lemma reserve_position:
  assumes "conc_inv k s" "proper_use s" "c_pc s t = PChecked objs h i"
    "r_single (c_ring s) \<or> r_prod_head (c_ring s) = h"
  shows "i = length (h_reserved s)"
proof (cases "r_single (c_ring s)")
  case True
  then have "current (length (h_reserved s)) (h_claimed s) (c_pc s t)"
    using conc_invD(10) [OF assms(1)] by (simp add: pcs_ok_def)
  then show ?thesis using assms(3) by simp
next
  case False
  have i: "h = of_nat i" "i \<le> length (h_reserved s)" using conc_inv_pc [OF assms(1), of t] assms(3) by simp_all
  have "recent (length (h_reserved s)) (h_claimed s) (c_pc s t)" using assms(2) by (simp only: proper_use_def)
  then have near: "length (h_reserved s) < i + 2 ^ 32" using assms(3) by simp
  have "r_prod_head (c_ring s) = of_nat (length (h_reserved s))"
    using conc_invD(3) [OF assms(1)] by (simp only: cursors_ok_def)
  with False assms(4) i(1) have "(of_nat i :: u32) = of_nat (length (h_reserved s))" by metis
  then show ?thesis using i(2) near by (rule of_nat_window)
qed

lemma claim_position:
  assumes "conc_inv k s" "proper_use s" "c_pc s t = CChecked n h i"
    "r_single (c_ring s) \<or> r_cons_head (c_ring s) = h"
  shows "i = h_claimed s"
proof (cases "r_single (c_ring s)")
  case True
  then have "current (length (h_reserved s)) (h_claimed s) (c_pc s t)"
    using conc_invD(10) [OF assms(1)] by (simp add: pcs_ok_def)
  then show ?thesis using assms(3) by simp
next
  case False
  have i: "h = of_nat i" "i \<le> h_claimed s" using conc_inv_pc [OF assms(1), of t] assms(3) by simp_all
  have "recent (length (h_reserved s)) (h_claimed s) (c_pc s t)" using assms(2) by (simp only: proper_use_def)
  then have near: "h_claimed s < i + 2 ^ 32" using assms(3) by simp
  have "r_cons_head (c_ring s) = of_nat (h_claimed s)"
    using conc_invD(3) [OF assms(1)] by (simp only: cursors_ok_def)
  with False assms(4) i(1) have "(of_nat i :: u32) = of_nat (h_claimed s)" by metis
  then show ?thesis using i(2) near by (rule of_nat_window)
qed

lemma publish_position:
  assumes "conc_inv k s" "proper_use s" "c_pc s t = PWriting objs h i j"
    "r_single (c_ring s) \<or> r_prod_tail (c_ring s) = h"
  shows "i = length (h_published s)" "i + length objs \<le> length (h_reserved s)"
proof -
  have ok: "objs \<noteq> []" "h = of_nat i" using conc_inv_pc [OF assms(1), of t] assms(3) by simp_all
  have sub: "{i..<i + length objs} \<subseteq> {length (h_published s)..<length (h_reserved s)}"
    using conc_inv_writes [OF assms(1), of t] assms(3) by simp
  then show le: "i + length objs \<le> length (h_reserved s)" using ok(1) by (simp add: ivl_subset)
  have ge: "length (h_published s) \<le> i" using sub ok(1) by (simp add: ivl_subset)
  show "i = length (h_published s)"
  proof (cases "r_single (c_ring s)")
    case True
    have "length (h_published s) < length (h_reserved s)" using le ge ok(1) by (cases objs) auto
    then obtain u where u: "length (h_published s) \<in> writes (c_pc s u)"
      using tiles_first [OF conc_invD(8) [OF assms(1)]] by metis
    then have "producing (c_pc s u)" by (cases "c_pc s u") auto
    then have "u = t" using True assms(2,3) by (simp add: proper_use_def)
    then show ?thesis using u assms(3) ge by simp
  next
    case False
    have "r_prod_tail (c_ring s) = of_nat (length (h_published s))"
      using conc_invD(3) [OF assms(1)] by (simp only: cursors_ok_def)
    with False assms(4) ok(2) have "(of_nat (length (h_published s)) :: u32) = of_nat i" by metis
    moreover have "i < length (h_published s) + 2 ^ 32"
      using window_small [OF assms(1)] conc_invD(4) [OF assms(1)] le by (simp add: window_ok_def)
    ultimately show ?thesis using of_nat_window [of "length (h_published s)" i] ge by blast
  qed
qed

lemma release_position:
  assumes "conc_inv k s" "proper_use s" "c_pc s t = CReading n h i acc"
    "r_single (c_ring s) \<or> r_cons_tail (c_ring s) = h"
  shows "i = length (h_delivered s)" "i + unat n \<le> h_claimed s"
proof -
  have ok: "0 < unat n" "h = of_nat i"
    using conc_inv_pc [OF assms(1), of t] assms(3) by (simp_all add: unat_gt_0)
  have sub: "{i..<i + unat n} \<subseteq> {length (h_delivered s)..<h_claimed s}"
    using conc_inv_reads [OF assms(1), of t] assms(3) by simp
  then show le: "i + unat n \<le> h_claimed s" using ok(1) by (simp add: ivl_subset)
  have ge: "length (h_delivered s) \<le> i" using sub ok(1) by (simp add: ivl_subset)
  show "i = length (h_delivered s)"
  proof (cases "r_single (c_ring s)")
    case True
    have "length (h_delivered s) < h_claimed s" using le ge ok(1) by simp
    then obtain u where u: "length (h_delivered s) \<in> reads (c_pc s u)"
      using tiles_first [OF conc_invD(9) [OF assms(1)]] by metis
    then have "consuming (c_pc s u)" by (cases "c_pc s u") auto
    then have "u = t" using True assms(2,3) by (simp add: proper_use_def)
    then show ?thesis using u assms(3) ge by simp
  next
    case False
    have "r_cons_tail (c_ring s) = of_nat (length (h_delivered s))"
      using conc_invD(3) [OF assms(1)] by (simp only: cursors_ok_def)
    with False assms(4) ok(2) have "(of_nat (length (h_delivered s)) :: u32) = of_nat i" by metis
    moreover have "i < length (h_delivered s) + 2 ^ 32"
      using window_small [OF assms(1)] conc_invD(4) [OF assms(1)] le by (simp add: window_ok_def)
    ultimately show ?thesis using of_nat_window [of "length (h_delivered s)" i] ge by blast
  qed
qed

section \<open>Every step keeps the invariant\<close>

lemma step_reserve:
  assumes inv: "conc_inv k s" and use: "proper_use s" and pc: "c_pc s t = PChecked objs h i"
    and win: "r_single (c_ring s) \<or> r_prod_head (c_ring s) = h"
  shows "conc_inv k (set_pc t (PWriting objs h i 0)
      (s\<lparr>c_ring := (c_ring s)\<lparr>r_prod_head := h + of_nat (length objs)\<rparr>, h_reserved := h_reserved s @ objs\<rparr>))"
    (is "conc_inv k ?s'")
proof -
  note D = conc_invD [OF inv]
  have i: "i = length (h_reserved s)" by (rule reserve_position [OF inv use pc win])
  have ok: "objs \<noteq> []" "h = of_nat i" "length (h_reserved s) + length objs < length (h_delivered s) + 2 ^ k"
    using conc_inv_pc [OF inv, of t] pc i by simp_all
  have ord: "length (h_published s) \<le> length (h_reserved s)" "length (h_delivered s) \<le> length (h_reserved s)"
    using D(4) by (simp_all add: window_ok_def)
  have "cursors_ok ?s'" using D(3) ok(2) i by (simp add: cursors_ok_def set_pc_def)
  moreover have "window_ok k ?s'" using D(4) ok(3) by (simp add: window_ok_def set_pc_def)
  moreover have "slots_ok k (h_reserved s @ objs) (length (h_delivered s)) (length (h_published s)) (r_slots (c_ring s))"
    using D(7) ord by (simp add: slots_ok_def nth_append)
  moreover have "tiles writes ((c_pc s)(t := PWriting objs h i 0)) (length (h_published s)) (length (h_reserved s @ objs))"
    using ord pc i by (intro tiles_extend [OF D(8)]) simp_all
  moreover have "tiles reads ((c_pc s)(t := PWriting objs h i 0)) (length (h_delivered s)) (h_claimed s)"
    using D(9) pc by (simp add: tiles_same)
  moreover have "pcs_ok k ?s'"
  proof -
    have "pc_ok k (h_reserved s @ objs) (length (h_published s)) (h_claimed s) (length (h_delivered s)) (r_slots (c_ring s)) (c_pc s u)" for u
      by (rule pc_ok_reserve [OF conc_inv_pc [OF inv] ok(1)])
    moreover have "current (length (h_reserved s @ objs)) (h_claimed s) (c_pc s u)" if "r_single (c_ring s)" "u \<noteq> t" for u
    proof -
      have "\<not> producing (c_pc s u)" using use pc that by (auto simp: proper_use_def)
      then show ?thesis using D(10) that current_other(1) by (metis pcs_ok_def)
    qed
    ultimately show ?thesis using ok i by (simp add: pcs_ok_def set_pc_def)
  qed
  ultimately show ?thesis using D ord by (simp add: conc_inv_def set_pc_def)
qed

lemma step_claim:
  assumes inv: "conc_inv k s" and use: "proper_use s" and pc: "c_pc s t = CChecked n h i"
    and win: "r_single (c_ring s) \<or> r_cons_head (c_ring s) = h"
  shows "conc_inv k (set_pc t (CReading n h i [])
      (s\<lparr>c_ring := (c_ring s)\<lparr>r_cons_head := h + n\<rparr>, h_claimed := h_claimed s + unat n\<rparr>))"
    (is "conc_inv k ?s'")
proof -
  note D = conc_invD [OF inv]
  have i: "i = h_claimed s" by (rule claim_position [OF inv use pc win])
  have ok: "0 < unat n" "n \<noteq> 0" "h = of_nat i" "h_claimed s + unat n \<le> length (h_published s)"
    using conc_inv_pc [OF inv, of t] pc i by (simp_all add: unat_gt_0)
  have ord: "length (h_delivered s) \<le> h_claimed s" using D(4) by (simp add: window_ok_def)
  have "cursors_ok ?s'" using D(3) ok(3) i by (simp add: cursors_ok_def set_pc_def)
  moreover have "window_ok k ?s'" using D(4) ok(4) by (simp add: window_ok_def set_pc_def)
  moreover have "tiles reads ((c_pc s)(t := CReading n h i [])) (length (h_delivered s)) (h_claimed s + unat n)"
    using ord pc i by (intro tiles_extend [OF D(9)]) simp_all
  moreover have "tiles writes ((c_pc s)(t := CReading n h i [])) (length (h_published s)) (length (h_reserved s))"
    using D(8) pc by (simp add: tiles_same)
  moreover have "pcs_ok k ?s'"
  proof -
    have "pc_ok k (h_reserved s) (length (h_published s)) (h_claimed s + unat n) (length (h_delivered s)) (r_slots (c_ring s)) (c_pc s u)" for u
      using ok(1) by (intro pc_ok_claim [OF conc_inv_pc [OF inv]]) simp
    moreover have "current (length (h_reserved s)) (h_claimed s + unat n) (c_pc s u)" if "r_single (c_ring s)" "u \<noteq> t" for u
    proof -
      have "\<not> consuming (c_pc s u)" using use pc that by (auto simp: proper_use_def)
      then show ?thesis using D(10) that current_other(2) by (metis pcs_ok_def)
    qed
    ultimately show ?thesis using ok i by (simp add: pcs_ok_def set_pc_def)
  qed
  ultimately show ?thesis using D by (simp add: conc_inv_def set_pc_def)
qed

lemma step_write:
  assumes inv: "conc_inv k s" and pc: "c_pc s t = PWriting objs h i j" and j: "j < length objs"
  shows "conc_inv k (set_pc t (PWriting objs h i (Suc j))
      (s\<lparr>c_ring := (c_ring s)\<lparr>r_slots := (r_slots (c_ring s))((h + of_nat j) AND r_mask (c_ring s) := objs ! j)\<rparr>\<rparr>))"
    (is "conc_inv k ?s'")
proof -
  note D = conc_invD [OF inv]
  let ?win = "{length (h_delivered s)..<length (h_delivered s) + 2 ^ k}"
  let ?mem = "(r_slots (c_ring s))(of_nat (i + j) AND (2 ^ k - 1) := objs ! j)"
  have slot: "(h + of_nat j) AND r_mask (c_ring s) = of_nat (i + j) AND (2 ^ k - 1)"
    using conc_inv_pc [OF inv, of t] pc D(2) by simp
  have sub: "writes (c_pc s u) \<subseteq> {length (h_published s)..<length (h_reserved s)}" for u by (rule conc_inv_writes [OF inv])
  have win: "{length (h_published s)..<length (h_reserved s)} \<subseteq> ?win"
    using D(4) by (auto simp: window_ok_def)
  have e: "i + j \<in> writes (c_pc s t)" using pc j by simp
  then have ew: "i + j \<in> ?win" "length (h_published s) \<le> i + j" using sub [of t] win by auto
  have "slots_ok k (h_reserved s) (length (h_delivered s)) (length (h_published s)) ?mem"
  proof -
    have "of_nat m AND (2 ^ k - 1) \<noteq> (of_nat (i + j) AND (2 ^ k - 1) :: u32)"
      if "length (h_delivered s) \<le> m" "m < length (h_published s)" for m
      using slot_inj [OF D(1), of "length (h_delivered s)" m "i + j"] that ew by fastforce
    then show ?thesis using D(7) by (simp add: slots_ok_def)
  qed
  moreover have "pc_ok k (h_reserved s) (length (h_published s)) (h_claimed s) (length (h_delivered s)) ?mem (c_pc s u)"
    if "u \<noteq> t" for u
  proof (rule pc_ok_write [OF conc_inv_pc [OF inv] D(1) _ ew(1)])
    show "writes (c_pc s u) \<subseteq> ?win" using sub [of u] win by blast
    show "i + j \<notin> writes (c_pc s u)" using D(8) e that unfolding tiles_def by blast
  qed
  moreover have "pc_ok k (h_reserved s) (length (h_published s)) (h_claimed s) (length (h_delivered s)) ?mem (PWriting objs h i (Suc j))"
  proof -
    have "of_nat (i + m) AND (2 ^ k - 1) \<noteq> (of_nat (i + j) AND (2 ^ k - 1) :: u32)" if "m < j" for m
    proof
      assume eq: "of_nat (i + m) AND (2 ^ k - 1) = (of_nat (i + j) AND (2 ^ k - 1) :: u32)"
      have "i + m \<in> writes (c_pc s t)" using pc j that by simp
      then have "i + m \<in> ?win" using sub [of t] win by blast
      then have "i + m = i + j" using slot_inj [OF D(1) _ _ _ _ eq, of "length (h_delivered s)"] ew by simp
      then show False using that by simp
    qed
    then show ?thesis using conc_inv_pc [OF inv, of t] pc j by (simp add: less_Suc_eq del: of_nat_add)
  qed
  moreover have "tiles writes ((c_pc s)(t := PWriting objs h i (Suc j))) (length (h_published s)) (length (h_reserved s))"
    using D(8) pc by (simp add: tiles_same)
  moreover have "tiles reads ((c_pc s)(t := PWriting objs h i (Suc j))) (length (h_delivered s)) (h_claimed s)"
    using D(9) pc by (simp add: tiles_same)
  ultimately show ?thesis
    unfolding slot using D
    by (simp add: conc_inv_def set_pc_def cursors_ok_def window_ok_def pcs_ok_def del: pc_ok.simps of_nat_add)
qed

lemma take_extend:
  assumes "take (length xs) (drop (length ys) res) = xs" "ys = take (length ys) res"
  shows "ys @ xs = take (length (ys @ xs)) res"
proof -
  have "take (length ys + length xs) res = take (length ys) res @ take (length xs) (drop (length ys) res)"
    by (rule take_add)
  then show ?thesis using assms by simp
qed

lemma take_min_length: "take (min (length xs) n) xs = take n xs"
  by (simp add: min_def)

lemma step_publish:
  assumes inv: "conc_inv k s" and use: "proper_use s" and pc: "c_pc s t = PWriting objs h i (length objs)"
    and win: "r_single (c_ring s) \<or> r_prod_tail (c_ring s) = h"
  shows "conc_inv k (set_pc t Idle
      (s\<lparr>c_ring := (c_ring s)\<lparr>r_prod_tail := h + of_nat (length objs)\<rparr>, h_published := h_published s @ objs\<rparr>))"
    (is "conc_inv k ?s'")
proof -
  note D = conc_invD [OF inv]
  have i: "i = length (h_published s)" and le: "i + length objs \<le> length (h_reserved s)"
    by (rule publish_position [OF inv use pc win])+
  have ok: "h = of_nat i" "take (length objs) (drop i (h_reserved s)) = objs"
    "\<And>m. m < length objs \<Longrightarrow> r_slots (c_ring s) (of_nat (i + m) AND (2 ^ k - 1)) = objs ! m"
    using conc_inv_pc [OF inv, of t] pc by simp_all
  have "cursors_ok ?s'" using D(3) ok(1) i by (simp add: cursors_ok_def set_pc_def)
  moreover have "window_ok k ?s'" using D(4) le i by (simp add: window_ok_def set_pc_def)
  moreover have "h_published s @ objs = take (length (h_published s @ objs)) (h_reserved s)"
    by (rule take_extend [OF ok(2) [unfolded i] D(5)])
  moreover have "slots_ok k (h_reserved s) (length (h_delivered s)) (length (h_published s @ objs)) (r_slots (c_ring s))"
    unfolding slots_ok_def
  proof (intro allI impI)
    fix m assume m: "length (h_delivered s) \<le> m \<and> m < length (h_published s @ objs)"
    show "r_slots (c_ring s) (of_nat m AND (2 ^ k - 1)) = h_reserved s ! m"
    proof (cases "m < i")
      case True
      then show ?thesis using D(7) m i by (simp add: slots_ok_def)
    next
      case False
      then obtain d where d: "m = i + d" "d < length objs"
        using m i by (metis add_less_imp_less_left length_append less_eqE not_less)
      then have "h_reserved s ! m = take (length objs) (drop i (h_reserved s)) ! d" using le by simp
      then show ?thesis using ok(2) ok(3) [OF d(2)] d(1) by simp
    qed
  qed
  moreover have "tiles writes ((c_pc s)(t := Idle)) (length (h_published s @ objs)) (length (h_reserved s))"
    using pc i le by (intro tiles_retire [OF D(8)]) simp_all
  moreover have "tiles reads ((c_pc s)(t := Idle)) (length (h_delivered s)) (h_claimed s)"
    using D(9) pc by (simp add: tiles_same)
  moreover have "pcs_ok k ?s'"
    using D(10) by (simp add: pcs_ok_def set_pc_def pc_ok_publish [OF conc_inv_pc [OF inv]])
  ultimately show ?thesis using D by (simp add: conc_inv_def set_pc_def take_min_length)
qed

lemma step_release:
  assumes inv: "conc_inv k s" and use: "proper_use s" and pc: "c_pc s t = CReading n h i acc"
    and len: "length acc = unat n" and win: "r_single (c_ring s) \<or> r_cons_tail (c_ring s) = h"
  shows "conc_inv k (set_pc t Idle
      (s\<lparr>c_ring := (c_ring s)\<lparr>r_cons_tail := h + n\<rparr>, h_delivered := h_delivered s @ acc\<rparr>))"
    (is "conc_inv k ?s'")
proof -
  note D = conc_invD [OF inv]
  have i: "i = length (h_delivered s)" and le: "i + unat n \<le> h_claimed s"
    by (rule release_position [OF inv use pc win])+
  have ok: "h = of_nat i" "take (length acc) (drop i (h_reserved s)) = acc"
    using conc_inv_pc [OF inv, of t] pc by simp_all
  have "cursors_ok ?s'" using D(3) ok(1) i len by (simp add: cursors_ok_def set_pc_def)
  moreover have "window_ok k ?s'" using D(4) le i len by (simp add: window_ok_def set_pc_def)
  moreover have "h_delivered s @ acc = take (length (h_delivered s @ acc)) (h_reserved s)"
    by (rule take_extend [OF ok(2) [unfolded i] D(6)])
  moreover have "slots_ok k (h_reserved s) (length (h_delivered s @ acc)) (length (h_published s)) (r_slots (c_ring s))"
    using D(7) by (simp add: slots_ok_def)
  moreover have "tiles reads ((c_pc s)(t := Idle)) (length (h_delivered s @ acc)) (h_claimed s)"
    using pc i le len by (intro tiles_retire [OF D(9)]) simp_all
  moreover have "tiles writes ((c_pc s)(t := Idle)) (length (h_published s)) (length (h_reserved s))"
    using D(8) pc by (simp add: tiles_same)
  moreover have "pcs_ok k ?s'"
    using D(10) by (simp add: pcs_ok_def set_pc_def pc_ok_release [OF conc_inv_pc [OF inv]])
  ultimately show ?thesis using D by (simp add: conc_inv_def set_pc_def take_min_length)
qed

lemma step_read:
  assumes inv: "conc_inv k s" and pc: "c_pc s t = CReading n h i acc" and len: "length acc < unat n"
  shows "conc_inv k (set_pc t
      (CReading n h i (acc @ [r_slots (c_ring s) ((h + of_nat (length acc)) AND r_mask (c_ring s))])) s)"
proof (rule conc_inv_set_pc [OF inv])
  note D = conc_invD [OF inv]
  have "i + length acc \<in> reads (c_pc s t)" using pc len by simp
  then have e: "length (h_delivered s) \<le> i + length acc" "i + length acc < length (h_published s)"
    using conc_inv_reads [OF inv, of t] D(4) by (auto simp: window_ok_def)
  then have "r_slots (c_ring s) (of_nat (i + length acc) AND (2 ^ k - 1)) = h_reserved s ! (i + length acc)"
    using D(7) unfolding slots_ok_def by blast
  moreover have "i + length acc < length (h_reserved s)" using e D(4) by (simp add: window_ok_def)
  ultimately show "pc_ok k (h_reserved s) (length (h_published s)) (h_claimed s) (length (h_delivered s)) (r_slots (c_ring s))
      (CReading n h i (acc @ [r_slots (c_ring s) ((h + of_nat (length acc)) AND r_mask (c_ring s))]))"
    using conc_inv_pc [OF inv, of t] pc len D(2) by (simp add: take_Suc_conv_app_nth)
qed (use pc in simp_all)

lemma step_room:
  assumes inv: "conc_inv k s" and pc: "c_pc s t = PLoaded objs h i"
    and room: "\<not> of_nat (length objs) > r_mask (c_ring s) + r_cons_tail (c_ring s) - h"
  shows "conc_inv k (set_pc t (PChecked objs h i) s)"
proof (rule conc_inv_set_pc [OF inv])
  note D = conc_invD [OF inv]
  have ok: "objs \<noteq> []" "length objs < 2 ^ 32" "h = of_nat i" "i \<le> length (h_reserved s)"
    using conc_inv_pc [OF inv, of t] pc by simp_all
  have "i + length objs < length (h_delivered s) + 2 ^ k" if i: "i = length (h_reserved s)"
  proof -
    have w: "i < length (h_delivered s) + 2 ^ k" "length (h_delivered s) \<le> i"
      using D(4) i by (simp_all add: window_ok_def)
    have "unat (of_nat (length objs) :: u32) = length objs" using ok(2) by (simp add: unat_of_nat)
    moreover have "unat (r_mask (c_ring s) + r_cons_tail (c_ring s) - h) = length (h_delivered s) + 2 ^ k - 1 - i"
      using free_exact [OF D(1) w(1)] w(2) D(2,3) ok(3) by (simp add: cursors_ok_def)
    ultimately have "length objs \<le> length (h_delivered s) + 2 ^ k - 1 - i"
      using room by (simp add: word_less_nat_alt)
    then show ?thesis using w by linarith
  qed
  then show "pc_ok k (h_reserved s) (length (h_published s)) (h_claimed s) (length (h_delivered s)) (r_slots (c_ring s))
      (PChecked objs h i)"
    using ok by simp
  show "r_single (c_ring s) \<longrightarrow> current (length (h_reserved s)) (h_claimed s) (PChecked objs h i)"
    using D(10) pc unfolding pcs_ok_def by (metis current.simps(1,2))
qed (use pc in simp_all)

lemma step_found:
  assumes inv: "conc_inv k s" and pc: "c_pc s t = CLoaded n h i" and found: "\<not> n > r_prod_tail (c_ring s) - h"
  shows "conc_inv k (set_pc t (CChecked n h i) s)"
proof (rule conc_inv_set_pc [OF inv])
  note D = conc_invD [OF inv]
  have ok: "n \<noteq> 0" "h = of_nat i" "i \<le> h_claimed s" using conc_inv_pc [OF inv, of t] pc by simp_all
  have "i + unat n \<le> length (h_published s)" if i: "i = h_claimed s"
  proof -
    have w: "i \<le> length (h_published s)" "length (h_published s) < i + 2 ^ 32"
      using D(4) i window_small [OF inv] by (simp_all add: window_ok_def)
    have "unat (r_prod_tail (c_ring s) - h) = length (h_published s) - i"
      using unat_of_nat_diff [OF w] D(3) ok(2) by (simp add: cursors_ok_def)
    then show ?thesis using found w by (simp add: word_less_nat_alt)
  qed
  then show "pc_ok k (h_reserved s) (length (h_published s)) (h_claimed s) (length (h_delivered s)) (r_slots (c_ring s))
      (CChecked n h i)"
    using ok by simp
  show "r_single (c_ring s) \<longrightarrow> current (length (h_reserved s)) (h_claimed s) (CChecked n h i)"
    using D(10) pc unfolding pcs_ok_def by (metis current.simps(3,4))
qed (use pc in simp_all)

lemma step_load:
  assumes inv: "conc_inv k s" and pc: "writes (c_pc s t) = {}" "reads (c_pc s t) = {}"
  shows "objs \<noteq> [] \<Longrightarrow> length objs < 2 ^ 32 \<Longrightarrow>
      conc_inv k (set_pc t (PLoaded objs (r_prod_head (c_ring s)) (length (h_reserved s))) s)"
    and "n \<noteq> 0 \<Longrightarrow> conc_inv k (set_pc t (CLoaded n (r_cons_head (c_ring s)) (h_claimed s)) s)"
    and "conc_inv k (set_pc t Idle s)"
  using conc_invD(3) [OF inv] pc by (intro conc_inv_set_pc [OF inv]; simp add: cursors_ok_def)+

lemma conc_inv_step:
  assumes "ring_step s s'" "conc_inv k s" "proper_use s"
  shows "conc_inv k s'"
  using assms(1)
proof cases
  case (enq_retry t objs h i)
  then show ?thesis using conc_inv_pc [OF assms(2), of t] by (simp add: step_load(1) [OF assms(2)])
next
  case (deq_retry t n h i)
  then show ?thesis using conc_inv_pc [OF assms(2), of t] by (simp add: step_load(2) [OF assms(2)])
qed (simp_all add: assms step_load [OF assms(2)] step_room step_found step_reserve step_claim step_write step_read
    step_publish step_release)

lemma conc_inv_init:
  assumes "ring_inv r" "r_prod_head r = 0" "r_prod_tail r = 0" "r_cons_head r = 0" "r_cons_tail r = 0"
  obtains k where "r_mask r = 2 ^ k - 1" "k \<le> 31" "conc_inv k (conc_init r)" "proper_use (conc_init r)"
proof -
  obtain k where k: "k \<le> 31" "r_mask r = 2 ^ k - 1" using assms(1) by (rule ring_invE) blast
  then have "conc_inv k (conc_init r)"
    using assms by (simp add: conc_inv_def conc_init_def cursors_ok_def window_ok_def slots_ok_def tiles_def pcs_ok_def)
  moreover have "proper_use (conc_init r)" by (simp add: proper_use_def conc_init_def)
  ultimately show thesis using k that by blast
qed

lemma ring_reach_inv:
  assumes "ring_reach r s" "conc_inv k (conc_init r)" "proper_use (conc_init r)"
  shows "conc_inv k s \<and> proper_use s"
  using assms(1) by induction (use assms(2,3) conc_inv_step in blast)+

lemma created_ring:
  assumes "ring_create (Some junk) cnt mode = Some r" "cnt \<le> 2 ^ 31" "ring_reach r s"
  obtains k where "r_mask r = 2 ^ k - 1" "k \<le> 31" "conc_inv k s" "proper_use s"
proof -
  have "ring_inv r" using ring_create_inv [OF assms(2), of junk mode] assms(1) by auto
  moreover have "r_prod_head r = 0 \<and> r_prod_tail r = 0 \<and> r_cons_head r = 0 \<and> r_cons_tail r = 0"
    using assms(1) by (auto simp: ring_create_def Let_def)
  ultimately obtain k where "r_mask r = 2 ^ k - 1" "k \<le> 31" "conc_inv k (conc_init r)" "proper_use (conc_init r)"
    by (elim conc_inv_init) auto
  then show thesis using that ring_reach_inv [OF assms(3)] by blast
qed

section \<open>Running a schedule\<close>

text \<open>The next step of a thread, computed: \<open>Go t\<close> is what thread \<open>t\<close> does when its compare-and-exchange
  fails only if the head has moved; a thread that spins has no step.\<close>

datatype 'a RingAct = Enq nat "'a list" | Deq nat u32 | Go nat

definition ring_go :: "nat \<Rightarrow> 'a RingState \<Rightarrow> 'a RingState option" where
  "ring_go t s =
     (let r = c_ring s in
      case c_pc s t of
        Idle \<Rightarrow> None
      | PLoaded objs h i \<Rightarrow>
          Some (set_pc t (if of_nat (length objs) > r_mask r + r_cons_tail r - h then Idle else PChecked objs h i) s)
      | PChecked objs h i \<Rightarrow>
          Some (if r_single r \<or> r_prod_head r = h
                then set_pc t (PWriting objs h i 0)
                  (s\<lparr>c_ring := r\<lparr>r_prod_head := h + of_nat (length objs)\<rparr>, h_reserved := h_reserved s @ objs\<rparr>)
                else set_pc t (PLoaded objs (r_prod_head r) (length (h_reserved s))) s)
      | PWriting objs h i j \<Rightarrow>
          if j < length objs
          then Some (set_pc t (PWriting objs h i (Suc j))
                 (s\<lparr>c_ring := r\<lparr>r_slots := (r_slots r)((h + of_nat j) AND r_mask r := objs ! j)\<rparr>\<rparr>))
          else if j = length objs \<and> (r_single r \<or> r_prod_tail r = h)
          then Some (set_pc t Idle
                 (s\<lparr>c_ring := r\<lparr>r_prod_tail := h + of_nat (length objs)\<rparr>, h_published := h_published s @ objs\<rparr>))
          else None
      | CLoaded n h i \<Rightarrow> Some (set_pc t (if n > r_prod_tail r - h then Idle else CChecked n h i) s)
      | CChecked n h i \<Rightarrow>
          Some (if r_single r \<or> r_cons_head r = h
                then set_pc t (CReading n h i [])
                  (s\<lparr>c_ring := r\<lparr>r_cons_head := h + n\<rparr>, h_claimed := h_claimed s + unat n\<rparr>)
                else set_pc t (CLoaded n (r_cons_head r) (h_claimed s)) s)
      | CReading n h i acc \<Rightarrow>
          if length acc < unat n
          then Some (set_pc t (CReading n h i (acc @ [r_slots r ((h + of_nat (length acc)) AND r_mask r)])) s)
          else if length acc = unat n \<and> (r_single r \<or> r_cons_tail r = h)
          then Some (set_pc t Idle (s\<lparr>c_ring := r\<lparr>r_cons_tail := h + n\<rparr>, h_delivered := h_delivered s @ acc\<rparr>))
          else None)"

fun ring_exec :: "'a RingAct \<Rightarrow> 'a RingState \<Rightarrow> 'a RingState option" where
  "ring_exec (Enq t objs) s =
     (if c_pc s t = Idle \<and> objs \<noteq> [] \<and> length objs < 2 ^ 32
      then Some (set_pc t (PLoaded objs (r_prod_head (c_ring s)) (length (h_reserved s))) s) else None)"
| "ring_exec (Deq t n) s =
     (if c_pc s t = Idle \<and> n \<noteq> 0
      then Some (set_pc t (CLoaded n (r_cons_head (c_ring s)) (h_claimed s)) s) else None)"
| "ring_exec (Go t) s = ring_go t s"

fun ring_run :: "'a RingAct list \<Rightarrow> 'a RingState \<Rightarrow> 'a RingState option" where
  "ring_run [] s = Some s"
| "ring_run (a # as) s =
     (case ring_exec a s of
        None \<Rightarrow> None
      | Some s' \<Rightarrow> if length (h_reserved s') < 2 ^ 31 \<and> h_claimed s' < 2 ^ 31 then ring_run as s' else None)"

lemma ring_go_sound: "ring_go t s = Some s' \<Longrightarrow> ring_step s s'"
  unfolding ring_go_def Let_def
  by (cases "c_pc s t") (auto split: if_splits intro: ring_step.intros)

lemma ring_exec_sound: "ring_exec a s = Some s' \<Longrightarrow> ring_step s s'"
  by (cases a) (auto split: if_splits intro: ring_step.intros ring_go_sound)

lemma ring_step_single: "ring_step s s' \<Longrightarrow> r_single (c_ring s') = r_single (c_ring s)"
  by (induction rule: ring_step.induct) (simp_all add: set_pc_def)

lemma recent_small: "ph < 2 ^ 31 \<Longrightarrow> ch < 2 ^ 31 \<Longrightarrow> recent ph ch pc"
  by (cases pc) simp_all

lemma ring_run_reach:
  assumes "ring_run as s = Some s'" "ring_reach r s" "\<not> r_single (c_ring s)"
  shows "ring_reach r s'"
  using assms
proof (induction as arbitrary: s)
  case (Cons a as)
  from Cons.prems(1) obtain s1 where s1: "ring_exec a s = Some s1" "length (h_reserved s1) < 2 ^ 31" "h_claimed s1 < 2 ^ 31"
    "ring_run as s1 = Some s'"
    by (auto split: option.splits if_splits)
  have st: "ring_step s s1" by (rule ring_exec_sound [OF s1(1)])
  have multi: "\<not> r_single (c_ring s1)" using ring_step_single [OF st] Cons.prems(3) by simp
  have "proper_use s1" unfolding proper_use_def using multi by (blast intro: recent_small s1(2,3))
  from Cons.IH [OF s1(4) ring_reach.step [OF Cons.prems(2) st this] multi] show ?case .
qed simp

text \<open>Two producers and a consumer on a ring of three entries: the second producer writes before the first.\<close>

definition example_ring :: "nat Ring" where
  "example_ring = the (ring_create (Some (\<lambda>_. 0)) 4 MPMC)"

definition example_schedule :: "nat RingAct list" where
  "example_schedule =
     [Enq 0 [7], Enq 1 [8], Go 0, Go 1, Go 0, Go 1, Go 1, Go 1, Go 1, Go 0, Go 0, Go 1,
      Deq 2 1, Go 2, Go 2, Go 2, Go 2, Enq 0 [9], Go 0, Go 0, Deq 3 3]"

lemma example_schedule_run:
  "\<exists>s. ring_run example_schedule (conc_init example_ring) = Some s \<and>
     h_published s = [7, 8] \<and> h_delivered s = [7] \<and> c_pc s 0 = PWriting [9] 2 2 0 \<and>
     c_pc s 3 = CLoaded 3 1 1 \<and> r_prod_tail (c_ring s) = 2"
  by (simp add: example_schedule_def example_ring_def ring_create_def round_up_pow2_def conc_init_def ring_go_def
    set_pc_def Let_def)

lemma example_created: "ring_create (Some (\<lambda>_. 0)) 4 MPMC = Some example_ring"
  by (simp add: example_ring_def ring_create_def Let_def)

lemma example_reached:
  "\<exists>s. ring_reach example_ring s \<and>
     h_published s = [7, 8] \<and> h_delivered s = [7] \<and> c_pc s 0 = PWriting [9] 2 2 0 \<and>
     c_pc s 3 = CLoaded 3 1 1 \<and> r_prod_tail (c_ring s) = 2"
proof -
  have "\<not> r_single (c_ring (conc_init example_ring))"
    by (simp add: conc_init_def example_ring_def ring_create_def Let_def)
  then show ?thesis
    using example_schedule_run ring_run_reach [OF _ ring_reach.init] by blast
qed

section \<open>Oldest reservations and refusals\<close>

lemma producing_not_consuming: "producing pc \<Longrightarrow> \<not> consuming pc"
  by (cases pc) simp_all

lemma oldest_writer:
  assumes "conc_inv k s" "c_pc s t = PWriting objs h i j"
  shows "\<exists>u. length (h_published s) \<in> writes (c_pc s u) \<and> producing (c_pc s u)"
proof -
  have "objs \<noteq> []" using conc_inv_pc [OF assms(1), of t] assms(2) by simp
  then have "i \<in> {length (h_published s)..<length (h_reserved s)}"
    using conc_inv_writes [OF assms(1), of t] assms(2) by (cases objs) auto
  then obtain u where u: "length (h_published s) \<in> writes (c_pc s u)"
    using tiles_first [OF conc_invD(8) [OF assms(1)]] by (metis atLeastLessThan_iff le_less_trans)
  then have "producing (c_pc s u)" by (cases "c_pc s u") auto
  with u show ?thesis by blast
qed

lemma oldest_reader:
  assumes "conc_inv k s" "c_pc s t = CReading n h i acc"
  shows "\<exists>u. length (h_delivered s) \<in> reads (c_pc s u) \<and> consuming (c_pc s u)"
proof -
  have "0 < unat n" using conc_inv_pc [OF assms(1), of t] assms(2) by (simp add: unat_gt_0)
  then have "i \<in> {length (h_delivered s)..<h_claimed s}"
    using conc_inv_reads [OF assms(1), of t] assms(2) by auto
  then obtain u where u: "length (h_delivered s) \<in> reads (c_pc s u)"
    using tiles_first [OF conc_invD(9) [OF assms(1)]] by (metis atLeastLessThan_iff le_less_trans)
  then have "consuming (c_pc s u)" by (cases "c_pc s u") auto
  with u show ?thesis by blast
qed

lemma oldest_writer_moves:
  assumes "conc_inv k s" "length (h_published s) \<in> writes (c_pc s u)"
  shows "ring_go u s \<noteq> None"
proof -
  obtain objs h i j where pc: "c_pc s u = PWriting objs h i j" using assms(2) by (cases "c_pc s u") auto
  have "{i..<i + length objs} \<subseteq> {length (h_published s)..<length (h_reserved s)}"
    using conc_inv_writes [OF assms(1), of u] pc by simp
  moreover have ok: "h = of_nat i" "j \<le> length objs" "objs \<noteq> []" using conc_inv_pc [OF assms(1), of u] pc by simp_all
  ultimately have "i = length (h_published s)" using assms(2) pc by (simp add: ivl_subset)
  then have "r_prod_tail (c_ring s) = h" using ok(1) conc_invD(3) [OF assms(1)] by (simp add: cursors_ok_def)
  then show ?thesis using pc ok(2) by (simp add: ring_go_def Let_def)
qed

lemma oldest_reader_moves:
  assumes "conc_inv k s" "length (h_delivered s) \<in> reads (c_pc s u)"
  shows "ring_go u s \<noteq> None"
proof -
  obtain n h i acc where pc: "c_pc s u = CReading n h i acc" using assms(2) by (cases "c_pc s u") auto
  have "{i..<i + unat n} \<subseteq> {length (h_delivered s)..<h_claimed s}"
    using conc_inv_reads [OF assms(1), of u] pc by simp
  moreover have ok: "h = of_nat i" "length acc \<le> unat n" "0 < unat n"
    using conc_inv_pc [OF assms(1), of u] pc by (simp_all add: unat_gt_0)
  ultimately have "i = length (h_delivered s)" using assms(2) pc by (simp add: ivl_subset)
  then have "r_cons_tail (c_ring s) = h" using ok(1) conc_invD(3) [OF assms(1)] by (simp add: cursors_ok_def)
  then show ?thesis using pc ok(2) by (simp add: ring_go_def Let_def)
qed

lemma refused_enqueue:
  assumes inv: "conc_inv k s" and use: "proper_use s" and pc: "c_pc s t = PLoaded objs h i"
    and full: "of_nat (length objs) > r_mask (c_ring s) + r_cons_tail (c_ring s) - h"
  shows "length (h_reserved s) + length objs > length (h_delivered s) + (2 ^ k - 1)"
proof -
  note D = conc_invD [OF inv]
  have ok: "length objs < 2 ^ 32" "h = of_nat i" "i \<le> length (h_reserved s)"
    using conc_inv_pc [OF inv, of t] pc by simp_all
  have "recent (length (h_reserved s)) (h_claimed s) (c_pc s t)" using use by (simp only: proper_use_def)
  then have "length (h_delivered s) < i + 2 ^ 31" using pc D(4) by (simp add: window_ok_def)
  moreover have w: "i < length (h_delivered s) + 2 ^ k" using ok(3) D(4) by (simp add: window_ok_def)
  ultimately have "unat (r_mask (c_ring s) + r_cons_tail (c_ring s) - h) = length (h_delivered s) + 2 ^ k - 1 - i"
    using free_exact [OF D(1)] D(2,3) ok(2) by (simp add: cursors_ok_def)
  moreover have "unat (of_nat (length objs) :: u32) = length objs" using ok(1) by (simp add: unat_of_nat)
  ultimately have "length (h_delivered s) + 2 ^ k - 1 - i < length objs"
    using full by (simp add: word_less_nat_alt)
  moreover have "(1 :: nat) \<le> 2 ^ k" by simp
  ultimately show ?thesis using w ok(3) by linarith
qed

lemma refused_dequeue:
  assumes inv: "conc_inv k s" and use: "proper_use s" and pc: "c_pc s t = CLoaded n h i"
    and empty: "n > r_prod_tail (c_ring s) - h"
  shows "h_claimed s + unat n > length (h_published s)"
proof -
  note D = conc_invD [OF inv]
  have ok: "h = of_nat i" "i \<le> h_claimed s" using conc_inv_pc [OF inv, of t] pc by simp_all
  have "recent (length (h_reserved s)) (h_claimed s) (c_pc s t)" using use by (simp only: proper_use_def)
  then have w: "i \<le> length (h_published s)" "length (h_published s) < i + 2 ^ 32"
    using pc D(4) ok(2) window_small [OF inv] by (simp_all add: window_ok_def)
  have "unat (r_prod_tail (c_ring s) - h) = length (h_published s) - i"
    using unat_of_nat_diff [OF w] D(3) ok(1) by (simp add: cursors_ok_def)
  then show ?thesis using empty w ok(2) by (simp add: word_less_nat_alt)
qed

section \<open>Properties\<close>

text \<open>C2: In every interleaving of producers and consumers on a ring made by \<^verbatim>\<open>Ring::create\<close>, what the completed
  dequeues returned, in the order they completed, is a prefix of what the completed enqueues published, in
  the order they completed: nothing is lost, duplicated, reordered or read before it was written, and at
  most as many objects as the capacity are published and not yet returned.\<close>

theorem concurrent_ring_fifo:
  assumes "ring_create (Some junk) cnt mode = Some r" and "cnt \<le> 2 ^ 31" and "ring_reach r s"
  shows "\<exists>waiting. h_published s = h_delivered s @ waiting \<and> length waiting \<le> unat (ring_capacity r)"
proof -
  obtain k where k: "r_mask r = 2 ^ k - 1" "k \<le> 31" and inv: "conc_inv k s"
    using created_ring [OF assms] by metis
  note D = conc_invD [OF inv]
  have cap: "unat (ring_capacity r) = 2 ^ k - 1"
    using k unat_pow2_mask [of k, where 'a = 32] by (simp add: ring_capacity_def)
  have w: "length (h_delivered s) \<le> length (h_published s)" "length (h_published s) < length (h_delivered s) + 2 ^ k"
    using D(4) by (simp_all add: window_ok_def)
  have "h_delivered s = take (length (h_delivered s)) (h_published s)"
    using D(5,6) w(1) by (metis min.absorb1 take_take)
  then have "h_published s = h_delivered s @ drop (length (h_delivered s)) (h_published s)"
    by (metis append_take_drop_id)
  moreover have "length (drop (length (h_delivered s)) (h_published s)) \<le> unat (ring_capacity r)"
    using w cap by simp
  ultimately show ?thesis by blast
qed

theorem concurrent_ring_fifo_witness:
  "\<exists>s waiting. ring_reach example_ring s \<and> h_published s = [7, 8] \<and> h_delivered s = [7] \<and>
     h_published s = h_delivered s @ waiting \<and> length waiting \<le> unat (ring_capacity example_ring)"
proof -
  obtain s where s: "ring_reach example_ring s" "h_published s = [7, 8]" "h_delivered s = [7]"
    using example_reached by blast
  from concurrent_ring_fifo [OF example_created _ s(1)] s show ?thesis by force
qed

text \<open>C18: A thread inside an operation never waits for nothing: as long as some producer is inside an enqueue there is
  a producer that can take a step, and as long as some consumer is inside a dequeue there is a consumer that can.
  The thread that holds the oldest reservation is never the one that spins.\<close>

theorem concurrent_ring_progress:
  assumes "ring_create (Some junk) cnt mode = Some r" and "cnt \<le> 2 ^ 31" and "ring_reach r s"
    and "c_pc s t \<noteq> Idle"
  shows "\<exists>u. producing (c_pc s u) = producing (c_pc s t) \<and> consuming (c_pc s u) = consuming (c_pc s t) \<and>
     ring_go u s \<noteq> None"
proof -
  obtain k where inv: "conc_inv k s" using created_ring [OF assms(1-3)] by metis
  show ?thesis
  proof (cases "c_pc s t")
    case (PWriting objs h i j)
    obtain u where "length (h_published s) \<in> writes (c_pc s u)" "producing (c_pc s u)"
      using oldest_writer [OF inv PWriting] by blast
    moreover from this have "ring_go u s \<noteq> None" by (intro oldest_writer_moves [OF inv])
    ultimately show ?thesis using PWriting by (metis producing_not_consuming producing.simps(3))
  next
    case (CReading n h i acc)
    obtain u where "length (h_delivered s) \<in> reads (c_pc s u)" "consuming (c_pc s u)"
      using oldest_reader [OF inv CReading] by blast
    moreover from this have "ring_go u s \<noteq> None" by (intro oldest_reader_moves [OF inv])
    ultimately show ?thesis using CReading by (metis producing_not_consuming consuming.simps(3))
  qed (use assms(4) in \<open>auto simp: ring_go_def Let_def intro!: exI [of _ t]\<close>)
qed

theorem concurrent_ring_progress_witness:
  "\<exists>s u. ring_reach example_ring s \<and> c_pc s 0 = PWriting [9] 2 2 0 \<and> producing (c_pc s u) \<and> ring_go u s \<noteq> None"
proof -
  obtain s where s: "ring_reach example_ring s" "c_pc s 0 = PWriting [9] 2 2 0"
    using example_reached by blast
  from concurrent_ring_progress [OF example_created _ s(1), of 0] s(2) show ?thesis
    using s by force
qed

lemma gives_up_enqueue:
  assumes "ring_step s s'" "c_pc s t = PLoaded objs h i" "c_pc s' t = Idle"
  shows "of_nat (length objs) > r_mask (c_ring s) + r_cons_tail (c_ring s) - h"
  using assms by (cases rule: ring_step.cases) (auto simp: set_pc_def split: if_splits)

lemma gives_up_dequeue:
  assumes "ring_step s s'" "c_pc s t = CLoaded n h i" "c_pc s' t = Idle"
  shows "n > r_prod_tail (c_ring s) - h"
  using assms by (cases rule: ring_step.cases) (auto simp: set_pc_def split: if_splits)

text \<open>C23: A refusal is justified. Whenever a step makes a thread give up an enqueue, the entries reserved and not yet released, together
  with its own, exceed the capacity; whenever a step makes a thread give up a dequeue, the entries published and not yet claimed are
  fewer than it asks for.\<close>

theorem concurrent_ring_refusals:
  assumes "ring_create (Some junk) cnt mode = Some r" and "cnt \<le> 2 ^ 31" and "ring_reach r s"
    and "ring_step s s'" and "c_pc s' t = Idle"
  shows "(\<forall>objs h i. c_pc s t = PLoaded objs h i \<longrightarrow>
            length (h_reserved s) + length objs > length (h_delivered s) + unat (ring_capacity r)) \<and>
         (\<forall>n h i. c_pc s t = CLoaded n h i \<longrightarrow> h_claimed s + unat n > length (h_published s))"
proof -
  obtain k where k: "r_mask r = 2 ^ k - 1" "k \<le> 31" and inv: "conc_inv k s" and use: "proper_use s"
    using created_ring [OF assms(1-3)] by metis
  have cap: "unat (ring_capacity r) = 2 ^ k - 1"
    using k unat_pow2_mask [of k, where 'a = 32] by (simp add: ring_capacity_def)
  show ?thesis unfolding cap
    using refused_enqueue [OF inv use] gives_up_enqueue [OF assms(4) _ assms(5)]
      refused_dequeue [OF inv use] gives_up_dequeue [OF assms(4) _ assms(5)] by blast
qed

theorem concurrent_ring_refusals_witness:
  "\<exists>s. ring_reach example_ring s \<and> c_pc s 3 = CLoaded 3 1 1 \<and> ring_step s (set_pc 3 Idle s) \<and> h_claimed s + 3 > length (h_published s)"
proof -
  obtain s where s: "ring_reach example_ring s" "c_pc s 3 = CLoaded 3 1 1" "r_prod_tail (c_ring s) = 2"
    using example_reached by blast
  have "(3 :: u32) > r_prod_tail (c_ring s) - 1" using s(3) by simp
  then have step: "ring_step s (set_pc 3 Idle s)" by (rule ring_step.deq_empty [OF s(2)])
  have "c_pc (set_pc 3 Idle s) 3 = Idle" by (simp add: set_pc_def)
  moreover have "unat (3 :: u32) = 3" by simp
  ultimately have "h_claimed s + 3 > length (h_published s)"
    using concurrent_ring_refusals [OF example_created _ s(1) step, of 3] s(2) by fastforce
  with s step show ?thesis by blast
qed

end
