(* ===== verification/Object_Pool.thy ===== *)
theory Object_Pool
  imports Ring_Buffer
begin

text \<open>
  The fixed-size object pool of \<^verbatim>\<open>src/src/daqiri_pool.h\<close>: a slab of \<open>n\<close> elements whose free
  elements sit in a pointer ring. Elements are 64-bit addresses. The last part states what a
  pool promises its clients as the locale \<open>element_pool\<close> and shows that this pool keeps it, by way
  of the ring's own contract.
\<close>

unbundle bit_operations_syntax

section \<open>Model\<close>

record ObjectPool =
  op_base :: u64
  op_free :: "u64 Ring"
  op_n :: u32
  op_stride :: u64

definition pool_stride :: "u64 \<Rightarrow> u64" where
  "pool_stride elt_size = (elt_size + 64 - 1) AND NOT (64 - 1)"

definition pool_elt :: "u64 \<Rightarrow> u64 \<Rightarrow> nat \<Rightarrow> u64" where
  "pool_elt base stride i = base + of_nat i * stride"

text \<open>The allocations are arguments: whether \<^verbatim>\<open>new (std::nothrow)\<close> succeeded, the slab that
  \<^verbatim>\<open>posix_memalign\<close> returned, and the ring's memory. \<open>Some None\<close> is a null pointer, \<open>None\<close> a call
  that never returns.\<close>

definition pool_create ::
  "bool \<Rightarrow> u64 option \<Rightarrow> (u32 \<Rightarrow> u64) option \<Rightarrow> u32 \<Rightarrow> u64 \<Rightarrow> ObjectPool option option" where
  "pool_create new_ok slab ringmem n elt_size =
     (if \<not> new_ok then Some None
      else
        let stride = pool_stride elt_size in
        case slab of
          None \<Rightarrow> Some None
        | Some base \<Rightarrow>
            (case ring_create ringmem (n + 1) MPMC of
               None \<Rightarrow> Some None
             | Some r \<Rightarrow>
                 (case enq_list ring_enqueue r (map (pool_elt base stride) [0..<unat n]) of
                    None \<Rightarrow> None
                  | Some r' \<Rightarrow>
                      Some (Some \<lparr>op_base = base, op_free = r', op_n = n, op_stride = stride\<rparr>))))"

definition pool_get :: "ObjectPool \<Rightarrow> (u64 option \<times> ObjectPool) option" where
  "pool_get p =
     (case ring_dequeue (op_free p) of
        None \<Rightarrow> None
      | Some (obj, r) \<Rightarrow> Some (obj, p\<lparr>op_free := r\<rparr>))"

text \<open>The flag is the one the assertion of \<^verbatim>\<open>put\<close> checks.\<close>

definition pool_put :: "ObjectPool \<Rightarrow> u64 \<Rightarrow> (bool \<times> ObjectPool) option" where
  "pool_put p obj =
     (case ring_enqueue (op_free p) obj of
        None \<Rightarrow> None
      | Some (ok, r) \<Rightarrow> Some (ok, p\<lparr>op_free := r\<rparr>))"

definition pool_avail_count :: "ObjectPool \<Rightarrow> u32" where
  "pool_avail_count p = ring_count (op_free p)"

definition pool_in_use_count :: "ObjectPool \<Rightarrow> u32" where
  "pool_in_use_count p = op_n p - ring_count (op_free p)"

definition pool_size :: "ObjectPool \<Rightarrow> u32" where
  "pool_size p = op_n p"

section \<open>The contract of a pool\<close>

locale element_pool =
  fixes pinv :: "'p \<Rightarrow> bool"
    and free :: "'p \<Rightarrow> 'a list"
    and elems :: "'p \<Rightarrow> 'a set"
    and get :: "'p \<Rightarrow> ('a option \<times> 'p) option"
    and put :: "'p \<Rightarrow> 'a \<Rightarrow> (bool \<times> 'p) option"
  assumes free_distinct: "pinv p \<Longrightarrow> distinct (free p)"
    and free_elems: "pinv p \<Longrightarrow> set (free p) \<subseteq> elems p"
    and finite_elems: "pinv p \<Longrightarrow> finite (elems p)"
    and get_Cons: "pinv p \<Longrightarrow> free p = x # xs \<Longrightarrow>
      \<exists>p'. get p = Some (Some x, p') \<and> pinv p' \<and> free p' = xs \<and> elems p' = elems p"
    and get_Nil: "pinv p \<Longrightarrow> free p = [] \<Longrightarrow> get p = Some (None, p)"
    and put_back: "pinv p \<Longrightarrow> x \<in> elems p \<Longrightarrow> x \<notin> set (free p) \<Longrightarrow>
      \<exists>p'. put p x = Some (True, p') \<and> pinv p' \<and> free p' = free p @ [x] \<and> elems p' = elems p"
begin

definition used :: "'p \<Rightarrow> 'a set" where
  "used p = elems p - set (free p)"

lemma card_used: "pinv p \<Longrightarrow> card (used p) = card (elems p) - length (free p)"
  unfolding used_def using free_elems free_distinct
  by (simp add: card_Diff_subset distinct_card)

lemma get_result:
  assumes "pinv p" "get p = Some (r, p')"
  shows "pinv p' \<and> elems p' = elems p \<and>
    (case r of None \<Rightarrow> p' = p \<and> used p = elems p
     | Some x \<Rightarrow> x \<in> elems p \<and> x \<notin> used p \<and> used p' = insert x (used p) \<and> free p = x # free p')"
proof (cases "free p")
  case Nil
  then show ?thesis using assms get_Nil [of p] by (auto simp: used_def)
next
  case (Cons x xs)
  then show ?thesis
    using assms get_Cons [of p x xs] free_distinct [of p] free_elems [of p] by (auto simp: used_def)
qed

lemma put_result:
  assumes "pinv p" "x \<in> used p"
  shows "\<exists>p'. put p x = Some (True, p') \<and> pinv p' \<and> elems p' = elems p
    \<and> used p' = used p - {x} \<and> free p' = free p @ [x]"
  using put_back [of p x] assms by (auto simp: used_def)

lemma get_total: "pinv p \<Longrightarrow> \<exists>r p'. get p = Some (r, p')"
  using get_Nil [of p] get_Cons [of p] by (cases "free p") force+

end

section \<open>Invariant\<close>

definition pool_elems :: "ObjectPool \<Rightarrow> u64 set" where
  "pool_elems p = pool_elt (op_base p) (op_stride p) ` {..<unat (op_n p)}"

definition pool_free :: "ObjectPool \<Rightarrow> u64 list" where
  "pool_free p = ring_items (op_free p)"

definition pool_inv :: "ObjectPool \<Rightarrow> bool" where
  "pool_inv p \<longleftrightarrow> ring_inv (op_free p) \<and> distinct (pool_free p) \<and> set (pool_free p) \<subseteq> pool_elems p
     \<and> card (pool_elems p) = unat (op_n p) \<and> unat (op_n p) \<le> ring_cap (op_free p)"

text \<open>What \<^verbatim>\<open>posix_memalign\<close> promises of a block it returns: it does not wrap around the address
  space.\<close>

definition block_ok :: "u64 \<Rightarrow> nat \<Rightarrow> bool" where
  "block_ok base bytes \<longleftrightarrow> unat base + bytes \<le> 2 ^ 64"

lemma pool_elt_unat:
  assumes "block_ok base (n * unat stride)" "i < n" "0 < stride"
  shows "unat (pool_elt base stride i) = unat base + i * unat stride"
proof -
  have "0 < unat stride" using assms(3) by (simp add: word_less_nat_alt)
  moreover have "i * unat stride + unat stride \<le> n * unat stride"
    using assms(2) by (metis Suc_leI add.commute mult_Suc mult_le_mono1)
  ultimately have lt: "unat base + i * unat stride < 2 ^ 64"
    using assms(1) by (simp add: block_ok_def)
  have "pool_elt base stride i = of_nat (unat base + i * unat stride)"
    by (simp add: pool_elt_def)
  then show ?thesis using lt by (simp add: unat_of_nat del: of_nat_add of_nat_mult)
qed

lemma pool_elt_inj:
  assumes "block_ok base (n * unat stride)" "0 < stride"
  shows "inj_on (pool_elt base stride) {..<n}"
proof (rule inj_onI)
  fix i j
  assume "i \<in> {..<n}" "j \<in> {..<n}" "pool_elt base stride i = pool_elt base stride j"
  then have "i * unat stride = j * unat stride"
    using pool_elt_unat [OF assms(1) _ assms(2)] by (metis add_left_cancel lessThan_iff)
  then show "i = j" using assms(2) by (auto simp: word_less_nat_alt)
qed

lemma pool_create_inv:
  assumes "n < 2 ^ 31" "block_ok base (unat n * unat (pool_stride elt_size))" "0 < pool_stride elt_size"
  shows "\<exists>p. pool_create True (Some base) (Some junk) n elt_size = Some (Some p) \<and> pool_inv p
    \<and> op_n p = n \<and> op_base p = base \<and> op_stride p = pool_stride elt_size
    \<and> pool_free p = map (pool_elt base (pool_stride elt_size)) [0..<unat n]"
proof -
  have n1: "n + 1 \<le> 2 ^ 31" "unat (n + 1) = Suc (unat n)"
    using assms(1) by (auto simp: word_le_nat_alt word_less_nat_alt unat_word_ariths)
  obtain r where r: "ring_create (Some junk) (n + 1) MPMC = Some r" "ring_inv r" "ring_items r = []"
    "unat n \<le> ring_cap r"
    using ring_create_inv [OF n1(1), of junk MPMC] n1(2) by auto
  let ?xs = "map (pool_elt base (pool_stride elt_size)) [0..<unat n]"
  obtain r' where r': "enq_list ring_enqueue r ?xs = Some r'" "ring_inv r'" "ring_items r' = ?xs"
    "ring_cap r' = ring_cap r"
    using ring_q.enq_list_fits [of r ?xs] r by auto
  have "inj_on (pool_elt base (pool_stride elt_size)) {..<unat n}"
    using pool_elt_inj assms(2,3) by blast
  then show ?thesis
    using r r' by (auto simp: pool_create_def Let_def pool_inv_def pool_free_def pool_elems_def
      distinct_map atLeast0LessThan card_image)
qed

interpretation obj_pool: element_pool pool_inv pool_free pool_elems pool_get pool_put
proof unfold_locales
  fix p x xs
  assume inv: "pool_inv p"
  then have r: "ring_inv (op_free p)" by (simp add: pool_inv_def)
  show "distinct (pool_free p)" "set (pool_free p) \<subseteq> pool_elems p" "finite (pool_elems p)"
    using inv by (auto simp: pool_inv_def pool_elems_def)
  show "\<exists>p'. pool_get p = Some (Some x, p') \<and> pool_inv p' \<and> pool_free p' = xs
      \<and> pool_elems p' = pool_elems p" if "pool_free p = x # xs"
    using ring_q.deq_Cons [OF r, of x xs] that inv
    by (auto simp: pool_get_def pool_free_def pool_inv_def pool_elems_def)
  show "pool_get p = Some (None, p)" if "pool_free p = []"
    using ring_q.deq_Nil [OF r] that by (simp add: pool_get_def pool_free_def)
  show "\<exists>p'. pool_put p x = Some (True, p') \<and> pool_inv p' \<and> pool_free p' = pool_free p @ [x]
      \<and> pool_elems p' = pool_elems p" if x: "x \<in> pool_elems p" "x \<notin> set (pool_free p)"
  proof -
    have "card (set (pool_free p)) < card (pool_elems p)"
      using x inv by (intro psubset_card_mono) (auto simp: pool_inv_def pool_elems_def)
    then have "length (ring_items (op_free p)) < ring_cap (op_free p)"
      using inv by (simp add: pool_inv_def pool_free_def distinct_card)
    then show ?thesis
      using ring_q.enq_room [OF r, of x] x inv
      by (auto simp: pool_put_def pool_free_def pool_inv_def pool_elems_def)
  qed
qed

lemma pool_counts:
  assumes "pool_inv p"
  shows "unat (pool_avail_count p) = length (pool_free p)"
    and "unat (pool_in_use_count p) = card (obj_pool.used p)"
proof -
  have cnt: "unat (ring_count (op_free p)) = length (pool_free p)"
    using assms by (simp add: pool_inv_def pool_free_def ring_count_items)
  then show "unat (pool_avail_count p) = length (pool_free p)" by (simp add: pool_avail_count_def)
  have "length (pool_free p) \<le> unat (op_n p)"
    using assms by (metis card_mono distinct_card obj_pool.finite_elems pool_inv_def)
  then show "unat (pool_in_use_count p) = card (obj_pool.used p)"
    using obj_pool.card_used [OF assms] cnt assms
    by (simp add: pool_in_use_count_def pool_inv_def unat_sub word_le_nat_alt)
qed

section \<open>Clients\<close>

lemma pool_stride_unat:
  assumes "unat elt_size + 63 < 2 ^ 64"
  shows "unat (pool_stride elt_size) = (unat elt_size + 63) div 64 * 64"
proof -
  have "pool_stride elt_size = (elt_size + 63) AND NOT (2 ^ 6 - 1)"
    by (simp add: pool_stride_def add.commute)
  moreover have "unat (elt_size + 63) = unat elt_size + 63"
    using assms by (simp add: unat_word_ariths)
  ultimately show ?thesis by (simp only: unat_and_not_pow2_mask) simp
qed

lemma pool_stride_ge:
  assumes "unat elt_size + 63 < 2 ^ 64"
  shows "unat elt_size \<le> unat (pool_stride elt_size)"
  unfolding pool_stride_unat [OF assms] by presburger

text \<open>A client that gives back only what it was handed: \<open>out\<close> is what it holds.\<close>

inductive pool_use :: "ObjectPool \<Rightarrow> u64 set \<Rightarrow> ObjectPool \<Rightarrow> bool" for p0 where
  start: "pool_use p0 {} p0"
| got: "pool_use p0 out p \<Longrightarrow> pool_get p = Some (Some x, p') \<Longrightarrow> pool_use p0 (insert x out) p'"
| empty: "pool_use p0 out p \<Longrightarrow> pool_get p = Some (None, p') \<Longrightarrow> pool_use p0 out p'"
| gave: "pool_use p0 out p \<Longrightarrow> x \<in> out \<Longrightarrow> pool_put p x = Some (ok, p') \<Longrightarrow> pool_use p0 (out - {x}) p'"

lemma pool_put_keeps: "pool_put p x = Some (ok, p') \<Longrightarrow>
    op_base p' = op_base p \<and> op_n p' = op_n p \<and> op_stride p' = op_stride p"
  by (auto simp: pool_put_def split: option.splits)

lemma pool_get_keeps: "pool_get p = Some (r, p') \<Longrightarrow>
    op_base p' = op_base p \<and> op_n p' = op_n p \<and> op_stride p' = op_stride p"
  by (auto simp: pool_get_def split: option.splits)

lemma pool_use_inv:
  assumes "pool_use p0 out p" "pool_inv p0" "obj_pool.used p0 = {}"
  shows "pool_inv p \<and> out = obj_pool.used p \<and> op_n p = op_n p0 \<and> op_base p = op_base p0
    \<and> op_stride p = op_stride p0"
  using assms
proof (induction rule: pool_use.induct)
  case start
  then show ?case by simp
next
  case (got out p x p')
  then show ?case using obj_pool.get_result [of p "Some x" p'] pool_get_keeps by fastforce
next
  case (empty out p p')
  then show ?case using obj_pool.get_result [of p None p'] by auto
next
  case (gave out p x ok p')
  then show ?case using obj_pool.put_result [of p x] pool_put_keeps by fastforce
qed

lemma pool_create_unused:
  assumes "pool_inv p" "pool_free p = map (pool_elt (op_base p) (op_stride p)) [0..<unat (op_n p)]"
  shows "obj_pool.used p = {}"
  using assms by (auto simp: obj_pool.used_def pool_elems_def atLeast0LessThan)

lemma pool_elts_apart:
  assumes "block_ok base (n * unat stride)" "0 < stride" "len \<le> unat stride" "i < n" "j < n"
    "pool_elt base stride i \<noteq> pool_elt base stride j"
  shows "unat (pool_elt base stride i) + len \<le> unat (pool_elt base stride j)
    \<or> unat (pool_elt base stride j) + len \<le> unat (pool_elt base stride i)"
proof -
  have step: "a * unat stride + len \<le> b * unat stride" if "a < b" for a b
  proof -
    have "a * unat stride + unat stride \<le> b * unat stride"
      using that by (metis Suc_leI add.commute mult_Suc mult_le_mono1)
    then show ?thesis using assms(3) by linarith
  qed
  have "i < j \<or> j < i" using assms(6) by (metis linorder_neqE_nat)
  then show ?thesis using step [of i j] step [of j i] assms by (auto simp: pool_elt_unat)
qed

section \<open>Properties\<close>

text \<open>C7: a pool created with fewer than \<open>2 ^ 31\<close> elements never hands out an element that is still in
  use, hands one out as long as fewer than \<open>n\<close> are in use and reports exhaustion otherwise,
  takes every outstanding element back, and its \<^verbatim>\<open>in_use_count\<close> is the number outstanding.\<close>

theorem pool_no_double_handout:
  assumes "n < 2 ^ 31" "unat elt_size + 63 < 2 ^ 64" "0 < elt_size"
    and "block_ok base (unat n * unat (pool_stride elt_size))"
    and "pool_create True (Some base) (Some junk) n elt_size = Some (Some p0)" "pool_use p0 out p"
  shows "(if card out = unat n then pool_get p = Some (None, p)
     else \<exists>x p'. pool_get p = Some (Some x, p') \<and> x \<notin> out
       \<and> (\<forall>y\<in>out. unat x + unat elt_size \<le> unat y \<or> unat y + unat elt_size \<le> unat x))
   \<and> (\<forall>y\<in>out. \<exists>p'. pool_put p y = Some (True, p')) \<and> unat (pool_in_use_count p) = card out"
proof -
  let ?st = "pool_stride elt_size"
  have ge: "unat elt_size \<le> unat ?st" using assms(2) by (rule pool_stride_ge)
  then have pos: "0 < ?st" using assms(3) by (simp add: word_less_nat_alt)
  have "pool_inv p0" "obj_pool.used p0 = {}" and p0: "op_n p0 = n" "op_base p0 = base" "op_stride p0 = ?st"
    using pool_create_inv [OF assms(1,4) pos, of junk] assms(5) pool_create_unused by auto
  then have p: "pool_inv p" "out = obj_pool.used p" "op_n p = n" "op_base p = base" "op_stride p = ?st"
    using pool_use_inv [OF assms(6)] by auto
  have card_el: "card (pool_elems p) = unat n" using p by (simp add: pool_inv_def)
  have puts: "\<forall>y\<in>out. \<exists>p'. pool_put p y = Some (True, p')"
    using obj_pool.put_result [OF p(1)] p(2) by blast
  obtain r p' where g: "pool_get p = Some (r, p')" using obj_pool.get_total [OF p(1)] by blast
  note res = obj_pool.get_result [OF p(1) g]
  show ?thesis
  proof (cases r)
    case None
    then have "card out = unat n" using res p(2) card_el by simp
    then show ?thesis using None g res puts pool_counts [OF p(1)] p(2) by simp
  next
    case (Some x)
    then have x: "x \<in> pool_elems p" "x \<notin> out" using res p(2) by auto
    have fin: "finite (pool_elems p)" using p(1) by (rule obj_pool.finite_elems)
    have sub: "out \<subseteq> pool_elems p" using p(2) by (auto simp: obj_pool.used_def)
    then have "card out < unat n" using x card_el psubset_card_mono [OF fin, of out] by auto
    moreover have "unat x + unat elt_size \<le> unat y \<or> unat y + unat elt_size \<le> unat x" if y: "y \<in> out" for y
    proof -
      obtain i j where ij: "i < unat n" "x = pool_elt base ?st i" "j < unat n" "y = pool_elt base ?st j"
        using x(1) y sub p(3-5) by (auto simp: pool_elems_def)
      then have "pool_elt base ?st i \<noteq> pool_elt base ?st j" using x(2) y by metis
      with ij show ?thesis using pool_elts_apart [OF assms(4) pos ge, of i j] by simp
    qed
    ultimately show ?thesis using Some g x puts pool_counts [OF p(1)] p(2) by auto
  qed
qed

theorem pool_no_double_handout_witness:
  "\<exists>p0 p1 x. pool_create True (Some 4096) (Some (\<lambda>_. 0)) 3 100 = Some (Some p0)
    \<and> pool_get p0 = Some (Some x, p1) \<and> pool_use p0 {x} p1
    \<and> (\<exists>y p2. pool_get p1 = Some (Some y, p2) \<and> y \<noteq> x \<and> (unat y + 100 \<le> unat x \<or> unat x + 100 \<le> unat y))
    \<and> unat (pool_in_use_count p1) = 1"
proof -
  have st: "unat (pool_stride 100) = 128" by (simp add: pool_stride_unat)
  have ok: "(3::u32) < 2 ^ 31" "unat (100::u64) + 63 < 2 ^ 64" "0 < (100::u64)"
    "block_ok 4096 (unat (3::u32) * unat (pool_stride 100))"
    by (simp_all add: block_ok_def st)
  have pos: "0 < pool_stride 100" using st by (simp add: word_less_nat_alt)
  obtain p0 where p0: "pool_create True (Some 4096) (Some (\<lambda>_. 0)) 3 100 = Some (Some p0)"
    "pool_inv p0"
    using pool_create_inv [OF ok(1) ok(4) pos, of "\<lambda>_. 0"] by blast
  note main = pool_no_double_handout [OF ok p0(1)]
  obtain x p1 where x: "pool_get p0 = Some (Some x, p1)"
    using main [OF pool_use.start] by auto
  then have u: "pool_use p0 {x} p1" using pool_use.got [OF pool_use.start, of p0 x p1] by simp
  show ?thesis using main [OF u] p0(1) x u by fastforce
qed

end
