(* ===== verification/Shared_Tx.thy ===== *)
theory Shared_Tx
  imports Object_Pool
begin

text \<open>
  Reference-counted transmit buffers, \<^verbatim>\<open>src/src/engines/ibverbs/shared_tx.h\<close>. Control blocks
  live in a heap indexed by their address; the pools of a \<^verbatim>\<open>SharedTxState\<close> are numbered, and the
  number stands for the pointer \<^verbatim>\<open>SharedTxBuffer::pool\<close>. A result \<open>None\<close> is a failed assertion or
  a null dereference.
\<close>

section \<open>Model\<close>

record SharedTxBuffer =
  stb_references :: u32
  stb_pool :: nat
  stb_address :: u64
  stb_capacity :: u32
  stb_cpu_accessible :: bool

type_synonym SharedTxPool = "ObjectPool option"

record SharedTxState =
  stx_heap :: "u64 \<Rightarrow> SharedTxBuffer"
  stx_pools :: "SharedTxPool list"
  stx_ledger :: "u64 option list list"
  stx_retired :: u64
  stx_failed :: bool

text \<open>\<^verbatim>\<open>sizeof(SharedTxBuffer)\<close> on the LP64 targets of the project.\<close>

definition sizeof_SharedTxBuffer :: u64 where
  "sizeof_SharedTxBuffer = 32"

definition stx_control :: "nat \<Rightarrow> u64 \<Rightarrow> u32 \<Rightarrow> u32 \<Rightarrow> bool \<Rightarrow> nat \<Rightarrow> SharedTxBuffer" where
  "stx_control self base stride capacity cpu i =
     \<lparr>stb_references = 0, stb_pool = self, stb_address = base + of_nat i * ucast stride,
      stb_capacity = capacity, stb_cpu_accessible = cpu\<rparr>"

fun stx_init_loop ::
  "nat \<Rightarrow> u64 \<Rightarrow> u32 \<Rightarrow> u32 \<Rightarrow> bool \<Rightarrow> nat \<Rightarrow> nat \<Rightarrow> ObjectPool \<Rightarrow> (u64 \<Rightarrow> SharedTxBuffer) \<Rightarrow> u64 list
   \<Rightarrow> (bool \<times> ObjectPool \<times> (u64 \<Rightarrow> SharedTxBuffer) \<times> u64 list) option" where
  "stx_init_loop self base stride capacity cpu i 0 pool heap controls = Some (True, pool, heap, controls)"
| "stx_init_loop self base stride capacity cpu i (Suc n) pool heap controls =
     (case pool_get pool of
        None \<Rightarrow> None
      | Some (None, pool') \<Rightarrow> Some (False, pool', heap, controls)
      | Some (Some raw, pool') \<Rightarrow>
          stx_init_loop self base stride capacity cpu (Suc i) n pool'
            (heap(raw := stx_control self base stride capacity cpu i))
            (controls @ [raw]))"

definition stx_initialize ::
  "nat \<Rightarrow> (bool \<times> u64 option \<times> (u32 \<Rightarrow> u64) option) \<Rightarrow> SharedTxPool \<Rightarrow> (u64 \<Rightarrow> SharedTxBuffer)
   \<Rightarrow> u64 \<Rightarrow> u32 \<Rightarrow> u32 \<Rightarrow> u32 \<Rightarrow> bool \<Rightarrow> (bool \<times> SharedTxPool \<times> (u64 \<Rightarrow> SharedTxBuffer)) option" where
  "stx_initialize self allocs controls0 heap base stride capacity cnt cpu =
     (if controls0 \<noteq> None \<or> base = 0 \<or> capacity = 0 \<or> stride < capacity \<or> cnt = 0 \<or> cnt \<ge> - 1
      then Some (False, controls0, heap)
      else
        (case allocs of (new_ok, slab, ringmem) \<Rightarrow>
          (case pool_create new_ok slab ringmem cnt sizeof_SharedTxBuffer of
             None \<Rightarrow> None
           | Some None \<Rightarrow> Some (False, None, heap)
           | Some (Some pool) \<Rightarrow>
               (case stx_init_loop self base stride capacity cpu 0 (unat cnt) pool heap [] of
                  None \<Rightarrow> None
                | Some (False, pool', heap', _) \<Rightarrow> Some (False, Some pool', heap')
                | Some (True, pool', heap', controls) \<Rightarrow>
                    (case enq_list pool_put pool' controls of
                       None \<Rightarrow> None
                     | Some pool'' \<Rightarrow> Some (True, Some pool'', heap'))))))"

definition stx_retain :: "SharedTxState \<Rightarrow> u64 \<Rightarrow> bool \<times> SharedTxState" where
  "stx_retain st b =
     (let old = stb_references (stx_heap st b) in
      if old \<noteq> 0 \<and> old \<noteq> - 1
      then (True, st\<lparr>stx_heap := (stx_heap st)(b := (stx_heap st b)\<lparr>stb_references := old + 1\<rparr>)\<rparr>)
      else (False, st))"

definition stx_release :: "SharedTxState \<Rightarrow> u64 \<Rightarrow> SharedTxState option" where
  "stx_release st b =
     (let old = stb_references (stx_heap st b);
          i = stb_pool (stx_heap st b);
          st1 = st\<lparr>stx_heap := (stx_heap st)(b := (stx_heap st b)\<lparr>stb_references := old - 1\<rparr>)\<rparr>
      in if old = 0 then None
         else if old = 1 then
           (if i < length (stx_pools st1) then
              (case stx_pools st1 ! i of
                 None \<Rightarrow> None
               | Some pool \<Rightarrow>
                   (case pool_put pool b of
                      None \<Rightarrow> None
                    | Some (ok, pool') \<Rightarrow>
                        if ok then Some (st1\<lparr>stx_pools := (stx_pools st1)[i := Some pool']\<rparr>) else None))
            else None)
         else Some st1)"

definition stx_acquire :: "SharedTxState \<Rightarrow> nat \<Rightarrow> (u64 option \<times> SharedTxState) option" where
  "stx_acquire st i =
     (case stx_pools st ! i of
        None \<Rightarrow> None
      | Some pool \<Rightarrow>
          (case pool_get pool of
             None \<Rightarrow> None
           | Some (None, pool') \<Rightarrow> Some (None, st\<lparr>stx_pools := (stx_pools st)[i := Some pool']\<rparr>)
           | Some (Some raw, pool') \<Rightarrow>
               Some (Some raw,
                 st\<lparr>stx_pools := (stx_pools st)[i := Some pool'],
                    stx_heap := (stx_heap st)(raw := (stx_heap st raw)\<lparr>stb_references := 1\<rparr>)\<rparr>)))"

definition stx_pool_available :: "SharedTxPool \<Rightarrow> u32" where
  "stx_pool_available c = pool_avail_count (the c)"

definition stx_pool_in_use :: "SharedTxPool \<Rightarrow> u32" where
  "stx_pool_in_use c = pool_in_use_count (the c)"

definition stx_idle_storage :: "SharedTxState \<Rightarrow> bool" where
  "stx_idle_storage st \<longleftrightarrow> list_all (\<lambda>pool. stx_pool_in_use pool = 0) (stx_pools st)"

definition stx_available :: "SharedTxState \<Rightarrow> u32 \<Rightarrow> bool" where
  "stx_available st packets \<longleftrightarrow> list_all (\<lambda>pool. \<not> stx_pool_available pool < packets) (stx_pools st)"

primrec stx_retire_packet :: "nat \<Rightarrow> nat list \<Rightarrow> SharedTxState \<Rightarrow> SharedTxState option" where
  "stx_retire_packet idx [] st = Some st"
| "stx_retire_packet idx (k # ks) st =
     (case stx_ledger st ! idx ! k of
        None \<Rightarrow> stx_retire_packet idx ks st
      | Some buffer \<Rightarrow>
          (case stx_release st buffer of
             None \<Rightarrow> None
           | Some st' \<Rightarrow>
               stx_retire_packet idx ks
                 (st'\<lparr>stx_ledger := (stx_ledger st')[idx := (stx_ledger st' ! idx)[k := None]]\<rparr>)))"

function stx_retire_loop :: "u64 \<Rightarrow> SharedTxState \<Rightarrow> SharedTxState option" where
  "stx_retire_loop completed st =
     (if stx_retired st < completed then
        let idx = unat (stx_retired st mod of_nat (length (stx_ledger st))) in
        case stx_retire_packet idx [0..<length (stx_ledger st ! idx)] st of
          None \<Rightarrow> None
        | Some st' \<Rightarrow> stx_retire_loop completed (st'\<lparr>stx_retired := stx_retired st + 1\<rparr>)
      else Some st)"
  by pat_completeness auto
termination
proof (relation "measure (\<lambda>(completed, st). unat completed - unat (stx_retired st))", goal_cases)
  case 1
  then show ?case by simp
next
  case (2 completed st idx st')
  then have "stx_retired st < completed" by simp
  then show ?case by (simp add: unat_inc word_less_nat_alt)
qed

definition stx_retire :: "SharedTxState \<Rightarrow> u64 \<Rightarrow> SharedTxState option" where
  "stx_retire st completed =
     (if completed \<ge> stx_retired st
         \<and> completed - stx_retired st \<le> of_nat (length (stx_ledger st))
      then stx_retire_loop completed st
      else None)"

declare stx_retire_loop.simps [simp del]

section \<open>Invariant\<close>

text \<open>\<open>c b\<close> is the number of references held on \<open>b\<close>. Every control block of pool \<open>i\<close> names that
  pool, carries exactly that count, and is on the free list exactly when it is 0.\<close>

definition pool_ok :: "(u64 \<Rightarrow> SharedTxBuffer) \<Rightarrow> (u64 \<Rightarrow> nat) \<Rightarrow> nat \<Rightarrow> ObjectPool \<Rightarrow> bool" where
  "pool_ok heap c i p \<longleftrightarrow> pool_inv p \<and>
     (\<forall>b\<in>pool_elems p. stb_pool (heap b) = i \<and> unat (stb_references (heap b)) = c b
        \<and> (b \<in> set (pool_free p) \<longleftrightarrow> c b = 0))"

definition stx_ok :: "(u64 \<Rightarrow> nat) \<Rightarrow> SharedTxState \<Rightarrow> bool" where
  "stx_ok c st \<longleftrightarrow>
     (\<forall>i<length (stx_pools st). \<exists>p. stx_pools st ! i = Some p \<and> pool_ok (stx_heap st) c i p)
     \<and> (\<forall>b. 0 < c b \<longrightarrow> (\<exists>i<length (stx_pools st). b \<in> pool_elems (the (stx_pools st ! i))))"

definition stx_refs :: "u64 multiset \<Rightarrow> SharedTxState \<Rightarrow> u64 \<Rightarrow> nat" where
  "stx_refs A st b = count A b + count (mset (concat (stx_ledger st))) (Some b)"

text \<open>\<open>A\<close> are the references the application holds; the ledger holds the others.\<close>

definition stx_inv :: "u64 multiset \<Rightarrow> SharedTxState \<Rightarrow> bool" where
  "stx_inv A st \<longleftrightarrow> stx_ok (stx_refs A st) st"

lemma stx_inv_retired [simp]: "stx_inv A (st\<lparr>stx_retired := n\<rparr>) = stx_inv A st"
proof -
  have "stx_refs A (st\<lparr>stx_retired := n\<rparr>) = stx_refs A st" by (rule ext) (simp add: stx_refs_def)
  then show ?thesis by (simp add: stx_inv_def stx_ok_def)
qed

lemma stx_ok_pool:
  assumes "stx_ok c st" "0 < c b"
  obtains i p where "i < length (stx_pools st)" "stx_pools st ! i = Some p" "pool_ok (stx_heap st) c i p"
    "b \<in> pool_elems p"
  using assms unfolding stx_ok_def by (metis option.sel)

lemma stx_ok_update:
  assumes ok: "stx_ok c st" and i: "i < length (stx_pools st)" "stx_pools st ! i = Some p"
    and b: "b \<in> pool_elems p" and el: "pool_elems p' = pool_elems p"
    and new: "pool_ok ((stx_heap st)(b := buf)) (c(b := v)) i p'"
    and st': "stx_heap st' = (stx_heap st)(b := buf)" "stx_pools st' = (stx_pools st)[i := Some p']"
  shows "stx_ok (c(b := v)) st'"
  unfolding stx_ok_def
proof (intro conjI allI impI)
  fix j
  assume j: "j < length (stx_pools st')"
  show "\<exists>q. stx_pools st' ! j = Some q \<and> pool_ok (stx_heap st') (c(b := v)) j q"
  proof (cases "j = i")
    case True
    then show ?thesis using new st' i by simp
  next
    case False
    then obtain q where q: "stx_pools st ! j = Some q" "pool_ok (stx_heap st) c j q"
      using ok j st' by (auto simp: stx_ok_def)
    have "pool_ok (stx_heap st) c i p" using ok i by (auto simp: stx_ok_def)
    then have "b \<notin> pool_elems q" using q(2) b False by (auto simp: pool_ok_def)
    then have "pool_ok (stx_heap st') (c(b := v)) j q" using q(2) st' by (auto simp: pool_ok_def)
    then show ?thesis using q st' False by simp
  qed
next
  fix a
  assume "0 < (c(b := v)) a"
  then have "a = b \<or> 0 < c a" by (auto split: if_splits)
  then obtain j where "j < length (stx_pools st)" "a \<in> pool_elems (the (stx_pools st ! j))"
    using ok i b unfolding stx_ok_def by (metis option.sel)
  then have "j < length (stx_pools st') \<and> a \<in> pool_elems (the (stx_pools st' ! j))"
    using i el by (cases "j = i") (simp_all add: st')
  then show "\<exists>j<length (stx_pools st'). a \<in> pool_elems (the (stx_pools st' ! j))" by blast
qed

lemma stx_pools_same: "stx_pools st ! i = Some p \<Longrightarrow> (stx_pools st)[i := Some p] = stx_pools st"
  by (metis list_update_id)

lemma stx_release_ok:
  assumes ok: "stx_ok c st" and held: "0 < c b"
  shows "\<exists>st'. stx_release st b = Some st' \<and> stx_ok (c(b := c b - 1)) st'
    \<and> stx_ledger st' = stx_ledger st \<and> stx_retired st' = stx_retired st"
proof -
  obtain i p where i: "i < length (stx_pools st)" "stx_pools st ! i = Some p"
    and pok: "pool_ok (stx_heap st) c i p" and b: "b \<in> pool_elems p"
    using stx_ok_pool [OF ok held] .
  let ?h = "stx_heap st b"
  have h: "stb_pool ?h = i" "unat (stb_references ?h) = c b" "b \<notin> set (pool_free p)" "pool_inv p"
    using pok b held by (auto simp: pool_ok_def)
  have nz: "stb_references ?h \<noteq> 0" using h(2) held by (auto simp: unat_eq_zero [symmetric])
  then have dec: "unat (stb_references ?h - 1) = c b - 1" using h(2) by (simp add: unat_minus_one)
  show ?thesis
  proof (cases "stb_references ?h = 1")
    case True
    then have "c b = 1" using h(2) by simp
    have "b \<in> obj_pool.used p" using b h(3) by (simp add: obj_pool.used_def)
    then obtain p' where p': "pool_put p b = Some (True, p')" "pool_inv p'" "pool_elems p' = pool_elems p"
      "pool_free p' = pool_free p @ [b]"
      using obj_pool.put_result [OF h(4), of b] by auto
    have "pool_ok ((stx_heap st)(b := ?h\<lparr>stb_references := 0\<rparr>)) (c(b := 0)) i p'"
      using pok p' \<open>c b = 1\<close> by (auto simp: pool_ok_def)
    from stx_ok_update [OF ok i b p'(3) this]
    show ?thesis using True h p' i \<open>c b = 1\<close> by (simp add: stx_release_def Let_def)
  next
    case False
    then have "1 < c b" using h(2) held by (metis less_one linorder_neqE_nat not_less_zero unat_1 unsigned_word_eqI)
    then have "pool_ok ((stx_heap st)(b := ?h\<lparr>stb_references := stb_references ?h - 1\<rparr>)) (c(b := c b - 1)) i p"
      using pok dec by (auto simp: pool_ok_def)
    from stx_ok_update [OF ok i b refl this]
    show ?thesis using False nz stx_pools_same [OF i(2)] by (simp add: stx_release_def Let_def)
  qed
qed

lemma stx_retain_ok:
  assumes ok: "stx_ok c st" and held: "0 < c b" "c b < 2 ^ 32 - 1"
  shows "\<exists>st'. stx_retain st b = (True, st') \<and> stx_ok (c(b := Suc (c b))) st' \<and> stx_ledger st' = stx_ledger st"
proof -
  obtain i p where i: "i < length (stx_pools st)" "stx_pools st ! i = Some p"
    and pok: "pool_ok (stx_heap st) c i p" and b: "b \<in> pool_elems p"
    using stx_ok_pool [OF ok held(1)] .
  let ?h = "stx_heap st b"
  have h: "unat (stb_references ?h) = c b" using pok b by (auto simp: pool_ok_def)
  have nz: "stb_references ?h \<noteq> 0" using h held by (auto simp: unat_eq_zero [symmetric])
  have "unat (- 1 :: u32) = 2 ^ 32 - 1" by (simp add: unsigned_minus_1_eq_mask mask_eq_exp_minus_1)
  then have lt: "stb_references ?h < - 1" using h held by (simp only: word_less_nat_alt)
  then have nm: "stb_references ?h \<noteq> - 1" by auto
  from lt have "unat (stb_references ?h + 1) = Suc (c b)" using h by (simp add: unat_inc)
  then have "pool_ok ((stx_heap st)(b := ?h\<lparr>stb_references := stb_references ?h + 1\<rparr>)) (c(b := Suc (c b))) i p"
    using pok held by (auto simp: pool_ok_def)
  from stx_ok_update [OF ok i b refl this]
  show ?thesis using nz nm stx_pools_same [OF i(2)] by (simp add: stx_retain_def Let_def)
qed

lemma stx_acquire_ok:
  assumes ok: "stx_ok c st" and i: "i < length (stx_pools st)"
  shows "\<exists>p r st'. stx_pools st ! i = Some p \<and> stx_acquire st i = Some (r, st') \<and> stx_ledger st' = stx_ledger st
    \<and> (case r of None \<Rightarrow> st' = st \<and> (\<forall>b\<in>pool_elems p. 0 < c b)
       | Some b \<Rightarrow> b \<in> pool_elems p \<and> c b = 0 \<and> stx_ok (c(b := 1)) st')"
proof -
  obtain p where p: "stx_pools st ! i = Some p" and pok: "pool_ok (stx_heap st) c i p"
    using ok i by (auto simp: stx_ok_def)
  then have inv: "pool_inv p" by (simp add: pool_ok_def)
  obtain r p' where g: "pool_get p = Some (r, p')" using obj_pool.get_total [OF inv] by blast
  note res = obj_pool.get_result [OF inv g]
  show ?thesis
  proof (cases r)
    case None
    then have "p' = p" "\<forall>b\<in>pool_elems p. b \<notin> set (pool_free p)"
      using res by (auto simp: obj_pool.used_def)
    then show ?thesis using None g p pok stx_pools_same [OF p] by (auto simp: stx_acquire_def pool_ok_def)
  next
    case (Some b)
    then have b: "b \<in> pool_elems p" "pool_free p = b # pool_free p'" "pool_elems p' = pool_elems p"
      "pool_inv p'" using res by auto
    have "distinct (pool_free p)" using inv by (rule obj_pool.free_distinct)
    then have "pool_ok ((stx_heap st)(b := (stx_heap st b)\<lparr>stb_references := 1\<rparr>)) (c(b := 1)) i p'"
      using pok b by (auto simp: pool_ok_def)
    from stx_ok_update [OF ok i p b(1) b(3) this]
    show ?thesis using Some g p b pok by (auto simp: stx_acquire_def pool_ok_def)
  qed
qed

section \<open>Retirement\<close>

lemma mset_concat_update:
  assumes "i < length xss" "k < length (xss ! i)"
  shows "mset (concat (xss[i := (xss ! i)[k := v]])) + {#xss ! i ! k#} = add_mset v (mset (concat xss))"
  using assms
proof (induction xss arbitrary: i)
  case Nil
  then show ?case by simp
next
  case (Cons xs xss)
  show ?case
  proof (cases i)
    case 0
    then show ?thesis using Cons.prems by (simp add: mset_update)
  next
    case (Suc j)
    then show ?thesis using Cons.IH [of j] Cons.prems by simp
  qed
qed

lemma stx_refs_clear:
  assumes "i < length (stx_ledger st)" "k < length (stx_ledger st ! i)" "stx_ledger st ! i ! k = Some b"
    "stx_ledger st' = (stx_ledger st)[i := (stx_ledger st ! i)[k := None]]"
  shows "stx_refs A st' = (stx_refs A st)(b := stx_refs A st b - 1)" "0 < stx_refs A st b"
proof -
  have eq: "mset (concat (stx_ledger st')) + {#Some b#} = add_mset None (mset (concat (stx_ledger st)))"
    using mset_concat_update [OF assms(1,2), of None] assms(3,4) by simp
  have "count (mset (concat (stx_ledger st'))) (Some x) + (if x = b then 1 else 0)
      = count (mset (concat (stx_ledger st))) (Some x)" for x
    using arg_cong [OF eq, of "\<lambda>m. count m (Some x)"] by (simp split: if_splits)
  then have cnt: "stx_refs A st' x + (if x = b then 1 else 0) = stx_refs A st x" for x
    by (simp add: stx_refs_def add.assoc)
  show "0 < stx_refs A st b" using cnt [of b] by simp
  show "stx_refs A st' = (stx_refs A st)(b := stx_refs A st b - 1)"
  proof
    fix x
    show "stx_refs A st' x = ((stx_refs A st)(b := stx_refs A st b - 1)) x" using cnt [of x] by auto
  qed
qed

abbreviation clear_slots :: "nat list \<Rightarrow> 'a option list \<Rightarrow> 'a option list" where
  "clear_slots ks pk \<equiv> fold (\<lambda>k pk. pk[k := None]) ks pk"

lemma clear_slots_length [simp]: "length (clear_slots ks pk) = length pk"
  by (induction ks arbitrary: pk) simp_all

lemma clear_slots_nth:
  "j < length pk \<Longrightarrow> clear_slots ks pk ! j = (if j \<in> set ks then None else pk ! j)"
  by (induction ks arbitrary: pk) (auto simp: nth_list_update)

lemma clear_slots_all: "clear_slots [0..<length pk] pk = replicate (length pk) None"
  by (rule nth_equalityI) (simp_all add: clear_slots_nth)

lemma stx_retire_packet_inv:
  assumes "stx_inv A st" "idx < length (stx_ledger st)" "\<forall>k\<in>set ks. k < length (stx_ledger st ! idx)"
  shows "\<exists>st'. stx_retire_packet idx ks st = Some st' \<and> stx_inv A st' \<and> stx_retired st' = stx_retired st
    \<and> stx_ledger st' = (stx_ledger st)[idx := clear_slots ks (stx_ledger st ! idx)]"
  using assms
proof (induction ks arbitrary: st)
  case Nil
  then show ?case by simp
next
  case (Cons k ks)
  show ?case
  proof (cases "stx_ledger st ! idx ! k")
    case None
    then have "(stx_ledger st ! idx)[k := None] = stx_ledger st ! idx" by (metis list_update_id)
    then show ?thesis using Cons.IH [of st] Cons.prems None by simp
  next
    case (Some b)
    let ?clr = "\<lambda>s. s\<lparr>stx_ledger := (stx_ledger s)[idx := (stx_ledger s ! idx)[k := None]]\<rparr>"
    have k: "k < length (stx_ledger st ! idx)" using Cons.prems by simp
    have pos: "0 < stx_refs A st b" using stx_refs_clear(2) [OF Cons.prems(2) k Some, of "?clr st" A] by simp
    obtain s where s: "stx_release st b = Some s" "stx_ok ((stx_refs A st)(b := stx_refs A st b - 1)) s"
      "stx_ledger s = stx_ledger st" "stx_retired s = stx_retired st"
      using stx_release_ok [of "stx_refs A st" st b] pos Cons.prems(1) by (auto simp: stx_inv_def)
    have "stx_refs A (?clr s) = (stx_refs A st)(b := stx_refs A st b - 1)"
      using s(3) by (intro stx_refs_clear(1) [OF Cons.prems(2) k Some]) simp
    then have "stx_inv A (?clr s)" using s(2) by (simp add: stx_inv_def stx_ok_def)
    then show ?thesis
      using Cons.IH [of "?clr s"] Cons.prems s Some by auto
  qed
qed

lemma unat_mod_of_nat_u64:
  assumes "0 < n" "n < 2 ^ 64"
  shows "unat ((x::u64) mod of_nat n) = unat x mod n"
  using assms by (simp add: unat_mod_distrib unat_of_nat)

text \<open>The ledger after retiring: slot \<open>j\<close> is empty when some retired number selects it.\<close>

definition ledger_cleared :: "nat \<Rightarrow> nat \<Rightarrow> 'a option list list \<Rightarrow> 'a option list list \<Rightarrow> bool" where
  "ledger_cleared lo hi xss yss \<longleftrightarrow> length yss = length xss \<and>
     (\<forall>j<length xss. yss ! j =
        (if \<exists>t. lo \<le> t \<and> t < hi \<and> t mod length xss = j then replicate (length (xss ! j)) None else xss ! j))"

lemma ledger_cleared_step:
  assumes "lo < hi" "0 < length xss"
    and "ledger_cleared (Suc lo) hi (xss[lo mod length xss := replicate (length (xss ! (lo mod length xss))) None]) yss"
  shows "ledger_cleared lo hi xss yss"
proof -
  have split: "(\<exists>t. lo \<le> t \<and> t < hi \<and> t mod n = j) \<longleftrightarrow> lo mod n = j \<or> (\<exists>t. Suc lo \<le> t \<and> t < hi \<and> t mod n = j)"
    for n j using assms(1) by (metis Suc_leD Suc_leI le_neq_implies_less order_refl)
  let ?i = "lo mod length xss"
  have len: "length (xss[?i := replicate (length (xss ! ?i)) None] ! j) = length (xss ! j)" for j
    using assms(2) by (cases "j = ?i") simp_all
  have "yss ! j = (if \<exists>t. lo \<le> t \<and> t < hi \<and> t mod length xss = j then replicate (length (xss ! j)) None
      else xss ! j)" if "j < length xss" for j
    using assms(2,3) that unfolding ledger_cleared_def split
    by (cases "j = ?i") (auto simp: len)
  then show ?thesis using assms(3) by (simp add: ledger_cleared_def)
qed

lemma stx_retire_loop_inv:
  assumes "stx_inv A st" "stx_retired st \<le> completed" "length (stx_ledger st) < 2 ^ 64"
    "stx_retired st < completed \<longrightarrow> 0 < length (stx_ledger st)"
  shows "\<exists>st'. stx_retire_loop completed st = Some st' \<and> stx_inv A st' \<and> stx_retired st' = completed
    \<and> ledger_cleared (unat (stx_retired st)) (unat completed) (stx_ledger st) (stx_ledger st')"
  using assms
proof (induction completed st rule: stx_retire_loop.induct)
  case (1 completed st)
  show ?case
  proof (cases "stx_retired st < completed")
    case False
    then show ?thesis using 1 by (auto simp: stx_retire_loop.simps [of completed st] ledger_cleared_def)
  next
    case True
    let ?n = "length (stx_ledger st)"
    have n: "0 < ?n" using 1 True by blast
    have mod: "unat (stx_retired st mod of_nat ?n) = unat (stx_retired st) mod ?n"
      using n 1(4) by (rule unat_mod_of_nat_u64)
    define idx where "idx = unat (stx_retired st) mod ?n"
    have idx: "idx < ?n" using n by (simp add: idx_def)
    obtain s where s: "stx_retire_packet idx [0..<length (stx_ledger st ! idx)] st = Some s" "stx_inv A s"
      "stx_retired s = stx_retired st"
      "stx_ledger s = (stx_ledger st)[idx := replicate (length (stx_ledger st ! idx)) None]"
      using stx_retire_packet_inv [OF 1(2) idx, of "[0..<length (stx_ledger st ! idx)]"]
      unfolding clear_slots_all by auto
    let ?s = "s\<lparr>stx_retired := stx_retired st + 1\<rparr>"
    have inc: "unat (stx_retired st + 1) = Suc (unat (stx_retired st))" using True by (rule unat_inc)
    have s1: "stx_retire_packet (unat (stx_retired st mod of_nat ?n))
        [0..<length (stx_ledger st ! unat (stx_retired st mod of_nat ?n))] st = Some s"
      using s(1) by (simp only: mod idx_def)
    have inv: "stx_inv A ?s" using s(2) by simp
    have le: "stx_retired ?s \<le> completed" using True inc by (simp add: word_le_nat_alt word_less_nat_alt)
    have "length (stx_ledger ?s) = ?n" using s(4) by simp
    with 1(4) n have len: "length (stx_ledger ?s) < 2 ^ 64"
      "stx_retired ?s < completed \<longrightarrow> 0 < length (stx_ledger ?s)"
      by (simp_all only: simp_thms)
    obtain st' where st': "stx_retire_loop completed ?s = Some st'" "stx_inv A st'"
      "stx_retired st' = completed"
      "ledger_cleared (unat (stx_retired ?s)) (unat completed) (stx_ledger ?s) (stx_ledger st')"
      using 1(1) [OF True refl s1 inv le len] by blast
    have "ledger_cleared (unat (stx_retired st)) (unat completed) (stx_ledger st) (stx_ledger st')"
    proof (rule ledger_cleared_step)
      show "unat (stx_retired st) < unat completed" using True by (simp add: word_less_nat_alt)
      show "0 < length (stx_ledger st)" by (rule n)
      show "ledger_cleared (Suc (unat (stx_retired st))) (unat completed)
          ((stx_ledger st)[unat (stx_retired st) mod ?n :=
             replicate (length (stx_ledger st ! (unat (stx_retired st) mod ?n))) None]) (stx_ledger st')"
        using st'(4) s(4) inc by (simp add: idx_def)
    qed
    moreover have "stx_retire_loop completed st = Some st'"
      by (subst stx_retire_loop.simps) (simp only: True s1 st'(1) Let_def if_True option.case)
    ultimately show ?thesis using st'(2,3) by blast
  qed
qed

lemma stx_pool_idle:
  assumes "pool_ok heap c i p"
  shows "stx_pool_in_use (Some p) = 0 \<longleftrightarrow> (\<forall>b\<in>pool_elems p. c b = 0)"
proof -
  have inv: "pool_inv p" using assms by (simp add: pool_ok_def)
  have "unat (pool_in_use_count p) = card (obj_pool.used p)" using inv by (rule pool_counts)
  moreover have "finite (obj_pool.used p)"
    using obj_pool.finite_elems [OF inv] by (simp add: obj_pool.used_def)
  ultimately have "stx_pool_in_use (Some p) = 0 \<longleftrightarrow> obj_pool.used p = {}"
    by (metis card_0_eq option.sel stx_pool_in_use_def unat_eq_zero)
  then show ?thesis using assms by (auto simp: pool_ok_def obj_pool.used_def)
qed

section \<open>Initialisation\<close>

primrec upd_list :: "(nat \<Rightarrow> 'b) \<Rightarrow> nat \<Rightarrow> 'a list \<Rightarrow> ('a \<Rightarrow> 'b) \<Rightarrow> 'a \<Rightarrow> 'b" where
  "upd_list f i [] h = h"
| "upd_list f i (x # xs) h = upd_list f (Suc i) xs (h(x := f i))"

lemma upd_list_other: "x \<notin> set xs \<Longrightarrow> upd_list f i xs h x = h x"
  by (induction xs arbitrary: i h) auto

lemma upd_list_at: "distinct xs \<Longrightarrow> j < length xs \<Longrightarrow> upd_list f i xs h (xs ! j) = f (i + j)"
proof (induction xs arbitrary: i h j)
  case Nil
  then show ?case by simp
next
  case (Cons x xs)
  then show ?case by (cases j) (simp_all add: upd_list_other)
qed

lemma stx_init_loop_inv:
  assumes "pool_inv p" "n \<le> length (pool_free p)"
  shows "\<exists>p'. stx_init_loop self base stride capacity cpu i n p heap cs = Some (True, p',
      upd_list (stx_control self base stride capacity cpu) i (take n (pool_free p)) heap, cs @ take n (pool_free p))
    \<and> pool_inv p' \<and> pool_elems p' = pool_elems p \<and> pool_free p' = drop n (pool_free p)"
  using assms
proof (induction n arbitrary: i p heap cs)
  case 0
  then show ?case by simp
next
  case (Suc n)
  then obtain x xs where x: "pool_free p = x # xs" by (cases "pool_free p") auto
  obtain p' where p': "pool_get p = Some (Some x, p')" "pool_inv p'" "pool_free p' = xs"
    "pool_elems p' = pool_elems p"
    using obj_pool.get_Cons [OF Suc.prems(1) x] by auto
  have "n \<le> length (pool_free p')" using Suc.prems x p' by simp
  from Suc.IH [OF p'(2) this, of "Suc i" "heap(x := stx_control self base stride capacity cpu i)" "cs @ [x]"]
  show ?case using p' x by (simp del: fun_upd_apply)
qed

lemma pool_put_all:
  assumes "pool_inv p" "distinct xs" "set xs \<subseteq> pool_elems p" "set xs \<inter> set (pool_free p) = {}"
  shows "\<exists>p'. enq_list pool_put p xs = Some p' \<and> pool_inv p' \<and> pool_elems p' = pool_elems p
    \<and> pool_free p' = pool_free p @ xs"
  using assms
proof (induction xs arbitrary: p)
  case Nil
  then show ?case by simp
next
  case (Cons x xs)
  then obtain p1 where p1: "pool_put p x = Some (True, p1)" "pool_inv p1" "pool_free p1 = pool_free p @ [x]"
    "pool_elems p1 = pool_elems p"
    using obj_pool.put_back [of p x] by auto
  then show ?case using Cons.IH [of p1] Cons.prems by auto
qed

section \<open>Properties\<close>

text \<open>C11: retiring up to \<open>completed\<close>, within the window the assertion checks, never releases a buffer
  twice and never fails: it drops exactly the ledger's references of the packets numbered
  from \<^verbatim>\<open>retired\<close> to \<open>completed\<close>, leaves the other packets alone, and keeps every reference count equal
  to the references that remain.\<close>

theorem stx_retire_releases:
  assumes "stx_inv A st" "stx_retired st \<le> completed"
    "unat completed - unat (stx_retired st) \<le> length (stx_ledger st)" "length (stx_ledger st) < 2 ^ 64"
  shows "\<exists>st'. stx_retire st completed = Some st' \<and> stx_inv A st' \<and> stx_retired st' = completed
    \<and> ledger_cleared (unat (stx_retired st)) (unat completed) (stx_ledger st) (stx_ledger st')"
proof -
  have "unat (completed - stx_retired st) \<le> length (stx_ledger st)"
    using assms(2,3) by (simp add: unat_sub)
  then have "completed - stx_retired st \<le> of_nat (length (stx_ledger st))"
    using assms(4) by (simp add: word_le_nat_alt unat_of_nat)
  moreover have "stx_retired st < completed \<longrightarrow> 0 < length (stx_ledger st)"
    using assms(3) by (auto simp: word_less_nat_alt)
  ultimately show ?thesis
    using stx_retire_loop_inv [OF assms(1,2,4)] assms(2) by (simp add: stx_retire_def)
qed

definition demo_pool :: ObjectPool where
  "demo_pool = \<lparr>op_base = 64,
     op_free = \<lparr>r_prod_head = 2, r_prod_tail = 2, r_cons_head = 1, r_cons_tail = 1, r_mask = 3, r_size = 4,
       r_single = False, r_slots = (\<lambda>_. 0)(1 := 128)\<rparr>, op_n = 2, op_stride = 64\<rparr>"

definition demo_stx :: SharedTxState where
  "demo_stx = \<lparr>stx_heap = (\<lambda>_. stx_control 0 4096 256 256 True 0)(64 := (stx_control 0 4096 256 256 True 0)\<lparr>stb_references := 2\<rparr>),
     stx_pools = [Some demo_pool], stx_ledger = [[Some 64, None], [None, None]], stx_retired = 6, stx_failed = False\<rparr>"

lemma demo_stx_inv: "stx_inv {#64#} demo_stx"
proof -
  have free: "pool_free demo_pool = [128]" by (simp add: pool_free_def demo_pool_def ring_items_def)
  have "{..<unat (2::u32)} = {0, 1}" by auto
  then have el: "pool_elems demo_pool = {64, 128}"
    by (simp add: pool_elems_def demo_pool_def pool_elt_def insert_commute)
  have "ring_inv (op_free demo_pool)"
    by (auto simp: ring_inv_def demo_pool_def intro!: bexI [of _ 2])
  then have inv: "pool_inv demo_pool"
    unfolding pool_inv_def free el by (simp add: demo_pool_def ring_cap_def)
  have refs: "stx_refs {#64#} demo_stx = (\<lambda>_. 0)(64 := 2)"
    by (rule ext) (simp add: stx_refs_def demo_stx_def)
  have "pool_ok (stx_heap demo_stx) ((\<lambda>_. 0)(64 := 2)) 0 demo_pool"
    unfolding pool_ok_def free el using inv by (simp add: demo_stx_def stx_control_def)
  then show ?thesis
    unfolding stx_inv_def refs stx_ok_def using el by (simp add: demo_stx_def)
qed

theorem stx_retire_releases_witness:
  "\<exists>st'. stx_retire demo_stx 7 = Some st' \<and> stx_inv {#64#} st' \<and> stx_retired st' = 7
    \<and> ledger_cleared 6 7 (stx_ledger demo_stx) (stx_ledger st')"
  using stx_retire_releases [OF demo_stx_inv, of 7] by (simp add: demo_stx_def word_le_nat_alt)

text \<open>Storage is reported idle exactly when nobody holds a reference, neither the application
  nor the send ledger.\<close>

theorem stx_idle_storage_iff:
  assumes "stx_inv A st"
  shows "stx_idle_storage st \<longleftrightarrow> A = {#} \<and> (\<forall>packet\<in>set (stx_ledger st). \<forall>x\<in>set packet. x = None)"
proof -
  let ?c = "stx_refs A st"
  have pools: "\<exists>p. stx_pools st ! i = Some p \<and> pool_ok (stx_heap st) ?c i p" if "i < length (stx_pools st)" for i
    using assms that by (auto simp: stx_inv_def stx_ok_def)
  have "stx_pool_in_use (stx_pools st ! i) = 0 \<longleftrightarrow> (\<forall>b\<in>pool_elems (the (stx_pools st ! i)). ?c b = 0)"
    if "i < length (stx_pools st)" for i
    using pools [OF that] by (auto simp: stx_pool_idle)
  then have "stx_idle_storage st \<longleftrightarrow> (\<forall>i<length (stx_pools st). \<forall>b\<in>pool_elems (the (stx_pools st ! i)). ?c b = 0)"
    by (simp add: stx_idle_storage_def list_all_length)
  also have "\<dots> \<longleftrightarrow> (\<forall>b. ?c b = 0)"
  proof -
    have "\<exists>i<length (stx_pools st). b \<in> pool_elems (the (stx_pools st ! i))" if "0 < ?c b" for b
      using assms that by (simp add: stx_inv_def stx_ok_def)
    then show ?thesis by (metis neq0_conv)
  qed
  also have "\<dots> \<longleftrightarrow> A = {#} \<and> (\<forall>packet\<in>set (stx_ledger st). \<forall>x\<in>set packet. x = None)"
  proof -
    have "(\<forall>b. ?c b = 0) \<longleftrightarrow> (\<forall>b. count A b = 0) \<and> (\<forall>b. Some b \<notin> set (concat (stx_ledger st)))"
      by (auto simp: stx_refs_def)
    moreover have "(\<forall>b. count A b = 0) \<longleftrightarrow> A = {#}" by (simp add: multiset_eq_iff)
    moreover have "(\<forall>b. Some b \<notin> set (concat (stx_ledger st)))
        \<longleftrightarrow> (\<forall>packet\<in>set (stx_ledger st). \<forall>x\<in>set packet. x = None)"
    proof (intro iffI ballI)
      fix packet x
      assume "\<forall>b. Some b \<notin> set (concat (stx_ledger st))" "packet \<in> set (stx_ledger st)" "x \<in> set packet"
      then show "x = None" by (cases x) auto
    qed auto
    ultimately show ?thesis by (simp only:)
  qed
  finally show ?thesis .
qed

theorem stx_idle_storage_iff_witness:
  "stx_idle_storage demo_stx \<longleftrightarrow> {#64::u64#} = {#}
    \<and> (\<forall>packet\<in>set (stx_ledger demo_stx). \<forall>x\<in>set packet. x = None)"
  by (rule stx_idle_storage_iff [OF demo_stx_inv])

text \<open>A pool initialised for fewer than \<open>2 ^ 31\<close> slots has all its control blocks free with no
  references, the \<open>i\<close>-th handed out next controls the \<open>i\<close>-th slot of the memory region, and control
  blocks of other pools are untouched.\<close>

theorem stx_initialize_ok:
  assumes "base \<noteq> 0" "0 < capacity" "capacity \<le> stride" "0 < cnt" "cnt < 2 ^ 31"
    and "block_ok slab (unat cnt * 64)"
  shows "\<exists>p heap'. stx_initialize self (True, Some slab, Some junk) None heap base stride capacity cnt cpu
      = Some (True, Some p, heap') \<and> pool_ok heap' (\<lambda>_. 0) self p \<and> length (pool_free p) = unat cnt
    \<and> (\<forall>i<unat cnt. stb_address (heap' (pool_free p ! i)) = base + of_nat i * ucast stride
        \<and> stb_capacity (heap' (pool_free p ! i)) = capacity)
    \<and> (\<forall>b. b \<notin> pool_elems p \<longrightarrow> heap' b = heap b)"
proof -
  have st: "unat (pool_stride sizeof_SharedTxBuffer) = 64"
    by (simp add: pool_stride_unat sizeof_SharedTxBuffer_def)
  then have pos: "0 < pool_stride sizeof_SharedTxBuffer" by (simp add: word_less_nat_alt)
  obtain p where p: "pool_create True (Some slab) (Some junk) cnt sizeof_SharedTxBuffer = Some (Some p)"
    "pool_inv p" "op_n p = cnt" "length (pool_free p) = unat cnt"
    using pool_create_inv [OF assms(5) _ pos, of slab junk] assms(6) st by auto
  let ?f = "pool_free p" and ?ctl = "stx_control self base stride capacity cpu"
  obtain p1 where p1: "stx_init_loop self base stride capacity cpu 0 (unat cnt) p heap []
      = Some (True, p1, upd_list ?ctl 0 ?f heap, ?f)"
    "pool_inv p1" "pool_elems p1 = pool_elems p" "pool_free p1 = []"
    using stx_init_loop_inv [OF p(2), of "unat cnt" self base stride capacity cpu 0 heap "[]"] p(4) by auto
  have d: "distinct ?f" "set ?f \<subseteq> pool_elems p"
    using p(2) by (rule obj_pool.free_distinct, rule obj_pool.free_elems)
  obtain p2 where p2: "enq_list pool_put p1 ?f = Some p2" "pool_inv p2" "pool_elems p2 = pool_elems p"
    "pool_free p2 = ?f"
    using pool_put_all [OF p1(2) d(1)] d(2) p1 by auto
  have "card (set ?f) = card (pool_elems p)" using p d by (simp add: distinct_card pool_inv_def)
  then have all: "set ?f = pool_elems p" using d obj_pool.finite_elems [OF p(2)] by (intro card_subset_eq) auto
  have ctl: "upd_list ?ctl 0 ?f heap (?f ! i) = ?ctl i" if "i < unat cnt" for i
    using upd_list_at [OF d(1), of i ?ctl 0 heap] that p(4) by simp
  have "pool_ok (upd_list ?ctl 0 ?f heap) (\<lambda>_. 0) self p2"
    unfolding pool_ok_def using p2 ctl p(4) all [symmetric] by (auto simp: in_set_conv_nth stx_control_def)
  moreover have "\<not> cnt \<ge> - 1"
  proof -
    have "(2::u32) ^ 31 < - 1" by simp
    then show ?thesis using assms(5) by (meson less_trans linorder_not_less)
  qed
  ultimately show ?thesis
    using assms(1-4) p(1) p1(1) p2 ctl p(4) all upd_list_other [of _ ?f ?ctl 0 heap]
    by (auto simp: stx_initialize_def stx_control_def not_less)
qed

theorem stx_initialize_ok_witness:
  "\<exists>p heap'. stx_initialize 0 (True, Some 64, Some (\<lambda>_. 0)) None (\<lambda>_. stx_control 1 0 0 0 False 0) 4096 256 128 2 True
      = Some (True, Some p, heap') \<and> pool_ok heap' (\<lambda>_. 0) 0 p \<and> length (pool_free p) = unat (2::u32)
    \<and> (\<forall>i<unat (2::u32). stb_address (heap' (pool_free p ! i)) = 4096 + of_nat i * ucast (256::u32)
        \<and> stb_capacity (heap' (pool_free p ! i)) = 128)
    \<and> (\<forall>b. b \<notin> pool_elems p \<longrightarrow> heap' b = stx_control 1 0 0 0 False 0)"
  by (rule stx_initialize_ok) (simp_all add: block_ok_def)

end
