(* ===== verification/Rdma_Work.thy ===== *)
theory Rdma_Work
  imports Daqiri_Prelude "HOL-Library.Multiset"
begin

text \<open>
  Three small components of the RDMA engine: the remote range check and the send-queue work
  tracking of \<^verbatim>\<open>src/src/engines/rdma/rdma_work_tracking.h\<close>, and the choice of a client queue
  of \<^verbatim>\<open>src/src/engines/rdma/rdma_queue_index.h\<close>. The ordered map of posted work requests is the
  list of its entries in key order; the calls of the two completion callbacks are the events
  of the result. \<open>None\<close> is the exception of \<^verbatim>\<open>pending_.at\<close>.
\<close>

section \<open>Model\<close>

definition rdma_range_valid :: "u64 \<Rightarrow> u64 \<Rightarrow> u64 \<Rightarrow> u64 \<Rightarrow> bool" where
  "rdma_range_valid address length0 base sz \<longleftrightarrow>
     address \<ge> base \<and> address - base \<le> sz \<and> length0 \<le> sz - (address - base) \<and> length0 \<le> - 1 - address"

record 'b Entry =
  en_burst :: 'b
  en_packet :: u32

record Pending =
  pe_count :: u64
  pe_failed :: bool

record 'b RdmaWorkTracking =
  wt_next_id :: u64
  wt_entries :: "(u64 \<times> 'b Entry) list"
  wt_pending :: "'b \<rightharpoonup> Pending"

definition wt_init :: "'b RdmaWorkTracking" where
  "wt_init = \<lparr>wt_next_id = 1, wt_entries = [], wt_pending = Map.empty\<rparr>"

definition wt_find :: "'b RdmaWorkTracking \<Rightarrow> u64 \<Rightarrow> 'b Entry option" where
  "wt_find w i = map_of (wt_entries w) i"

definition wt_empty :: "'b RdmaWorkTracking \<Rightarrow> bool" where
  "wt_empty w \<longleftrightarrow> wt_entries w = []"

definition wt_clear :: "'b RdmaWorkTracking \<Rightarrow> 'b RdmaWorkTracking" where
  "wt_clear w = w\<lparr>wt_entries := [], wt_pending := Map.empty\<rparr>"

definition wt_size :: "'b RdmaWorkTracking \<Rightarrow> nat" where
  "wt_size w = length (wt_entries w)"

text \<open>\<^verbatim>\<open>std::map::emplace\<close>: the key keeps its place in the order, an existing key keeps its value.\<close>

fun map_emplace :: "'k::linorder \<Rightarrow> 'v \<Rightarrow> ('k \<times> 'v) list \<Rightarrow> ('k \<times> 'v) list" where
  "map_emplace k v [] = [(k, v)]"
| "map_emplace k v ((k', v') # xs) =
     (if k < k' then (k, v) # (k', v') # xs
      else if k = k' then (k', v') # xs
      else (k', v') # map_emplace k v xs)"

definition wt_posted :: "'b RdmaWorkTracking \<Rightarrow> 'b \<Rightarrow> u32 \<Rightarrow> 'b RdmaWorkTracking" where
  "wt_posted w burst packet =
     (let p = (case wt_pending w burst of None \<Rightarrow> \<lparr>pe_count = 0, pe_failed = False\<rparr> | Some p \<Rightarrow> p)
      in w\<lparr>wt_entries := map_emplace (wt_next_id w) \<lparr>en_burst = burst, en_packet = packet\<rparr> (wt_entries w),
           wt_next_id := wt_next_id w + 1,
           wt_pending := (wt_pending w)(burst \<mapsto> p\<lparr>pe_count := pe_count p + 1\<rparr>)\<rparr>)"

definition wt_mark_failed :: "'b RdmaWorkTracking \<Rightarrow> 'b \<Rightarrow> 'b RdmaWorkTracking option" where
  "wt_mark_failed w burst =
     (case wt_pending w burst of
        None \<Rightarrow> None
      | Some p \<Rightarrow> Some (w\<lparr>wt_pending := (wt_pending w)(burst \<mapsto> p\<lparr>pe_failed := True\<rparr>)\<rparr>))"

datatype 'b WorkEvent = PacketDone 'b u32 bool | BurstDone 'b bool

fun wt_complete_loop ::
  "u64 \<Rightarrow> bool \<Rightarrow> (u64 \<times> 'b Entry) list \<Rightarrow> ('b \<rightharpoonup> Pending)
   \<Rightarrow> ('b WorkEvent list \<times> (u64 \<times> 'b Entry) list \<times> ('b \<rightharpoonup> Pending)) option" where
  "wt_complete_loop i failed [] pending = Some ([], [], pending)"
| "wt_complete_loop i failed ((k, entry) # rest) pending =
     (if k \<le> i then
        (case pending (en_burst entry) of
           None \<Rightarrow> None
         | Some p \<Rightarrow>
             let state = p\<lparr>pe_failed := pe_failed p \<or> failed, pe_count := pe_count p - 1\<rparr>;
                 done = (pe_count state = 0);
                 burst_failed = pe_failed state;
                 pending' = (if done then pending(en_burst entry := None)
                             else pending(en_burst entry \<mapsto> state));
                 evs = PacketDone (en_burst entry) (en_packet entry) failed
                       # (if done then [BurstDone (en_burst entry) burst_failed] else [])
             in case wt_complete_loop i failed rest pending' of
                  None \<Rightarrow> None
                | Some (evs', rest', pending'') \<Rightarrow> Some (evs @ evs', rest', pending''))
      else Some ([], (k, entry) # rest, pending))"

definition wt_complete_through ::
  "'b RdmaWorkTracking \<Rightarrow> u64 \<Rightarrow> bool \<Rightarrow> (bool \<times> 'b WorkEvent list \<times> 'b RdmaWorkTracking) option" where
  "wt_complete_through w i failed =
     (if map_of (wt_entries w) i = None then Some (False, [], w)
      else
        (case wt_complete_loop i failed (wt_entries w) (wt_pending w) of
           None \<Rightarrow> None
         | Some (evs, entries, pending) \<Rightarrow>
             Some (True, evs, w\<lparr>wt_entries := entries, wt_pending := pending\<rparr>)))"

record RdmaClientQueueAssignment =
  qa_interface_index :: int
  qa_queue_index :: int

function first_available_from ::
  "int \<Rightarrow> nat \<Rightarrow> RdmaClientQueueAssignment list \<Rightarrow> nat \<Rightarrow> int" where
  "first_available_from interface_index queue_count assignments candidate =
     (if candidate < queue_count then
        let occupied = list_ex (\<lambda>a. qa_interface_index a = interface_index
              \<and> qa_queue_index a = sint (of_nat candidate :: 32 word)) assignments
        in if \<not> occupied then sint (of_nat candidate :: 32 word)
           else first_available_from interface_index queue_count assignments (candidate + 1)
      else - 1)"
  by pat_completeness auto
termination
  by (relation "measure (\<lambda>(_, queue_count, _, candidate). queue_count - candidate)") auto

declare first_available_from.simps [simp del]

definition first_available_rdma_client_queue :: "int \<Rightarrow> nat \<Rightarrow> RdmaClientQueueAssignment list \<Rightarrow> int" where
  "first_available_rdma_client_queue interface_index queue_count assignments =
     first_available_from interface_index queue_count assignments 0"

section \<open>Invariant of the work tracking\<close>

definition entry_count :: "'b \<Rightarrow> (u64 \<times> 'b Entry) list \<Rightarrow> nat" where
  "entry_count b es = length (filter (\<lambda>(_, e). en_burst e = b) es)"

text \<open>A burst is pending exactly when it has an entry, with the number of its entries.\<close>

definition pending_ok :: "(u64 \<times> 'b Entry) list \<Rightarrow> ('b \<rightharpoonup> Pending) \<Rightarrow> bool" where
  "pending_ok es pend \<longleftrightarrow>
     (\<forall>b. case pend b of None \<Rightarrow> entry_count b es = 0
          | Some p \<Rightarrow> 0 < entry_count b es \<and> unat (pe_count p) = entry_count b es)"

definition wt_inv :: "'b RdmaWorkTracking \<Rightarrow> bool" where
  "wt_inv w \<longleftrightarrow> sorted_wrt (<) (map fst (wt_entries w)) \<and> (\<forall>k\<in>set (map fst (wt_entries w)). k < wt_next_id w)
     \<and> pending_ok (wt_entries w) (wt_pending w) \<and> length (wt_entries w) < unat (wt_next_id w)"

lemma entry_count_simps [rdma_simps]:
  "entry_count b [] = 0"
  "entry_count b ((k, e) # es) = (if en_burst e = b then Suc (entry_count b es) else entry_count b es)"
  "entry_count b (es @ fs) = entry_count b es + entry_count b fs"
  by (simp_all add: entry_count_def)

lemma map_emplace_last:
  assumes "\<forall>k'\<in>set (map fst es). k' < k"
  shows "map_emplace k v es = es @ [(k, v)]"
  using assms by (induction k v es rule: map_emplace.induct) auto

lemma wt_inv_init: "wt_inv wt_init"
  by (simp add: wt_inv_def wt_init_def pending_ok_def rdma_simps)

lemma wt_inv_posted:
  assumes "wt_inv w" "wt_next_id w \<noteq> - 1"
  shows "wt_inv (wt_posted w b pkt)"
    and "wt_entries (wt_posted w b pkt) = wt_entries w @ [(wt_next_id w, \<lparr>en_burst = b, en_packet = pkt\<rparr>)]"
proof -
  have "wt_next_id w < - 1" using assms(2) by (metis word_n1_ge linorder_less_linear linorder_not_less)
  then have inc: "unat (wt_next_id w + 1) = Suc (unat (wt_next_id w))" by (rule unat_inc)
  then have less: "wt_next_id w < wt_next_id w + 1" by (simp add: word_less_nat_alt)
  show app: "wt_entries (wt_posted w b pkt) = wt_entries w @ [(wt_next_id w, \<lparr>en_burst = b, en_packet = pkt\<rparr>)]"
    using assms(1) by (simp add: wt_posted_def Let_def wt_inv_def map_emplace_last)
  have nxt: "wt_next_id (wt_posted w b pkt) = wt_next_id w + 1" by (simp add: wt_posted_def Let_def)
  have len: "length (wt_entries w) < unat (wt_next_id w)" using assms(1) by (simp add: wt_inv_def)
  have "entry_count b (wt_entries w) \<le> length (wt_entries w)" by (simp add: entry_count_def)
  then have small: "entry_count b (wt_entries w) < unat (wt_next_id w)" using len by simp
  have bump: "unat (c + 1) = Suc (entry_count b (wt_entries w))"
    if "unat c = entry_count b (wt_entries w)" for c :: u64
  proof -
    have "c < wt_next_id w" using small that by (simp add: word_less_nat_alt)
    then show ?thesis using that by (simp add: unat_inc)
  qed
  have pend: "pending_ok (wt_entries w) (wt_pending w)" using assms(1) by (simp add: wt_inv_def)
  have "pending_ok (wt_entries (wt_posted w b pkt)) (wt_pending (wt_posted w b pkt))"
    unfolding pending_ok_def app
  proof
    fix x
    have wp: "wt_pending (wt_posted w b pkt) x = (if x = b then
        Some (let p = (case wt_pending w b of None \<Rightarrow> \<lparr>pe_count = 0, pe_failed = False\<rparr> | Some p \<Rightarrow> p)
              in p\<lparr>pe_count := pe_count p + 1\<rparr>) else wt_pending w x)"
      by (simp add: wt_posted_def Let_def)
    show "case wt_pending (wt_posted w b pkt) x of
        None \<Rightarrow> entry_count x (wt_entries w @ [(wt_next_id w, \<lparr>en_burst = b, en_packet = pkt\<rparr>)]) = 0
      | Some p \<Rightarrow> 0 < entry_count x (wt_entries w @ [(wt_next_id w, \<lparr>en_burst = b, en_packet = pkt\<rparr>)])
          \<and> unat (pe_count p) = entry_count x (wt_entries w @ [(wt_next_id w, \<lparr>en_burst = b, en_packet = pkt\<rparr>)])"
      using pend bump unfolding wp pending_ok_def
      by (cases "x = b"; cases "wt_pending w x"; fastforce simp: rdma_simps Let_def dest: spec [of _ x])
  qed
  then show "wt_inv (wt_posted w b pkt)"
    using assms(1) less inc len
    by (auto simp: wt_inv_def app nxt sorted_wrt_append intro: less_trans)
qed

section \<open>Completion\<close>

definition bursts :: "(u64 \<times> 'b Entry) list \<Rightarrow> 'b set" where
  "bursts es = (\<lambda>(_, e). en_burst e) ` set es"

lemma bursts_simps [rdma_simps]:
  "bursts [] = {}" "bursts ((k, e) # es) = insert (en_burst e) (bursts es)"
  "bursts (es @ fs) = bursts es \<union> bursts fs"
  by (auto simp: bursts_def)

lemma entry_count_0_iff: "entry_count b es = 0 \<longleftrightarrow> b \<notin> bursts es"
  by (auto simp: entry_count_def bursts_def filter_empty_conv)

text \<open>What the callbacks see when the entries \<open>pre\<close> retire and \<open>rest\<close> stay: each packet in posting
  order, and each burst once, right after its last packet.\<close>

fun work_spec :: "('b \<Rightarrow> bool) \<Rightarrow> bool \<Rightarrow> (u64 \<times> 'b Entry) list \<Rightarrow> (u64 \<times> 'b Entry) list \<Rightarrow> 'b WorkEvent list" where
  "work_spec pf failed [] rest = []"
| "work_spec pf failed ((k, e) # pre) rest =
     PacketDone (en_burst e) (en_packet e) failed
     # (if en_burst e \<in> bursts (pre @ rest) then [] else [BurstDone (en_burst e) (pf (en_burst e) \<or> failed)])
     @ work_spec pf failed pre rest"

lemma work_spec_cong:
  "(\<And>b. b \<in> bursts pre \<Longrightarrow> (pf b \<or> failed) = (pf' b \<or> failed)) \<Longrightarrow>
    work_spec pf failed pre rest = work_spec pf' failed pre rest"
  by (induction pre) (auto simp: rdma_simps)

lemma work_spec_once:
  "length (filter (\<lambda>ev. \<exists>f. ev = BurstDone b f) (work_spec pf failed pre rest))
   = (if b \<in> bursts pre \<and> b \<notin> bursts rest then 1 else 0)"
  by (induction pre) (auto simp: rdma_simps)

lemma pending_ok_head:
  assumes "pending_ok ((k, e) # es) pend"
  obtains p where "pend (en_burst e) = Some p" "unat (pe_count p) = Suc (entry_count (en_burst e) es)"
  using spec [OF assms [unfolded pending_ok_def], of "en_burst e"]
  by (auto simp: rdma_simps split: option.splits)

lemma pending_ok_step:
  assumes "pending_ok ((k, e) # es) pend"
    and p: "pend (en_burst e) = Some p" "unat (pe_count p) = Suc (entry_count (en_burst e) es)"
  shows "(pe_count p - 1 = 0) = (en_burst e \<notin> bursts es)"
    and "pending_ok es (if pe_count p - 1 = 0 then pend(en_burst e := None)
       else pend(en_burst e \<mapsto> p\<lparr>pe_failed := f, pe_count := pe_count p - 1\<rparr>))"
proof -
  let ?b = "en_burst e"
  from p(2) have "pe_count p \<noteq> 0" by auto
  then have dec: "unat (pe_count p - 1) = entry_count ?b es" using p(2) by (simp add: unat_minus_one)
  then show zero: "(pe_count p - 1 = 0) = (?b \<notin> bursts es)"
    by (metis entry_count_0_iff unat_eq_zero)
  have other: "case pend x of None \<Rightarrow> entry_count x es = 0
      | Some p \<Rightarrow> 0 < entry_count x es \<and> unat (pe_count p) = entry_count x es" if "x \<noteq> ?b" for x
    using spec [OF assms(1) [unfolded pending_ok_def], of x] that by (simp add: rdma_simps split: option.splits)
  show "pending_ok es (if pe_count p - 1 = 0 then pend(?b := None)
       else pend(?b \<mapsto> p\<lparr>pe_failed := f, pe_count := pe_count p - 1\<rparr>))"
    unfolding pending_ok_def
  proof
    fix x
    show "case (if pe_count p - 1 = 0 then pend(?b := None)
         else pend(?b \<mapsto> p\<lparr>pe_failed := f, pe_count := pe_count p - 1\<rparr>)) x of
        None \<Rightarrow> entry_count x es = 0
      | Some p \<Rightarrow> 0 < entry_count x es \<and> unat (pe_count p) = entry_count x es"
      using other [of x] dec zero by (cases "x = ?b") (auto simp: entry_count_0_iff simp del: diff_eq_eq right_minus_eq)
  qed
qed

abbreviation retired :: "u64 \<Rightarrow> (u64 \<times> 'b Entry) list \<Rightarrow> (u64 \<times> 'b Entry) list" where
  "retired i es \<equiv> takeWhile (\<lambda>(k, _). k \<le> i) es"

abbreviation remaining :: "u64 \<Rightarrow> (u64 \<times> 'b Entry) list \<Rightarrow> (u64 \<times> 'b Entry) list" where
  "remaining i es \<equiv> dropWhile (\<lambda>(k, _). k \<le> i) es"

lemma wt_complete_loop_spec:
  assumes "pending_ok es pend"
  shows "\<exists>pend'. wt_complete_loop i failed es pend
    = Some (work_spec (\<lambda>b. pe_failed (the (pend b))) failed (retired i es) (remaining i es), remaining i es, pend')
    \<and> pending_ok (remaining i es) pend'"
  using assms
proof (induction es arbitrary: pend)
  case Nil
  then show ?case by simp
next
  case (Cons ke es)
  obtain k e where ke: "ke = (k, e)" by (cases ke)
  show ?case
  proof (cases "k \<le> i")
    case False
    then show ?thesis using Cons.prems ke by auto
  next
    case True
    let ?b = "en_burst e"
    have ok: "pending_ok ((k, e) # es) pend" using Cons.prems ke by simp
    obtain p where p: "pend ?b = Some p" "unat (pe_count p) = Suc (entry_count ?b es)"
      using ok by (rule pending_ok_head)
    note zero = pending_ok_step(1) [OF ok p]
    let ?pend = "if pe_count p - 1 = 0 then pend(?b := None)
         else pend(?b \<mapsto> p\<lparr>pe_failed := pe_failed p \<or> failed, pe_count := pe_count p - 1\<rparr>)"
    obtain pend' where IH: "wt_complete_loop i failed es ?pend
        = Some (work_spec (\<lambda>b. pe_failed (the (?pend b))) failed (retired i es) (remaining i es), remaining i es, pend')"
      "pending_ok (remaining i es) pend'"
      using Cons.IH [OF pending_ok_step(2) [OF ok p]] by blast
    have sub: "bursts (retired i es) \<subseteq> bursts es"
      by (auto simp: bursts_def dest: set_takeWhileD)
    have same: "work_spec (\<lambda>b. pe_failed (the (?pend b))) failed (retired i es) (remaining i es)
        = work_spec (\<lambda>b. pe_failed (the (pend b))) failed (retired i es) (remaining i es)"
      using sub p(1) zero by (intro work_spec_cong) auto
    have "bursts (retired i es @ remaining i es) = bursts es" by simp
    moreover have "wt_complete_loop i failed es ?pend = Some (work_spec (\<lambda>b. pe_failed (the (pend b))) failed
        (retired i es) (remaining i es), remaining i es, pend')"
      using IH(1) unfolding same .
    ultimately show ?thesis using True ke p(1) zero IH(2)
      by (cases "?b \<in> bursts es")
        (simp_all add: Let_def del: fun_upd_apply diff_eq_eq right_minus_eq diff_0_eq_0 takeWhile_dropWhile_id)
  qed
qed

lemma sorted_remaining:
  fixes es :: "(u64 \<times> 'b Entry) list"
  assumes "sorted_wrt (<) (map fst es)"
  shows "remaining i es = filter (\<lambda>(k, _). i < k) es" "retired i es = filter (\<lambda>(k, _). k \<le> i) es"
proof -
  show "remaining i es = filter (\<lambda>(k, _). i < k) es" using assms
  proof (induction es)
    case (Cons x es)
    have "filter (\<lambda>(k, _). i < k) es = es" if "i < fst x"
      using that Cons.prems by (intro filter_True) auto
    then show ?case using Cons by (cases x) auto
  qed simp
  show "retired i es = filter (\<lambda>(k, _). k \<le> i) es" using assms
  proof (induction es)
    case (Cons x es)
    have "filter (\<lambda>(k, _). k \<le> i) es = []" if "i < fst x"
      using that Cons.prems by (intro filter_False) auto
    then show ?case using Cons by (cases x) auto
  qed simp
qed

section \<open>Queue choice\<close>

lemma sint_of_nat_u31: "n < 2 ^ 31 \<Longrightarrow> sint (of_nat n :: 32 word) = int n"
  by (simp add: signed_of_nat signed_take_bit_int_eq_self)

abbreviation queue_taken :: "RdmaClientQueueAssignment list \<Rightarrow> int \<Rightarrow> int \<Rightarrow> bool" where
  "queue_taken assignments i q \<equiv> list_ex (\<lambda>a. qa_interface_index a = i \<and> qa_queue_index a = q) assignments"

lemma first_available_from_spec:
  assumes "n \<le> 2 ^ 31" "\<And>q. q < c \<Longrightarrow> queue_taken as i (int q)"
  shows "(case first_available_from i n as c of r \<Rightarrow>
    (\<exists>q<n. r = int q \<and> \<not> queue_taken as i (int q) \<and> (\<forall>q'<q. queue_taken as i (int q')))
    \<or> (r = - 1 \<and> (\<forall>q<n. queue_taken as i (int q))))"
  using assms
proof (induction i n as c rule: first_available_from.induct)
  case (1 i n as c)
  show ?case
  proof (cases "c < n")
    case False
    then have "first_available_from i n as c = - 1" by (simp add: first_available_from.simps)
    then show ?thesis using False 1(3) by simp
  next
    case True
    then have c: "sint (of_nat c :: 32 word) = int c" using 1(2) by (intro sint_of_nat_u31) linarith
    show ?thesis
    proof (cases "queue_taken as i (int c)")
      case False
      then have "first_available_from i n as c = int c"
        using True by (simp add: first_available_from.simps c)
      then show ?thesis using False True 1(3) by auto
    next
      case taken: True
      then have eq: "first_available_from i n as c = first_available_from i n as (c + 1)"
        using True by (subst first_available_from.simps) (simp add: c)
      have "queue_taken as i (int q)" if "q < c + 1" for q
        using that taken 1(3) by (cases "q = c") auto
      then show ?thesis unfolding eq using 1(1) [OF True refl] 1(2) taken c by simp
    qed
  qed
qed

section \<open>Properties\<close>

text \<open>C17: completing the send queue through a posted identifier retires exactly the work requests
  posted up to it, reports their packets in posting order, delivers every burst exactly once,
  right after its last outstanding packet and failed if any of its work failed, and keeps
  the pending counts exact. A foreign identifier changes nothing.\<close>

theorem complete_through_exact:
  assumes "wt_inv w"
  shows "if i \<in> fst ` set (wt_entries w) then
      \<exists>w'. wt_complete_through w i failed = Some (True,
          work_spec (\<lambda>b. pe_failed (the (wt_pending w b))) failed
            (filter (\<lambda>(k, _). k \<le> i) (wt_entries w)) (wt_entries w'), w')
        \<and> wt_inv w' \<and> wt_entries w' = filter (\<lambda>(k, _). i < k) (wt_entries w)
        \<and> (\<forall>b. length (filter (\<lambda>ev. \<exists>f. ev = BurstDone b f)
                (work_spec (\<lambda>b. pe_failed (the (wt_pending w b))) failed
                  (filter (\<lambda>(k, _). k \<le> i) (wt_entries w)) (wt_entries w')))
             = (if b \<in> bursts (wt_entries w) \<and> b \<notin> bursts (wt_entries w') then 1 else 0))
    else wt_complete_through w i failed = Some (False, [], w)"
proof (cases "i \<in> fst ` set (wt_entries w)")
  case False
  then have "map_of (wt_entries w) i = None" by (simp add: map_of_eq_None_iff)
  then show ?thesis using False by (simp add: wt_complete_through_def)
next
  case True
  let ?es = "wt_entries w" and ?pf = "\<lambda>b. pe_failed (the (wt_pending w b))"
  have srt: "sorted_wrt (<) (map fst ?es)" and inv: "pending_ok ?es (wt_pending w)"
    using assms by (auto simp: wt_inv_def)
  obtain pend' where pend': "wt_complete_loop i failed ?es (wt_pending w)
      = Some (work_spec ?pf failed (retired i ?es) (remaining i ?es), remaining i ?es, pend')"
    "pending_ok (remaining i ?es) pend'"
    using wt_complete_loop_spec [OF inv] by blast
  let ?w' = "w\<lparr>wt_entries := remaining i ?es, wt_pending := pend'\<rparr>"
  have some: "map_of ?es i \<noteq> None" using True by (simp add: map_of_eq_None_iff)
  have "wt_complete_through w i failed = Some (True, work_spec ?pf failed (retired i ?es) (remaining i ?es), ?w')"
    using some pend'(1) by (auto simp: wt_complete_through_def)
  moreover have "wt_inv ?w'"
  proof -
    have "length (remaining i ?es) < unat (wt_next_id w)"
      using assms length_dropWhile_le [of "\<lambda>(k, _). k \<le> i" ?es] by (simp add: wt_inv_def)
    then show ?thesis
      using assms pend'(2) sorted_remaining(1) [OF srt, of i]
      by (auto simp: wt_inv_def sorted_wrt_map sorted_wrt_filter)
  qed
  moreover have "bursts ?es = bursts (retired i ?es) \<union> bursts (remaining i ?es)"
    by (metis bursts_simps(3) takeWhile_dropWhile_id)
  ultimately show ?thesis
    using True work_spec_once [of _ ?pf failed "retired i ?es" "remaining i ?es"]
    by (auto simp: sorted_remaining [OF srt])
qed

theorem complete_through_exact_witness:
  "\<exists>w'. wt_complete_through (wt_posted (wt_posted (wt_posted wt_init CHR ''a'' 0) CHR ''a'' 1) CHR ''b'' 0) 2 True
     = Some (True, [PacketDone CHR ''a'' 0 True, PacketDone CHR ''a'' 1 True, BurstDone CHR ''a'' True], w')
   \<and> wt_inv w' \<and> fst ` set (wt_entries w') = {3}"
proof -
  let ?w1 = "wt_posted wt_init CHR ''a'' 0"
  let ?w2 = "wt_posted ?w1 CHR ''a'' 1"
  let ?w3 = "wt_posted ?w2 CHR ''b'' 0"
  have 1: "wt_inv ?w1" using wt_inv_init by (rule wt_inv_posted) (simp add: wt_init_def)
  have 2: "wt_inv ?w2" using 1 by (rule wt_inv_posted) (simp add: wt_posted_def wt_init_def)
  have 3: "wt_inv ?w3" using 2 by (rule wt_inv_posted) (simp add: wt_posted_def wt_init_def)
  have es: "wt_entries ?w3 = [(1, \<lparr>en_burst = CHR ''a'', en_packet = 0\<rparr>), (2, \<lparr>en_burst = CHR ''a'', en_packet = 1\<rparr>),
      (3, \<lparr>en_burst = CHR ''b'', en_packet = 0\<rparr>)]"
    by (simp add: wt_posted_def wt_init_def Let_def)
  show ?thesis
    using complete_through_exact [OF 3, of 2 True] unfolding es
    by (auto simp: bursts_simps)
qed

text \<open>The range check accepts exactly the ranges that lie inside the region and do not wrap
  around the address space, although it is computed in wrapping arithmetic.\<close>

theorem rdma_range_valid_exact:
  "rdma_range_valid address len base sz \<longleftrightarrow>
     unat base \<le> unat address \<and> unat address + unat len \<le> unat base + unat sz
     \<and> unat address + unat len < 2 ^ 64"
proof (cases "base \<le> address")
  case False
  then show ?thesis by (simp add: rdma_range_valid_def word_le_nat_alt)
next
  case True
  have max: "unat (- 1 - address) = 2 ^ 64 - 1 - unat address"
  proof -
    have "address \<le> - 1" by simp
    then have "unat (- 1 - address) = unat (- 1 :: u64) - unat address" by (rule unat_sub)
    then show ?thesis by (simp add: unsigned_minus_1_eq_mask mask_eq_exp_minus_1)
  qed
  have lt: "unat address < 2 ^ 64" using unsigned_less [of address, where 'a = nat] by simp
  have off: "unat (address - base) = unat address - unat base" using True by (rule unat_sub)
  have "unat (sz - (address - base)) = unat sz - unat (address - base)" if "address - base \<le> sz"
    using that by (rule unat_sub)
  then show ?thesis
    using True off max lt by (auto simp: rdma_range_valid_def word_le_nat_alt)
qed

text \<open>The client queue chosen is the lowest index of the interface that no assignment uses, and
  -1 exactly when all are in use.\<close>

theorem first_available_lowest:
  assumes "queue_count \<le> 2 ^ 31"
  shows "(\<exists>q<queue_count. first_available_rdma_client_queue i queue_count assignments = int q
      \<and> \<not> queue_taken assignments i (int q) \<and> (\<forall>q'<q. queue_taken assignments i (int q')))
    \<or> (first_available_rdma_client_queue i queue_count assignments = - 1
      \<and> (\<forall>q<queue_count. queue_taken assignments i (int q)))"
  using first_available_from_spec [OF assms, of 0 i assignments]
  by (simp add: first_available_rdma_client_queue_def)

theorem first_available_lowest_witness:
  "first_available_rdma_client_queue 1 4
     [\<lparr>qa_interface_index = 1, qa_queue_index = 0\<rparr>, \<lparr>qa_interface_index = 2, qa_queue_index = 1\<rparr>] = 1"
proof -
  let ?as = "[\<lparr>qa_interface_index = 1, qa_queue_index = 0\<rparr>, \<lparr>qa_interface_index = 2, qa_queue_index = 1\<rparr>]"
  have free: "\<not> queue_taken ?as 1 (int 1)" and taken: "queue_taken ?as 1 (int 0)" by simp_all
  have four: "(4::nat) \<le> 2 ^ 31" "(1::nat) < 4" by simp_all
  from first_available_lowest [OF four(1), of 1 ?as] obtain q where
    q: "first_available_rdma_client_queue 1 4 ?as = int q" "\<not> queue_taken ?as 1 (int q)"
      "\<forall>q'<q. queue_taken ?as 1 (int q')"
    using free four(2) by blast
  have "q \<noteq> 0" using q(2) taken by auto
  moreover have "\<not> 1 < q" using q(3) free by blast
  ultimately show ?thesis using q(1) by (cases q) auto
qed

end
