(* ===== verification/Daqiri_Types.thy ===== *)
theory Daqiri_Types
  imports Daqiri_Prelude
begin

text \<open>
  The vocabulary of \<^verbatim>\<open>include/daqiri/types.h\<close>: status codes, burst headers, the configuration
  records, the string conversions of the enumerations and the helpers on flow actions.
  An enumeration is a datatype with the source's constructors (qualified by the type where
  two enumerations share a name), a struct is a record whose fields carry a short prefix, a
  \<^verbatim>\<open>throw\<close> is the left injection of a sum. The build-time switches \<^verbatim>\<open>DAQIRI_ENGINE_*\<close> are
  an argument of the functions that test them.
\<close>

section \<open>Constants and status codes\<close>

definition MAX_NUM_SEGS :: nat where "MAX_NUM_SEGS = 4"
definition MAX_NUM_RX_QUEUES :: nat where "MAX_NUM_RX_QUEUES = 32"
definition MAX_NUM_TX_QUEUES :: nat where "MAX_NUM_TX_QUEUES = 32"
definition MAX_INTERFACES :: nat where "MAX_INTERFACES = 4"

datatype Status =
    SUCCESS | NULL_PTR | NO_FREE_BURST_BUFFERS | NO_FREE_PACKET_BUFFERS | NOT_READY
  | INVALID_PARAMETER | NO_SPACE_AVAILABLE | NOT_SUPPORTED | GENERIC_FAILURE | CONNECT_FAILURE
  | INTERNAL_ERROR | RESOURCE_IN_USE | ALREADY_EXISTS

datatype RDMAOpCode =
    CONNECT | SEND | RECEIVE | RDMA_WRITE | RDMA_WRITE_IMM | RDMA_READ | RDMA_READ_IMM | INVALID

datatype RDMACompletionType = RX | TX | INVALID

datatype exn = invalid_argument string | logic_error string | runtime_error string | out_of_range string

type_synonym 'a throws = "exn + 'a"

record BurstTransportHeader =
  bt_version :: u8
  bt_opcode :: RDMAOpCode
  bt_status :: Status
  bt_port_id :: u16
  bt_q_id :: u16
  bt_server :: bool
  bt_tx :: bool
  bt_num_pkts :: nat
  bt_num_segs :: int
  bt_wr_id :: u64
  bt_conn_id :: u64
  bt_local_mr_name :: string
  bt_remote_mr_name :: string
  bt_raddr :: u64
  bt_dst_key :: u64
  bt_imm :: u32
  bt_server_addr :: u32
  bt_server_port :: u16
  bt_remote_length :: u64
  bt_remote_access :: u32
  bt_rdma_write_length :: u32

record BurstHeaderParams =
  bh_num_pkts :: nat
  bh_port_id :: u16
  bh_q_id :: u16
  bh_num_segs :: int
  bh_nbytes :: u64
  bh_first_pkt_addr :: u64
  bh_max_pkt :: u32
  bh_max_pkt_size :: u32
  bh_gpu_pkt0_idx :: u32
  bh_gpu_pkt0_addr :: u64
  bh_burst_flags :: u32

section \<open>Streams, protocols and memory kinds\<close>

datatype MemoryKind = HOST | HOST_PINNED | HUGE | DEVICE | INVALID | NULL_MR

record ExternalMemoryRegion =
  em_data :: u64
  em_capacity :: u64

record MemoryRegionRequirement =
  rq_kind :: MemoryKind
  rq_slot_size :: u64
  rq_num_bufs :: u64
  rq_capacity :: u64
  rq_alignment :: u64

definition MEM_ACCESS_LOCAL :: u32 where "MEM_ACCESS_LOCAL = 1"
definition MEM_ACCESS_RDMA_WRITE :: u32 where "MEM_ACCESS_RDMA_WRITE = 2"
definition MEM_ACCESS_RDMA_READ :: u32 where "MEM_ACCESS_RDMA_READ = 4"
definition MEM_ACCESS_RELAXED_ORDERING :: u32 where "MEM_ACCESS_RELAXED_ORDERING = 8"

datatype StreamType = RAW | SOCKET | INVALID

definition stream_type_from_string :: "string \<Rightarrow> StreamType" where
  "stream_type_from_string str =
     (if str = ''raw'' then RAW
      else if str = ''socket'' then SOCKET
      else StreamType.INVALID)"

fun stream_type_to_string :: "StreamType \<Rightarrow> string" where
  "stream_type_to_string RAW = ''raw''"
| "stream_type_to_string SOCKET = ''socket''"
| "stream_type_to_string _ = ''invalid''"

datatype SocketProtocol = TCP | UDP | ROCE | INVALID

definition socket_protocol_from_string :: "string \<Rightarrow> SocketProtocol" where
  "socket_protocol_from_string str =
     (if str = ''tcp'' then TCP
      else if str = ''udp'' then UDP
      else if str = ''roce'' then ROCE
      else SocketProtocol.INVALID)"

fun socket_protocol_to_string :: "SocketProtocol \<Rightarrow> string" where
  "socket_protocol_to_string TCP = ''tcp''"
| "socket_protocol_to_string UDP = ''udp''"
| "socket_protocol_to_string ROCE = ''roce''"
| "socket_protocol_to_string _ = ''invalid''"

definition GetMemoryKindFromString :: "string \<Rightarrow> MemoryKind" where
  "GetMemoryKindFromString mode_str =
     (if mode_str = ''host'' then HOST
      else if mode_str = ''host_pinned'' then HOST_PINNED
      else if mode_str = ''huge'' then HUGE
      else if mode_str = ''device'' then DEVICE
      else if mode_str = ''null'' then NULL_MR
      else MemoryKind.INVALID)"

text \<open>The list of access words, from the accumulated flags; an unknown word makes it 0.\<close>

fun memory_access_loop :: "u32 \<Rightarrow> string list \<Rightarrow> u32" where
  "memory_access_loop access [] = access"
| "memory_access_loop access (str # rest) =
     (if str = ''local'' then memory_access_loop (or access MEM_ACCESS_LOCAL) rest
      else if str = ''rdma_write'' then memory_access_loop (or access MEM_ACCESS_RDMA_WRITE) rest
      else if str = ''rdma_read'' then memory_access_loop (or access MEM_ACCESS_RDMA_READ) rest
      else if str = ''relaxed_ordering'' then memory_access_loop (or access MEM_ACCESS_RELAXED_ORDERING) rest
      else 0)"

definition GetMemoryAccessPropertiesFromList :: "string list \<Rightarrow> u32" where
  "GetMemoryAccessPropertiesFromList xs = memory_access_loop 0 xs"

datatype BufferLocation = CPU | GPU | CPU_GPU_SPLIT

datatype Direction = RX | TX | TX_RX

datatype LoopbackType = DISABLED | LOOPBACK_TYPE_SW | LOOPBACK_TYPE_HW

section \<open>Engines\<close>

datatype EngineType = UNKNOWN | DEFAULT | DPDK | SOCKET | RDMA | IBVERBS

record BuildFlags =
  ENGINE_DPDK :: bool
  ENGINE_SOCKET :: bool
  ENGINE_RDMA :: bool
  ENGINE_IBVERBS :: bool

definition quoted :: "string \<Rightarrow> string" where
  "quoted s = [CHR 0x27] @ s @ [CHR 0x27]"

definition available_engines :: "BuildFlags \<Rightarrow> string" where
  "available_engines bf =
     butlast ((if ENGINE_DPDK bf then ''dpdk '' else [])
            @ (if ENGINE_SOCKET bf then ''socket '' else [])
            @ (if ENGINE_RDMA bf then ''ibverbs '' else []))"

definition engine_type_from_string :: "BuildFlags \<Rightarrow> string \<Rightarrow> EngineType throws" where
  "engine_type_from_string bf str =
     (if str = ''default'' then Inr DEFAULT
      else if ENGINE_DPDK bf \<and> str = ''dpdk'' then Inr DPDK
      else if ENGINE_SOCKET bf \<and> str = ''socket'' then Inr EngineType.SOCKET
      else if ENGINE_RDMA bf \<and> (str = ''ibverbs'' \<or> str = ''rdma'') then Inr RDMA
      else
        let is_known_but_unavailable =
              (\<not> ENGINE_DPDK bf \<and> str = ''dpdk'')
              \<or> (\<not> ENGINE_SOCKET bf \<and> str = ''socket'')
              \<or> (\<not> ENGINE_RDMA bf \<and> (str = ''ibverbs'' \<or> str = ''rdma''))
        in if is_known_but_unavailable
           then Inl (invalid_argument (''Engine type '' @ quoted str @ '' is not available in this build. Available engines: ''
                  @ available_engines bf @ ''. To enable '' @ quoted str @ '', rebuild with CMake option: -DDAQIRI_ENGINE=''
                  @ [CHR 0x22] @ available_engines bf @ '' '' @ str @ [CHR 0x22]))
           else Inl (invalid_argument (''Unknown engine type '' @ quoted str @ ''. Valid options: ''
                  @ available_engines bf @ '' default'')))"

datatype RDMAMode = CLIENT | SERVER | INVALID

definition GetRDMAModeFromString :: "string \<Rightarrow> RDMAMode" where
  "GetRDMAModeFromString mode_str =
     (if mode_str = ''client'' then CLIENT
      else if mode_str = ''server'' then SERVER
      else RDMAMode.INVALID)"

datatype RDMATransportMode = RC | UC | UD | INVALID

definition GetRDMATransportModeFromString :: "string \<Rightarrow> RDMATransportMode" where
  "GetRDMATransportModeFromString mode_str =
     (if mode_str = ''RC'' then RC
      else if mode_str = ''UC'' then UC
      else if mode_str = ''UD'' then UD
      else RDMATransportMode.INVALID)"

record RDMAConfig =
  rd_mode :: RDMAMode
  rd_xmode :: RDMATransportMode
  rd_port :: u16

fun engine_type_to_string :: "EngineType \<Rightarrow> string" where
  "engine_type_to_string DPDK = ''dpdk''"
| "engine_type_to_string EngineType.SOCKET = ''socket''"
| "engine_type_to_string RDMA = ''rdma''"
| "engine_type_to_string IBVERBS = ''ibverbs''"
| "engine_type_to_string DEFAULT = ''default''"
| "engine_type_to_string UNKNOWN = ''unknown''"

definition config_engine_from_string1 :: "BuildFlags \<Rightarrow> string \<Rightarrow> EngineType throws" where
  "config_engine_from_string1 bf str =
     (if str = ''default'' then Inr DEFAULT
      else if ENGINE_DPDK bf \<and> str = ''dpdk'' then Inr DPDK
      else if ENGINE_SOCKET bf \<and> str = ''socket'' then Inr EngineType.SOCKET
      else if ENGINE_RDMA bf \<and> str = ''ibverbs'' then Inr RDMA
      else if str = ''rdma'' then 
        Inl (invalid_argument (''Engine '' @ quoted ''rdma'' @ '' is not valid in config. Use '' @ quoted ''ibverbs''
              @ '' for RoCE.''))
      else
        let is_known_but_unavailable =
              (\<not> ENGINE_DPDK bf \<and> str = ''dpdk'') \<or> (\<not> ENGINE_RDMA bf \<and> str = ''ibverbs'')
        in if is_known_but_unavailable
           then Inl (invalid_argument (''Engine '' @ quoted str @ '' is not available in this build. Rebuild with -DDAQIRI_ENGINE including ''
                  @ quoted str @ '' (valid values: dpdk, ibverbs).''))
           else Inl (invalid_argument (''Unknown engine '' @ quoted str
                  @ ''. Valid options: dpdk, socket, ibverbs, default'')))"

definition config_engine_from_string :: "BuildFlags \<Rightarrow> string \<Rightarrow> StreamType \<Rightarrow> EngineType throws" where
  "config_engine_from_string bf str stream_type =
     (if ENGINE_IBVERBS bf \<and> stream_type = RAW \<and> str = ''ibverbs'' then Inr IBVERBS
      else config_engine_from_string1 bf str)"

definition config_engine_to_string :: "EngineType \<Rightarrow> string" where
  "config_engine_to_string type =
     (if type = RDMA then ''ibverbs'' else engine_type_to_string type)"

fun engine_type_from_stream_type :: "BuildFlags \<Rightarrow> StreamType \<Rightarrow> SocketProtocol \<Rightarrow> EngineType" where
  "engine_type_from_stream_type bf RAW protocol =
     (if ENGINE_IBVERBS bf then IBVERBS else if ENGINE_DPDK bf then DPDK else UNKNOWN)"
| "engine_type_from_stream_type bf StreamType.SOCKET protocol =
     (if protocol = ROCE then RDMA else EngineType.SOCKET)"
| "engine_type_from_stream_type bf _ protocol = UNKNOWN"

definition is_explicit_engine_type :: "EngineType \<Rightarrow> bool" where
  "is_explicit_engine_type type \<longleftrightarrow> type \<noteq> UNKNOWN \<and> type \<noteq> DEFAULT"

fun engine_type_supports_stream_type :: "EngineType \<Rightarrow> StreamType \<Rightarrow> bool" where
  "engine_type_supports_stream_type type RAW \<longleftrightarrow> type = DPDK \<or> type = IBVERBS"
| "engine_type_supports_stream_type type StreamType.SOCKET \<longleftrightarrow> type = EngineType.SOCKET \<or> type = RDMA"
| "engine_type_supports_stream_type type _ \<longleftrightarrow> False"

definition engine_type_supports_socket_protocol :: "EngineType \<Rightarrow> SocketProtocol \<Rightarrow> bool" where
  "engine_type_supports_socket_protocol type protocol \<longleftrightarrow>
     (if protocol = ROCE then type = RDMA \<or> type = EngineType.SOCKET
      else if protocol = TCP \<or> protocol = UDP then type = EngineType.SOCKET
      else False)"

section \<open>Log levels\<close>

datatype Level = TRACE | DEBUG | INFO | WARN | ERROR | CRITICAL | OFF

fun LogLevel_to_string :: "Level \<Rightarrow> string" where
  "LogLevel_to_string TRACE = ''trace''"
| "LogLevel_to_string DEBUG = ''debug''"
| "LogLevel_to_string INFO = ''info''"
| "LogLevel_to_string WARN = ''warn''"
| "LogLevel_to_string ERROR = ''error''"
| "LogLevel_to_string CRITICAL = ''critical''"
| "LogLevel_to_string OFF = ''off''"

definition tolower :: "char \<Rightarrow> char" where
  "tolower c = (let n = (of_char c :: nat) in if 65 \<le> n \<and> n \<le> 90 then char_of (n + 32) else c)"

definition string_to_level_map :: "(string \<times> Level) list" where
  "string_to_level_map =
     [(''trace'', TRACE), (''debug'', DEBUG), (''info'', INFO), (''warn'', WARN), (''error'', ERROR),
      (''critical'', CRITICAL), (''off'', OFF)]"

definition LogLevel_from_string :: "string \<Rightarrow> Level throws" where
  "LogLevel_from_string str =
     (case map_of string_to_level_map (map tolower str) of
        Some l \<Rightarrow> Inr l
      | None \<Rightarrow> Inl (logic_error ''Unrecognized log level, available options trace/debug/info/warn/error/critical/off''))"

section \<open>Queues and memory regions\<close>

record CommonQueueConfig =
  cq_name :: string
  cq_id :: int
  cq_batch_size :: int
  cq_split_boundary :: int
  cq_cpu_core :: string
  cq_mrs :: "string list"
  cq_offloads :: "string list"

record MemoryRegionConfig =
  mr_name :: string
  mr_kind :: MemoryKind
  mr_affinity :: u16
  mr_access :: u32
  mr_buf_size :: u64
  mr_adj_size :: u64
  mr_ttl_size :: u64
  mr_num_bufs :: u64
  mr_owned :: bool

datatype QueuePollMode = INDIRECT | DIRECT | INVALID

definition queue_poll_mode_from_string :: "string \<Rightarrow> QueuePollMode" where
  "queue_poll_mode_from_string str =
     (if str = ''indirect'' then INDIRECT
      else if str = ''direct'' then DIRECT
      else QueuePollMode.INVALID)"

fun queue_poll_mode_to_string :: "QueuePollMode \<Rightarrow> string" where
  "queue_poll_mode_to_string INDIRECT = ''indirect''"
| "queue_poll_mode_to_string DIRECT = ''direct''"
| "queue_poll_mode_to_string _ = ''invalid''"

record RxQueueConfig =
  rxq_common :: CommonQueueConfig
  rxq_timeout_us :: u64
  rxq_poll_mode :: QueuePollMode
  rxq_cqe_compression :: bool

datatype TxBufferMode = CYCLIC | SHARED

record TxQueueConfig =
  txq_common :: CommonQueueConfig
  txq_poll_mode :: QueuePollMode
  txq_pacing_mbps :: u64
  txq_buffer_mode :: TxBufferMode
  txq_max_inflight_sends :: u32

section \<open>Flows\<close>

datatype FlowType = QUEUE | VLAN_PUSH | VLAN_POP | TUNNEL_ENCAP | TUNNEL_DECAP

definition flow_type_from_string :: "string \<Rightarrow> FlowType throws" where
  "flow_type_from_string str =
     (if str = ''queue'' then Inr QUEUE
      else if str = ''vlan_push'' then Inr VLAN_PUSH
      else if str = ''vlan_pop'' then Inr VLAN_POP
      else if str = ''tunnel_encap'' then Inr TUNNEL_ENCAP
      else if str = ''tunnel_decap'' then Inr TUNNEL_DECAP
      else Inl (invalid_argument (''Unknown flow action type '' @ quoted str)))"

fun flow_type_to_string :: "FlowType \<Rightarrow> string" where
  "flow_type_to_string QUEUE = ''queue''"
| "flow_type_to_string VLAN_PUSH = ''vlan_push''"
| "flow_type_to_string VLAN_POP = ''vlan_pop''"
| "flow_type_to_string TUNNEL_ENCAP = ''tunnel_encap''"
| "flow_type_to_string TUNNEL_DECAP = ''tunnel_decap''"

datatype TunnelType = NONE | VXLAN | GRE | NVGRE

definition tunnel_type_from_string :: "string \<Rightarrow> TunnelType throws" where
  "tunnel_type_from_string str =
     (if str = ''vxlan'' then Inr VXLAN
      else if str = ''gre'' then Inr GRE
      else if str = ''nvgre'' then Inr NVGRE
      else Inl (invalid_argument (''Unknown tunnel type '' @ quoted str)))"

fun tunnel_type_to_string :: "TunnelType \<Rightarrow> string" where
  "tunnel_type_to_string VXLAN = ''vxlan''"
| "tunnel_type_to_string GRE = ''gre''"
| "tunnel_type_to_string NVGRE = ''nvgre''"
| "tunnel_type_to_string NONE = ''none''"

record VlanActionConfig =
  vl_vlan_id :: u16
  vl_pcp :: u8
  vl_dei :: u8
  vl_ethertype :: u16

record TunnelConfig =
  tn_type :: TunnelType
  tn_outer_eth_src :: string
  tn_outer_eth_dst :: string
  tn_outer_ipv4_src :: string
  tn_outer_ipv4_dst :: string
  tn_outer_ipv4_ttl :: u8
  tn_outer_ipv4_tos :: u8
  tn_outer_udp_src :: u16
  tn_outer_udp_dst :: u16
  tn_vni :: u32
  tn_gre_protocol :: u16
  tn_tni :: u32
  tn_flow_id :: u8

record FlowAction =
  fa_type :: FlowType
  fa_id :: u16
  fa_vlan :: VlanActionConfig
  fa_tunnel :: TunnelConfig
  fa_ids :: "u16 list"

definition default_FlowAction :: FlowAction where
  "default_FlowAction =
     \<lparr>fa_type = QUEUE, fa_id = 0,
      fa_vlan = \<lparr>vl_vlan_id = 0, vl_pcp = 0, vl_dei = 0, vl_ethertype = 0x8100\<rparr>,
      fa_tunnel = \<lparr>tn_type = NONE, tn_outer_eth_src = [], tn_outer_eth_dst = [], tn_outer_ipv4_src = [],
        tn_outer_ipv4_dst = [], tn_outer_ipv4_ttl = 64, tn_outer_ipv4_tos = 0, tn_outer_udp_src = 0,
        tn_outer_udp_dst = 4789, tn_vni = 0, tn_gre_protocol = 0x0800, tn_tni = 0, tn_flow_id = 0\<rparr>,
      fa_ids = []\<rparr>"

record FlexItemMatch =
  fx_flex_item_id :: u16
  fx_val :: u32
  fx_mask :: u32

record EcpriMatch =
  ec_match_msg_type :: bool
  ec_msg_type :: u8
  ec_match_id :: bool
  ec_id :: u16

record EthernetMatch =
  em_match_src :: bool
  em_src :: "u8 list"
  em_match_dst :: bool
  em_dst :: "u8 list"

datatype FlowMatchType = IPV4_UDP | FLEX_ITEM | ECPRI | ETHERNET

record FlowMatch =
  fm_type :: FlowMatchType
  fm_udp_src :: u16
  fm_udp_dst :: u16
  fm_ipv4_len :: u16
  fm_ipv4_src :: u32
  fm_ipv4_dst :: u32
  fm_flex_item_match :: FlexItemMatch
  fm_ecpri_match :: EcpriMatch
  fm_ethernet_match :: EthernetMatch

definition default_FlowMatch :: FlowMatch where
  "default_FlowMatch =
     \<lparr>fm_type = IPV4_UDP, fm_udp_src = 0, fm_udp_dst = 0, fm_ipv4_len = 0, fm_ipv4_src = 0, fm_ipv4_dst = 0,
      fm_flex_item_match = \<lparr>fx_flex_item_id = 0, fx_val = 0, fx_mask = 0\<rparr>,
      fm_ecpri_match = \<lparr>ec_match_msg_type = False, ec_msg_type = 0, ec_match_id = False, ec_id = 0\<rparr>,
      fm_ethernet_match = \<lparr>em_match_src = False, em_src = replicate 6 0, em_match_dst = False,
        em_dst = replicate 6 0\<rparr>\<rparr>"

record FlowConfig =
  fc_name :: string
  fc_id :: u32
  fc_action :: FlowAction
  fc_actions :: "FlowAction list"
  fc_match :: FlowMatch

record FlowRuleConfig =
  fr_name :: string
  fr_action :: FlowAction
  fr_actions :: "FlowAction list"
  fr_match :: FlowMatch

datatype FlowOpType = ADD_RX | ADD_RX_BATCH | DELETE

record FlowOpResult =
  fo_op_id :: u64
  fo_type :: FlowOpType
  fo_status :: Status
  fo_flow_id :: u32
  fo_flow_ids :: "u32 list"

datatype ResourceOpType =
  ADD_MEMORY_REGION | DELETE_MEMORY_REGION | ADD_RX_QUEUE | DELETE_RX_QUEUE | ADD_TX_QUEUE | DELETE_TX_QUEUE

datatype ResourceState = CREATING | ACTIVE | DRAINING | REMOVED | FAILED

record ResourceOpResult =
  ro_op_id :: u64
  ro_type :: ResourceOpType
  ro_state :: ResourceState
  ro_status :: Status
  ro_memory_region :: string
  ro_port_id :: int
  ro_queue_id :: int

definition flow_action_is_transform :: "FlowAction \<Rightarrow> bool" where
  "flow_action_is_transform action \<longleftrightarrow>
     fa_type action = VLAN_PUSH \<or> fa_type action = VLAN_POP
     \<or> fa_type action = TUNNEL_ENCAP \<or> fa_type action = TUNNEL_DECAP"

definition flow_rule_actions :: "FlowRuleConfig \<Rightarrow> FlowAction list" where
  "flow_rule_actions flow = (if fr_actions flow \<noteq> [] then fr_actions flow else [fr_action flow])"

definition flow_config_actions :: "FlowConfig \<Rightarrow> FlowAction list" where
  "flow_config_actions flow = (if fc_actions flow \<noteq> [] then fc_actions flow else [fc_action flow])"

definition flow_queue_action :: "FlowAction list \<Rightarrow> FlowAction" where
  "flow_queue_action actions =
     (case find (\<lambda>action. fa_type action = QUEUE) actions of
        None \<Rightarrow> default_FlowAction
      | Some action \<Rightarrow> action)"

definition flow_queue_ids :: "FlowAction \<Rightarrow> u16 list" where
  "flow_queue_ids action = (if fa_ids action \<noteq> [] then fa_ids action else [fa_id action])"

definition flow_queue_action_uses_rss :: "FlowAction \<Rightarrow> bool" where
  "flow_queue_action_uses_rss action \<longleftrightarrow> fa_type action = QUEUE \<and> length (fa_ids action) > 1"

definition flow_actions_have_transform :: "FlowAction list \<Rightarrow> bool" where
  "flow_actions_have_transform actions \<longleftrightarrow> list_ex flow_action_is_transform actions"

definition flow_has_transform_actions :: "FlowConfig \<Rightarrow> bool" where
  "flow_has_transform_actions flow \<longleftrightarrow> flow_actions_have_transform (flow_config_actions flow)"

definition flow_rule_has_transform_actions :: "FlowRuleConfig \<Rightarrow> bool" where
  "flow_rule_has_transform_actions flow \<longleftrightarrow> flow_actions_have_transform (flow_rule_actions flow)"

definition sizeof_ethhdr :: nat where "sizeof_ethhdr = 14"
definition sizeof_iphdr :: nat where "sizeof_iphdr = 20"
definition sizeof_udphdr :: nat where "sizeof_udphdr = 8"

fun tunnel_overhead :: "TunnelType \<Rightarrow> nat" where
  "tunnel_overhead VXLAN = sizeof_ethhdr + sizeof_iphdr + sizeof_udphdr + 8"
| "tunnel_overhead GRE = sizeof_ethhdr + sizeof_iphdr + 4"
| "tunnel_overhead NVGRE = sizeof_ethhdr + sizeof_iphdr + 8"
| "tunnel_overhead NONE = 0"

definition flow_action_wire_overhead :: "FlowAction \<Rightarrow> nat" where
  "flow_action_wire_overhead action =
     (case fa_type action of
        VLAN_PUSH \<Rightarrow> 4
      | VLAN_POP \<Rightarrow> 0
      | TUNNEL_ENCAP \<Rightarrow> tunnel_overhead (tn_type (fa_tunnel action))
      | TUNNEL_DECAP \<Rightarrow> 0
      | QUEUE \<Rightarrow> 0)"

definition flow_decap_wire_overhead :: "FlowAction \<Rightarrow> nat" where
  "flow_decap_wire_overhead action =
     (if fa_type action = VLAN_POP then 4
      else if fa_type action \<noteq> TUNNEL_DECAP then 0
      else tunnel_overhead (tn_type (fa_tunnel action)))"

primrec max_overhead_loop :: "(FlowAction \<Rightarrow> nat) \<Rightarrow> nat \<Rightarrow> FlowConfig list \<Rightarrow> nat" where
  "max_overhead_loop f overhead [] = overhead"
| "max_overhead_loop f overhead (flow # flows) =
     (let per_flow = fold (\<lambda>action acc. acc + f action) (flow_config_actions flow) 0
      in max_overhead_loop f (max overhead per_flow) flows)"

definition flow_max_decap_wire_overhead :: "FlowConfig list \<Rightarrow> nat" where
  "flow_max_decap_wire_overhead flows = max_overhead_loop flow_decap_wire_overhead 0 flows"

definition flow_max_encap_wire_overhead :: "FlowConfig list \<Rightarrow> nat" where
  "flow_max_encap_wire_overhead flows = max_overhead_loop flow_action_wire_overhead 0 flows"

section \<open>Configuration records\<close>

record CommonConfig =
  cc_version :: int
  cc_master_core :: int
  cc_dir :: Direction
  cc_stream_type :: StreamType
  cc_protocol :: SocketProtocol
  cc_engine :: EngineType
  cc_engine_type :: EngineType
  cc_loopback :: LoopbackType

datatype SocketMode = CLIENT | SERVER | INVALID

definition GetSocketModeFromString :: "string \<Rightarrow> SocketMode" where
  "GetSocketModeFromString mode_str =
     (if mode_str = ''client'' then SocketMode.CLIENT
      else if mode_str = ''server'' then SocketMode.SERVER
      else SocketMode.INVALID)"

record SocketConfig =
  so_mode :: SocketMode
  so_local_addr :: string
  so_remote_addr :: string
  so_local_ip :: string
  so_remote_ip :: string
  so_local_port :: u16
  so_remote_port :: u16
  so_max_payload_size :: u16
  so_max_burst_interval_ms :: u64
  so_min_ipg_ns :: u32
  so_retry_connect_s :: int

record RoCEConfig =
  rc_transport_mode :: RDMATransportMode

record FlexItemConfig =
  fi_name :: string
  fi_id :: u16
  fi_udp_dst_port :: u16
  fi_offset :: u16

datatype ReorderMethod = INVALID | SEQ_BATCH_NUMBER | SEQ_PACKETS_PER_BATCH

datatype ReorderMissingAction = DROP | PASSTHROUGH | INVALID

definition reorder_missing_action_from_string :: "string \<Rightarrow> ReorderMissingAction" where
  "reorder_missing_action_from_string str =
     (if str = ''drop'' then DROP
      else if str = ''passthrough'' then PASSTHROUGH
      else ReorderMissingAction.INVALID)"

fun reorder_missing_action_to_string :: "ReorderMissingAction \<Rightarrow> string" where
  "reorder_missing_action_to_string DROP = ''drop''"
| "reorder_missing_action_to_string PASSTHROUGH = ''passthrough''"
| "reorder_missing_action_to_string _ = ''invalid''"

datatype ReorderDataType = SAME | INT4 | INT8 | INT16 | INT32 | FP16 | BF16 | FP32 | FP64 | INVALID

datatype ReorderEndianness = HOST | NETWORK | INVALID

definition reorder_data_type_from_string :: "string \<Rightarrow> ReorderDataType" where
  "reorder_data_type_from_string str =
     (if str = ''int4'' then INT4
      else if str = ''int8'' then INT8
      else if str = ''int16'' then INT16
      else if str = ''int32'' then INT32
      else if str = ''fp16'' then FP16
      else if str = ''bf16'' then BF16
      else if str = ''fp32'' then FP32
      else if str = ''fp64'' then FP64
      else ReorderDataType.INVALID)"

fun reorder_data_type_to_string :: "ReorderDataType \<Rightarrow> string" where
  "reorder_data_type_to_string SAME = ''same''"
| "reorder_data_type_to_string INT4 = ''int4''"
| "reorder_data_type_to_string INT8 = ''int8''"
| "reorder_data_type_to_string INT16 = ''int16''"
| "reorder_data_type_to_string INT32 = ''int32''"
| "reorder_data_type_to_string FP16 = ''fp16''"
| "reorder_data_type_to_string BF16 = ''bf16''"
| "reorder_data_type_to_string FP32 = ''fp32''"
| "reorder_data_type_to_string FP64 = ''fp64''"
| "reorder_data_type_to_string ReorderDataType.INVALID = ''invalid''"

definition reorder_endianness_from_string :: "string \<Rightarrow> ReorderEndianness" where
  "reorder_endianness_from_string str =
     (if str = ''host'' then ReorderEndianness.HOST
      else if str = ''network'' then NETWORK
      else ReorderEndianness.INVALID)"

fun reorder_endianness_to_string :: "ReorderEndianness \<Rightarrow> string" where
  "reorder_endianness_to_string ReorderEndianness.HOST = ''host''"
| "reorder_endianness_to_string NETWORK = ''network''"
| "reorder_endianness_to_string _ = ''invalid''"

definition is_reorder_input_data_type :: "ReorderDataType \<Rightarrow> bool" where
  "is_reorder_input_data_type type \<longleftrightarrow> type = INT4 \<or> type = INT8 \<or> type = INT16 \<or> type = INT32"

definition is_reorder_output_data_type :: "ReorderDataType \<Rightarrow> bool" where
  "is_reorder_output_data_type type \<longleftrightarrow>
     type = FP16 \<or> type = BF16 \<or> type = FP32 \<or> type = FP64 \<or> type = INT32 \<or> type = INT8"

fun reorder_data_type_bit_width :: "ReorderDataType \<Rightarrow> u32" where
  "reorder_data_type_bit_width INT4 = 4"
| "reorder_data_type_bit_width INT8 = 8"
| "reorder_data_type_bit_width INT16 = 16"
| "reorder_data_type_bit_width FP16 = 16"
| "reorder_data_type_bit_width BF16 = 16"
| "reorder_data_type_bit_width INT32 = 32"
| "reorder_data_type_bit_width FP32 = 32"
| "reorder_data_type_bit_width FP64 = 64"
| "reorder_data_type_bit_width _ = 0"

record ReorderBitFieldConfig =
  bf_bit_offset :: u16
  bf_bit_width :: u8

record ReorderSeqBatchNumberConfig =
  sb_sequence_number :: ReorderBitFieldConfig
  sb_batch_number :: ReorderBitFieldConfig
  sb_packets_per_batch :: u32

record ReorderSeqPacketsPerBatchConfig =
  sp_sequence_number :: ReorderBitFieldConfig
  sp_packets_per_batch :: u32

record ReorderDataTypesConfig =
  dt_enabled :: bool
  dt_input_type :: ReorderDataType
  dt_output_type :: ReorderDataType
  dt_input_endianness :: ReorderEndianness

record ReorderConfig =
  re_name :: string
  re_reorder_engine :: string
  re_cyclic_sequence :: bool
  re_reorder_type :: string
  re_memory_region :: string
  re_payload_byte_offset :: u32
  re_packet_size :: u32
  re_flow_ids :: "u32 list"
  re_method :: ReorderMethod
  re_missing_action :: ReorderMissingAction
  re_seq_batch_number :: ReorderSeqBatchNumberConfig
  re_seq_packets_per_batch :: ReorderSeqPacketsPerBatchConfig
  re_data_types :: ReorderDataTypesConfig

record RxConfig =
  rx_flow_isolation :: bool
  rx_hardware_timestamps :: bool
  rx_dynamic_flow_capacity :: u32
  rx_queues :: "RxQueueConfig list"
  rx_flows :: "FlowConfig list"
  rx_flex_items :: "FlexItemConfig list"
  rx_reorder_configs :: "ReorderConfig list"

record TxConfig =
  tx_accurate_send :: bool
  tx_queues :: "TxQueueConfig list"
  tx_flows :: "FlowConfig list"

record InterfaceConfig =
  if_name :: string
  if_address :: string
  if_port_id :: u16
  if_socket :: SocketConfig
  if_roce :: RoCEConfig
  if_rdma :: RDMAConfig
  if_rx :: RxConfig
  if_tx :: TxConfig

text \<open>The map of memory regions is an association list; its order stands for the hash table's
  iteration order.\<close>

record NetworkConfig =
  nc_common :: CommonConfig
  nc_mrs :: "(string \<times> MemoryRegionConfig) list"
  nc_ifs :: "InterfaceConfig list"
  nc_debug :: u16
  nc_tx_meta_buffers :: u32
  nc_rx_meta_buffers :: u32
  nc_log_level :: Level

section \<open>Properties\<close>

lemmas conversion_defs =
  stream_type_from_string_def socket_protocol_from_string_def queue_poll_mode_from_string_def
  flow_type_from_string_def tunnel_type_from_string_def reorder_missing_action_from_string_def
  reorder_data_type_from_string_def reorder_endianness_from_string_def

text \<open>Every printed name of an enumeration value that a configuration can select is read back
  as that value, and every accepted name is printed back as itself.\<close>

theorem enum_names_roundtrip:
  "(\<forall>x. stream_type_from_string (stream_type_to_string x) = x)
   \<and> (\<forall>x. socket_protocol_from_string (socket_protocol_to_string x) = x)
   \<and> (\<forall>x. queue_poll_mode_from_string (queue_poll_mode_to_string x) = x)
   \<and> (\<forall>x. flow_type_from_string (flow_type_to_string x) = Inr x)
   \<and> (\<forall>x. tunnel_type_from_string (tunnel_type_to_string x) = Inr x \<or> x = NONE)
   \<and> (\<forall>x. reorder_missing_action_from_string (reorder_missing_action_to_string x) = x)
   \<and> (\<forall>x. reorder_data_type_from_string (reorder_data_type_to_string x) = x \<or> x = SAME)
   \<and> (\<forall>x. reorder_endianness_from_string (reorder_endianness_to_string x) = x)
   \<and> (\<forall>x. LogLevel_from_string (LogLevel_to_string x) = Inr x)
   \<and> (\<forall>s t. flow_type_from_string s = Inr t \<longrightarrow> flow_type_to_string t = s)
   \<and> (\<forall>s t. tunnel_type_from_string s = Inr t \<longrightarrow> tunnel_type_to_string t = s)"
proof (intro conjI allI)
  fix x
  show "stream_type_from_string (stream_type_to_string x) = x"
    by (cases x) (simp_all add: conversion_defs)
next
  fix x
  show "socket_protocol_from_string (socket_protocol_to_string x) = x"
    by (cases x) (simp_all add: conversion_defs)
next
  fix x
  show "queue_poll_mode_from_string (queue_poll_mode_to_string x) = x"
    by (cases x) (simp_all add: conversion_defs)
next
  fix x
  show "flow_type_from_string (flow_type_to_string x) = Inr x"
    by (cases x) (simp_all add: conversion_defs)
next
  fix x
  show "tunnel_type_from_string (tunnel_type_to_string x) = Inr x \<or> x = NONE"
    by (cases x) (simp_all add: conversion_defs)
next
  fix x
  show "reorder_missing_action_from_string (reorder_missing_action_to_string x) = x"
    by (cases x) (simp_all add: conversion_defs)
next
  fix x
  show "reorder_data_type_from_string (reorder_data_type_to_string x) = x \<or> x = SAME"
    by (cases x) (simp_all add: conversion_defs)
next
  fix x
  show "reorder_endianness_from_string (reorder_endianness_to_string x) = x"
    by (cases x) (simp_all add: conversion_defs)
next
  fix x
  show "LogLevel_from_string (LogLevel_to_string x) = Inr x"
    by (cases x) (simp_all add: LogLevel_from_string_def string_to_level_map_def tolower_def Let_def)
next
  fix s t
  show "flow_type_from_string s = Inr t \<longrightarrow> flow_type_to_string t = s"
    by (auto simp: conversion_defs)
next
  fix s t
  show "tunnel_type_from_string s = Inr t \<longrightarrow> tunnel_type_to_string t = s"
    by (auto simp: conversion_defs)
qed

theorem enum_names_roundtrip_witness:
  "flow_type_from_string ''vlan_pop'' = Inr VLAN_POP \<and> flow_type_to_string VLAN_POP = ''vlan_pop''
   \<and> tunnel_type_to_string NVGRE = ''nvgre''"
proof -
  have "flow_type_from_string ''vlan_pop'' = Inr VLAN_POP" by (simp add: flow_type_from_string_def)
  moreover have "tunnel_type_from_string ''nvgre'' = Inr NVGRE" by (simp add: tunnel_type_from_string_def)
  ultimately show ?thesis using enum_names_roundtrip by blast
qed

text \<open>The engine chosen for a stream type and protocol is unknown only when the build has none,
  and otherwise supports that stream type and, for sockets, that protocol.\<close>

theorem default_engine_supported:
  assumes "stream_type \<noteq> StreamType.INVALID" "e = engine_type_from_stream_type bf stream_type protocol"
  shows "if e = UNKNOWN then stream_type = RAW \<and> \<not> ENGINE_IBVERBS bf \<and> \<not> ENGINE_DPDK bf
    else engine_type_supports_stream_type e stream_type \<and> is_explicit_engine_type e
      \<and> (stream_type = StreamType.SOCKET \<longrightarrow> protocol \<noteq> SocketProtocol.INVALID
          \<longrightarrow> engine_type_supports_socket_protocol e protocol)"
  using assms
  by (cases stream_type; cases protocol;
      simp add: engine_type_supports_socket_protocol_def is_explicit_engine_type_def)

theorem default_engine_supported_witness:
  "engine_type_supports_stream_type RDMA StreamType.SOCKET \<and> is_explicit_engine_type RDMA
   \<and> engine_type_supports_socket_protocol RDMA ROCE"
  using default_engine_supported [of StreamType.SOCKET RDMA
      "\<lparr>ENGINE_DPDK = True, ENGINE_SOCKET = True, ENGINE_RDMA = True, ENGINE_IBVERBS = False\<rparr>" ROCE]
  by simp

lemma fold_sum: "fold (\<lambda>action acc. acc + f action) xs (a::nat) = a + sum_list (map f xs)"
  by (induction xs arbitrary: a) simp_all

lemma max_overhead_loop_Max:
  "max_overhead_loop f a flows
   = Max (insert a ((\<lambda>flow. sum_list (map f (flow_config_actions flow))) ` set flows))"
proof (induction flows arbitrary: a)
  case Nil
  then show ?case by simp
next
  case (Cons flow flows)
  let ?g = "\<lambda>flow. sum_list (map f (flow_config_actions flow))"
  have "max_overhead_loop f a (flow # flows) = Max (insert (max a (?g flow)) (?g ` set flows))"
    by (simp add: Cons fold_sum)
  also have "\<dots> = Max (insert a (insert (?g flow) (?g ` set flows)))"
    by (cases "set flows = {}") (simp_all add: max.assoc)
  finally show ?case by simp
qed

text \<open>The header room the engines reserve is the largest total of any flow: no flow's
  decapsulation (encapsulation) adds more bytes, and unless it is 0 some flow needs all of it.\<close>

theorem wire_overhead_is_max:
  "flow_max_decap_wire_overhead flows =
     Max (insert 0 ((\<lambda>flow. sum_list (map flow_decap_wire_overhead (flow_config_actions flow))) ` set flows))
   \<and> flow_max_encap_wire_overhead flows =
     Max (insert 0 ((\<lambda>flow. sum_list (map flow_action_wire_overhead (flow_config_actions flow))) ` set flows))"
  by (simp add: flow_max_decap_wire_overhead_def flow_max_encap_wire_overhead_def max_overhead_loop_Max)

end
