(* ===== verification/Rdma_Direct.thy ===== *)
theory Rdma_Direct
  imports Rdma_Work Daqiri_Types
begin

text \<open>
  The caller-driven RDMA data path of \<^verbatim>\<open>src/src/engines/rdma/rdma_direct.h\<close> and
  \<^verbatim>\<open>rdma_direct.cpp\<close>, with \<^verbatim>\<open>rdma_transport.h\<close>: posting work requests, decoding completions into the
  ready queue, and the table of connections. Bursts live in a heap and are named by address,
  0 being the null pointer. What the verbs library answers (whether a post succeeds, which
  completion a poll returns) is an argument. The request and ready arrays are functions of
  the masked index. Only one thread at a time executes these operations on a connection: the
  lease that guarantees it is the subject of the theory of the gate.
\<close>

unbundle bit_operations_syntax

section \<open>Model\<close>

datatype QpType = QPT_RC | QPT_UC | QPT_UD | QPT_OTHER

fun rdma_operation_supported :: "QpType \<Rightarrow> RDMAOpCode \<Rightarrow> bool" where
  "rdma_operation_supported type SEND \<longleftrightarrow> type = QPT_RC \<or> type = QPT_UC \<or> type = QPT_UD"
| "rdma_operation_supported type RECEIVE \<longleftrightarrow> type = QPT_RC \<or> type = QPT_UC \<or> type = QPT_UD"
| "rdma_operation_supported type RDMA_WRITE \<longleftrightarrow> type = QPT_RC \<or> type = QPT_UC"
| "rdma_operation_supported type RDMA_WRITE_IMM \<longleftrightarrow> type = QPT_RC \<or> type = QPT_UC"
| "rdma_operation_supported type RDMA_READ \<longleftrightarrow> type = QPT_RC"
| "rdma_operation_supported type _ \<longleftrightarrow> False"

record rdma_mr_params =
  mp_params :: MemoryRegionConfig
  mp_ptr :: u64

record RdmaDirectMr =
  dm_name :: string
  dm_region :: rdma_mr_params
  dm_pool :: "u64 option"
  dm_lkey :: u32

record RdmaBurstCache =
  ca_magic :: u64
  ca_engine :: u64
  ca_state :: u64
  ca_region :: "RdmaDirectMr option"
  ca_rx_timestamp_ns :: u64
  ca_rx_timestamps :: "u64 list option"
  ca_scheduled :: bool
  ca_tx_times :: "u64 list"
  ca_tx_timestamp_ids :: "u64 list option"
  ca_tx_timestamp_count :: u16
  ca_tx_timestamp_submitted :: bool

definition kMagic :: u64 where "kMagic = 0x52444d4143414348"

text \<open>\<open>db_pkts\<close> and \<open>db_lens\<close> are the first entries of \<^verbatim>\<open>pkts[0]\<close> and \<^verbatim>\<open>pkt_lens[0]\<close>, unless those are
  null.\<close>

record DBurst =
  db_hdr :: BurstTransportHeader
  db_pkts :: "u64 option"
  db_lens :: "u32 option"
  db_cache :: RdmaBurstCache

record Request =
  rq_burst :: u64
  rq_tag :: u64

record CounterSet =
  ct_tx_packets :: u64
  ct_tx_bytes :: u64
  ct_rx_packets :: u64
  ct_rx_bytes :: u64
  ct_dropped :: "string \<Rightarrow> u64"

record RdmaDirectState =
  ds_self :: u64
  ds_connection_id :: u64
  ds_regions :: "RdmaDirectMr list"
  ds_counters :: CounterSet
  ds_sends :: "u64 \<Rightarrow> Request"
  ds_receives :: "u64 \<Rightarrow> Request"
  ds_sends_posted :: u64
  ds_sends_completed :: u64
  ds_receives_posted :: u64
  ds_receive_count :: u32
  ds_poll_tx_first :: bool
  ds_ready :: "u64 \<Rightarrow> u64"
  ds_ready_head :: u64
  ds_ready_tail :: u64

record rdma_thread_params =
  tp_qp_type :: QpType
  tp_ready_to_exit :: bool
  tp_ud :: "u64 \<times> u32 \<times> u32"
  tp_ud_mtu :: u32
  tp_ud_grh :: "u64 \<times> u32"
  tp_max_inline_data :: u32
  tp_inline_wqes :: u64
  tp_send_signal_every :: int
  tp_sends_since_signal :: u64
  tp_tx_timestamp_outstanding :: u32

datatype TsEvent = FinishTxTimestamp u64 Status u64

record DirectCtx =
  dx_engine :: u64
  dx_force_quit :: bool
  dx_state :: RdmaDirectState
  dx_params :: rdma_thread_params
  dx_heap :: "u64 \<Rightarrow> DBurst"
  dx_log :: "TsEvent list"

definition kRequests :: u64 where "kRequests = 1024"
definition kReady :: u64 where "kReady = 2048"

definition bswap32 :: "u32 \<Rightarrow> u32" where
  "bswap32 w = push_bit 24 (w AND 0xff) OR push_bit 8 (w AND 0xff00)
               OR (drop_bit 8 w AND 0xff00) OR drop_bit 24 w"

definition inline_eligible :: "RdmaDirectMr \<Rightarrow> u32 \<Rightarrow> u32 \<Rightarrow> bool" where
  "inline_eligible region len max_inline \<longleftrightarrow>
     (let kind = mr_kind (mp_params (dm_region region)) in
      (kind = HUGE \<or> kind = HOST_PINNED) \<and> len \<le> max_inline)"

definition rdma_clear_rx_timestamps :: "DBurst \<Rightarrow> DBurst" where
  "rdma_clear_rx_timestamps burst =
     (let cache = (db_cache burst)\<lparr>ca_rx_timestamp_ns := - 1\<rparr> in
      burst\<lparr>db_cache :=
        (case ca_rx_timestamps cache of
           None \<Rightarrow> cache
         | Some ts \<Rightarrow> cache\<lparr>ca_rx_timestamps :=
             Some (replicate (bt_num_pkts (db_hdr burst)) (- 1) @ drop (bt_num_pkts (db_hdr burst)) ts)\<rparr>)\<rparr>)"

definition rdma_set_rx_timestamp :: "DBurst \<Rightarrow> nat \<Rightarrow> u64 \<Rightarrow> DBurst" where
  "rdma_set_rx_timestamp burst packet timestamp_ns =
     (let cache = db_cache burst in
      if packet < bt_num_pkts (db_hdr burst) then
        (case ca_rx_timestamps cache of
           Some ts \<Rightarrow> burst\<lparr>db_cache := cache\<lparr>ca_rx_timestamps := Some (ts[packet := timestamp_ns])\<rparr>\<rparr>
         | None \<Rightarrow> if packet = 0 then burst\<lparr>db_cache := cache\<lparr>ca_rx_timestamp_ns := timestamp_ns\<rparr>\<rparr> else burst)
      else burst)"

definition rdma_tx_time :: "DBurst \<Rightarrow> nat \<Rightarrow> u64" where
  "rdma_tx_time burst index = (if ca_scheduled (db_cache burst) then ca_tx_times (db_cache burst) ! index else 0)"

definition rdma_packet_tx_timestamp_id :: "DBurst \<Rightarrow> nat \<Rightarrow> u64" where
  "rdma_packet_tx_timestamp_id burst packet =
     (case ca_tx_timestamp_ids (db_cache burst) of
        Some ids \<Rightarrow> if packet < unat (ca_tx_timestamp_count (db_cache burst)) then ids ! packet else 0
      | None \<Rightarrow> 0)"

text \<open>The region is found in the burst's cache, or in the connection's list and then cached.\<close>

definition direct_region :: "u64 \<Rightarrow> RdmaDirectState \<Rightarrow> DBurst \<Rightarrow> RdmaDirectMr option \<times> DBurst" where
  "direct_region this st burst =
     (let cache = db_cache burst; name = bt_local_mr_name (db_hdr burst) in
      if ca_magic cache = kMagic \<and> ca_engine cache = this \<and> ca_state cache = ds_self st
         \<and> ca_region cache \<noteq> None \<and> dm_name (the (ca_region cache)) = name
      then (ca_region cache, burst)
      else
        (case find (\<lambda>region. dm_name region = name) (ds_regions st) of
           Some region \<Rightarrow>
             (Some region, burst\<lparr>db_cache := cache\<lparr>ca_magic := kMagic, ca_engine := this,
                ca_state := ds_self st, ca_region := Some region\<rparr>\<rparr>)
         | None \<Rightarrow> (None, burst)))"

definition burst_pool :: "u64 \<Rightarrow> (string \<rightharpoonup> u64) \<Rightarrow> DBurst \<Rightarrow> u64 option" where
  "burst_pool this mem_pools burst =
     (let cache = db_cache burst; name = bt_local_mr_name (db_hdr burst) in
      if ca_magic cache = kMagic \<and> ca_engine cache = this
         \<and> ca_region cache \<noteq> None \<and> dm_name (the (ca_region cache)) = name
      then dm_pool (the (ca_region cache))
      else mem_pools name)"

datatype SendOpcode = WR_SEND | WR_RDMA_READ | WR_RDMA_WRITE | WR_RDMA_WRITE_WITH_IMM

record SendWr =
  sw_wr_id :: u64
  sw_sge :: "(u64 \<times> u32 \<times> u32) option"
  sw_opcode :: SendOpcode
  sw_imm :: u32
  sw_remote :: "(u64 \<times> u32) option"
  sw_ud :: "(u64 \<times> u32 \<times> u32) option"
  sw_signaled :: bool
  sw_fence :: bool
  sw_inline :: bool

record RecvWr =
  rw_wr_id :: u64
  rw_sges :: "(u64 \<times> u32 \<times> u32) list"

definition add_dropped :: "RdmaDirectState \<Rightarrow> string \<Rightarrow> RdmaDirectState" where
  "add_dropped st reason =
     st\<lparr>ds_counters := (ds_counters st)\<lparr>ct_dropped :=
        (ct_dropped (ds_counters st))(reason := ct_dropped (ds_counters st) reason + 1)\<rparr>\<rparr>"

definition one_sided_op :: "RDMAOpCode \<Rightarrow> bool" where
  "one_sided_op opcode \<longleftrightarrow> opcode = RDMA_READ \<or> opcode = RDMA_WRITE \<or> opcode = RDMA_WRITE_IMM"

definition one_sided_rejected :: "RdmaDirectMr \<Rightarrow> BurstTransportHeader \<Rightarrow> u64 \<Rightarrow> u32 \<Rightarrow> bool" where
  "one_sided_rejected region h addr len \<longleftrightarrow>
     (let mr = dm_region region;
          opcode = bt_opcode h;
          remote = bt_raddr h;
          permission = (if opcode = RDMA_READ then MEM_ACCESS_RDMA_READ else MEM_ACCESS_RDMA_WRITE)
      in (bt_remote_access h AND permission) = 0 \<or> ucast len > bt_remote_length h
         \<or> (len = 0 \<and> opcode \<noteq> RDMA_WRITE_IMM) \<or> remote = 0 \<or> ucast len > - 1 - remote
         \<or> bt_dst_key h > 0xffffffff
         \<or> \<not> rdma_range_valid addr (ucast len) (mp_ptr mr)
              (mr_adj_size (mp_params mr) * mr_num_bufs (mp_params mr))
         \<or> (opcode = RDMA_READ
            \<and> (mr_access (mp_params mr) AND (MEM_ACCESS_LOCAL OR MEM_ACCESS_RDMA_WRITE)) = 0))"

definition send_wr_of :: "DirectCtx \<Rightarrow> DBurst \<Rightarrow> RdmaDirectMr \<Rightarrow> u64 \<Rightarrow> SendWr" where
  "send_wr_of dx burst region tag =
     (let st = dx_state dx; params = dx_params dx; h = db_hdr burst;
          opcode = bt_opcode h; len = the (db_lens burst); one_sided = one_sided_op opcode;
          signal = (rdma_packet_tx_timestamp_id burst 0 \<noteq> 0 \<or> one_sided
                    \<or> tp_send_signal_every params = 1
                    \<or> tp_sends_since_signal params + 1 \<ge> of_int (tp_send_signal_every params)
                    \<or> ds_sends_posted st - ds_sends_completed st \<ge> 15)
      in \<lparr>sw_wr_id = tag,
          sw_sge = (if len = 0 then None else Some (the (db_pkts burst), len, dm_lkey region)),
          sw_opcode = (if opcode = RDMA_READ then WR_RDMA_READ
                       else if opcode = RDMA_WRITE_IMM then WR_RDMA_WRITE_WITH_IMM
                       else if one_sided then WR_RDMA_WRITE else WR_SEND),
          sw_imm = (if opcode = RDMA_WRITE_IMM then bswap32 (bt_imm h) else 0),
          sw_remote = (if one_sided then Some (bt_raddr h, ucast (bt_dst_key h)) else None),
          sw_ud = (if \<not> one_sided \<and> tp_qp_type params = QPT_UD then Some (tp_ud params) else None),
          sw_signaled = signal,
          sw_fence = (tp_qp_type params = QPT_RC),
          sw_inline = (opcode = SEND \<and> inline_eligible region len (tp_max_inline_data params))\<rparr>)"

definition recv_wr_of :: "DirectCtx \<Rightarrow> DBurst \<Rightarrow> RdmaDirectMr \<Rightarrow> u64 \<Rightarrow> RecvWr" where
  "recv_wr_of dx burst region tag =
     (let len = the (db_lens burst);
          sge = (if len = 0 then [] else [(the (db_pkts burst), len, dm_lkey region)])
      in \<lparr>rw_wr_id = tag,
          rw_sges = (if tp_qp_type (dx_params dx) = QPT_UD
                     then (fst (tp_ud_grh (dx_params dx)), 40, snd (tp_ud_grh (dx_params dx))) # sge
                     else sge)\<rparr>)"

definition post_send_request :: "(SendWr \<Rightarrow> u64 \<Rightarrow> bool) \<Rightarrow> u64 \<Rightarrow> DBurst \<Rightarrow> RdmaDirectMr \<Rightarrow> DirectCtx \<Rightarrow> Status \<times> DirectCtx" where
  "post_send_request post_send b burst region dx =
     (let st = dx_state dx; params = dx_params dx in
      if ds_sends_posted st - ds_sends_completed st = kRequests then (NO_SPACE_AVAILABLE, dx)
      else
        let tag = ds_sends_posted st + 1;
            wr = send_wr_of dx burst region tag
        in if \<not> post_send wr (rdma_tx_time burst 0)
           then (GENERIC_FAILURE, dx\<lparr>dx_state := add_dropped st ''tx_post_failure''\<rparr>)
           else
             let stamped = rdma_packet_tx_timestamp_id burst 0 \<noteq> 0;
                 burst' = (if stamped then burst\<lparr>db_cache := (db_cache burst)\<lparr>ca_tx_timestamp_submitted := True\<rparr>\<rparr>
                           else burst)
             in (SUCCESS, dx\<lparr>
                  dx_heap := (dx_heap dx)(b := burst'),
                  dx_state := st\<lparr>
                    ds_sends := (ds_sends st)((tag - 1) AND (kRequests - 1) := \<lparr>rq_burst = b, rq_tag = tag\<rparr>),
                    ds_sends_posted := tag\<rparr>,
                  dx_params := params\<lparr>
                    tp_tx_timestamp_outstanding := tp_tx_timestamp_outstanding params + (if stamped then 1 else 0),
                    tp_sends_since_signal := (if sw_signaled wr then 0 else tp_sends_since_signal params + 1),
                    tp_inline_wqes := tp_inline_wqes params + (if sw_inline wr then 1 else 0)\<rparr>\<rparr>))"

definition post_recv_request :: "(RecvWr \<Rightarrow> bool) \<Rightarrow> u64 \<Rightarrow> DBurst \<Rightarrow> RdmaDirectMr \<Rightarrow> DirectCtx \<Rightarrow> Status \<times> DirectCtx" where
  "post_recv_request post_recv b burst region dx =
     (let st = dx_state dx;
          tag = ds_receives_posted st + 1;
          idx = (tag - 1) AND (kRequests - 1)
      in if rq_burst (ds_receives st idx) \<noteq> 0 then (NO_SPACE_AVAILABLE, dx)
         else
           let burst' = rdma_clear_rx_timestamps burst;
               dx2 = dx\<lparr>dx_heap := (dx_heap dx)(b := burst')\<rparr>
           in if \<not> post_recv (recv_wr_of dx2 burst' region tag)
              then (GENERIC_FAILURE, dx2\<lparr>dx_state := add_dropped st ''rx_post_failure''\<rparr>)
              else (SUCCESS, dx2\<lparr>dx_state := st\<lparr>
                ds_receives := (ds_receives st)(idx := \<lparr>rq_burst = b, rq_tag = tag\<rparr>),
                ds_receives_posted := tag,
                ds_receive_count := ds_receive_count st + 1\<rparr>\<rparr>))"

definition send_direct ::
  "(SendWr \<Rightarrow> u64 \<Rightarrow> bool) \<Rightarrow> (RecvWr \<Rightarrow> bool) \<Rightarrow> u64 \<Rightarrow> DirectCtx \<Rightarrow> Status \<times> DirectCtx" where
  "send_direct post_send post_recv b dx =
     (let st = dx_state dx; params = dx_params dx; burst0 = dx_heap dx b; h = db_hdr burst0 in
      if dx_force_quit dx \<or> tp_ready_to_exit params then (NOT_READY, dx)
      else if bt_num_pkts h \<noteq> 1 \<or> bt_num_segs h \<noteq> 1 \<or> db_pkts burst0 = None \<or> db_lens burst0 = None
      then (INVALID_PARAMETER, dx)
      else
        (case direct_region (dx_engine dx) st burst0 of
           (None, _) \<Rightarrow> (INVALID_PARAMETER, dx)
         | (Some region, burst) \<Rightarrow>
             let dx1 = dx\<lparr>dx_heap := (dx_heap dx)(b := burst)\<rparr>;
                 addr = the (db_pkts burst); len = the (db_lens burst);
                 opcode = bt_opcode h; type = tp_qp_type params
             in
             if ucast len > mr_buf_size (mp_params (dm_region region)) then (INVALID_PARAMETER, dx1)
             else if \<not> rdma_operation_supported type opcode then (NOT_SUPPORTED, dx1)
             else if type = QPT_UD \<and> opcode = SEND \<and> len > tp_ud_mtu params then (INVALID_PARAMETER, dx1)
             else if one_sided_op opcode \<and> one_sided_rejected region h addr len then (INVALID_PARAMETER, dx1)
             else if opcode = SEND \<or> one_sided_op opcode then post_send_request post_send b burst region dx1
             else if opcode = RECEIVE then post_recv_request post_recv b burst region dx1
             else (NOT_SUPPORTED, dx1)))"

datatype WcOpcode = WC_SEND | WC_RECV | WC_RECV_RDMA_WITH_IMM | WC_RDMA_WRITE | WC_RDMA_READ | WC_OTHER

fun ibv_opcode_to_daqiri_opcode :: "WcOpcode \<Rightarrow> RDMAOpCode" where
  "ibv_opcode_to_daqiri_opcode WC_SEND = SEND"
| "ibv_opcode_to_daqiri_opcode WC_RECV = RECEIVE"
| "ibv_opcode_to_daqiri_opcode WC_RECV_RDMA_WITH_IMM = RDMA_WRITE_IMM"
| "ibv_opcode_to_daqiri_opcode WC_RDMA_WRITE = RDMA_WRITE"
| "ibv_opcode_to_daqiri_opcode WC_RDMA_READ = RDMA_READ"
| "ibv_opcode_to_daqiri_opcode WC_OTHER = RDMAOpCode.INVALID"

record ibv_wc =
  wc_wr_id :: u64
  wc_success :: bool
  wc_opcode :: WcOpcode
  wc_byte_len :: u32
  wc_imm_data :: u32
  wc_with_imm :: bool

text \<open>What a poll of a completion queue returns: the count, the completion and its timestamp.\<close>

type_synonym poll_result = "int \<times> ibv_wc \<times> u64"

definition deliver_tx_ts :: "ibv_wc \<Rightarrow> u64 \<Rightarrow> Status \<Rightarrow> u64 \<Rightarrow> DBurst \<Rightarrow> DirectCtx \<Rightarrow> DirectCtx" where
  "deliver_tx_ts wc timestamp_ns status slot_tag burst dx =
     (let i = rdma_packet_tx_timestamp_id burst 0; params = dx_params dx in
      if i \<noteq> 0 then
        dx\<lparr>dx_params := params\<lparr>tp_tx_timestamp_outstanding :=
             (if tp_tx_timestamp_outstanding params \<noteq> 0 then tp_tx_timestamp_outstanding params - 1 else 0)\<rparr>,
           dx_log := dx_log dx @
             [FinishTxTimestamp i
                (if status = SUCCESS \<and> slot_tag = wc_wr_id wc \<and> timestamp_ns \<noteq> - 1 then SUCCESS else GENERIC_FAILURE)
                timestamp_ns]\<rparr>
      else dx)"

definition deliver_rx_burst :: "ibv_wc \<Rightarrow> u64 \<Rightarrow> DBurst \<Rightarrow> DBurst" where
  "deliver_rx_burst wc timestamp_ns burst =
     (let h = (db_hdr burst)\<lparr>bt_opcode := ibv_opcode_to_daqiri_opcode (wc_opcode wc), bt_imm := 0,
                bt_rdma_write_length := 0\<rparr>;
          h' = (if wc_opcode wc = WC_RECV_RDMA_WITH_IMM then
                  (if wc_with_imm wc
                   then h\<lparr>bt_imm := bswap32 (wc_imm_data wc), bt_rdma_write_length := wc_byte_len wc\<rparr>
                   else h\<lparr>bt_status := GENERIC_FAILURE\<rparr>)
                else h)
      in rdma_set_rx_timestamp
           (burst\<lparr>db_hdr := h', db_lens := Some (if wc_opcode wc = WC_RECV then wc_byte_len wc else 0)\<rparr>)
           0 timestamp_ns)"

definition add_tx :: "RdmaDirectState \<Rightarrow> u32 \<Rightarrow> RdmaDirectState" where
  "add_tx st len = st\<lparr>ds_counters := (ds_counters st)\<lparr>
     ct_tx_packets := ct_tx_packets (ds_counters st) + 1, ct_tx_bytes := ct_tx_bytes (ds_counters st) + ucast len\<rparr>\<rparr>"

definition add_rx :: "RdmaDirectState \<Rightarrow> u32 \<Rightarrow> RdmaDirectState" where
  "add_rx st len = st\<lparr>ds_counters := (ds_counters st)\<lparr>
     ct_rx_packets := ct_rx_packets (ds_counters st) + 1, ct_rx_bytes := ct_rx_bytes (ds_counters st) + ucast len\<rparr>\<rparr>"

text \<open>The lambda \<^verbatim>\<open>deliver\<close>: the slot's burst gets its outcome and joins the ready queue. The slot
  itself is cleared by the caller's equation.\<close>

definition deliver :: "ibv_wc \<Rightarrow> u64 \<Rightarrow> Status \<Rightarrow> bool \<Rightarrow> Request \<Rightarrow> bool \<Rightarrow> DirectCtx \<Rightarrow> DirectCtx" where
  "deliver wc timestamp_ns status server slot transmit dx =
     (let b = rq_burst slot;
          burst0 = dx_heap dx b;
          burst1 = burst0\<lparr>db_hdr := (db_hdr burst0)\<lparr>bt_status := status, bt_tx := transmit, bt_server := server\<rparr>\<rparr>;
          dx1 = (if transmit then deliver_tx_ts wc timestamp_ns status (rq_tag slot) burst1 dx else dx);
          burst2 = (if status = SUCCESS \<and> \<not> transmit then deliver_rx_burst wc timestamp_ns burst1 else burst1);
          st1 = (if status = SUCCESS
                 then (if transmit then add_tx (dx_state dx1) (the (db_lens burst1)) else add_rx (dx_state dx1) (wc_byte_len wc))
                 else add_dropped (dx_state dx1) (if transmit then ''tx_completion_error'' else ''rx_completion_error''));
          st2 = st1\<lparr>ds_ready := (ds_ready st1)(ds_ready_tail st1 AND (kReady - 1) := b),
                    ds_ready_tail := ds_ready_tail st1 + 1\<rparr>
      in dx1\<lparr>dx_heap := (dx_heap dx1)(b := burst2), dx_state := st2\<rparr>)"

function poll_tx_loop :: "ibv_wc \<Rightarrow> u64 \<Rightarrow> Status \<Rightarrow> bool \<Rightarrow> u64 \<Rightarrow> DirectCtx \<Rightarrow> Status \<times> DirectCtx" where
  "poll_tx_loop wc timestamp_ns status server completed dx =
     (if completed < wc_wr_id wc then
        let idx = completed AND (kRequests - 1); slot = ds_sends (dx_state dx) idx in
        if rq_burst slot = 0 \<or> rq_tag slot \<noteq> completed + 1 then (GENERIC_FAILURE, dx)
        else
          let dx1 = dx\<lparr>dx_state := (dx_state dx)\<lparr>ds_sends := (ds_sends (dx_state dx))(idx := slot\<lparr>rq_burst := 0\<rparr>)\<rparr>\<rparr>;
              dx2 = deliver wc timestamp_ns status server slot True dx1;
              dx3 = dx2\<lparr>dx_state := (dx_state dx2)\<lparr>ds_sends_completed := completed + 1\<rparr>\<rparr>
          in poll_tx_loop wc timestamp_ns status server (completed + 1) dx3
      else (SUCCESS, dx))"
  by pat_completeness auto
termination
  by (relation "measure (\<lambda>(wc, _, _, _, completed, _). unat (wc_wr_id wc) - unat completed)")
    (auto simp: unat_inc word_less_nat_alt)

declare poll_tx_loop.simps [simp del]

definition poll_direct :: "poll_result \<Rightarrow> bool \<Rightarrow> bool \<Rightarrow> DirectCtx \<Rightarrow> Status \<times> DirectCtx" where
  "poll_direct polled tx server dx =
     (case polled of (cnt, wc0, timestamp_ns) \<Rightarrow>
        if cnt \<le> 0 then (if cnt = 0 then NOT_READY else GENERIC_FAILURE, dx)
        else
          let wc = (if \<not> tx \<and> wc_success wc0 \<and> tp_qp_type (dx_params dx) = QPT_UD then
                      (if wc_byte_len wc0 < 40 then wc0\<lparr>wc_success := False\<rparr>
                       else wc0\<lparr>wc_byte_len := wc_byte_len wc0 - 40\<rparr>)
                    else wc0);
              status = (if wc_success wc then SUCCESS else GENERIC_FAILURE);
              st = dx_state dx
          in if tx then
               (if wc_wr_id wc \<le> ds_sends_completed st \<or> wc_wr_id wc > ds_sends_posted st then (GENERIC_FAILURE, dx)
                else if wc_wr_id wc - ds_sends_completed st > kReady - (ds_ready_tail st - ds_ready_head st)
                then (GENERIC_FAILURE, dx)
                else poll_tx_loop wc timestamp_ns status server (ds_sends_completed st) dx)
             else
               (let idx = (wc_wr_id wc - 1) AND (kRequests - 1); slot = ds_receives st idx in
                if wc_wr_id wc = 0 \<or> rq_burst slot = 0 \<or> rq_tag slot \<noteq> wc_wr_id wc
                   \<or> ds_ready_tail st - ds_ready_head st = kReady
                then (GENERIC_FAILURE, dx)
                else
                  let dx1 = dx\<lparr>dx_state := st\<lparr>ds_receives := (ds_receives st)(idx := slot\<lparr>rq_burst := 0\<rparr>)\<rparr>\<rparr>;
                      dx2 = deliver wc timestamp_ns status server slot False dx1
                  in (SUCCESS, dx2\<lparr>dx_state := (dx_state dx2)\<lparr>ds_receive_count := ds_receive_count (dx_state dx2) - 1\<rparr>\<rparr>)))"

text \<open>The two rounds of the refill loop; the argument gives what each poll of a direction returns.\<close>

fun get_direct_refill :: "(bool \<Rightarrow> poll_result) \<Rightarrow> bool \<Rightarrow> bool list \<Rightarrow> DirectCtx \<Rightarrow> Status option \<times> DirectCtx" where
  "get_direct_refill polls server [] dx = (None, dx)"
| "get_direct_refill polls server (tx # rest) dx =
     (let st = dx_state dx in
      if (if tx then ds_sends_completed st = ds_sends_posted st else ds_receive_count st = 0)
      then get_direct_refill polls server rest dx
      else
        (case poll_direct (polls tx) tx server dx of (status, dx') \<Rightarrow>
           if status = GENERIC_FAILURE then (Some status, dx')
           else if ds_ready_head (dx_state dx') \<noteq> ds_ready_tail (dx_state dx') then (None, dx')
           else get_direct_refill polls server rest dx'))"

definition get_direct_fill :: "(bool \<Rightarrow> poll_result) \<Rightarrow> bool \<Rightarrow> DirectCtx \<Rightarrow> Status option \<times> DirectCtx" where
  "get_direct_fill polls server dx =
     (let st = dx_state dx in
      if ds_ready_head st = ds_ready_tail st then
        let tx_first = ds_poll_tx_first st in
        get_direct_refill polls server [tx_first, \<not> tx_first]
          (dx\<lparr>dx_state := st\<lparr>ds_poll_tx_first := \<not> tx_first\<rparr>\<rparr>)
      else (None, dx))"

definition get_direct :: "(bool \<Rightarrow> poll_result) \<Rightarrow> bool \<Rightarrow> DirectCtx \<Rightarrow> (Status \<times> u64 option) \<times> DirectCtx" where
  "get_direct polls server dx =
     (if dx_force_quit dx \<or> tp_ready_to_exit (dx_params dx) then ((NOT_READY, None), dx)
      else
        (case get_direct_fill polls server dx of
           (Some status, dx1) \<Rightarrow> ((status, None), dx1)
         | (None, dx1) \<Rightarrow>
             let st1 = dx_state dx1 in
             if ds_ready_head st1 = ds_ready_tail st1 then ((NOT_READY, None), dx1)
             else ((SUCCESS, Some (ds_ready st1 (ds_ready_head st1 AND (kReady - 1)))),
                   dx1\<lparr>dx_state := st1\<lparr>ds_ready_head := ds_ready_head st1 + 1\<rparr>\<rparr>)))"

section \<open>Table of connections\<close>

definition kDirectConnections :: u64 where "kDirectConnections = 1024"
definition kClosed :: u64 where "kClosed = 2 ^ 63"

definition direct_hash :: "u64 \<Rightarrow> u64" where
  "direct_hash i = (drop_bit 4 i) XOR (drop_bit 16 i)"

record DirectEntry =
  de_id :: u64
  de_gate :: u64
  de_tag :: nat

definition direct_slot :: "u64 \<Rightarrow> nat \<Rightarrow> u64" where
  "direct_slot i off = ((direct_hash i AND (kDirectConnections - 1)) + of_nat off) AND (kDirectConnections - 1)"

text \<open>The regions a new connection can use: those registered with its protection domain.\<close>

definition direct_regions ::
  "(string \<times> rdma_mr_params \<times> (u64 \<rightharpoonup> u32)) list \<Rightarrow> (string \<rightharpoonup> u64) \<Rightarrow> u64 \<Rightarrow> RdmaDirectMr list" where
  "direct_regions mrs mem_pools pd =
     List.map_filter (\<lambda>(name, region, ctx_mr_map).
       case ctx_mr_map pd of
         None \<Rightarrow> None
       | Some lkey \<Rightarrow> Some \<lparr>dm_name = name, dm_region = region, dm_pool = mem_pools name, dm_lkey = lkey\<rparr>) mrs"

primrec find_direct_loop :: "(u64 \<Rightarrow> DirectEntry option) \<Rightarrow> u64 \<Rightarrow> nat list \<Rightarrow> DirectEntry option" where
  "find_direct_loop tab i [] = None"
| "find_direct_loop tab i (off # offs) =
     (case tab (direct_slot i off) of
        None \<Rightarrow> None
      | Some st \<Rightarrow> if de_id st = i then Some st else find_direct_loop tab i offs)"

definition find_direct :: "(u64 \<Rightarrow> DirectEntry option) \<Rightarrow> u64 \<Rightarrow> DirectEntry option" where
  "find_direct tab i = find_direct_loop tab i [0..<1024]"

primrec publish_direct_loop ::
  "(u64 \<Rightarrow> DirectEntry option) \<Rightarrow> DirectEntry \<Rightarrow> nat list \<Rightarrow> bool \<times> (u64 \<Rightarrow> DirectEntry option)" where
  "publish_direct_loop tab st [] = (False, tab)"
| "publish_direct_loop tab st (off # offs) =
     (let idx = direct_slot (de_id st) off in
      case tab idx of
        None \<Rightarrow> (True, tab(idx \<mapsto> st))
      | Some old \<Rightarrow>
          if de_id old = de_id st \<or> (de_gate old AND kClosed) \<noteq> 0 then (True, tab(idx \<mapsto> st))
          else publish_direct_loop tab st offs)"

definition publish_direct :: "(u64 \<Rightarrow> DirectEntry option) \<Rightarrow> DirectEntry \<Rightarrow> bool \<times> (u64 \<Rightarrow> DirectEntry option)" where
  "publish_direct tab st = publish_direct_loop tab st [0..<1024]"

section \<open>Invariant\<close>

definition pending_sends :: "RdmaDirectState \<Rightarrow> u64 list" where
  "pending_sends st = map rq_burst (window 10 (ds_sends st) (ds_sends_completed st)
     (unat (ds_sends_posted st - ds_sends_completed st)))"

definition ready_queue :: "RdmaDirectState \<Rightarrow> u64 list" where
  "ready_queue st = window 11 (ds_ready st) (ds_ready_head st) (unat (ds_ready_tail st - ds_ready_head st))"

definition recv_slots :: "RdmaDirectState \<Rightarrow> u64 set" where
  "recv_slots st = {j. j < 1024 \<and> rq_burst (ds_receives st j) \<noteq> 0}"

definition pending_receives :: "RdmaDirectState \<Rightarrow> u64 multiset" where
  "pending_receives st = image_mset (\<lambda>j. rq_burst (ds_receives st j)) (mset_set (recv_slots st))"

text \<open>Every posted and uncompleted send sits in its slot with its own tag, the counters are at
  most a ring apart, and the receive counter counts the occupied receive slots.\<close>

definition sends_ok :: "RdmaDirectState \<Rightarrow> bool" where
  "sends_ok st \<longleftrightarrow> ds_sends_completed st \<le> ds_sends_posted st
     \<and> unat (ds_sends_posted st - ds_sends_completed st) \<le> 1024
     \<and> (\<forall>i<unat (ds_sends_posted st - ds_sends_completed st).
          let r = ds_sends st ((ds_sends_completed st + of_nat i) AND (2 ^ 10 - 1)) in
          rq_burst r \<noteq> 0 \<and> rq_tag r = ds_sends_completed st + of_nat i + 1)"

definition direct_inv :: "RdmaDirectState \<Rightarrow> bool" where
  "direct_inv st \<longleftrightarrow> sends_ok st \<and> unat (ds_ready_tail st - ds_ready_head st) \<le> 2048
     \<and> unat (ds_receive_count st) = card (recv_slots st)"

text \<open>The bursts the connection holds on to.\<close>

definition holdings :: "RdmaDirectState \<Rightarrow> u64 multiset" where
  "holdings st = mset (pending_sends st) + pending_receives st + mset (ready_queue st)"

lemma masks: "kRequests - 1 = 2 ^ 10 - 1" "kReady - 1 = 2 ^ 11 - 1"
  by (simp_all add: kRequests_def kReady_def)

lemmas state_updates = deliver_def deliver_tx_ts_def add_tx_def add_rx_def add_dropped_def Let_def

lemma deliver_keeps [simp]:
  "ds_sends (dx_state (deliver wc ts s sv slot t dx)) = ds_sends (dx_state dx)"
  "ds_receives (dx_state (deliver wc ts s sv slot t dx)) = ds_receives (dx_state dx)"
  "ds_sends_posted (dx_state (deliver wc ts s sv slot t dx)) = ds_sends_posted (dx_state dx)"
  "ds_sends_completed (dx_state (deliver wc ts s sv slot t dx)) = ds_sends_completed (dx_state dx)"
  "ds_receive_count (dx_state (deliver wc ts s sv slot t dx)) = ds_receive_count (dx_state dx)"
  "ds_ready_head (dx_state (deliver wc ts s sv slot t dx)) = ds_ready_head (dx_state dx)"
  "ds_ready_tail (dx_state (deliver wc ts s sv slot t dx)) = ds_ready_tail (dx_state dx) + 1"
  "ds_ready (dx_state (deliver wc ts s sv slot t dx))
     = (ds_ready (dx_state dx))(ds_ready_tail (dx_state dx) AND (2 ^ 11 - 1) := rq_burst slot)"
  by (simp_all add: state_updates masks)

lemma unat_diff_Suc:
  fixes a b :: "'a::len word"
  assumes "unat (a - b) < n" "n < 2 ^ LENGTH('a)"
  shows "unat (a + 1 - b) = Suc (unat (a - b))"
proof -
  have "unat (a - b) + unat (1::'a word) < 2 ^ LENGTH('a)" using assms by simp
  then have "unat (a - b + 1) = unat (a - b) + unat (1::'a word)" by (rule unat_add_lem [THEN iffD1])
  then show ?thesis by (simp add: diff_add_eq)
qed

lemma window_push_tail:
  fixes h t :: "'a::len word"
  assumes "k \<le> LENGTH('a)" "unat (t - h) < 2 ^ k" "2 ^ k < (2::nat) ^ LENGTH('a)"
  shows "window k (f(t AND (2 ^ k - 1) := x)) h (unat (t + 1 - h)) = window k f h (unat (t - h)) @ [x]"
proof -
  have "t = h + of_nat (unat (t - h))" by simp
  then have "window k (f(t AND (2 ^ k - 1) := x)) h (Suc (unat (t - h))) = window k f h (unat (t - h)) @ [x]"
    using window_push [OF assms(1,2), of f h x] by metis
  then show ?thesis using unat_diff_Suc [OF assms(2,3)] by simp
qed

lemma deliver_ready:
  assumes "unat (ds_ready_tail (dx_state dx) - ds_ready_head (dx_state dx)) < 2048"
  shows "ready_queue (dx_state (deliver wc ts s sv slot t dx)) = ready_queue (dx_state dx) @ [rq_burst slot]"
    and "unat (ds_ready_tail (dx_state (deliver wc ts s sv slot t dx)) - ds_ready_head (dx_state (deliver wc ts s sv slot t dx)))
      = Suc (unat (ds_ready_tail (dx_state dx) - ds_ready_head (dx_state dx)))"
proof -
  let ?t = "ds_ready_tail (dx_state dx)" and ?h = "ds_ready_head (dx_state dx)"
  have lt: "unat (?t - ?h) < 2 ^ 11" using assms by simp
  show "ready_queue (dx_state (deliver wc ts s sv slot t dx)) = ready_queue (dx_state dx) @ [rq_burst slot]"
    using window_push_tail [OF _ lt, of "ds_ready (dx_state dx)" "rq_burst slot"] unfolding ready_queue_def deliver_keeps
    by simp
  show "unat (ds_ready_tail (dx_state (deliver wc ts s sv slot t dx)) - ds_ready_head (dx_state (deliver wc ts s sv slot t dx)))
      = Suc (unat (?t - ?h))"
    unfolding deliver_keeps using unat_diff_Suc [OF lt] by simp
qed

section \<open>Completions\<close>

text \<open>One turn of the completion loop: the oldest pending send becomes ready.\<close>

definition tx_step :: "ibv_wc \<Rightarrow> u64 \<Rightarrow> Status \<Rightarrow> bool \<Rightarrow> DirectCtx \<Rightarrow> DirectCtx" where
  "tx_step wc ts status server dx =
     (let idx = ds_sends_completed (dx_state dx) AND (kRequests - 1); slot = ds_sends (dx_state dx) idx;
          dx1 = dx\<lparr>dx_state := (dx_state dx)\<lparr>ds_sends := (ds_sends (dx_state dx))(idx := slot\<lparr>rq_burst := 0\<rparr>)\<rparr>\<rparr>;
          dx2 = deliver wc ts status server slot True dx1
      in dx2\<lparr>dx_state := (dx_state dx2)\<lparr>ds_sends_completed := ds_sends_completed (dx_state dx) + 1\<rparr>\<rparr>)"

lemma unat_diff_dec:
  fixes a b :: "'a::len word"
  assumes "b < a"
  shows "unat (a - (b + 1)) = unat (a - b) - 1" "0 < unat (a - b)" "b + 1 \<le> a"
proof -
  have inc: "unat (b + 1) = Suc (unat b)" using assms by (rule unat_inc)
  then show le: "b + 1 \<le> a" using assms by (simp add: word_le_nat_alt word_less_nat_alt)
  have d: "unat (a - b) = unat a - unat b" using assms by (intro unat_sub) simp
  show "unat (a - (b + 1)) = unat (a - b) - 1" using unat_sub [OF le] inc d by simp
  show "0 < unat (a - b)" using d assms by (simp add: word_less_nat_alt)
qed

lemma sends_ok_head:
  assumes "sends_ok st" "ds_sends_completed st < ds_sends_posted st"
  shows "rq_burst (ds_sends st (ds_sends_completed st AND (kRequests - 1))) \<noteq> 0"
    and "rq_tag (ds_sends st (ds_sends_completed st AND (kRequests - 1))) = ds_sends_completed st + 1"
    and "pending_sends st = rq_burst (ds_sends st (ds_sends_completed st AND (kRequests - 1)))
      # map rq_burst (window 10 (ds_sends st) (ds_sends_completed st + 1)
          (unat (ds_sends_posted st - (ds_sends_completed st + 1))))"
proof -
  note d = unat_diff_dec [OF assms(2)]
  have "let r = ds_sends st ((ds_sends_completed st + of_nat 0) AND (2 ^ 10 - 1)) in
      rq_burst r \<noteq> 0 \<and> rq_tag r = ds_sends_completed st + of_nat 0 + 1"
    using assms(1) d(2) unfolding sends_ok_def by blast
  then show "rq_burst (ds_sends st (ds_sends_completed st AND (kRequests - 1))) \<noteq> 0"
    "rq_tag (ds_sends st (ds_sends_completed st AND (kRequests - 1))) = ds_sends_completed st + 1"
    by (simp_all add: masks Let_def)
  have "unat (ds_sends_posted st - ds_sends_completed st) = Suc (unat (ds_sends_posted st - (ds_sends_completed st + 1)))"
    using d by simp
  then show "pending_sends st = rq_burst (ds_sends st (ds_sends_completed st AND (kRequests - 1)))
      # map rq_burst (window 10 (ds_sends st) (ds_sends_completed st + 1)
          (unat (ds_sends_posted st - (ds_sends_completed st + 1))))"
    by (simp only: pending_sends_def window_Suc list.map masks)
qed

lemma tx_step_inv:
  assumes inv: "direct_inv (dx_state dx)" and less: "ds_sends_completed (dx_state dx) < ds_sends_posted (dx_state dx)"
    and room: "unat (ds_ready_tail (dx_state dx) - ds_ready_head (dx_state dx)) < 2048"
    and dx'_def: "dx' = tx_step wc ts status server dx"
  shows "direct_inv (dx_state dx')" "pending_sends (dx_state dx) = hd (pending_sends (dx_state dx)) # pending_sends (dx_state dx')"
    "ready_queue (dx_state dx') = ready_queue (dx_state dx) @ [hd (pending_sends (dx_state dx))]"
    "pending_receives (dx_state dx') = pending_receives (dx_state dx)"
    "ds_sends_completed (dx_state dx') = ds_sends_completed (dx_state dx) + 1"
    "ds_sends_posted (dx_state dx') = ds_sends_posted (dx_state dx)"
    "ds_ready_head (dx_state dx') = ds_ready_head (dx_state dx)"
    "unat (ds_ready_tail (dx_state dx') - ds_ready_head (dx_state dx'))
      = Suc (unat (ds_ready_tail (dx_state dx) - ds_ready_head (dx_state dx)))"
proof -
  let ?st = "dx_state dx"
  let ?c = "ds_sends_completed ?st" and ?p = "ds_sends_posted ?st"
  let ?idx = "?c AND (kRequests - 1)"
  let ?slot = "ds_sends ?st ?idx"
  let ?dx1 = "dx\<lparr>dx_state := ?st\<lparr>ds_sends := (ds_sends ?st)(?idx := ?slot\<lparr>rq_burst := 0\<rparr>)\<rparr>\<rparr>"
  let ?dx2 = "deliver wc ts status server ?slot True ?dx1"
  have dx': "dx' = ?dx2\<lparr>dx_state := (dx_state ?dx2)\<lparr>ds_sends_completed := ?c + 1\<rparr>\<rparr>"
    by (simp only: dx'_def tx_step_def Let_def)
  have ok: "sends_ok ?st" using inv by (simp add: direct_inv_def)
  note d = unat_diff_dec [OF less] and hd = sends_ok_head [OF ok less]
  have n: "unat (?p - ?c) \<le> 1024" using ok by (simp add: sends_ok_def)
  have sends: "ds_sends (dx_state dx') = (ds_sends ?st)(?idx := ?slot\<lparr>rq_burst := 0\<rparr>)" by (simp add: dx')
  show c: "ds_sends_completed (dx_state dx') = ?c + 1" and p: "ds_sends_posted (dx_state dx') = ?p"
    and h: "ds_ready_head (dx_state dx') = ds_ready_head ?st" by (simp_all add: dx')
  have recv: "ds_receives (dx_state dx') = ds_receives ?st" "ds_receive_count (dx_state dx') = ds_receive_count ?st"
    by (simp_all add: dx')
  have rs: "recv_slots (dx_state dx') = recv_slots ?st" by (simp add: recv_slots_def recv)
  then show "pending_receives (dx_state dx') = pending_receives ?st" by (simp add: pending_receives_def recv)
  have win: "window 10 (ds_sends (dx_state dx')) (?c + 1) (unat (?p - (?c + 1)))
      = window 10 (ds_sends ?st) (?c + 1) (unat (?p - (?c + 1)))"
    unfolding sends masks using n d by (intro window_upd_before) simp_all
  then show pend: "pending_sends ?st = hd (pending_sends ?st) # pending_sends (dx_state dx')"
    using hd(3) by (simp add: pending_sends_def c p)
  have room1: "unat (ds_ready_tail (dx_state ?dx1) - ds_ready_head (dx_state ?dx1)) < 2048" using room by simp
  have hdb: "hd (pending_sends ?st) = rq_burst ?slot" using hd(3) by simp
  show rdy: "ready_queue (dx_state dx') = ready_queue ?st @ [hd (pending_sends ?st)]"
    using deliver_ready(1) [OF room1, of wc ts status server ?slot True] hdb by (simp add: dx' ready_queue_def)
  show len: "unat (ds_ready_tail (dx_state dx') - ds_ready_head (dx_state dx'))
      = Suc (unat (ds_ready_tail ?st - ds_ready_head ?st))"
    using deliver_ready(2) [OF room1, of wc ts status server ?slot True] by (simp add: dx')
  have "sends_ok (dx_state dx')"
    unfolding sends_ok_def c p
  proof (intro conjI allI impI)
    show "?c + 1 \<le> ?p" by (rule d(3))
    show "unat (?p - (?c + 1)) \<le> 1024" using d(1) n by simp
    fix i
    assume i: "i < unat (?p - (?c + 1))"
    then have "Suc i < unat (?p - ?c)" using d by simp
    then have r: "let r = ds_sends ?st ((?c + of_nat (Suc i)) AND (2 ^ 10 - 1)) in
        rq_burst r \<noteq> 0 \<and> rq_tag r = ?c + of_nat (Suc i) + 1"
      using ok unfolding sends_ok_def by blast
    have "window 10 (ds_sends (dx_state dx')) (?c + 1) (unat (?p - (?c + 1))) ! i
        = window 10 (ds_sends ?st) (?c + 1) (unat (?p - (?c + 1))) ! i"
      by (simp only: win)
    then have "ds_sends (dx_state dx') ((?c + 1 + of_nat i) AND (2 ^ 10 - 1))
        = ds_sends ?st ((?c + 1 + of_nat i) AND (2 ^ 10 - 1))"
      using i by (simp add: window_def)
    then show "let r = ds_sends (dx_state dx') ((?c + 1 + of_nat i) AND (2 ^ 10 - 1)) in
        rq_burst r \<noteq> 0 \<and> rq_tag r = ?c + 1 + of_nat i + 1"
      using r by (simp add: Let_def add_ac)
  qed
  then show "direct_inv (dx_state dx')" using inv len room by (simp add: direct_inv_def rs recv)
qed

lemma poll_tx_loop_inv:
  assumes "direct_inv (dx_state dx)" "completed = ds_sends_completed (dx_state dx)"
    "completed \<le> wc_wr_id wc" "wc_wr_id wc \<le> ds_sends_posted (dx_state dx)"
    "unat (wc_wr_id wc) - unat completed + unat (ds_ready_tail (dx_state dx) - ds_ready_head (dx_state dx)) \<le> 2048"
  shows "\<exists>dx'. poll_tx_loop wc ts status server completed dx = (SUCCESS, dx') \<and> direct_inv (dx_state dx')
    \<and> pending_sends (dx_state dx') = drop (unat (wc_wr_id wc) - unat completed) (pending_sends (dx_state dx))
    \<and> ready_queue (dx_state dx') = ready_queue (dx_state dx) @ take (unat (wc_wr_id wc) - unat completed) (pending_sends (dx_state dx))
    \<and> pending_receives (dx_state dx') = pending_receives (dx_state dx)"
  using assms
proof (induction "unat (wc_wr_id wc) - unat completed" arbitrary: completed dx)
  case 0
  then have "\<not> completed < wc_wr_id wc" by (simp add: word_less_nat_alt)
  then show ?case using 0 by (simp add: poll_tx_loop.simps)
next
  case (Suc n)
  let ?st = "dx_state dx"
  have lt: "completed < wc_wr_id wc" using Suc.hyps(2) by (simp add: word_less_nat_alt)
  then have less: "ds_sends_completed ?st < ds_sends_posted ?st" using Suc.prems(2,4) by simp
  have room: "unat (ds_ready_tail ?st - ds_ready_head ?st) < 2048" using Suc.prems(5) Suc.hyps(2) by simp
  define dx1 where dx1: "dx1 = tx_step wc ts status server dx"
  note step = tx_step_inv [OF Suc.prems(1) less room dx1]
  have inc: "unat (completed + 1) = Suc (unat completed)" using lt by (rule unat_inc)
  have n: "n = unat (wc_wr_id wc) - unat (completed + 1)" using Suc.hyps(2) inc by simp
  have ok: "sends_ok ?st" using Suc.prems(1) by (simp add: direct_inv_def)
  note hd = sends_ok_head [OF ok less]
  have unf: "poll_tx_loop wc ts status server completed dx = poll_tx_loop wc ts status server (completed + 1) dx1"
    using lt hd(1,2) Suc.prems(2) by (subst poll_tx_loop.simps) (simp add: Let_def dx1 tx_step_def)
  have le: "completed + 1 \<le> wc_wr_id wc" using lt inc by (simp add: word_le_nat_alt word_less_nat_alt)
  have "completed + 1 = ds_sends_completed (dx_state dx1)" "wc_wr_id wc \<le> ds_sends_posted (dx_state dx1)"
    using step(5,6) Suc.prems(2,4) by simp_all
  moreover have "unat (wc_wr_id wc) - unat (completed + 1) + unat (ds_ready_tail (dx_state dx1) - ds_ready_head (dx_state dx1)) \<le> 2048"
    using Suc.prems(5) Suc.hyps(2) step(8) n by simp
  ultimately obtain dx' where dx': "poll_tx_loop wc ts status server (completed + 1) dx1 = (SUCCESS, dx')"
    "direct_inv (dx_state dx')" "pending_sends (dx_state dx') = drop n (pending_sends (dx_state dx1))"
    "ready_queue (dx_state dx') = ready_queue (dx_state dx1) @ take n (pending_sends (dx_state dx1))"
    "pending_receives (dx_state dx') = pending_receives (dx_state dx1)"
    using Suc.hyps(1) [OF n step(1) _ le] n by metis
  have p: "pending_sends ?st = hd (pending_sends ?st) # pending_sends (dx_state dx1)" by (rule step(2))
  have "drop (Suc n) (pending_sends ?st) = drop n (pending_sends (dx_state dx1))"
    "take (Suc n) (pending_sends ?st) = hd (pending_sends ?st) # take n (pending_sends (dx_state dx1))"
    by (subst p, simp)+
  then show ?case using dx' unf step(3,4) Suc.hyps(2) by simp
qed

lemma direct_inv_room:
  assumes "direct_inv st" "\<not> x > kReady - (ds_ready_tail st - ds_ready_head st)"
  shows "unat x + unat (ds_ready_tail st - ds_ready_head st) \<le> 2048"
proof -
  have "ds_ready_tail st - ds_ready_head st \<le> kReady"
    using assms(1) by (simp add: direct_inv_def kReady_def word_le_nat_alt)
  then have "unat (kReady - (ds_ready_tail st - ds_ready_head st)) = 2048 - unat (ds_ready_tail st - ds_ready_head st)"
    using unat_sub [of "ds_ready_tail st - ds_ready_head st" kReady] by (simp add: kReady_def)
  then show ?thesis using assms unfolding direct_inv_def word_less_nat_alt by linarith
qed

lemma poll_direct_tx_inv:
  assumes inv: "direct_inv (dx_state dx)" and poll: "poll_direct polled True server dx = (s, dx')"
  shows "direct_inv (dx_state dx')" "holdings (dx_state dx') = holdings (dx_state dx)"
proof -
  obtain cnt wc ts where polled: "polled = (cnt, wc, ts)" by (cases polled)
  let ?st = "dx_state dx"
  show "direct_inv (dx_state dx')" "holdings (dx_state dx') = holdings (dx_state dx)"
  proof (atomize (full), cases "cnt \<le> 0 \<or> wc_wr_id wc \<le> ds_sends_completed ?st \<or> wc_wr_id wc > ds_sends_posted ?st
      \<or> wc_wr_id wc - ds_sends_completed ?st > kReady - (ds_ready_tail ?st - ds_ready_head ?st)")
    case True
    then have "dx' = dx" using poll polled by (auto simp: poll_direct_def Let_def split: if_splits)
    then show "direct_inv (dx_state dx') \<and> holdings (dx_state dx') = holdings (dx_state dx)" using inv by simp
  next
    case False
    have le: "ds_sends_completed ?st \<le> wc_wr_id wc" "wc_wr_id wc \<le> ds_sends_posted ?st" using False by auto
    have "unat (wc_wr_id wc - ds_sends_completed ?st) = unat (wc_wr_id wc) - unat (ds_sends_completed ?st)"
      using le(1) by (rule unat_sub)
    then have room: "unat (wc_wr_id wc) - unat (ds_sends_completed ?st) + unat (ds_ready_tail ?st - ds_ready_head ?st) \<le> 2048"
      using direct_inv_room [OF inv, of "wc_wr_id wc - ds_sends_completed ?st"] False by simp
    have "poll_direct polled True server dx
        = poll_tx_loop wc ts (if wc_success wc then SUCCESS else GENERIC_FAILURE) server (ds_sends_completed ?st) dx"
      using False polled by (simp add: poll_direct_def Let_def)
    with poll_tx_loop_inv [OF inv refl le room, of ts "if wc_success wc then SUCCESS else GENERIC_FAILURE" server] poll
    have "direct_inv (dx_state dx')
      \<and> pending_sends (dx_state dx') = drop (unat (wc_wr_id wc) - unat (ds_sends_completed ?st)) (pending_sends ?st)
      \<and> ready_queue (dx_state dx') = ready_queue ?st @ take (unat (wc_wr_id wc) - unat (ds_sends_completed ?st)) (pending_sends ?st)
      \<and> pending_receives (dx_state dx') = pending_receives ?st" by auto
    moreover have "mset (pending_sends ?st) = mset (take n (pending_sends ?st)) + mset (drop n (pending_sends ?st))" for n
      by (metis append_take_drop_id mset_append)
    then have "mset (pending_sends ?st) = mset (take (unat (wc_wr_id wc) - unat (ds_sends_completed ?st)) (pending_sends ?st))
        + mset (drop (unat (wc_wr_id wc) - unat (ds_sends_completed ?st)) (pending_sends ?st))" .
    ultimately show "direct_inv (dx_state dx') \<and> holdings (dx_state dx') = holdings (dx_state dx)"
      by (simp add: holdings_def add_ac)
  qed
qed

lemma recv_slots_clear:
  assumes "j < 1024" "rq_burst (ds_receives st j) \<noteq> 0" "ds_receives st' = (ds_receives st)(j := r)" "rq_burst r = 0"
  shows "recv_slots st' = recv_slots st - {j}" "pending_receives st = add_mset (rq_burst (ds_receives st j)) (pending_receives st')"
    "finite (recv_slots st)" "j \<in> recv_slots st"
proof -
  show fin: "finite (recv_slots st)" by simp
  show j: "j \<in> recv_slots st" using assms(1,2) by (simp add: recv_slots_def)
  show rs: "recv_slots st' = recv_slots st - {j}" using assms(3,4) by (auto simp: recv_slots_def)
  have "mset_set (recv_slots st) = add_mset j (mset_set (recv_slots st - {j}))"
    using fin j by (metis mset_set.remove)
  moreover have "image_mset (\<lambda>i. rq_burst (ds_receives st' i)) (mset_set (recv_slots st - {j}))
      = image_mset (\<lambda>i. rq_burst (ds_receives st i)) (mset_set (recv_slots st - {j}))"
    using assms(3) by (intro image_mset_cong) simp
  ultimately show "pending_receives st = add_mset (rq_burst (ds_receives st j)) (pending_receives st')"
    by (simp add: pending_receives_def rs)
qed

lemma masked_1024: "(w::u64) AND (2 ^ 10 - 1) < 1024"
proof -
  have "unat (w AND (2 ^ 10 - 1)) < 1024" by (simp only: unat_and_pow2_mask) simp
  then show ?thesis by (simp add: word_less_nat_alt)
qed

lemma poll_direct_rx_inv:
  assumes inv: "direct_inv (dx_state dx)" and poll: "poll_direct polled False server dx = (s, dx')"
  shows "direct_inv (dx_state dx') \<and> holdings (dx_state dx') = holdings (dx_state dx)"
proof -
  obtain cnt wc0 ts where polled: "polled = (cnt, wc0, ts)" by (cases polled)
  define wc where "wc = (if wc_success wc0 \<and> tp_qp_type (dx_params dx) = QPT_UD then
      (if wc_byte_len wc0 < 40 then wc0\<lparr>wc_success := False\<rparr> else wc0\<lparr>wc_byte_len := wc_byte_len wc0 - 40\<rparr>)
    else wc0)"
  let ?st = "dx_state dx" and ?status = "if wc_success wc then SUCCESS else GENERIC_FAILURE"
  define j where "j = (wc_wr_id wc - 1) AND (kRequests - 1)"
  let ?slot = "ds_receives ?st j"
  show ?thesis
  proof (cases "cnt \<le> 0 \<or> wc_wr_id wc = 0 \<or> rq_burst ?slot = 0 \<or> rq_tag ?slot \<noteq> wc_wr_id wc
      \<or> ds_ready_tail ?st - ds_ready_head ?st = kReady")
    case True
    then have "dx' = dx" using poll polled by (auto simp: poll_direct_def Let_def wc_def j_def split: if_splits)
    then show ?thesis using inv by simp
  next
    case False
    let ?dx1 = "dx\<lparr>dx_state := ?st\<lparr>ds_receives := (ds_receives ?st)(j := ?slot\<lparr>rq_burst := 0\<rparr>)\<rparr>\<rparr>"
    let ?dx2 = "deliver wc ts ?status server ?slot False ?dx1"
    have dx': "dx' = ?dx2\<lparr>dx_state := (dx_state ?dx2)\<lparr>ds_receive_count := ds_receive_count (dx_state ?dx2) - 1\<rparr>\<rparr>"
      using False poll polled by (simp add: poll_direct_def Let_def wc_def [symmetric] j_def [symmetric])
    have jlt: "j < 1024" unfolding j_def masks by (rule masked_1024)
    have rcv: "ds_receives (dx_state dx') = (ds_receives ?st)(j := ?slot\<lparr>rq_burst := 0\<rparr>)" by (simp add: dx')
    note clr = recv_slots_clear [OF jlt _ rcv]
    have nz: "rq_burst ?slot \<noteq> 0" using False by simp
    have ne: "ds_ready_tail ?st - ds_ready_head ?st \<noteq> kReady" using False by simp
    have le: "unat (ds_ready_tail ?st - ds_ready_head ?st) \<le> 2048" using inv by (simp add: direct_inv_def)
    have "unat (ds_ready_tail ?st - ds_ready_head ?st) \<noteq> 2048"
    proof
      assume "unat (ds_ready_tail ?st - ds_ready_head ?st) = 2048"
      then have "unat (ds_ready_tail ?st - ds_ready_head ?st) = unat kReady" by (simp add: kReady_def)
      then show False using ne by (simp only: word_unat_eq_iff)
    qed
    with le have lt: "unat (ds_ready_tail ?st - ds_ready_head ?st) < 2048" by simp
    then have room: "unat (ds_ready_tail (dx_state ?dx1) - ds_ready_head (dx_state ?dx1)) < 2048" by simp
    have rdy: "ready_queue (dx_state dx') = ready_queue ?st @ [rq_burst ?slot]"
      using deliver_ready(1) [OF room, of wc ts ?status server ?slot False] by (simp add: dx' ready_queue_def)
    have len: "unat (ds_ready_tail (dx_state dx') - ds_ready_head (dx_state dx')) \<le> 2048"
      using deliver_ready(2) [OF room, of wc ts ?status server ?slot False] lt by (simp add: dx')
    have cnt: "unat (ds_receive_count ?st) = card (recv_slots ?st)" using inv by (simp add: direct_inv_def)
    have pos: "0 < card (recv_slots ?st)" using clr(3,4) nz by (auto simp: card_gt_0_iff)
    then have "ds_receive_count ?st \<noteq> 0" using cnt by auto
    then have "unat (ds_receive_count (dx_state dx')) = card (recv_slots ?st) - 1"
      using cnt by (simp add: dx' unat_minus_one)
    moreover have "card (recv_slots (dx_state dx')) = card (recv_slots ?st) - 1"
      using clr nz by simp
    moreover have "sends_ok (dx_state dx')" "pending_sends (dx_state dx') = pending_sends ?st"
      using inv by (simp_all add: direct_inv_def sends_ok_def pending_sends_def dx')
    moreover have "pending_receives ?st = add_mset (rq_burst ?slot) (pending_receives (dx_state dx'))"
      using clr(2) nz by simp
    ultimately show ?thesis using rdy len by (simp add: direct_inv_def holdings_def)
  qed
qed

lemma poll_direct_inv:
  assumes "direct_inv (dx_state dx)" "poll_direct polled tx server dx = (s, dx')"
  shows "direct_inv (dx_state dx') \<and> holdings (dx_state dx') = holdings (dx_state dx)"
  using assms poll_direct_tx_inv [of dx polled server s dx'] poll_direct_rx_inv [of dx polled server s dx']
  by (cases tx) auto

lemma get_direct_refill_inv:
  assumes "direct_inv (dx_state dx)" "get_direct_refill polls server txs dx = (r, dx')"
  shows "direct_inv (dx_state dx') \<and> holdings (dx_state dx') = holdings (dx_state dx) \<and> r \<noteq> Some SUCCESS"
  using assms
proof (induction txs arbitrary: dx)
  case Nil
  then show ?case by auto
next
  case (Cons tx txs)
  obtain s dx1 where p: "poll_direct (polls tx) tx server dx = (s, dx1)" by (metis prod.exhaust)
  have "direct_inv (dx_state dx1) \<and> holdings (dx_state dx1) = holdings (dx_state dx)"
    using poll_direct_inv [OF Cons.prems(1) p] .
  then show ?case
    using Cons.prems Cons.IH [of dx] Cons.IH [of dx1] p by (auto simp: Let_def split: if_splits)
qed

section \<open>Posting\<close>

definition push_send :: "u64 \<Rightarrow> RdmaDirectState \<Rightarrow> RdmaDirectState" where
  "push_send b st = st\<lparr>
     ds_sends := (ds_sends st)(ds_sends_posted st AND (kRequests - 1) := \<lparr>rq_burst = b, rq_tag = ds_sends_posted st + 1\<rparr>),
     ds_sends_posted := ds_sends_posted st + 1\<rparr>"

definition push_recv :: "u64 \<Rightarrow> RdmaDirectState \<Rightarrow> RdmaDirectState" where
  "push_recv b st = st\<lparr>
     ds_receives := (ds_receives st)(ds_receives_posted st AND (kRequests - 1) := \<lparr>rq_burst = b, rq_tag = ds_receives_posted st + 1\<rparr>),
     ds_receives_posted := ds_receives_posted st + 1,
     ds_receive_count := ds_receive_count st + 1\<rparr>"

definition push_ok :: "u64 \<Rightarrow> Status \<Rightarrow> RdmaDirectState \<Rightarrow> RdmaDirectState \<Rightarrow> bool" where
  "push_ok b s st st' \<longleftrightarrow>
     (s \<noteq> SUCCESS \<and> (st' = st \<or> (\<exists>r. st' = add_dropped st r)))
     \<or> (s = SUCCESS \<and> st' = push_send b st \<and> ds_sends_posted st - ds_sends_completed st \<noteq> kRequests)
     \<or> (s = SUCCESS \<and> st' = push_recv b st
        \<and> rq_burst (ds_receives st (ds_receives_posted st AND (kRequests - 1))) = 0)"

lemma post_send_request_ok:
  "post_send_request post b burst region dx = (s, dx') \<Longrightarrow> push_ok b s (dx_state dx) (dx_state dx')"
  unfolding post_send_request_def push_ok_def push_send_def Let_def by (auto split: if_splits)

lemma post_recv_request_ok:
  "post_recv_request post b burst region dx = (s, dx') \<Longrightarrow> push_ok b s (dx_state dx) (dx_state dx')"
  unfolding post_recv_request_def push_ok_def push_recv_def Let_def by (auto split: if_splits)

lemma send_direct_ok:
  assumes "send_direct post_send post_recv b dx = (s, dx')"
  shows "push_ok b s (dx_state dx) (dx_state dx')"
proof -
  obtain ro burst where dr: "direct_region (dx_engine dx) (dx_state dx) (dx_heap dx b) = (ro, burst)" by force
  let ?dx1 = "dx\<lparr>dx_heap := (dx_heap dx)(b := burst)\<rparr>"
  show ?thesis
  proof (cases "\<exists>region. post_send_request post_send b burst region ?dx1 = (s, dx')
      \<or> post_recv_request post_recv b burst region ?dx1 = (s, dx')")
    case True
    then show ?thesis using post_send_request_ok [of post_send b burst _ ?dx1 s dx']
      post_recv_request_ok [of post_recv b burst _ ?dx1 s dx'] by auto
  next
    case False
    have "s \<noteq> SUCCESS \<and> dx_state dx' = dx_state dx"
      using assms False unfolding send_direct_def Let_def dr
      by (cases ro) (auto split: if_splits)
    then show ?thesis by (simp add: push_ok_def)
  qed
qed

lemma push_send_inv:
  assumes inv: "direct_inv st" and b: "b \<noteq> 0" and nw: "ds_sends_posted st \<noteq> - 1"
    and room: "ds_sends_posted st - ds_sends_completed st \<noteq> kRequests"
  shows "direct_inv (push_send b st)" "pending_sends (push_send b st) = pending_sends st @ [b]"
    "pending_receives (push_send b st) = pending_receives st" "ready_queue (push_send b st) = ready_queue st"
proof -
  let ?c = "ds_sends_completed st" and ?p = "ds_sends_posted st"
  have ok: "sends_ok st" using inv by (simp add: direct_inv_def)
  have "?p - ?c \<noteq> 1024" using room by (simp add: kRequests_def)
  then have "unat (?p - ?c) \<noteq> unat (1024::u64)" by (simp only: word_unat_eq_iff not_False_eq_True)
  then have "unat (?p - ?c) \<noteq> 1024" by simp
  with ok have lt: "unat (?p - ?c) < 2 ^ 10" by (simp add: sends_ok_def)
  have suc: "unat (?p + 1 - ?c) = Suc (unat (?p - ?c))" using unat_diff_Suc [OF lt] by simp
  let ?r = "\<lparr>rq_burst = b, rq_tag = ?p + 1\<rparr>"
  have win: "window 10 ((ds_sends st)(?p AND (2 ^ 10 - 1) := ?r)) ?c (unat (?p + 1 - ?c))
      = window 10 (ds_sends st) ?c (unat (?p - ?c)) @ [?r]"
    using lt by (intro window_push_tail) simp_all
  then show "pending_sends (push_send b st) = pending_sends st @ [b]"
    by (simp add: pending_sends_def push_send_def masks)
  show "pending_receives (push_send b st) = pending_receives st" "ready_queue (push_send b st) = ready_queue st"
    by (simp_all add: pending_receives_def recv_slots_def ready_queue_def push_send_def)
  have "?p < - 1" using nw by (metis word_n1_ge linorder_less_linear linorder_not_less)
  then have "unat (?p + 1) = Suc (unat ?p)" by (rule unat_inc)
  then have le: "?c \<le> ?p + 1" using ok by (simp add: sends_ok_def word_le_nat_alt)
  have "sends_ok (push_send b st)"
    unfolding sends_ok_def
  proof (intro conjI allI impI)
    show "ds_sends_completed (push_send b st) \<le> ds_sends_posted (push_send b st)" using le by (simp add: push_send_def)
    show "unat (ds_sends_posted (push_send b st) - ds_sends_completed (push_send b st)) \<le> 1024"
      using suc lt by (simp add: push_send_def)
    fix i
    assume "i < unat (ds_sends_posted (push_send b st) - ds_sends_completed (push_send b st))"
    then have i: "i < Suc (unat (?p - ?c))" using suc by (simp add: push_send_def)
    have "window 10 (ds_sends (push_send b st)) ?c (Suc (unat (?p - ?c))) ! i
        = (window 10 (ds_sends st) ?c (unat (?p - ?c)) @ [?r]) ! i"
      using win suc by (simp add: push_send_def masks)
    then have slot: "ds_sends (push_send b st) ((?c + of_nat i) AND (2 ^ 10 - 1))
        = (if i < unat (?p - ?c) then ds_sends st ((?c + of_nat i) AND (2 ^ 10 - 1)) else ?r)"
      using i by (simp add: window_def nth_append del: upt_Suc split: if_splits)
    have "?c + of_nat (unat (?p - ?c)) = ?p" by simp
    then show "let r = ds_sends (push_send b st) ((ds_sends_completed (push_send b st) + of_nat i) AND (2 ^ 10 - 1)) in
        rq_burst r \<noteq> 0 \<and> rq_tag r = ds_sends_completed (push_send b st) + of_nat i + 1"
      using slot ok b i by (cases "i < unat (?p - ?c)") (auto simp: push_send_def sends_ok_def Let_def less_Suc_eq)
  qed
  then show "direct_inv (push_send b st)"
    using inv by (simp add: direct_inv_def recv_slots_def) (simp add: push_send_def)
qed

lemma push_recv_inv:
  assumes inv: "direct_inv st" and b: "b \<noteq> 0"
    and free: "rq_burst (ds_receives st (ds_receives_posted st AND (kRequests - 1))) = 0"
  shows "direct_inv (push_recv b st)" "pending_sends (push_recv b st) = pending_sends st"
    "pending_receives (push_recv b st) = add_mset b (pending_receives st)" "ready_queue (push_recv b st) = ready_queue st"
proof -
  let ?j = "ds_receives_posted st AND (kRequests - 1)"
  have j: "?j < 1024" unfolding masks by (rule masked_1024)
  have undo: "ds_receives st = (ds_receives (push_recv b st))(?j := ds_receives st ?j)"
    by (rule ext) (simp add: push_recv_def)
  have atj: "rq_burst (ds_receives (push_recv b st) ?j) = b" by (simp add: push_recv_def)
  note clr = recv_slots_clear [OF j _ undo free]
  have rs: "recv_slots st = recv_slots (push_recv b st) - {?j}" "?j \<in> recv_slots (push_recv b st)"
    "finite (recv_slots (push_recv b st))" using clr atj b by auto
  show "pending_receives (push_recv b st) = add_mset b (pending_receives st)" using clr(2) atj b by simp
  show ps: "pending_sends (push_recv b st) = pending_sends st" "ready_queue (push_recv b st) = ready_queue st"
    by (simp_all add: pending_sends_def ready_queue_def push_recv_def)
  have card: "card (recv_slots (push_recv b st)) = Suc (card (recv_slots st))"
    using rs by (metis card.remove)
  have "recv_slots (push_recv b st) \<subseteq> {..<1024}" by (auto simp: recv_slots_def)
  moreover have "card {..<1024 :: u64} \<le> 1024"
  proof -
    have "{..<1024 :: u64} \<subseteq> of_nat ` {..<1024}"
    proof
      fix x :: u64
      assume "x \<in> {..<1024}"
      then show "x \<in> of_nat ` {..<1024}" by (intro image_eqI [of _ _ "unat x"]) (simp_all add: word_less_nat_alt)
    qed
    then show ?thesis by (metis card_image_le card_lessThan card_mono finite_imageI finite_lessThan le_trans)
  qed
  ultimately have "card (recv_slots (push_recv b st)) \<le> 1024"
    by (meson card_mono finite le_trans)
  moreover have cnt: "unat (ds_receive_count st) = card (recv_slots st)" using inv by (simp add: direct_inv_def)
  ultimately have "ds_receive_count st < 1024" using card by (simp add: word_less_nat_alt)
  then have "unat (ds_receive_count (push_recv b st)) = card (recv_slots (push_recv b st))"
    using cnt card by (simp add: push_recv_def unat_inc)
  then show "direct_inv (push_recv b st)"
    using inv by (simp add: direct_inv_def sends_ok_def) (simp add: push_recv_def)
qed

lemma add_dropped_same:
  "direct_inv (add_dropped st r) = direct_inv st" "holdings (add_dropped st r) = holdings st"
  by (simp_all add: add_dropped_def direct_inv_def sends_ok_def recv_slots_def holdings_def pending_sends_def
      pending_receives_def ready_queue_def)

lemma push_ok_inv:
  assumes "push_ok b s st st'" "direct_inv st" "b \<noteq> 0" "ds_sends_posted st \<noteq> - 1"
  shows "direct_inv st' \<and> holdings st' = holdings st + (if s = SUCCESS then {#b#} else {#})"
proof -
  have "holdings (push_send b st) = holdings st + {#b#}" "direct_inv (push_send b st)"
    if "ds_sends_posted st - ds_sends_completed st \<noteq> kRequests"
    using push_send_inv [OF assms(2-4) that] by (simp_all add: holdings_def)
  moreover have "holdings (push_recv b st) = holdings st + {#b#}" "direct_inv (push_recv b st)"
    if "rq_burst (ds_receives st (ds_receives_posted st AND (kRequests - 1))) = 0"
    using push_recv_inv [OF assms(2,3) that] by (simp_all add: holdings_def)
  ultimately show ?thesis using assms(1,2) unfolding push_ok_def by (auto simp: add_dropped_same)
qed

lemma get_direct_inv:
  assumes inv: "direct_inv (dx_state dx)" and get: "get_direct polls server dx = ((s, r), dx')"
  shows "direct_inv (dx_state dx') \<and> (r \<noteq> None \<longleftrightarrow> s = SUCCESS)
    \<and> holdings (dx_state dx) = holdings (dx_state dx') + (case r of None \<Rightarrow> {#} | Some b \<Rightarrow> {#b#})"
proof (cases "dx_force_quit dx \<or> tp_ready_to_exit (dx_params dx)")
  case True
  then show ?thesis using assms by (auto simp: get_direct_def)
next
  case False
  let ?st = "dx_state dx"
  let ?toggled = "dx\<lparr>dx_state := ?st\<lparr>ds_poll_tx_first := \<not> ds_poll_tx_first ?st\<rparr>\<rparr>"
  have tog: "direct_inv (dx_state ?toggled)" "holdings (dx_state ?toggled) = holdings ?st"
    using inv by (simp_all add: direct_inv_def sends_ok_def recv_slots_def holdings_def pending_sends_def
      pending_receives_def ready_queue_def)
  obtain failed dx1 where st: "get_direct_fill polls server dx = (failed, dx1)" by force
  have mid: "direct_inv (dx_state dx1)" "holdings (dx_state dx1) = holdings ?st" "failed \<noteq> Some SUCCESS"
    using st inv tog get_direct_refill_inv [OF tog(1), of polls server]
    by (auto simp: get_direct_fill_def Let_def simp del: get_direct_refill.simps split: if_splits)
  let ?s1 = "dx_state dx1"
  have g: "get_direct polls server dx = (case failed of Some status \<Rightarrow> ((status, None), dx1)
      | None \<Rightarrow> if ds_ready_head ?s1 = ds_ready_tail ?s1 then ((NOT_READY, None), dx1)
          else ((SUCCESS, Some (ds_ready ?s1 (ds_ready_head ?s1 AND (kReady - 1)))),
                dx1\<lparr>dx_state := ?s1\<lparr>ds_ready_head := ds_ready_head ?s1 + 1\<rparr>\<rparr>))"
    using False st by (simp add: get_direct_def Let_def split: option.splits)
  show ?thesis
  proof (cases "failed = None \<and> ds_ready_head ?s1 \<noteq> ds_ready_tail ?s1")
    case False
    then show ?thesis using g get mid by (auto split: option.splits if_splits)
  next
    case True
    let ?h = "ds_ready_head ?s1" and ?t = "ds_ready_tail ?s1"
    let ?s2 = "?s1\<lparr>ds_ready_head := ?h + 1\<rparr>"
    have res: "s = SUCCESS" "r = Some (ds_ready ?s1 (?h AND (2 ^ 11 - 1)))" "dx_state dx' = ?s2"
      using g get True by (auto simp: masks)
    have nz: "unat (?t - ?h) \<noteq> 0" using True by (auto simp: unat_eq_zero)
    have "?t - ?h \<noteq> 0" using True by auto
    then have "unat (?t - ?h - 1) = unat (?t - ?h) - 1" by (rule unat_minus_one)
    moreover have "?t - (?h + 1) = ?t - ?h - 1" by simp
    ultimately have dec: "unat (?t - (?h + 1)) = unat (?t - ?h) - 1" by (simp only:)
    have "ready_queue ?s1 = ds_ready ?s1 (?h AND (2 ^ 11 - 1)) # ready_queue ?s2"
      using nz dec window_Suc [of 11 "ds_ready ?s1" ?h "unat (?t - ?h) - 1"] by (simp add: ready_queue_def)
    moreover have "unat (?t - (?h + 1)) \<le> 2048" using mid(1) dec unfolding direct_inv_def by linarith
    then have "direct_inv ?s2" using mid(1) by (simp add: direct_inv_def sends_ok_def recv_slots_def)
    moreover have "pending_sends ?s2 = pending_sends ?s1" "pending_receives ?s2 = pending_receives ?s1"
      by (simp_all add: pending_sends_def pending_receives_def recv_slots_def)
    ultimately show ?thesis using res mid(2) by (simp add: holdings_def)
  qed
qed

section \<open>Properties of the data path\<close>

text \<open>A run of one connection: what was accepted and what was handed back so far. The verbs
  library may answer anything.\<close>

inductive direct_run :: "DirectCtx \<Rightarrow> u64 multiset \<Rightarrow> u64 multiset \<Rightarrow> DirectCtx \<Rightarrow> bool" for dx0 where
  start: "direct_run dx0 {#} {#} dx0"
| post: "direct_run dx0 P G dx \<Longrightarrow> b \<noteq> 0 \<Longrightarrow> ds_sends_posted (dx_state dx) \<noteq> - 1 \<Longrightarrow>
    send_direct post_send post_recv b dx = (s, dx') \<Longrightarrow>
    direct_run dx0 (if s = SUCCESS then add_mset b P else P) G dx'"
| got: "direct_run dx0 P G dx \<Longrightarrow> get_direct polls server dx = ((s, r), dx') \<Longrightarrow>
    direct_run dx0 P (case r of None \<Rightarrow> G | Some b \<Rightarrow> add_mset b G) dx'"

text \<open>C3: on a connection that starts with nothing outstanding, whatever the verbs library answers,
  the bursts handed back by \<^verbatim>\<open>get_direct\<close> together with those still outstanding are exactly the
  bursts that \<^verbatim>\<open>send_direct\<close> accepted: none is lost, invented or delivered twice.\<close>

theorem direct_exactly_once:
  assumes "direct_run dx0 P G dx" "direct_inv (dx_state dx0)" "holdings (dx_state dx0) = {#}"
  shows "direct_inv (dx_state dx) \<and> P = G + holdings (dx_state dx)"
  using assms
proof (induction rule: direct_run.induct)
  case start
  then show ?case by simp
next
  case (post P G dx b post_send post_recv s dx')
  then show ?case using push_ok_inv [OF send_direct_ok [OF post.hyps(4)]] by auto
next
  case (got P G dx polls server s r dx')
  then show ?case using get_direct_inv [of dx polls server s r dx'] by (auto split: option.splits)
qed

definition demo_params :: MemoryRegionConfig where
  "demo_params = \<lparr>mr_name = ''mr'', mr_kind = HUGE, mr_affinity = 0, mr_access = 1, mr_buf_size = 4096,
     mr_adj_size = 4096, mr_ttl_size = 0, mr_num_bufs = 4, mr_owned = True\<rparr>"

definition demo_burst :: DBurst where
  "demo_burst = \<lparr>db_hdr = \<lparr>bt_version = 0, bt_opcode = SEND, bt_status = SUCCESS, bt_port_id = 0, bt_q_id = 0,
     bt_server = False, bt_tx = False, bt_num_pkts = 1, bt_num_segs = 1, bt_wr_id = 0, bt_conn_id = 7,
     bt_local_mr_name = ''mr'', bt_remote_mr_name = [], bt_raddr = 0, bt_dst_key = 0, bt_imm = 0, bt_server_addr = 0,
     bt_server_port = 0, bt_remote_length = 0, bt_remote_access = 0, bt_rdma_write_length = 0\<rparr>,
     db_pkts = Some 65536, db_lens = Some 100,
     db_cache = \<lparr>ca_magic = 0, ca_engine = 0, ca_state = 0, ca_region = None, ca_rx_timestamp_ns = - 1,
       ca_rx_timestamps = None, ca_scheduled = False, ca_tx_times = [], ca_tx_timestamp_ids = None,
       ca_tx_timestamp_count = 0, ca_tx_timestamp_submitted = False\<rparr>\<rparr>"

definition demo_ctx :: DirectCtx where
  "demo_ctx = \<lparr>dx_engine = 1, dx_force_quit = False,
     dx_state = \<lparr>ds_self = 2, ds_connection_id = 7,
       ds_regions = [\<lparr>dm_name = ''mr'', dm_region = \<lparr>mp_params = demo_params, mp_ptr = 65536\<rparr>, dm_pool = None, dm_lkey = 5\<rparr>],
       ds_counters = \<lparr>ct_tx_packets = 0, ct_tx_bytes = 0, ct_rx_packets = 0, ct_rx_bytes = 0, ct_dropped = \<lambda>_. 0\<rparr>,
       ds_sends = \<lambda>_. \<lparr>rq_burst = 0, rq_tag = 0\<rparr>, ds_receives = \<lambda>_. \<lparr>rq_burst = 0, rq_tag = 0\<rparr>,
       ds_sends_posted = 0, ds_sends_completed = 0, ds_receives_posted = 0, ds_receive_count = 0,
       ds_poll_tx_first = True, ds_ready = \<lambda>_. 0, ds_ready_head = 0, ds_ready_tail = 0\<rparr>,
     dx_params = \<lparr>tp_qp_type = QPT_RC, tp_ready_to_exit = False, tp_ud = (0, 0, 0), tp_ud_mtu = 0, tp_ud_grh = (0, 0),
       tp_max_inline_data = 0, tp_inline_wqes = 0, tp_send_signal_every = 1, tp_sends_since_signal = 0,
       tp_tx_timestamp_outstanding = 0\<rparr>,
     dx_heap = \<lambda>_. demo_burst, dx_log = []\<rparr>"

lemma demo_ctx_inv: "direct_inv (dx_state demo_ctx)" "holdings (dx_state demo_ctx) = {#}"
  by (simp_all add: direct_inv_def sends_ok_def recv_slots_def holdings_def pending_sends_def pending_receives_def
      ready_queue_def demo_ctx_def)

lemma demo_send: "fst (send_direct (\<lambda>_ _. True) (\<lambda>_. True) 9 demo_ctx) = SUCCESS"
  by (simp add: send_direct_def post_send_request_def direct_region_def one_sided_op_def kRequests_def Let_def
      demo_ctx_def demo_burst_def demo_params_def)

theorem direct_exactly_once_witness:
  "\<exists>dx. direct_run demo_ctx {#9#} {#} dx \<and> direct_inv (dx_state dx) \<and> {#9#} = {#} + holdings (dx_state dx)"
proof -
  obtain s dx where sd: "send_direct (\<lambda>_ _. True) (\<lambda>_. True) 9 demo_ctx = (s, dx)" by force
  then have "s = SUCCESS" using demo_send by simp
  moreover have "ds_sends_posted (dx_state demo_ctx) \<noteq> - 1" by (simp add: demo_ctx_def)
  ultimately have run: "direct_run demo_ctx {#9#} {#} dx"
    using direct_run.post [OF direct_run.start _ _ sd] by simp
  from direct_exactly_once [OF this demo_ctx_inv] run show ?thesis by blast
qed

text \<open>C19: a transmit completion for a posted and uncompleted request, with room in the ready queue,
  is accepted and makes ready, in posting order, exactly the sends up to that request,
  including the unsignalled ones before it; the others stay pending.\<close>

theorem tx_completion_in_order:
  assumes "direct_inv (dx_state dx)" "ds_sends_completed (dx_state dx) < wc_wr_id wc"
    "wc_wr_id wc \<le> ds_sends_posted (dx_state dx)" "0 < cnt"
    "unat (wc_wr_id wc) - unat (ds_sends_completed (dx_state dx)) + length (ready_queue (dx_state dx)) \<le> 2048"
  shows "\<exists>dx'. poll_direct (cnt, wc, ts) True server dx = (SUCCESS, dx')
    \<and> ready_queue (dx_state dx') = ready_queue (dx_state dx)
        @ take (unat (wc_wr_id wc) - unat (ds_sends_completed (dx_state dx))) (pending_sends (dx_state dx))
    \<and> pending_sends (dx_state dx')
        = drop (unat (wc_wr_id wc) - unat (ds_sends_completed (dx_state dx))) (pending_sends (dx_state dx))"
proof -
  let ?st = "dx_state dx"
  have room: "unat (wc_wr_id wc) - unat (ds_sends_completed ?st) + unat (ds_ready_tail ?st - ds_ready_head ?st) \<le> 2048"
    using assms(5) by (simp add: ready_queue_def)
  have le: "ds_sends_completed ?st \<le> wc_wr_id wc" using assms(2) by simp
  have "ds_ready_tail ?st - ds_ready_head ?st \<le> kReady"
    using assms(1) by (simp add: direct_inv_def kReady_def word_le_nat_alt)
  then have "unat (kReady - (ds_ready_tail ?st - ds_ready_head ?st)) = 2048 - unat (ds_ready_tail ?st - ds_ready_head ?st)"
    using unat_sub [of "ds_ready_tail ?st - ds_ready_head ?st" kReady] by (simp add: kReady_def)
  then have "\<not> wc_wr_id wc - ds_sends_completed ?st > kReady - (ds_ready_tail ?st - ds_ready_head ?st)"
    using room unat_sub [OF le] by (simp add: word_less_nat_alt)
  then have "poll_direct (cnt, wc, ts) True server dx
      = poll_tx_loop wc ts (if wc_success wc then SUCCESS else GENERIC_FAILURE) server (ds_sends_completed ?st) dx"
    using assms(2,3,4) by (auto simp: poll_direct_def Let_def not_le [symmetric])
  then show ?thesis
    using poll_tx_loop_inv [OF assms(1) refl le assms(3) room] by metis
qed

theorem tx_completion_in_order_witness:
  "\<exists>dx dx'. fst (send_direct (\<lambda>_ _. True) (\<lambda>_. True) 9 demo_ctx) = SUCCESS
    \<and> dx = snd (send_direct (\<lambda>_ _. True) (\<lambda>_. True) 9 demo_ctx)
    \<and> poll_direct (1, \<lparr>wc_wr_id = 1, wc_success = True, wc_opcode = WC_SEND, wc_byte_len = 0, wc_imm_data = 0,
        wc_with_imm = False\<rparr>, 0) True False dx = (SUCCESS, dx')
    \<and> ready_queue (dx_state dx') = [9] \<and> pending_sends (dx_state dx') = []"
proof -
  obtain s dx where sd: "send_direct (\<lambda>_ _. True) (\<lambda>_. True) 9 demo_ctx = (s, dx)" by force
  then have s: "s = SUCCESS" using demo_send by simp
  have nz: "ds_sends_posted (dx_state demo_ctx) \<noteq> - 1" by (simp add: demo_ctx_def)
  have "dx = snd (send_direct (\<lambda>_ _. True) (\<lambda>_. True) 9 demo_ctx)" using sd by simp
  then have st: "dx_state dx = push_send 9 (dx_state demo_ctx)"
    by (simp add: send_direct_def post_send_request_def direct_region_def one_sided_op_def kRequests_def Let_def
        demo_ctx_def demo_burst_def demo_params_def push_send_def)
  have room: "ds_sends_posted (dx_state demo_ctx) - ds_sends_completed (dx_state demo_ctx) \<noteq> kRequests"
    by (simp add: demo_ctx_def kRequests_def)
  note ps = push_send_inv [OF demo_ctx_inv(1) _ nz room, of 9, folded st]
  have inv: "direct_inv (dx_state dx)" using ps by simp
  have q: "pending_sends (dx_state dx) = [9]" "ready_queue (dx_state dx) = []"
    using ps demo_ctx_inv(2) by (simp_all add: holdings_def)
  have cnts: "ds_sends_completed (dx_state dx) = 0" "ds_sends_posted (dx_state dx) = 1"
    by (simp_all add: st push_send_def demo_ctx_def)
  let ?wc = "\<lparr>wc_wr_id = 1, wc_success = True, wc_opcode = WC_SEND, wc_byte_len = 0, wc_imm_data = 0, wc_with_imm = False\<rparr>"
  show ?thesis
    using tx_completion_in_order [OF inv, of ?wc 1 0 False] sd s q cnts by simp
qed

section \<open>Properties of the connection table\<close>

lemma find_publish_loop:
  assumes "publish_direct_loop tab st offs = (True, tab')" "distinct (map (direct_slot (de_id st)) offs)"
  shows "find_direct_loop tab' (de_id st) offs = Some st"
  using assms
proof (induction offs)
  case Nil
  then show ?case by simp
next
  case (Cons off offs)
  let ?i = "direct_slot (de_id st) off"
  show ?case
  proof (cases "tab ?i = None \<or> de_id (the (tab ?i)) = de_id st \<or> (de_gate (the (tab ?i)) AND kClosed) \<noteq> 0")
    case True
    then have "tab' = tab(?i \<mapsto> st)" using Cons.prems by (auto simp: Let_def split: option.splits)
    then show ?thesis by simp
  next
    case False
    then obtain old where old: "tab ?i = Some old" "de_id old \<noteq> de_id st" "(de_gate old AND kClosed) = 0" by auto
    then have p: "publish_direct_loop tab st offs = (True, tab')" using Cons.prems by (simp add: Let_def)
    have "tab' ?i = tab ?i" using p Cons.prems(2)
    proof (induction offs)
      case (Cons off' offs')
      then show ?case by (auto simp: Let_def split: option.splits if_splits)
    qed simp
    then show ?thesis using Cons.IH [OF p] Cons.prems old by simp
  qed
qed

lemma direct_slots_distinct: "distinct (map (direct_slot i) [0..<1024])"
proof -
  have m: "kDirectConnections - 1 = 2 ^ 10 - 1" by (simp add: kDirectConnections_def)
  have "inj_on (direct_slot i) {0..<1024}"
  proof (rule inj_onI)
    fix x y
    assume xy: "x \<in> {0..<1024}" "y \<in> {0..<1024}" "direct_slot i x = direct_slot i y"
    let ?c = "direct_hash i AND (2 ^ 10 - 1)"
    have "(?c + of_nat x) AND (2 ^ 10 - 1) = (?c + of_nat y) AND (2 ^ 10 - 1)"
      using xy(3) by (simp only: direct_slot_def m)
    then show "x = y" using xy(1,2) by (intro pow2_index_inj [of 10 x y ?c]) simp_all
  qed
  then show ?thesis by (simp add: distinct_map)
qed

text \<open>C29: after a connection has been published, looking its identifier up finds that incarnation,
  also when an older one with the same identifier or a closed connection was displaced; and
  publishing only ever overwrites an empty, a closed or a same-identifier entry.\<close>

theorem publish_then_find:
  assumes "publish_direct tab st = (True, tab')"
  shows "find_direct tab' (de_id st) = Some st
    \<and> (\<forall>k. tab' k = tab k \<or> tab' k = Some st
        \<and> (tab k = None \<or> de_id (the (tab k)) = de_id st \<or> (de_gate (the (tab k)) AND kClosed) \<noteq> 0))"
proof
  show "find_direct tab' (de_id st) = Some st"
    using find_publish_loop [OF assms [unfolded publish_direct_def] direct_slots_distinct]
    by (simp add: find_direct_def)
  have "tab' k = tab k \<or> tab' k = Some st
      \<and> (tab k = None \<or> de_id (the (tab k)) = de_id st \<or> (de_gate (the (tab k)) AND kClosed) \<noteq> 0)"
    if "publish_direct_loop tab st offs = (True, tab')" for k offs
    using that by (induction offs) (auto simp: Let_def split: option.splits if_splits)
  then show "\<forall>k. tab' k = tab k \<or> tab' k = Some st
        \<and> (tab k = None \<or> de_id (the (tab k)) = de_id st \<or> (de_gate (the (tab k)) AND kClosed) \<noteq> 0)"
    using assms by (simp add: publish_direct_def)
qed

theorem publish_then_find_witness:
  "\<exists>tab'. publish_direct Map.empty \<lparr>de_id = 4096, de_gate = 0, de_tag = 1\<rparr> = (True, tab')
    \<and> find_direct tab' 4096 = Some \<lparr>de_id = 4096, de_gate = 0, de_tag = 1\<rparr>"
proof -
  let ?st = "\<lparr>de_id = 4096, de_gate = 0, de_tag = 1\<rparr>"
  have "publish_direct_loop Map.empty ?st (0 # offs) = (True, [direct_slot 4096 0 \<mapsto> ?st])" for offs
    by (simp add: Let_def)
  moreover have "[0..<1024] = 0 # [Suc 0..<1024]" by (rule upt_conv_Cons) simp
  ultimately have "publish_direct Map.empty ?st = (True, [direct_slot 4096 0 \<mapsto> ?st])"
    by (simp only: publish_direct_def)
  then show ?thesis using publish_then_find [of Map.empty ?st] by fastforce
qed

end
