(* ===== verification/Rdma_Gate.thy ===== *)
theory Rdma_Gate
  imports Rdma_Direct
begin

text \<open>
  The lease on a direct connection, \<^verbatim>\<open>RdmaDirectLease\<close> and \<^verbatim>\<open>RdmaDirectState::close\<close> of
  \<^verbatim>\<open>src/src/engines/rdma/rdma_direct.cpp\<close>, as a step relation: every atomic operation on the gate
  word and on the owner is one step, any number of threads interleave, and the weak
  compare-and-exchange may fail at any time. A thread is named by its nonzero identity.
\<close>

unbundle bit_operations_syntax

section \<open>Model\<close>

datatype LeasePc =
    Idle
  | Loaded u64      \<comment> \<open>holds the gate value it will compare\<close>
  | Entered         \<comment> \<open>has incremented the gate\<close>
  | OwnerCas        \<comment> \<open>saw no owner\<close>
  | OwnerLoad       \<comment> \<open>has tried to become the owner\<close>
  | Checked u64     \<comment> \<open>holds the owner it will compare\<close>
  | Rejecting       \<comment> \<open>is not the owner\<close>
  | Held            \<comment> \<open>has the lease\<close>

datatype ClosePc = Open | Waiting | Closed

record GateState =
  g_gate :: u64
  g_owner :: u64
  g_pc :: "u64 \<Rightarrow> LeasePc"
  g_close :: ClosePc

definition gate_init :: GateState where
  "gate_init = \<lparr>g_gate = 0, g_owner = 0, g_pc = \<lambda>_. Idle, g_close = Open\<rparr>"

inductive lease_step :: "GateState \<Rightarrow> GateState \<Rightarrow> bool" where
  load: "t \<noteq> 0 \<Longrightarrow> g_pc s t = Idle \<Longrightarrow> lease_step s (s\<lparr>g_pc := (g_pc s)(t := Loaded (g_gate s))\<rparr>)"
| refuse: "g_pc s t = Loaded g \<Longrightarrow> (g AND kClosed) \<noteq> 0 \<Longrightarrow> lease_step s (s\<lparr>g_pc := (g_pc s)(t := Idle)\<rparr>)"
| cas_fail: "g_pc s t = Loaded g \<Longrightarrow> (g AND kClosed) = 0 \<Longrightarrow>
    lease_step s (s\<lparr>g_pc := (g_pc s)(t := Loaded (g_gate s))\<rparr>)"
| cas_ok: "g_pc s t = Loaded g \<Longrightarrow> (g AND kClosed) = 0 \<Longrightarrow> g_gate s = g \<Longrightarrow>
    lease_step s (s\<lparr>g_gate := g + 1, g_pc := (g_pc s)(t := Entered)\<rparr>)"
| owner_load: "g_pc s t = Entered \<Longrightarrow>
    lease_step s (s\<lparr>g_pc := (g_pc s)(t := if g_owner s = 0 then OwnerCas else Checked (g_owner s))\<rparr>)"
| owner_cas: "g_pc s t = OwnerCas \<Longrightarrow>
    lease_step s (s\<lparr>g_owner := (if g_owner s = 0 then t else g_owner s), g_pc := (g_pc s)(t := OwnerLoad)\<rparr>)"
| owner_reload: "g_pc s t = OwnerLoad \<Longrightarrow> lease_step s (s\<lparr>g_pc := (g_pc s)(t := Checked (g_owner s))\<rparr>)"
| check: "g_pc s t = Checked ow \<Longrightarrow> lease_step s (s\<lparr>g_pc := (g_pc s)(t := if ow \<noteq> t then Rejecting else Held)\<rparr>)"
| reject: "g_pc s t = Rejecting \<Longrightarrow> lease_step s (s\<lparr>g_gate := g_gate s - 1, g_pc := (g_pc s)(t := Idle)\<rparr>)"
| release: "g_pc s t = Held \<Longrightarrow> lease_step s (s\<lparr>g_gate := g_gate s - 1, g_pc := (g_pc s)(t := Idle)\<rparr>)"
| close_or: "g_close s = Open \<Longrightarrow> lease_step s (s\<lparr>g_gate := g_gate s OR kClosed, g_close := Waiting\<rparr>)"
| close_done: "g_close s = Waiting \<Longrightarrow> (g_gate s AND NOT kClosed) = 0 \<Longrightarrow> lease_step s (s\<lparr>g_close := Closed\<rparr>)"

text \<open>Only the threads of a finite set take part; the bound keeps their count below the closed bit.\<close>

definition in_gate :: "LeasePc \<Rightarrow> bool" where
  "in_gate pc \<longleftrightarrow> (case pc of Idle \<Rightarrow> False | Loaded _ \<Rightarrow> False | _ \<Rightarrow> True)"

definition users :: "GateState \<Rightarrow> u64 set" where
  "users s = {t. in_gate (g_pc s t)}"

inductive gate_reach :: "u64 set \<Rightarrow> GateState \<Rightarrow> bool" for T where
  init: "gate_reach T gate_init"
| step: "gate_reach T s \<Longrightarrow> lease_step s s' \<Longrightarrow> users s' \<subseteq> T \<Longrightarrow> gate_reach T s'"

section \<open>The gate word\<close>

definition gate_word :: "bool \<Rightarrow> nat \<Rightarrow> u64" where
  "gate_word closed n = (if closed then kClosed else 0) OR of_nat n"

lemma bit63_small: "n < 2 ^ 63 \<Longrightarrow> \<not> bit (of_nat n :: u64) 63"
proof -
  assume "n < 2 ^ 63"
  then have "take_bit 63 n = n" by (simp add: take_bit_nat_eq_self)
  then show ?thesis by (metis bit_of_nat_iff bit_take_bit_iff less_irrefl)
qed

lemma kClosed_bit: "bit kClosed i \<longleftrightarrow> i = 63"
  by (simp only: kClosed_def bit_exp_iff) auto

lemma gate_word_closed:
  assumes "n < 2 ^ 63"
  shows "(gate_word closed n AND kClosed \<noteq> 0) = closed" "gate_word closed n AND NOT kClosed = of_nat n"
    "gate_word closed n OR kClosed = gate_word True n"
    "gate_word closed n = (if closed then kClosed else 0) + of_nat n"
proof -
  note b = bit63_small [OF assms]
  have 0: "(of_nat n :: u64) AND kClosed = 0"
    by (rule bit_word_eqI) (auto simp: bit_and_iff kClosed_bit b)
  have 1: "(kClosed OR of_nat n) AND kClosed = kClosed"
    by (rule bit_word_eqI) (auto simp: bit_and_iff bit_or_iff kClosed_bit)
  have "kClosed \<noteq> 0" by (simp add: kClosed_def)
  then show "(gate_word closed n AND kClosed \<noteq> 0) = closed" using 0 1 by (simp add: gate_word_def)
  show "gate_word closed n AND NOT kClosed = of_nat n"
    by (rule bit_word_eqI) (use b in \<open>auto simp: gate_word_def bit_simps kClosed_bit\<close>)
  show "gate_word closed n OR kClosed = gate_word True n"
    by (rule bit_word_eqI) (auto simp: gate_word_def bit_or_iff)
  have "kClosed + of_nat n = kClosed OR of_nat n"
    using 0 by (intro disjunctive_add_eq_or) (simp add: and.commute)
  then show "gate_word closed n = (if closed then kClosed else 0) + of_nat n" by (simp add: gate_word_def)
qed

section \<open>Invariant\<close>

definition gate_inv :: "u64 set \<Rightarrow> GateState \<Rightarrow> bool" where
  "gate_inv T s \<longleftrightarrow> users s \<subseteq> T \<and> g_gate s = gate_word (g_close s \<noteq> Open) (card (users s))
     \<and> (g_close s = Closed \<longrightarrow> users s = {})
     \<and> (\<forall>t. g_pc s t = Held \<longrightarrow> g_owner s = t)
     \<and> (\<forall>t ow. g_pc s t = Checked ow \<longrightarrow> ow \<noteq> 0 \<and> ow = g_owner s)
     \<and> (\<forall>t. g_pc s t = OwnerLoad \<longrightarrow> g_owner s \<noteq> 0)
     \<and> (\<forall>t. g_pc s t \<noteq> Idle \<longrightarrow> t \<noteq> 0)"

lemma users_upd:
  "users (s\<lparr>g_pc := (g_pc s)(t := pc)\<rparr>) = (if in_gate pc then insert t (users s) else users s - {t})"
  "users (s\<lparr>g_gate := g, g_pc := (g_pc s)(t := pc)\<rparr>) = (if in_gate pc then insert t (users s) else users s - {t})"
  "users (s\<lparr>g_owner := w, g_pc := (g_pc s)(t := pc)\<rparr>) = (if in_gate pc then insert t (users s) else users s - {t})"
  "users (s\<lparr>g_close := c\<rparr>) = users s" "users (s\<lparr>g_gate := g, g_close := c\<rparr>) = users s"
  "users (s\<lparr>g_gate := g\<rparr>) = users s"
  by (auto simp: users_def)

lemma in_gate_simps [simp]:
  "\<not> in_gate Idle" "\<not> in_gate (Loaded g)" "in_gate Entered" "in_gate OwnerCas" "in_gate OwnerLoad"
  "in_gate (Checked ow)" "in_gate Rejecting" "in_gate Held"
  by (simp_all add: in_gate_def)

lemma users_iff: "t \<in> users s \<longleftrightarrow> in_gate (g_pc s t)"
  by (simp add: users_def)

lemma gate_leave_inv:
  assumes T: "finite T" "card T < 2 ^ 63" and inv: "gate_inv T s" and t: "t \<in> users s"
  shows "gate_inv T (s\<lparr>g_gate := g_gate s - 1, g_pc := (g_pc s)(t := Idle)\<rparr>)" (is "gate_inv T ?s'")
proof -
  have fin: "finite (users s)" using T inv finite_subset by (auto simp: gate_inv_def)
  have card: "card (users s) < 2 ^ 63" using T inv card_mono [of T "users s"] by (auto simp: gate_inv_def)
  have rem: "card (users s) = Suc (card (users s - {t}))" using fin t by (metis card.remove)
  then have card': "card (users s - {t}) < 2 ^ 63" using card by simp
  have "g_gate s = (if g_close s \<noteq> Open then kClosed else 0) + of_nat (card (users s))"
    using inv unfolding gate_inv_def gate_word_closed(4) [OF card] by blast
  then have word: "g_gate s - 1 = gate_word (g_close s \<noteq> Open) (card (users s - {t}))"
    unfolding gate_word_closed(4) [OF card'] by (simp add: rem)
  have us: "users ?s' = users s - {t}" by (simp add: users_upd)
  have pcs: "g_pc ?s' x = (if x = t then Idle else g_pc s x)" for x by simp
  have keep: "g_owner ?s' = g_owner s" "g_close ?s' = g_close s" "g_gate ?s' = g_gate s - 1" by simp_all
  show ?thesis unfolding gate_inv_def us pcs keep using inv word by (simp add: gate_inv_def) blast
qed

lemma gate_step_inv:
  assumes T: "finite T" "card T < 2 ^ 63" and inv: "gate_inv T s" and step: "lease_step s s'" and sub: "users s' \<subseteq> T"
  shows "gate_inv T s'"
proof -
  have fin: "finite (users s)" "finite (users s')" using T inv sub finite_subset by (auto simp: gate_inv_def)
  have card: "card (users s) < 2 ^ 63" using T inv card_mono [of T "users s"] by (auto simp: gate_inv_def)
  note w = gate_word_closed [OF card]
  from step show ?thesis
  proof cases
    case (cas_ok t g)
    have t: "t \<notin> users s" using cas_ok by (simp add: users_iff)
    have op: "g_close s = Open" using w(1) [of "g_close s \<noteq> Open"] cas_ok inv by (auto simp: gate_inv_def)
    have "g_gate s' = gate_word False (card (insert t (users s)))"
      using cas_ok inv op t fin(1) by (simp add: gate_inv_def gate_word_def)
    then show ?thesis
      using cas_ok inv op sub by (auto simp: gate_inv_def users_upd)
  next
    case (reject t)
    then show ?thesis using gate_leave_inv [OF T inv, of t] by (simp add: users_iff)
  next
    case (release t)
    then show ?thesis using gate_leave_inv [OF T inv, of t] by (simp add: users_iff)
  next
    case close_or
    then show ?thesis using inv w(3) by (auto simp: gate_inv_def users_upd)
  next
    case close_done
    have "(of_nat (card (users s)) :: u64) = 0"
      using close_done inv w(2) by (simp add: gate_inv_def)
    moreover have "unat (of_nat (card (users s)) :: u64) = card (users s)" using card by (simp add: unat_of_nat)
    ultimately have "users s = {}" using fin(1) by (metis card_0_eq unat_0)
    then show ?thesis using close_done inv by (auto simp: gate_inv_def users_upd)
  next
    case (load t)
    then show ?thesis using inv by (auto simp: gate_inv_def users_upd users_iff split: if_splits)
  next
    case (refuse t g)
    then show ?thesis using inv by (auto simp: gate_inv_def users_upd users_iff split: if_splits)
  next
    case (cas_fail t g)
    then show ?thesis using inv by (auto simp: gate_inv_def users_upd users_iff split: if_splits)
  next
    case (owner_load t)
    then have "t \<in> users s" by (simp add: users_iff)
    then have "users s \<noteq> {}" "insert t (users s) = users s" by auto
    with owner_load show ?thesis using inv by (auto simp: gate_inv_def users_upd users_iff insert_absorb split: if_splits)
  next
    case (owner_cas t)
    then have "t \<in> users s" by (simp add: users_iff)
    then have "users s \<noteq> {}" "insert t (users s) = users s" by auto
    with owner_cas show ?thesis using inv by (auto simp: gate_inv_def users_upd users_iff insert_absorb split: if_splits)
  next
    case (owner_reload t)
    then have "t \<in> users s" by (simp add: users_iff)
    then have "users s \<noteq> {}" "insert t (users s) = users s" by auto
    with owner_reload show ?thesis using inv by (auto simp: gate_inv_def users_upd users_iff insert_absorb split: if_splits)
  next
    case (check t ow)
    then have "t \<in> users s" by (simp add: users_iff)
    then have "users s \<noteq> {}" "insert t (users s) = users s" by auto
    with check show ?thesis
      using inv by (auto simp: gate_inv_def users_upd users_iff insert_absorb split: if_splits) metis+
  qed
qed

lemma gate_reach_inv:
  assumes "finite T" "card T < 2 ^ 63" "gate_reach T s"
  shows "gate_inv T s"
  using assms(3)
proof (induction rule: gate_reach.induct)
  case init
  then show ?case by (simp add: gate_inv_def gate_init_def users_def gate_word_def)
next
  case (step s s')
  then show ?case using gate_step_inv [OF assms(1,2)] by blast
qed

section \<open>Properties\<close>

text \<open>C12: in every interleaving at most one thread holds the lease of a connection, and once
  \<^verbatim>\<open>close\<close> has returned no thread holds it or is still inside the gate, so the connection's
  resources may be freed.\<close>

theorem lease_exclusive:
  assumes "finite T" "card T < 2 ^ 63" "gate_reach T s"
  shows "(g_pc s t = Held \<and> g_pc s t' = Held \<longrightarrow> t = t')
    \<and> (g_close s = Closed \<longrightarrow> users s = {} \<and> g_pc s t \<noteq> Held)"
  using gate_reach_inv [OF assms] unfolding gate_inv_def
  by (metis empty_iff in_gate_simps(8) users_iff)

theorem lease_exclusive_witness:
  "\<exists>s. gate_reach {5} s \<and> g_pc s 5 = Held \<and> g_close s = Waiting
    \<and> (g_pc s 5 = Held \<and> g_pc s 6 = Held \<longrightarrow> 5 = (6::u64))"
proof -
  let ?s1 = "gate_init\<lparr>g_pc := (g_pc gate_init)(5 := Loaded (g_gate gate_init))\<rparr>"
  let ?s2 = "?s1\<lparr>g_gate := 0 + 1, g_pc := (g_pc ?s1)(5 := Entered)\<rparr>"
  let ?s3 = "?s2\<lparr>g_pc := (g_pc ?s2)(5 := if g_owner ?s2 = 0 then OwnerCas else Checked (g_owner ?s2))\<rparr>"
  let ?s4 = "?s3\<lparr>g_owner := (if g_owner ?s3 = 0 then 5 else g_owner ?s3), g_pc := (g_pc ?s3)(5 := OwnerLoad)\<rparr>"
  let ?s5 = "?s4\<lparr>g_pc := (g_pc ?s4)(5 := Checked (g_owner ?s4))\<rparr>"
  let ?s6 = "?s5\<lparr>g_pc := (g_pc ?s5)(5 := if g_owner ?s4 \<noteq> 5 then Rejecting else Held)\<rparr>"
  let ?s7 = "?s6\<lparr>g_gate := g_gate ?s6 OR kClosed, g_close := Waiting\<rparr>"
  have 1: "gate_reach {5} ?s1" by (rule gate_reach.step [OF gate_reach.init lease_step.load]) (auto simp: gate_init_def users_def)
  have 2: "gate_reach {5} ?s2" by (rule gate_reach.step [OF 1 lease_step.cas_ok]) (auto simp: gate_init_def users_def)
  have 3: "gate_reach {5} ?s3" by (rule gate_reach.step [OF 2 lease_step.owner_load]) (auto simp: gate_init_def users_def)
  have 4: "gate_reach {5} ?s4" by (rule gate_reach.step [OF 3 lease_step.owner_cas]) (auto simp: gate_init_def users_def)
  have 5: "gate_reach {5} ?s5" by (rule gate_reach.step [OF 4 lease_step.owner_reload]) (auto simp: gate_init_def users_def)
  have 6: "gate_reach {5} ?s6" by (rule gate_reach.step [OF 5 lease_step.check]) (auto simp: gate_init_def users_def)
  have 7: "gate_reach {5} ?s7" by (rule gate_reach.step [OF 6 lease_step.close_or]) (auto simp: gate_init_def users_def)
  have T: "finite {5::u64}" "card {5::u64} < 2 ^ 63" by simp_all
  have "g_pc ?s7 5 = Held" by (simp add: gate_init_def)
  then show ?thesis using 7 lease_exclusive [OF T 7, of 5 6] by (intro exI [of _ ?s7]) simp
qed

end
