(* ===== verification/Config_Validation.thy ===== *)
theory Config_Validation
  imports Daqiri_Types
begin

text \<open>
  The validation of a parsed configuration in \<^verbatim>\<open>src/src/engine.cpp\<close>. The C++ code runs every check and
  clears a flag when one fails; here each group of checks is a Boolean function and the
  flag is their conjunction, with the sets and maps that the loops fill passed on explicitly.
  The address parser of the C library is an argument.
\<close>

section \<open>Model\<close>

definition kTunnelMaxFrameSize :: u64 where "kTunnelMaxFrameSize = 9100"
definition kMaxFlowActions :: nat where "kMaxFlowActions = 7"

definition is_hex_digit :: "char \<Rightarrow> bool" where
  "is_hex_digit c \<longleftrightarrow>
     (let n = (of_char c :: nat) in (48 \<le> n \<and> n \<le> 57) \<or> (65 \<le> n \<and> n \<le> 70) \<or> (97 \<le> n \<and> n \<le> 102))"

fun mac_octets :: "nat \<Rightarrow> string \<Rightarrow> bool" where
  "mac_octets 0 s = False"
| "mac_octets (Suc 0) [a, b] \<longleftrightarrow> is_hex_digit a \<and> is_hex_digit b"
| "mac_octets (Suc (Suc n)) (a # b # c # s) \<longleftrightarrow>
     is_hex_digit a \<and> is_hex_digit b \<and> c = CHR 0x3A \<and> mac_octets (Suc n) s"
| "mac_octets _ _ = False"

definition is_mac_address :: "string \<Rightarrow> bool" where
  "is_mac_address address = mac_octets 6 address"

type_synonym pton = "string \<Rightarrow> u32 option"

definition is_ipv4_address :: "pton \<Rightarrow> string \<Rightarrow> bool" where
  "is_ipv4_address inet_pton address \<longleftrightarrow> address \<noteq> [] \<and> inet_pton address \<noteq> None"

fun find_scheme :: "string \<Rightarrow> string \<Rightarrow> string option" where
  "find_scheme acc [] = None"
| "find_scheme acc (c # s) =
     (if take 3 (c # s) = [CHR 0x3A, CHR 0x2F, CHR 0x2F] then Some (rev acc) else find_scheme (c # acc) s)"

definition protocol_from_endpoint_addr :: "string \<Rightarrow> SocketProtocol" where
  "protocol_from_endpoint_addr addr =
     (case find_scheme [] addr of
        None \<Rightarrow> SocketProtocol.INVALID
      | Some scheme \<Rightarrow>
          if scheme = ''tcp'' then TCP
          else if scheme = ''udp'' then UDP
          else if scheme = ''rdma'' \<or> scheme = ''roce'' then ROCE
          else SocketProtocol.INVALID)"

definition validate_tunnel_action_config :: "pton \<Rightarrow> FlowAction \<Rightarrow> bool" where
  "validate_tunnel_action_config pt action =
     (let tunnel = fa_tunnel action in
      if fa_type action \<noteq> TUNNEL_ENCAP \<and> fa_type action \<noteq> TUNNEL_DECAP then True
      else if tn_type tunnel = NONE then False
      else if \<not> is_mac_address (tn_outer_eth_src tunnel) \<or> \<not> is_mac_address (tn_outer_eth_dst tunnel) then False
      else if \<not> is_ipv4_address pt (tn_outer_ipv4_src tunnel) \<or> \<not> is_ipv4_address pt (tn_outer_ipv4_dst tunnel) then False
      else
        (case tn_type tunnel of
           VXLAN \<Rightarrow> \<not> tn_vni tunnel > 0x00ffffff \<and> tn_outer_udp_dst tunnel \<noteq> 0
         | GRE \<Rightarrow> tn_gre_protocol tunnel \<noteq> 0
         | NVGRE \<Rightarrow> \<not> tn_tni tunnel > 0x00ffffff
         | NONE \<Rightarrow> True))"

definition validate_flow_action_config :: "pton \<Rightarrow> FlowAction \<Rightarrow> bool" where
  "validate_flow_action_config pt action =
     (if fa_type action = VLAN_PUSH
         \<and> (vl_vlan_id (fa_vlan action) > 4095
            \<or> vl_pcp (fa_vlan action) > 7 \<or> vl_dei (fa_vlan action) > 1
            \<or> vl_ethertype (fa_vlan action) = 0)
      then False
      else validate_tunnel_action_config pt action)"

definition get_port_id :: "NetworkConfig \<Rightarrow> string \<Rightarrow> int" where
  "get_port_id cfg key =
     (case find (\<lambda>intf. if_address intf = key \<or> if_name intf = key) (nc_ifs cfg) of
        Some intf \<Rightarrow> uint (if_port_id intf)
      | None \<Rightarrow> - 1)"

abbreviation mr_of :: "NetworkConfig \<Rightarrow> string \<Rightarrow> MemoryRegionConfig option" where
  "mr_of cfg name \<equiv> map_of (nc_mrs cfg) name"

definition is_null_mr :: "NetworkConfig \<Rightarrow> string \<Rightarrow> bool" where
  "is_null_mr cfg name \<longleftrightarrow> (case mr_of cfg name of None \<Rightarrow> False | Some mr \<Rightarrow> mr_kind mr = NULL_MR)"

definition validate_queue_memory_regions :: "NetworkConfig \<Rightarrow> CommonQueueConfig \<Rightarrow> bool \<Rightarrow> bool" where
  "validate_queue_memory_regions cfg queue rx =
     list_all (\<lambda>i. case mr_of cfg (cq_mrs queue ! i) of
                     None \<Rightarrow> False
                   | Some mr \<Rightarrow>
                       \<not> (mr_kind mr = NULL_MR
                          \<and> (\<not> rx \<or> (mr_buf_size mr = 0 \<and> i + 1 \<noteq> length (cq_mrs queue))
                             \<or> mr_buf_size mr > 0xffffffff)))
       [0..<length (cq_mrs queue)]"

definition raw_ibverbs :: "NetworkConfig \<Rightarrow> bool" where
  "raw_ibverbs cfg \<longleftrightarrow> cc_stream_type (nc_common cfg) = RAW \<and> cc_engine_type (nc_common cfg) = IBVERBS"

definition direct_poll_supported :: "NetworkConfig \<Rightarrow> bool" where
  "direct_poll_supported cfg \<longleftrightarrow>
     raw_ibverbs cfg
     \<or> (cc_stream_type (nc_common cfg) = StreamType.SOCKET \<and> cc_engine_type (nc_common cfg) = RDMA)"

definition tunnel_supported_engine :: "NetworkConfig \<Rightarrow> bool" where
  "tunnel_supported_engine cfg \<longleftrightarrow>
     cc_engine_type (nc_common cfg) = DPDK \<or> cc_engine_type (nc_common cfg) = IBVERBS"

definition check_common :: "NetworkConfig \<Rightarrow> bool" where
  "check_common cfg \<longleftrightarrow>
     (cc_loopback (nc_common cfg) = LOOPBACK_TYPE_HW \<longrightarrow> raw_ibverbs cfg)
     \<and> list_all (\<lambda>(_, mr). mr_kind mr = NULL_MR \<longrightarrow> raw_ibverbs cfg) (nc_mrs cfg)"

text \<open>How often each memory region is named by a queue or as a reorder output.\<close>

definition region_names :: "InterfaceConfig \<Rightarrow> string list" where
  "region_names intf =
     concat (map (\<lambda>q. cq_mrs (rxq_common q)) (rx_queues (if_rx intf)))
     @ concat (map (\<lambda>q. cq_mrs (txq_common q)) (tx_queues (if_tx intf)))
     @ map re_memory_region (rx_reorder_configs (if_rx intf))"

definition region_users :: "NetworkConfig \<Rightarrow> string \<Rightarrow> nat" where
  "region_users cfg name = count_list (concat (map region_names (nc_ifs cfg))) name"

definition check_rxq :: "NetworkConfig \<Rightarrow> RxQueueConfig \<Rightarrow> bool" where
  "check_rxq cfg rxq \<longleftrightarrow>
     validate_queue_memory_regions cfg (rxq_common rxq) True
     \<and> (case rxq_poll_mode rxq of
          DIRECT \<Rightarrow> direct_poll_supported cfg
            \<and> \<not> (cq_cpu_core (rxq_common rxq) \<noteq> [] \<or> cq_batch_size (rxq_common rxq) \<noteq> 0 \<or> rxq_timeout_us rxq \<noteq> 0)
        | INDIRECT \<Rightarrow> \<not> (cq_cpu_core (rxq_common rxq) = [] \<or> cq_batch_size (rxq_common rxq) \<le> 0)
        | QueuePollMode.INVALID \<Rightarrow> False)"

definition smallest_pool :: "NetworkConfig \<Rightarrow> string list \<Rightarrow> u64" where
  "smallest_pool cfg names =
     fold (\<lambda>name acc. case mr_of cfg name of None \<Rightarrow> acc | Some mr \<Rightarrow> min acc (mr_num_bufs mr)) names 0xffffffff"

definition check_shared_tx :: "NetworkConfig \<Rightarrow> TxQueueConfig \<Rightarrow> bool" where
  "check_shared_tx cfg txq \<longleftrightarrow>
     (let common = txq_common txq;
          credits = (if txq_max_inflight_sends txq \<noteq> 0 then ucast (txq_max_inflight_sends txq)
                     else smallest_pool cfg (cq_mrs common) * 2 :: u64)
      in \<not> (\<not> raw_ibverbs cfg \<or> txq_poll_mode txq \<noteq> INDIRECT \<or> cq_mrs common = []
            \<or> length (cq_mrs common) > MAX_NUM_SEGS)
         \<and> list_all (\<lambda>name.
              (case mr_of cfg name of
                 None \<Rightarrow> True
               | Some mr \<Rightarrow> \<not> (mr_num_bufs mr = 0 \<or> mr_num_bufs mr \<ge> 0xffffffff \<or> mr_buf_size mr = 0
                               \<or> mr_buf_size mr > 0xffffffff))
              \<and> region_users cfg name = 1) (cq_mrs common)
         \<and> \<not> (credits = 0 \<or> credits > 0xffffffff
              \<or> (cq_batch_size common > 0 \<and> of_int (cq_batch_size common) > credits)))"

definition check_txq :: "NetworkConfig \<Rightarrow> TxQueueConfig \<Rightarrow> bool" where
  "check_txq cfg txq \<longleftrightarrow>
     validate_queue_memory_regions cfg (txq_common txq) False
     \<and> (if txq_buffer_mode txq = SHARED then check_shared_tx cfg txq else txq_max_inflight_sends txq = 0)
     \<and> (case txq_poll_mode txq of
          DIRECT \<Rightarrow> direct_poll_supported cfg
            \<and> \<not> (cq_cpu_core (txq_common txq) \<noteq> [] \<or> cq_batch_size (txq_common txq) \<noteq> 0)
        | INDIRECT \<Rightarrow> \<not> (cq_cpu_core (txq_common txq) = [] \<or> cq_batch_size (txq_common txq) \<le> 0)
        | QueuePollMode.INVALID \<Rightarrow> False)"

definition check_rdma_pairing :: "NetworkConfig \<Rightarrow> InterfaceConfig \<Rightarrow> bool" where
  "check_rdma_pairing cfg intf \<longleftrightarrow>
     (cc_engine_type (nc_common cfg) = RDMA \<longrightarrow>
        list_all (\<lambda>q. \<not> (txq_poll_mode (tx_queues (if_tx intf) ! q) = DIRECT
                        \<and> q \<ge> length (rx_queues (if_rx intf))))
          [0..<length (tx_queues (if_tx intf))]
        \<and> \<not> length (rx_queues (if_rx intf)) > length (tx_queues (if_tx intf)))"

definition queue_frame_size :: "NetworkConfig \<Rightarrow> CommonQueueConfig \<Rightarrow> u64" where
  "queue_frame_size cfg queue =
     fold (\<lambda>name total. case mr_of cfg name of None \<Rightarrow> total | Some mr \<Rightarrow> total + mr_buf_size mr) (cq_mrs queue) 0"

definition max_frame :: "NetworkConfig \<Rightarrow> CommonQueueConfig list \<Rightarrow> u64" where
  "max_frame cfg queues = fold (\<lambda>q acc. max acc (queue_frame_size cfg q)) queues 0"

text \<open>What the loop over the receive flows fills: the flow identifiers of the interface, those of
  the whole configuration, the flows that use RSS and the queues of each flow.\<close>

record FlowScan =
  fs_interface_ids :: "u32 list"
  fs_static_ids :: "u32 list"
  fs_rss_ids :: "u32 list"
  fs_queue_ids :: "(u32 \<times> u16 list) list"

definition scan_rx_flow :: "FlowConfig \<Rightarrow> FlowScan \<Rightarrow> bool \<times> FlowScan" where
  "scan_rx_flow flow fs =
     (let fid = fc_id flow;
          ids_ok = (fid \<notin> set (fs_interface_ids fs) \<and> (fid \<noteq> 0 \<longrightarrow> fid \<notin> set (fs_static_ids fs)));
          fs1 = (if fid \<in> set (fs_interface_ids fs) then fs
                 else fs\<lparr>fs_interface_ids := fid # fs_interface_ids fs,
                         fs_static_ids := (if fid \<noteq> 0 \<and> fid \<notin> set (fs_static_ids fs) then fid # fs_static_ids fs
                                           else fs_static_ids fs)\<rparr>);
          queue_action = last (flow_config_actions flow);
          queue_ids = flow_queue_ids queue_action;
          fs2 = (if fa_type queue_action \<noteq> QUEUE then fs1
                 else fs1\<lparr>fs_queue_ids := (if map_of (fs_queue_ids fs1) fid = None then (fid, queue_ids) # fs_queue_ids fs1
                                           else fs_queue_ids fs1),
                          fs_rss_ids := (if length queue_ids > 1 then fid # fs_rss_ids fs1 else fs_rss_ids fs1)\<rparr>)
      in (ids_ok, fs2))"

primrec scan_rx_flows :: "FlowConfig list \<Rightarrow> FlowScan \<Rightarrow> bool \<times> FlowScan" where
  "scan_rx_flows [] fs = (True, fs)"
| "scan_rx_flows (flow # flows) fs =
     (case scan_rx_flow flow fs of (ok, fs1) \<Rightarrow>
        (case scan_rx_flows flows fs1 of (oks, fs2) \<Rightarrow> (ok \<and> oks, fs2)))"

fun check_flow_queues :: "u16 list \<Rightarrow> u16 list \<Rightarrow> u16 set \<Rightarrow> bool" where
  "check_flow_queues rx_queue_ids [] unique_ids = True"
| "check_flow_queues rx_queue_ids (queue_id # queue_ids) unique_ids \<longleftrightarrow>
     queue_id \<notin> unique_ids \<and> queue_id \<in> set rx_queue_ids
     \<and> check_flow_queues rx_queue_ids queue_ids (insert queue_id unique_ids)"

definition check_rx_flow :: "pton \<Rightarrow> NetworkConfig \<Rightarrow> u16 list \<Rightarrow> u64 \<Rightarrow> FlowConfig \<Rightarrow> bool" where
  "check_rx_flow pt cfg rx_queue_ids max_rx_payload_frame flow \<longleftrightarrow>
     (let actions = flow_config_actions flow;
          queue_action = last actions;
          queue_ids = flow_queue_ids queue_action;
          has_transform = flow_has_transform_actions flow;
          rx_overhead = fold (\<lambda>action acc. acc + flow_decap_wire_overhead action) actions 0
      in \<not> length actions > kMaxFlowActions
         \<and> fa_type queue_action = QUEUE
         \<and> check_flow_queues rx_queue_ids queue_ids {}
         \<and> \<not> (length queue_ids > 1 \<and> fm_type (fc_match flow) = ECPRI)
         \<and> \<not> (has_transform \<and> fm_type (fc_match flow) = FLEX_ITEM)
         \<and> \<not> (has_transform \<and> (cc_stream_type (nc_common cfg) \<noteq> RAW \<or> \<not> tunnel_supported_engine cfg))
         \<and> list_all (\<lambda>action. \<not> (fa_type action = VLAN_PUSH \<or> fa_type action = TUNNEL_ENCAP)
                             \<and> validate_flow_action_config pt action) actions
         \<and> \<not> max_rx_payload_frame + of_nat rx_overhead > kTunnelMaxFrameSize)"

definition check_reorder :: "NetworkConfig \<Rightarrow> InterfaceConfig \<Rightarrow> u16 list \<Rightarrow> FlowScan \<Rightarrow> ReorderConfig \<Rightarrow> bool" where
  "check_reorder cfg intf direct_rx_queue_ids fs reorder \<longleftrightarrow>
     list_all (\<lambda>flow_id.
       flow_id \<notin> set (fs_rss_ids fs)
       \<and> (case map_of (fs_queue_ids fs) flow_id of
            None \<Rightarrow> False
          | Some queue_ids \<Rightarrow>
              list_all (\<lambda>queue_id.
                list_all (\<lambda>queue. cq_id (rxq_common queue) = uint queue_id
                                 \<longrightarrow> list_all (\<lambda>name. \<not> is_null_mr cfg name) (cq_mrs (rxq_common queue)))
                  (rx_queues (if_rx intf))
                \<and> queue_id \<notin> set direct_rx_queue_ids) queue_ids))
       (re_flow_ids reorder)"

definition check_tx_flow :: "pton \<Rightarrow> NetworkConfig \<Rightarrow> u64 \<Rightarrow> FlowConfig \<Rightarrow> bool" where
  "check_tx_flow pt cfg max_tx_payload_frame flow \<longleftrightarrow>
     (let actions = flow_config_actions flow;
          has_transform = list_ex flow_action_is_transform actions;
          tx_overhead = fold (\<lambda>action acc. acc + flow_action_wire_overhead action) actions 0
      in \<not> length actions > kMaxFlowActions
         \<and> fm_type (fc_match flow) \<noteq> FLEX_ITEM
         \<and> list_all (\<lambda>action. fa_type action \<noteq> QUEUE
                             \<and> \<not> (fa_type action = VLAN_POP \<or> fa_type action = TUNNEL_DECAP)
                             \<and> validate_flow_action_config pt action) actions
         \<and> has_transform
         \<and> \<not> (has_transform \<and> (cc_stream_type (nc_common cfg) \<noteq> RAW \<or> \<not> tunnel_supported_engine cfg))
         \<and> \<not> max_tx_payload_frame + of_nat tx_overhead > kTunnelMaxFrameSize)"

definition check_interface :: "pton \<Rightarrow> NetworkConfig \<Rightarrow> InterfaceConfig \<Rightarrow> u32 list \<Rightarrow> bool \<times> u32 list" where
  "check_interface pt cfg intf static_ids =
     (let rxqs = rx_queues (if_rx intf); txqs = tx_queues (if_tx intf);
          rx_queue_ids = map (\<lambda>q. of_int (cq_id (rxq_common q))) rxqs;
          direct_rx_queue_ids = map (\<lambda>q. of_int (cq_id (rxq_common q)))
            (filter (\<lambda>q. rxq_poll_mode q = DIRECT) rxqs);
          (ids_ok, fs) = scan_rx_flows (rx_flows (if_rx intf))
            \<lparr>fs_interface_ids = [], fs_static_ids = static_ids, fs_rss_ids = [], fs_queue_ids = []\<rparr>
      in (list_all (check_rxq cfg) rxqs
          \<and> list_all (check_txq cfg) txqs
          \<and> check_rdma_pairing cfg intf
          \<and> list_all (\<lambda>r. \<not> is_null_mr cfg (re_memory_region r)) (rx_reorder_configs (if_rx intf))
          \<and> ids_ok
          \<and> list_all (check_rx_flow pt cfg rx_queue_ids (max_frame cfg (map rxq_common rxqs))) (rx_flows (if_rx intf))
          \<and> list_all (check_reorder cfg intf direct_rx_queue_ids fs) (rx_reorder_configs (if_rx intf))
          \<and> list_all (check_tx_flow pt cfg (max_frame cfg (map txq_common txqs))) (tx_flows (if_tx intf)),
          fs_static_ids fs))"

primrec check_interfaces :: "pton \<Rightarrow> NetworkConfig \<Rightarrow> InterfaceConfig list \<Rightarrow> u32 list \<Rightarrow> bool" where
  "check_interfaces pt cfg [] static_ids = True"
| "check_interfaces pt cfg (intf # ifs) static_ids =
     (case check_interface pt cfg intf static_ids of (ok, ids) \<Rightarrow> ok \<and> check_interfaces pt cfg ifs ids)"

definition validate_network_config :: "pton \<Rightarrow> NetworkConfig \<Rightarrow> bool" where
  "validate_network_config pt cfg \<longleftrightarrow>
     check_common cfg
     \<and> check_interfaces pt cfg (nc_ifs cfg) []
     \<and> list_all (\<lambda>mr. mr \<in> set (map (\<lambda>(_, mr). mr_name mr) (nc_mrs cfg)))
         (concat (map region_names (nc_ifs cfg)))"

section \<open>What an accepted configuration satisfies\<close>

definition rx_ids :: "InterfaceConfig \<Rightarrow> u32 list" where
  "rx_ids intf = map fc_id (rx_flows (if_rx intf))"

definition nz :: "u32 list \<Rightarrow> u32 list" where
  "nz xs = filter (\<lambda>i. i \<noteq> 0) xs"

definition scan_of :: "u32 list \<Rightarrow> InterfaceConfig \<Rightarrow> FlowScan" where
  "scan_of ids intf = snd (scan_rx_flows (rx_flows (if_rx intf))
     \<lparr>fs_interface_ids = [], fs_static_ids = ids, fs_rss_ids = [], fs_queue_ids = []\<rparr>)"

lemma check_interface_eq:
  "check_interface pt cfg intf ids =
    (list_all (check_rxq cfg) (rx_queues (if_rx intf))
     \<and> list_all (check_txq cfg) (tx_queues (if_tx intf))
     \<and> check_rdma_pairing cfg intf
     \<and> list_all (\<lambda>r. \<not> is_null_mr cfg (re_memory_region r)) (rx_reorder_configs (if_rx intf))
     \<and> fst (scan_rx_flows (rx_flows (if_rx intf))
          \<lparr>fs_interface_ids = [], fs_static_ids = ids, fs_rss_ids = [], fs_queue_ids = []\<rparr>)
     \<and> list_all (check_rx_flow pt cfg (map (\<lambda>q. of_int (cq_id (rxq_common q))) (rx_queues (if_rx intf)))
          (max_frame cfg (map rxq_common (rx_queues (if_rx intf))))) (rx_flows (if_rx intf))
     \<and> list_all (check_reorder cfg intf (map (\<lambda>q. of_int (cq_id (rxq_common q)))
          (filter (\<lambda>q. rxq_poll_mode q = DIRECT) (rx_queues (if_rx intf)))) (scan_of ids intf)) (rx_reorder_configs (if_rx intf))
     \<and> list_all (check_tx_flow pt cfg (max_frame cfg (map txq_common (tx_queues (if_tx intf))))) (tx_flows (if_tx intf)),
     fs_static_ids (scan_of ids intf))"
  by (simp add: check_interface_def scan_of_def Let_def split: prod.split)

lemma check_interfaces_member:
  assumes "check_interfaces pt cfg ifs ids" "intf \<in> set ifs"
  shows "\<exists>ids'. fst (check_interface pt cfg intf ids')"
  using assms
proof (induction ifs arbitrary: ids)
  case (Cons i ifs)
  obtain ok ids1 where c: "check_interface pt cfg i ids = (ok, ids1)" by force
  then have "fst (check_interface pt cfg i ids)" "check_interfaces pt cfg ifs ids1" using Cons.prems by auto
  then show ?case using Cons.IH [of ids1] Cons.prems(2) by (cases "intf = i") auto
qed simp

lemma validated_interface:
  assumes "validate_network_config pt cfg" "intf \<in> set (nc_ifs cfg)"
  obtains ids where "fst (check_interface pt cfg intf ids)"
  using assms check_interfaces_member [of pt cfg "nc_ifs cfg" "[]" intf]
  unfolding validate_network_config_def by blast

lemma scan_rx_flow_ids:
  assumes "scan_rx_flow flow fs = (True, fs')"
  shows "fc_id flow \<notin> set (fs_interface_ids fs)" "fs_interface_ids fs' = fc_id flow # fs_interface_ids fs"
    "fc_id flow \<noteq> 0 \<Longrightarrow> fc_id flow \<notin> set (fs_static_ids fs)"
    "fs_static_ids fs' = (if fc_id flow = 0 then fs_static_ids fs else fc_id flow # fs_static_ids fs)"
  using assms by (auto simp: scan_rx_flow_def Let_def split: if_splits)

lemma scan_rx_flows_ids:
  assumes "fst (scan_rx_flows flows fs)"
  shows "distinct (map fc_id flows) \<and> set (map fc_id flows) \<inter> set (fs_interface_ids fs) = {}
    \<and> distinct (nz (map fc_id flows)) \<and> set (nz (map fc_id flows)) \<inter> set (fs_static_ids fs) = {}
    \<and> fs_static_ids (snd (scan_rx_flows flows fs)) = rev (nz (map fc_id flows)) @ fs_static_ids fs"
  using assms
proof (induction flows arbitrary: fs)
  case Nil
  then show ?case by (simp add: nz_def)
next
  case (Cons flow flows)
  obtain ok fs1 where s1: "scan_rx_flow flow fs = (ok, fs1)" by force
  obtain oks fs2 where s2: "scan_rx_flows flows fs1 = (oks, fs2)" by force
  have ok: "ok" "oks" using Cons.prems s1 s2 by auto
  have s1': "scan_rx_flow flow fs = (True, fs1)" using s1 ok by simp
  note h = scan_rx_flow_ids [OF s1']
  have IH: "distinct (map fc_id flows) \<and> set (map fc_id flows) \<inter> set (fs_interface_ids fs1) = {}
    \<and> distinct (nz (map fc_id flows)) \<and> set (nz (map fc_id flows)) \<inter> set (fs_static_ids fs1) = {}
    \<and> fs_static_ids (snd (scan_rx_flows flows fs1)) = rev (nz (map fc_id flows)) @ fs_static_ids fs1"
    using Cons.IH [of fs1] s2 ok by simp
  have "snd (scan_rx_flows (flow # flows) fs) = snd (scan_rx_flows flows fs1)" using s1 s2 by simp
  then show ?case using IH h by (auto simp: nz_def)
qed

lemma check_interfaces_ids:
  assumes "check_interfaces pt cfg ifs ids"
  shows "distinct (concat (map (\<lambda>i. nz (rx_ids i)) ifs))
    \<and> set (concat (map (\<lambda>i. nz (rx_ids i)) ifs)) \<inter> set ids = {}
    \<and> (\<forall>intf\<in>set ifs. distinct (rx_ids intf))"
  using assms
proof (induction ifs arbitrary: ids)
  case Nil
  then show ?case by simp
next
  case (Cons i ifs)
  obtain ok ids1 where c: "check_interface pt cfg i ids = (ok, ids1)" by force
  then have ok: "ok" "check_interfaces pt cfg ifs ids1" using Cons.prems by auto
  have "fst (scan_rx_flows (rx_flows (if_rx i))
      \<lparr>fs_interface_ids = [], fs_static_ids = ids, fs_rss_ids = [], fs_queue_ids = []\<rparr>)"
    and ids1: "ids1 = fs_static_ids (scan_of ids i)"
    using c ok(1) unfolding check_interface_eq by auto
  from scan_rx_flows_ids [OF this(1)] have
    "distinct (rx_ids i)" "distinct (nz (rx_ids i))" "set (nz (rx_ids i)) \<inter> set ids = {}"
    "ids1 = rev (nz (rx_ids i)) @ ids"
    by (auto simp: rx_ids_def ids1 scan_of_def)
  then show ?case using Cons.IH [OF ok(2)] by auto
qed

text \<open>The queues recorded for a flow are those of a flow with that identifier, and a flow with
  several queues is recorded as an RSS flow.\<close>

definition scan_sound :: "FlowConfig list \<Rightarrow> FlowScan \<Rightarrow> bool" where
  "scan_sound flows fs \<longleftrightarrow>
     (\<forall>fid ids. map_of (fs_queue_ids fs) fid = Some ids \<longrightarrow>
        (\<exists>flow\<in>set flows. fc_id flow = fid \<and> fa_type (last (flow_config_actions flow)) = QUEUE
           \<and> flow_queue_ids (last (flow_config_actions flow)) = ids)
        \<and> (length ids > 1 \<longrightarrow> fid \<in> set (fs_rss_ids fs)))"

lemma scan_rx_flow_sound:
  assumes "scan_sound flows fs" "scan_rx_flow flow fs = (ok, fs')"
  shows "scan_sound (flows @ [flow]) fs'"
proof -
  let ?ids = "flow_queue_ids (last (flow_config_actions flow))"
  have q: "fs_queue_ids fs' = (if fa_type (last (flow_config_actions flow)) = QUEUE \<and> map_of (fs_queue_ids fs) (fc_id flow) = None
      then (fc_id flow, ?ids) # fs_queue_ids fs else fs_queue_ids fs)"
    and r: "fs_rss_ids fs' = (if fa_type (last (flow_config_actions flow)) = QUEUE \<and> length ?ids > 1
      then fc_id flow # fs_rss_ids fs else fs_rss_ids fs)"
    using assms(2) by (auto simp: scan_rx_flow_def Let_def split: if_splits)
  show ?thesis
    unfolding scan_sound_def
  proof (intro allI impI)
    fix fid ids
    assume m: "map_of (fs_queue_ids fs') fid = Some ids"
    show "(\<exists>f\<in>set (flows @ [flow]). fc_id f = fid \<and> fa_type (last (flow_config_actions f)) = QUEUE
           \<and> flow_queue_ids (last (flow_config_actions f)) = ids)
        \<and> (length ids > 1 \<longrightarrow> fid \<in> set (fs_rss_ids fs'))"
    proof (cases "map_of (fs_queue_ids fs) fid = Some ids")
      case True
      then show ?thesis using assms(1) r unfolding scan_sound_def by (auto split: if_splits)
    next
      case False
      then have "fid = fc_id flow" "ids = ?ids" "fa_type (last (flow_config_actions flow)) = QUEUE"
        using m q by (auto split: if_splits)
      then show ?thesis using r by auto
    qed
  qed
qed

lemma scan_rx_flows_sound:
  "scan_sound done fs \<Longrightarrow> scan_sound (done @ flows) (snd (scan_rx_flows flows fs))"
proof (induction flows arbitrary: fs "done")
  case Nil
  then show ?case by simp
next
  case (Cons flow flows)
  obtain ok fs1 where s1: "scan_rx_flow flow fs = (ok, fs1)" by force
  have "scan_sound (done @ [flow]) fs1" using scan_rx_flow_sound [OF Cons.prems s1] .
  from Cons.IH [OF this] show ?case using s1 by (auto split: prod.splits)
qed

lemma scan_of_sound: "scan_sound (rx_flows (if_rx intf)) (scan_of ids intf)"
  using scan_rx_flows_sound [of "[]" "\<lparr>fs_interface_ids = [], fs_static_ids = ids, fs_rss_ids = [], fs_queue_ids = []\<rparr>"]
  by (simp add: scan_of_def scan_sound_def)

lemma flow_queue_ids_nonempty: "flow_queue_ids a \<noteq> []"
  by (simp add: flow_queue_ids_def)

definition rx_region_names :: "InterfaceConfig \<Rightarrow> string list" where
  "rx_region_names intf = concat (map (\<lambda>q. cq_mrs (rxq_common q)) (rx_queues (if_rx intf)))
     @ map re_memory_region (rx_reorder_configs (if_rx intf))"

definition tx_region_names :: "InterfaceConfig \<Rightarrow> string list" where
  "tx_region_names intf = concat (map (\<lambda>q. cq_mrs (txq_common q)) (tx_queues (if_tx intf)))"

lemma count_region_names:
  "count_list (region_names i) name = count_list (rx_region_names i) name + count_list (tx_region_names i) name"
  by (simp add: region_names_def rx_region_names_def tx_region_names_def)

lemma count_list_concat_map:
  "count_list (concat (map f xs)) a = sum_list (map (\<lambda>x. count_list (f x) a) xs)"
  by (induction xs) auto

lemma region_named_once_rx:
  assumes "count_list (concat (map region_names ifs)) name = 1" "intf \<in> set ifs" "name \<in> set (tx_region_names intf)"
    "i \<in> set ifs"
  shows "name \<notin> set (rx_region_names i)"
proof
  assume rx: "name \<in> set (rx_region_names i)"
  let ?rx = "\<lambda>i. count_list (rx_region_names i) name" and ?tx = "\<lambda>i. count_list (tx_region_names i) name"
  have "sum_list (map ?rx ifs) + sum_list (map ?tx ifs) = 1"
    using assms(1) by (simp add: count_list_concat_map count_region_names sum_list_addf)
  moreover have "?rx i \<le> sum_list (map ?rx ifs)" "?tx intf \<le> sum_list (map ?tx ifs)"
    using assms(2,4) by (simp_all add: member_le_sum_list)
  moreover have "?rx i \<noteq> 0" "?tx intf \<noteq> 0" using rx assms(3) by (simp_all add: count_list_0_iff)
  ultimately show False by linarith
qed

section \<open>Properties\<close>

definition demo_rxq :: RxQueueConfig where
  "demo_rxq = \<lparr>rxq_common = \<lparr>cq_name = ''q'', cq_id = 3, cq_batch_size = 32, cq_split_boundary = 0, cq_cpu_core = ''5'',
     cq_mrs = [''mr''], cq_offloads = []\<rparr>, rxq_timeout_us = 0, rxq_poll_mode = INDIRECT, rxq_cqe_compression = False\<rparr>"

definition demo_txq :: TxQueueConfig where
  "demo_txq = \<lparr>txq_common = \<lparr>cq_name = ''t'', cq_id = 0, cq_batch_size = 32, cq_split_boundary = 0, cq_cpu_core = ''6'',
     cq_mrs = [''tx''], cq_offloads = []\<rparr>, txq_poll_mode = INDIRECT, txq_pacing_mbps = 0, txq_buffer_mode = SHARED,
     txq_max_inflight_sends = 0\<rparr>"

definition demo_flow :: FlowConfig where
  "demo_flow = \<lparr>fc_name = ''f'', fc_id = 9, fc_action = default_FlowAction\<lparr>fa_id := 3\<rparr>, fc_actions = [],
     fc_match = default_FlowMatch\<rparr>"

definition demo_reorder :: ReorderConfig where
  "demo_reorder = \<lparr>re_name = ''r'', re_reorder_engine = ''sw'', re_cyclic_sequence = False, re_reorder_type = [],
     re_memory_region = ''mr'', re_payload_byte_offset = 0, re_packet_size = 0, re_flow_ids = [9],
     re_method = SEQ_BATCH_NUMBER, re_missing_action = PASSTHROUGH,
     re_seq_batch_number = \<lparr>sb_sequence_number = \<lparr>bf_bit_offset = 0, bf_bit_width = 0\<rparr>,
       sb_batch_number = \<lparr>bf_bit_offset = 0, bf_bit_width = 0\<rparr>, sb_packets_per_batch = 0\<rparr>,
     re_seq_packets_per_batch = \<lparr>sp_sequence_number = \<lparr>bf_bit_offset = 0, bf_bit_width = 0\<rparr>, sp_packets_per_batch = 0\<rparr>,
     re_data_types = \<lparr>dt_enabled = False, dt_input_type = SAME, dt_output_type = SAME, dt_input_endianness = ReorderEndianness.HOST\<rparr>\<rparr>"

definition demo_if :: InterfaceConfig where
  "demo_if = \<lparr>if_name = ''eth'', if_address = ''0000:01:00.0'', if_port_id = 0,
     if_socket = \<lparr>so_mode = SocketMode.INVALID, so_local_addr = [], so_remote_addr = [], so_local_ip = [], so_remote_ip = [],
       so_local_port = 0, so_remote_port = 0, so_max_payload_size = 0, so_max_burst_interval_ms = 0, so_min_ipg_ns = 0,
       so_retry_connect_s = 1\<rparr>,
     if_roce = \<lparr>rc_transport_mode = RDMATransportMode.INVALID\<rparr>,
     if_rdma = \<lparr>rd_mode = RDMAMode.INVALID, rd_xmode = RDMATransportMode.INVALID, rd_port = 0\<rparr>,
     if_rx = \<lparr>rx_flow_isolation = False, rx_hardware_timestamps = False, rx_dynamic_flow_capacity = 0,
       rx_queues = [demo_rxq], rx_flows = [demo_flow], rx_flex_items = [], rx_reorder_configs = [demo_reorder]\<rparr>,
     if_tx = \<lparr>tx_accurate_send = False, tx_queues = [demo_txq], tx_flows = []\<rparr>\<rparr>"

definition demo_cfg :: NetworkConfig where
  "demo_cfg = \<lparr>nc_common = \<lparr>cc_version = 1, cc_master_core = 0, cc_dir = Direction.RX, cc_stream_type = RAW,
     cc_protocol = SocketProtocol.INVALID, cc_engine = IBVERBS, cc_engine_type = IBVERBS, cc_loopback = DISABLED\<rparr>,
     nc_mrs = [(''mr'', \<lparr>mr_name = ''mr'', mr_kind = HUGE, mr_affinity = 0, mr_access = 1, mr_buf_size = 2048,
       mr_adj_size = 0, mr_ttl_size = 0, mr_num_bufs = 64, mr_owned = True\<rparr>),
       (''tx'', \<lparr>mr_name = ''tx'', mr_kind = HUGE, mr_affinity = 0, mr_access = 1, mr_buf_size = 1024,
       mr_adj_size = 0, mr_ttl_size = 0, mr_num_bufs = 64, mr_owned = True\<rparr>)],
     nc_ifs = [demo_if], nc_debug = 0, nc_tx_meta_buffers = 0, nc_rx_meta_buffers = 0, nc_log_level = WARN\<rparr>"

lemmas demo_defs = demo_cfg_def demo_if_def demo_rxq_def demo_txq_def demo_flow_def demo_reorder_def default_FlowAction_def default_FlowMatch_def

lemma demo_flow_parts:
  "flow_config_actions demo_flow = [default_FlowAction\<lparr>fa_id := 3\<rparr>]" "flow_queue_ids (default_FlowAction\<lparr>fa_id := 3\<rparr>) = [3]"
  "fa_type (default_FlowAction\<lparr>fa_id := 3\<rparr>) = QUEUE" "fc_id demo_flow = 9"
  by (simp_all add: flow_config_actions_def flow_queue_ids_def demo_defs)

lemma demo_valid: "validate_network_config pt demo_cfg"
proof -
  let ?fs = "\<lparr>fs_interface_ids = [9], fs_static_ids = [9], fs_rss_ids = [], fs_queue_ids = [(9, [3])]\<rparr>"
  have scan: "scan_rx_flows [demo_flow] \<lparr>fs_interface_ids = [], fs_static_ids = [], fs_rss_ids = [], fs_queue_ids = []\<rparr>
      = (True, ?fs)"
    by (simp add: scan_rx_flow_def Let_def demo_flow_parts)
  have rxq: "check_rxq demo_cfg demo_rxq"
    by (simp add: check_rxq_def validate_queue_memory_regions_def demo_defs)
  have txq: "check_txq demo_cfg demo_txq"
    by (simp add: check_txq_def check_shared_tx_def validate_queue_memory_regions_def raw_ibverbs_def MAX_NUM_SEGS_def
      smallest_pool_def region_users_def region_names_def demo_defs)
  have frame: "max_frame demo_cfg [rxq_common demo_rxq] = 2048"
    by (simp add: max_frame_def queue_frame_size_def demo_defs)
  have flow: "check_rx_flow pt demo_cfg [3] 2048 demo_flow"
    unfolding check_rx_flow_def Let_def flow_has_transform_actions_def demo_flow_parts
    by (simp add: flow_queue_ids_def kMaxFlowActions_def flow_actions_have_transform_def flow_action_is_transform_def
      validate_flow_action_config_def validate_tunnel_action_config_def flow_decap_wire_overhead_def kTunnelMaxFrameSize_def
      demo_defs)
  have reorder: "check_reorder demo_cfg demo_if [] ?fs demo_reorder"
    by (simp add: check_reorder_def is_null_mr_def demo_defs)
  have ifs: "fst (check_interface pt demo_cfg demo_if [])"
    using scan rxq txq frame flow reorder
    by (simp add: check_interface_eq scan_of_def check_rdma_pairing_def is_null_mr_def) (simp add: demo_defs)
  then have "check_interfaces pt demo_cfg (nc_ifs demo_cfg) []"
    by (cases "check_interface pt demo_cfg demo_if []") (simp add: demo_cfg_def)
  moreover have "check_common demo_cfg" by (simp add: check_common_def demo_defs)
  moreover have "list_all (\<lambda>mr. mr \<in> set (map (\<lambda>(_, mr). mr_name mr) (nc_mrs demo_cfg)))
      (concat (map region_names (nc_ifs demo_cfg)))"
    by (simp add: region_names_def demo_defs)
  ultimately show ?thesis unfolding validate_network_config_def by blast
qed

lemma demo_members: "demo_if \<in> set (nc_ifs demo_cfg)" "demo_rxq \<in> set (rx_queues (if_rx demo_if))"
  "demo_txq \<in> set (tx_queues (if_tx demo_if))" "demo_flow \<in> set (rx_flows (if_rx demo_if))"
  "demo_reorder \<in> set (rx_reorder_configs (if_rx demo_if))" "(9::u32) \<in> set (re_flow_ids demo_reorder)"
  "txq_buffer_mode demo_txq = SHARED" "''tx'' \<in> set (cq_mrs (txq_common demo_txq))"
  by (simp_all add: demo_cfg_def demo_if_def demo_reorder_def demo_txq_def)

text \<open>C33: in an accepted configuration the identifiers of the receive flows of one interface are
  pairwise different, and those that are not zero are pairwise different across all interfaces.\<close>

theorem validated_flow_ids_unique:
  assumes "validate_network_config pt cfg"
  shows "(\<forall>intf\<in>set (nc_ifs cfg). distinct (map fc_id (rx_flows (if_rx intf))))
    \<and> distinct (filter (\<lambda>i. i \<noteq> 0) (concat (map (\<lambda>intf. map fc_id (rx_flows (if_rx intf))) (nc_ifs cfg))))"
  using assms check_interfaces_ids [of pt cfg "nc_ifs cfg" "[]"]
  by (simp add: validate_network_config_def rx_ids_def nz_def filter_concat comp_def)

theorem validated_flow_ids_unique_witness:
  "distinct (map fc_id (rx_flows (if_rx demo_if))) \<and> validate_network_config (\<lambda>_. None) demo_cfg"
  using validated_flow_ids_unique [OF demo_valid [of "\<lambda>_. None"]] demo_valid demo_members(1) by blast

text \<open>C27: in an accepted configuration every flow that a reorder plan names is a receive flow of
  the same interface with exactly one queue, and no receive queue with that number is polled
  directly or scatters into a null region.\<close>

theorem validated_reorder_flow:
  assumes "validate_network_config pt cfg" "intf \<in> set (nc_ifs cfg)" "plan \<in> set (rx_reorder_configs (if_rx intf))"
    "fid \<in> set (re_flow_ids plan)"
  shows "\<exists>flow\<in>set (rx_flows (if_rx intf)). \<exists>q. fc_id flow = fid
    \<and> flow_queue_ids (last (flow_config_actions flow)) = [q]
    \<and> (\<forall>rxq\<in>set (rx_queues (if_rx intf)). cq_id (rxq_common rxq) = uint q \<longrightarrow>
         rxq_poll_mode rxq \<noteq> DIRECT \<and> (\<forall>name\<in>set (cq_mrs (rxq_common rxq)). \<not> is_null_mr cfg name))"
proof -
  obtain ids where ok: "fst (check_interface pt cfg intf ids)"
    using validated_interface [OF assms(1,2)] by blast
  let ?fs = "scan_of ids intf"
  let ?direct = "map (\<lambda>q. of_int (cq_id (rxq_common q))) (filter (\<lambda>q. rxq_poll_mode q = DIRECT) (rx_queues (if_rx intf))) :: u16 list"
  have "check_reorder cfg intf ?direct ?fs plan"
    using ok assms(3) unfolding check_interface_eq by (auto simp: list_all_iff)
  then obtain qs where qs: "map_of (fs_queue_ids ?fs) fid = Some qs" "fid \<notin> set (fs_rss_ids ?fs)"
    and queues: "\<And>q rxq. q \<in> set qs \<Longrightarrow> rxq \<in> set (rx_queues (if_rx intf)) \<Longrightarrow> cq_id (rxq_common rxq) = uint q
        \<Longrightarrow> \<forall>name\<in>set (cq_mrs (rxq_common rxq)). \<not> is_null_mr cfg name"
    and direct: "\<And>q. q \<in> set qs \<Longrightarrow> q \<notin> set ?direct"
    using assms(4) unfolding check_reorder_def by (fastforce simp: list_all_iff split: option.splits)
  obtain flow where flow: "flow \<in> set (rx_flows (if_rx intf))" "fc_id flow = fid"
      "flow_queue_ids (last (flow_config_actions flow)) = qs" and single: "\<not> length qs > 1"
    using scan_of_sound [of intf ids] qs unfolding scan_sound_def by metis
  obtain q where q: "qs = [q]"
    using single flow_queue_ids_nonempty [of "last (flow_config_actions flow)"] flow(3)
    by (cases qs rule: remdups_adj.cases) auto
  have "rxq_poll_mode rxq \<noteq> DIRECT" if "rxq \<in> set (rx_queues (if_rx intf))" "cq_id (rxq_common rxq) = uint q" for rxq
    using direct [of q] that q by (auto simp: image_iff)
  then show ?thesis using flow q queues by auto
qed

theorem validated_reorder_flow_witness:
  "\<exists>flow\<in>set (rx_flows (if_rx demo_if)). \<exists>q. fc_id flow = 9 \<and> flow_queue_ids (last (flow_config_actions flow)) = [q]"
  using validated_reorder_flow [OF demo_valid [of "\<lambda>_. None"] demo_members(1,5,6)] by blast

text \<open>C26: in an accepted configuration a region of a shared transmit queue is named exactly once in
  the whole configuration, hence by no receive queue and by no reorder plan; the queue runs on raw
  ibverbs, is polled by a worker and has one to four regions.\<close>

theorem validated_shared_tx_exclusive:
  assumes "validate_network_config pt cfg" "intf \<in> set (nc_ifs cfg)" "txq \<in> set (tx_queues (if_tx intf))"
    "txq_buffer_mode txq = SHARED" "name \<in> set (cq_mrs (txq_common txq))"
  shows "raw_ibverbs cfg \<and> txq_poll_mode txq = INDIRECT \<and> length (cq_mrs (txq_common txq)) \<in> {1..4}
    \<and> count_list (concat (map region_names (nc_ifs cfg))) name = 1
    \<and> (\<forall>i\<in>set (nc_ifs cfg). (\<forall>q\<in>set (rx_queues (if_rx i)). name \<notin> set (cq_mrs (rxq_common q)))
         \<and> (\<forall>r\<in>set (rx_reorder_configs (if_rx i)). re_memory_region r \<noteq> name))"
proof -
  obtain ids where "fst (check_interface pt cfg intf ids)"
    using validated_interface [OF assms(1,2)] by blast
  then have "check_txq cfg txq"
    using assms(3) unfolding check_interface_eq by (auto simp: list_all_iff)
  then have shared: "check_shared_tx cfg txq" using assms(4) by (simp add: check_txq_def)
  then have one: "count_list (concat (map region_names (nc_ifs cfg))) name = 1"
    using assms(5) by (auto simp: check_shared_tx_def Let_def list_all_iff region_users_def)
  have own: "name \<in> set (tx_region_names intf)" using assms(3,5) by (auto simp: tx_region_names_def)
  have "name \<notin> set (rx_region_names i)" if "i \<in> set (nc_ifs cfg)" for i
    using region_named_once_rx [OF one assms(2) own that] .
  then show ?thesis
    using shared one assms(5) unfolding check_shared_tx_def Let_def rx_region_names_def by (auto simp: MAX_NUM_SEGS_def Suc_le_eq)
qed

theorem validated_shared_tx_exclusive_witness:
  "count_list (concat (map region_names (nc_ifs demo_cfg))) ''tx'' = 1
   \<and> length (cq_mrs (txq_common demo_txq)) \<in> {1..4}"
  using validated_shared_tx_exclusive [OF demo_valid [of "\<lambda>_. None"] demo_members(1,3,7,8)] by blast

end
