(* ===== verification/Memory_Sizing.thy ===== *)
theory Memory_Sizing
  imports Config_Validation
begin

text \<open>
  Sizes of memory regions: the rounding helpers of \<^verbatim>\<open>src/src/engine.cpp\<close> and \<^verbatim>\<open>src/src/common.cpp\<close>, the
  buffer-count rule of the DPDK engine (\<^verbatim>\<open>src/src/engine.h\<close>) and the calculation that tells an
  application how much memory to bind to each region. All sizes are 64-bit words. The headroom
  constant of DPDK is an argument.
\<close>

section \<open>Model\<close>

definition align_ceil :: "u64 \<Rightarrow> u64 \<Rightarrow> u64" where
  "align_ceil value align = (value + (align - 1)) AND NOT (align - 1)"

definition round_up_checked :: "u64 \<Rightarrow> u64 \<Rightarrow> u64 option" where
  "round_up_checked value alignment =
     (if alignment = 0 \<or> value > (- 1) - (alignment - 1) then None
      else Some (((value + alignment - 1) div alignment) * alignment))"

definition ceil_power_of_two :: "u64 \<Rightarrow> u64" where
  "ceil_power_of_two value =
     (if value \<le> 1 then 1
      else fold (\<lambda>shift v. v OR drop_bit shift v) [1, 2, 4, 8, 16, 32] (value - 1) + 1)"

definition ceil_to :: "u64 \<Rightarrow> u64 \<Rightarrow> u64" where
  "ceil_to value alignment = (value + alignment - 1) AND NOT (alignment - 1)"

record DpdkMemoryRegionSizing =
  sz_floor :: u64
  sz_target :: u64

definition dpdk_memory_region_sizing :: "u64 \<Rightarrow> u64 \<Rightarrow> DpdkMemoryRegionSizing" where
  "dpdk_memory_region_sizing ring_size batch_size =
     \<lparr>sz_floor = max (ring_size * 3 div 2) (ring_size + 2 * batch_size),
      sz_target = max (ring_size * 3) (ring_size + 4 * batch_size)\<rparr>"

definition get_alignment :: "MemoryKind \<Rightarrow> u64" where
  "get_alignment kind =
     (case kind of
        MemoryKind.HOST \<Rightarrow> 128 | HOST_PINNED \<Rightarrow> 128 | HUGE \<Rightarrow> 128
      | DEVICE \<Rightarrow> 256
      | _ \<Rightarrow> 128)"

definition effective_engine_type :: "BuildFlags \<Rightarrow> NetworkConfig \<Rightarrow> EngineType" where
  "effective_engine_type bf config =
     (if is_explicit_engine_type (cc_engine_type (nc_common config)) then cc_engine_type (nc_common config)
      else if is_explicit_engine_type (cc_engine (nc_common config)) then cc_engine (nc_common config)
      else engine_type_from_stream_type bf (cc_stream_type (nc_common config)) (cc_protocol (nc_common config)))"

definition record_queue :: "CommonQueueConfig \<Rightarrow> (string \<rightharpoonup> u64) \<Rightarrow> (string \<rightharpoonup> u64)" where
  "record_queue queue batches =
     (let batch = of_int (max 0 (cq_batch_size queue)) in
      fold (\<lambda>name m. m(name \<mapsto> max (case m name of None \<Rightarrow> 0 | Some b \<Rightarrow> b) batch)) (cq_mrs queue) batches)"

definition queue_mr_batches :: "NetworkConfig \<Rightarrow> (string \<rightharpoonup> u64)" where
  "queue_mr_batches config =
     fold (\<lambda>intf m.
        fold (\<lambda>q. record_queue (txq_common q)) (tx_queues (if_tx intf))
          (fold (\<lambda>q. record_queue (rxq_common q)) (rx_queues (if_rx intf)) m))
       (nc_ifs config) Map.empty"

definition gpu_page_size :: u64 where "gpu_page_size = push_bit 16 1"

definition slot_and_count ::
    "BuildFlags \<Rightarrow> u64 \<Rightarrow> EngineType \<Rightarrow> u64 option \<Rightarrow> MemoryRegionConfig \<Rightarrow> (u64 \<times> u64) option" where
  "slot_and_count bf headroom engine batch mr =
     (case engine of
        DPDK \<Rightarrow>
          (if \<not> ENGINE_DPDK bf then None
           else Some (mr_buf_size mr + headroom,
                     case batch of
                       None \<Rightarrow> mr_num_bufs mr
                     | Some b \<Rightarrow>
                         (let sizing = dpdk_memory_region_sizing 8192 b in
                          if mr_num_bufs mr < sz_floor sizing then sz_target sizing else mr_num_bufs mr)))
      | IBVERBS \<Rightarrow> Some (ceil_power_of_two (mr_buf_size mr), mr_num_bufs mr)
      | RDMA \<Rightarrow> Some (ceil_to (mr_buf_size mr) (if mr_kind mr = DEVICE then gpu_page_size else 128), mr_num_bufs mr)
      | _ \<Rightarrow> None)"

definition region_alignment :: "EngineType \<Rightarrow> MemoryKind \<Rightarrow> u64" where
  "region_alignment engine kind =
     (if engine = DPDK then gpu_page_size
      else if engine = IBVERBS \<and> kind = DEVICE then 4096
      else if kind = DEVICE then 256 else 128)"

definition region_requirement ::
    "BuildFlags \<Rightarrow> u64 \<Rightarrow> EngineType \<Rightarrow> (string \<rightharpoonup> u64) \<Rightarrow> string \<Rightarrow> MemoryRegionConfig \<Rightarrow> Status + MemoryRegionRequirement" where
  "region_requirement bf headroom engine batches name mr =
     (if mr_kind mr = NULL_MR
      then Inr \<lparr>rq_kind = NULL_MR, rq_slot_size = 0, rq_num_bufs = 0, rq_capacity = 0, rq_alignment = 0\<rparr>
      else
        (case slot_and_count bf headroom engine (batches name) mr of
           None \<Rightarrow> Inl NOT_SUPPORTED
         | Some (slot, num) \<Rightarrow>
             if slot \<noteq> 0 \<and> num > (- 1) div slot then Inl INVALID_PARAMETER
             else Inr \<lparr>rq_kind = mr_kind mr, rq_slot_size = slot, rq_num_bufs = num,
                       rq_capacity = ceil_to (slot * num) gpu_page_size,
                       rq_alignment = region_alignment engine (mr_kind mr)\<rparr>))"

fun requirements_loop ::
    "BuildFlags \<Rightarrow> u64 \<Rightarrow> EngineType \<Rightarrow> (string \<rightharpoonup> u64) \<Rightarrow> (string \<times> MemoryRegionConfig) list
     \<Rightarrow> (string \<times> MemoryRegionRequirement) list \<Rightarrow> Status \<times> (string \<times> MemoryRegionRequirement) list" where
  "requirements_loop bf headroom engine batches [] reqs = (SUCCESS, reqs)"
| "requirements_loop bf headroom engine batches ((name, mr) # mrs) reqs =
     (case region_requirement bf headroom engine batches name mr of
        Inl status \<Rightarrow> (status, reqs)
      | Inr req \<Rightarrow> requirements_loop bf headroom engine batches mrs (reqs @ [(name, req)]))"

definition get_memory_region_requirements ::
    "BuildFlags \<Rightarrow> u64 \<Rightarrow> NetworkConfig \<Rightarrow> Status \<times> (string \<times> MemoryRegionRequirement) list" where
  "get_memory_region_requirements bf headroom config =
     (let engine = effective_engine_type bf config in
      if engine = EngineType.SOCKET \<and> cc_protocol (nc_common config) \<noteq> ROCE then (NOT_SUPPORTED, [])
      else requirements_loop bf headroom engine (queue_mr_batches config) (nc_mrs config) [])"

section \<open>Rounding\<close>

lemma u64_bound: "unat (w::u64) < 2 ^ 64"
  using unsigned_less [of w] by simp

lemma unat_add_no_wrap: "unat v + unat w < 2 ^ 64 \<Longrightarrow> unat (v + w :: u64) = unat v + unat w"
  using unat_add_lem [of v w] by simp

lemma round_up_checked_None_iff:
  "round_up_checked v a = None \<longleftrightarrow> a = 0 \<or> 2 ^ 64 < unat v + unat a"
proof (cases "a = 0")
  case False
  have m1: "unat (- 1 :: u64) = 2 ^ 64 - 1"
    by (simp add: unsigned_minus_1_eq_mask mask_eq_exp_minus_1)
  have a1: "unat (a - 1) = unat a - 1" using False by (simp add: unat_minus_one)
  have "unat ((- 1 :: u64) - (a - 1)) = 2 ^ 64 - 1 - (unat a - 1)"
    using unat_sub [OF word_n1_ge [of "a - 1"]] by (simp only: m1 a1)
  moreover have "0 < unat a" using False by (simp add: unat_gt_0)
  ultimately show ?thesis
    using False u64_bound [of a] by (auto simp: round_up_checked_def word_less_nat_alt)
qed (simp add: round_up_checked_def)

lemma round_up_checked_Some:
  assumes "a \<noteq> 0" "unat v + unat a \<le> 2 ^ 64"
  obtains r where "round_up_checked v a = Some r" "unat r = ((unat v + unat a - 1) div unat a) * unat a"
proof -
  have pos: "0 < unat a" using assms(1) by (simp add: unat_gt_0)
  have va: "unat (v + (a - 1)) = unat v + (unat a - 1)"
    using unat_add_no_wrap [of v "a - 1"] assms pos by (simp add: unat_minus_one)
  have "((unat v + unat a - 1) div unat a) * unat a \<le> unat v + unat a - 1" by simp
  then have "((unat v + unat a - 1) div unat a) * unat a < 2 ^ 64" using assms(2) pos by linarith
  then have r: "unat ((v + (a - 1)) div a * a) = ((unat v + unat a - 1) div unat a) * unat a"
    using unat_mult_lem [of "(v + (a - 1)) div a" a] pos va by (simp add: unat_div)
  have "round_up_checked v a = Some ((v + (a - 1)) div a * a)"
    using round_up_checked_None_iff [of v a] assms by (auto simp: round_up_checked_def algebra_simps)
  then show thesis using that r by blast
qed

lemma round_up_nat:
  fixes v a :: nat
  assumes "0 < a"
  shows "a dvd (v + a - 1) div a * a" "v \<le> (v + a - 1) div a * a" "(v + a - 1) div a * a < v + a"
proof -
  have "(v + a - 1) div a * a + (v + a - 1) mod a = v + a - 1" by simp
  moreover have "(v + a - 1) mod a < a" using assms by simp
  ultimately show "v \<le> (v + a - 1) div a * a" "(v + a - 1) div a * a < v + a" using assms by linarith+
qed simp

lemma unat_ceil_to:
  assumes "k < 64" "unat v + 2 ^ k \<le> 2 ^ 64"
  shows "unat (ceil_to v (2 ^ k)) = (unat v + 2 ^ k - 1) div 2 ^ k * 2 ^ k"
proof -
  have m: "unat (2 ^ k - 1 :: u64) = 2 ^ k - 1" using assms(1) by (simp add: unat_pow2_mask)
  then have "unat (v + (2 ^ k - 1)) = unat v + (2 ^ k - 1)"
    using unat_add_no_wrap [of v "2 ^ k - 1"] assms(2) by (simp add: Suc_le_eq less_imp_diff_less)
  then show ?thesis
    by (simp only: ceil_to_def add_diff_eq [symmetric] unat_and_not_pow2_mask) (simp add: add_diff_eq)
qed

lemma gpu_page_size_pow2: "gpu_page_size = 2 ^ 16" "unat gpu_page_size = 2 ^ 16"
  by (simp_all add: gpu_page_size_def)

lemma ceil_to_eq_round_up_checked:
  assumes "k < 64" "unat v + 2 ^ k \<le> 2 ^ 64"
  shows "round_up_checked v (2 ^ k) = Some (ceil_to v (2 ^ k))"
proof -
  have u: "unat (2 ^ k :: u64) = 2 ^ k" using assms(1) by (simp add: unat_pow2)
  then have "(2 ^ k :: u64) \<noteq> 0" by (metis power_not_zero unat_0 zero_neq_numeral)
  from round_up_checked_Some [OF this, of v] u assms(2) obtain r where
    "round_up_checked v (2 ^ k) = Some r" "unat r = (unat v + 2 ^ k - 1) div 2 ^ k * 2 ^ k" by auto
  then show ?thesis using unat_ceil_to [OF assms] by (simp add: word_unat_eq_iff)
qed

lemma ceil_power_of_two_cases:
  assumes "v \<le> 2 ^ 63"
  obtains k where "k \<le> 63" "ceil_power_of_two v = 2 ^ k" "unat v \<le> 2 ^ k" "k = 0 \<or> 2 ^ (k - 1) < unat v"
proof (cases "v \<le> 1")
  case True
  then have "ceil_power_of_two v = 2 ^ 0" "unat v \<le> 2 ^ 0"
    by (simp_all add: ceil_power_of_two_def word_le_nat_alt)
  then show thesis using that [of 0] by simp
next
  case False
  then have v2: "2 \<le> unat v" by (simp add: word_le_nat_alt)
  then have v0: "v \<noteq> 0" "v \<noteq> 1" by auto
  then have nz: "v - 1 \<noteq> 0" by simp
  define f where "f = (\<lambda>(shift::nat) (w::u64). w OR drop_bit shift w)"
  have sm: "smears (2 * j) (v - 1) (f j w)" if "smears j (v - 1) w" for j w
    using smears_double [OF that] by (simp add: f_def)
  have "smears 2 (v - 1) (f 1 (v - 1))" using sm [OF smears_refl] by simp
  from sm [OF this] have "smears 4 (v - 1) (f 2 (f 1 (v - 1)))" by simp
  from sm [OF this] have "smears 8 (v - 1) (f 4 (f 2 (f 1 (v - 1))))" by simp
  from sm [OF this] have "smears 16 (v - 1) (f 8 (f 4 (f 2 (f 1 (v - 1)))))" by simp
  from sm [OF this] have "smears 32 (v - 1) (f 16 (f 8 (f 4 (f 2 (f 1 (v - 1))))))" by simp
  from sm [OF this] have "smears 64 (v - 1) (f 32 (f 16 (f 8 (f 4 (f 2 (f 1 (v - 1)))))))" by simp
  from smears_full [OF this _ nz] obtain h where h: "h < 64"
    "f 32 (f 16 (f 8 (f 4 (f 2 (f 1 (v - 1)))))) = mask (Suc h)" "2 ^ h \<le> unat v - 1" "unat v - 1 < 2 ^ Suc h"
    using v0 by (auto simp: unat_minus_one)
  have eq: "ceil_power_of_two v = mask (Suc h) + 1"
    unfolding ceil_power_of_two_def f_def [symmetric] using False h(2) by simp
  have "unat v \<le> 2 ^ 63" using assms by (simp add: word_le_nat_alt)
  then have "(2::nat) ^ h < 2 ^ 63" using h(3) v2 by linarith
  then have "h < 63" by (rule power_less_imp_less_exp [rotated]) simp
  moreover from this have "ceil_power_of_two v = 2 ^ Suc h" using eq mask_Suc_plus_1 [of h, where 'a = 64] by simp
  ultimately show thesis using h v2 by (intro that [of "Suc h"]) auto
qed

lemma requirements_loop_mono: "set reqs \<subseteq> set (snd (requirements_loop bf h engine batches mrs reqs))"
  by (induction mrs arbitrary: reqs) (fastforce split: sum.splits)+

lemma requirements_loop_member:
  assumes "requirements_loop bf h engine batches mrs acc = (SUCCESS, reqs)" "(name, mr) \<in> set mrs"
  shows "\<exists>req. (name, req) \<in> set reqs \<and> region_requirement bf h engine batches name mr = Inr req"
  using assms
proof (induction mrs arbitrary: acc)
  case (Cons p mrs)
  obtain n m where p: "p = (n, m)" by force
  show ?case
  proof (cases "region_requirement bf h engine batches n m")
    case (Inl st)
    moreover have "st \<noteq> SUCCESS"
      using Inl by (auto simp: region_requirement_def split: if_splits option.splits)
    ultimately show ?thesis using Cons.prems p by simp
  next
    case (Inr req)
    then have l: "requirements_loop bf h engine batches mrs (acc @ [(n, req)]) = (SUCCESS, reqs)"
      using Cons.prems p by simp
    show ?thesis
    proof (cases "(name, mr) = (n, m)")
      case True
      then show ?thesis using Inr l requirements_loop_mono [of "acc @ [(n, req)]" bf h engine batches mrs] by auto
    next
      case False
      then show ?thesis using Cons.IH [OF l] Cons.prems(2) p by auto
    qed
  qed
qed simp

lemma region_requirement_capacity:
  assumes "region_requirement bf h engine batches name mr = Inr req" "mr_kind mr \<noteq> NULL_MR"
  shows "unat (rq_slot_size req) * unat (rq_num_bufs req) < 2 ^ 64"
    "rq_capacity req = ceil_to (rq_slot_size req * rq_num_bufs req) gpu_page_size"
    "rq_kind req = mr_kind mr" "slot_and_count bf h engine (batches name) mr = Some (rq_slot_size req, rq_num_bufs req)"
proof -
  obtain slot num where sn: "slot_and_count bf h engine (batches name) mr = Some (slot, num)"
    and guard: "\<not> (slot \<noteq> 0 \<and> num > (- 1) div slot)"
    and req: "rq_slot_size req = slot" "rq_num_bufs req = num" "rq_kind req = mr_kind mr"
      "rq_capacity req = ceil_to (slot * num) gpu_page_size"
    using assms by (auto simp: region_requirement_def split: option.splits if_splits)
  show "unat (rq_slot_size req) * unat (rq_num_bufs req) < 2 ^ 64"
  proof (cases "slot = 0")
    case False
    have "unat (- 1 :: u64) = 2 ^ 64 - 1" by (simp add: unsigned_minus_1_eq_mask mask_eq_exp_minus_1)
    then have "unat num \<le> (2 ^ 64 - 1) div unat slot"
      using guard False by (simp add: not_less word_le_nat_alt unat_div)
    then have "unat slot * unat num \<le> unat slot * ((2 ^ 64 - 1) div unat slot)" by (rule mult_le_mono2)
    also have "\<dots> \<le> 2 ^ 64 - 1" by (rule times_div_less_eq_dividend)
    finally show ?thesis using req by simp
  qed (use req in simp)
  show "rq_capacity req = ceil_to (rq_slot_size req * rq_num_bufs req) gpu_page_size" "rq_kind req = mr_kind mr"
    "slot_and_count bf h engine (batches name) mr = Some (rq_slot_size req, rq_num_bufs req)"
    using req sn by simp_all
qed

lemma slot_covers_buffer:
  assumes "slot_and_count bf h engine b mr = Some (slot, num)" "unat (mr_buf_size mr) \<le> 2 ^ 62" "unat h \<le> 2 ^ 62"
  shows "mr_buf_size mr \<le> slot"
proof -
  let ?v = "mr_buf_size mr"
  have to: "?v \<le> ceil_to ?v (2 ^ k)" if "k \<le> 16" for k
  proof -
    have "(2::nat) ^ k \<le> 2 ^ 16" using that by (rule power_increasing) simp
    then have "unat (ceil_to ?v (2 ^ k)) = (unat ?v + 2 ^ k - 1) div 2 ^ k * 2 ^ k"
      using unat_ceil_to [of k ?v] that assms(2) by simp
    then show ?thesis using round_up_nat(2) [of "2 ^ k" "unat ?v"] by (simp add: word_le_nat_alt)
  qed
  have pow: "?v \<le> ceil_power_of_two ?v"
  proof -
    have "?v \<le> 2 ^ 63" using assms(2) by (simp add: word_le_nat_alt)
    then obtain k where "k \<le> 63" "ceil_power_of_two ?v = 2 ^ k" "unat ?v \<le> 2 ^ k"
      using ceil_power_of_two_cases by metis
    then show ?thesis by (simp add: word_le_nat_alt unat_pow2)
  qed
  have dpdk: "?v \<le> ?v + h"
    using unat_add_no_wrap [of ?v h] assms(2,3) by (simp add: word_le_nat_alt)
  show ?thesis
    using assms(1) to [of 7] to [of 16] pow dpdk
    by (auto simp: slot_and_count_def gpu_page_size_pow2(1) split: EngineType.splits if_splits)
qed

section \<open>Properties\<close>

text \<open>\<open>round_up_checked\<close> fails exactly when the rounded value would not fit in a word, or for
  alignment zero; otherwise it returns the least multiple of the alignment that is not below
  the value.\<close>

theorem round_up_checked_least:
  "(round_up_checked v a = None \<longleftrightarrow> a = 0 \<or> 2 ^ 64 < unat v + unat a)
   \<and> (\<forall>r. round_up_checked v a = Some r \<longrightarrow>
        unat a dvd unat r \<and> unat v \<le> unat r \<and> (\<forall>m. unat a dvd m \<and> unat v \<le> m \<longrightarrow> unat r \<le> m))"
proof (intro conjI allI impI)
  show "round_up_checked v a = None \<longleftrightarrow> a = 0 \<or> 2 ^ 64 < unat v + unat a"
    by (rule round_up_checked_None_iff)
  fix r
  assume r: "round_up_checked v a = Some r"
  then have a: "a \<noteq> 0" "unat v + unat a \<le> 2 ^ 64" using round_up_checked_None_iff [of v a] by auto
  then have pos: "0 < unat a" by (simp add: unat_gt_0)
  have ur: "unat r = (unat v + unat a - 1) div unat a * unat a" using round_up_checked_Some [OF a] r by auto
  show "unat a dvd unat r" "unat v \<le> unat r" using ur round_up_nat [OF pos, of "unat v"] by auto
  fix m
  assume m: "unat a dvd m \<and> unat v \<le> m"
  then obtain q where q: "m = unat a * q" by blast
  have "unat r < unat v + unat a" using ur round_up_nat(3) [OF pos, of "unat v"] by simp
  then have "unat a * ((unat v + unat a - 1) div unat a) < unat a * (q + 1)"
    using m q ur by (simp add: algebra_simps)
  then have "(unat v + unat a - 1) div unat a \<le> q" using pos by (simp only: mult_less_cancel1) simp
  then show "unat r \<le> m" using ur q by (simp add: mult.commute)
qed

theorem round_up_checked_least_witness:
  "round_up_checked 5 4 = Some 8 \<and> unat (5::u64) \<le> unat (8::u64)"
proof -
  have "round_up_checked 5 4 = Some 8" by (simp add: round_up_checked_def)
  with round_up_checked_least [of 5 4] show ?thesis by blast
qed

text \<open>For values up to 2^63 \<open>ceil_power_of_two\<close> returns the least power of two that is not below
  the value.\<close>

theorem ceil_power_of_two_least:
  assumes "v \<le> 2 ^ 63"
  shows "\<exists>k\<le>63. ceil_power_of_two v = 2 ^ k \<and> unat v \<le> 2 ^ k \<and> (\<forall>j. unat v \<le> 2 ^ j \<longrightarrow> k \<le> j)"
proof -
  obtain k where k: "k \<le> 63" "ceil_power_of_two v = 2 ^ k" "unat v \<le> 2 ^ k" "k = 0 \<or> 2 ^ (k - 1) < unat v"
    using ceil_power_of_two_cases [OF assms] .
  have "k \<le> j" if "unat v \<le> 2 ^ j" for j
  proof (cases "k = 0")
    case False
    then have "(2::nat) ^ (k - 1) < 2 ^ j" using k(4) that by linarith
    then have "k - 1 < j" by (rule power_less_imp_less_exp [rotated]) simp
    then show ?thesis by simp
  qed simp
  then show ?thesis using k by blast
qed

theorem ceil_power_of_two_least_witness:
  "(1000::u64) \<le> 2 ^ 63 \<and> (\<exists>k\<le>63. ceil_power_of_two 1000 = 2 ^ k \<and> unat (1000::u64) \<le> 2 ^ k)"
  using ceil_power_of_two_least [of 1000] by auto

text \<open>When the requirements are computed successfully every configured region has an entry of its
  kind. For a region with memory the slots do not overflow together; the slot holds a buffer
  when the sizes are at most 2^62; and unless rounding up to a GPU page overflows, the
  reported capacity holds all slots and is exactly the size that the allocation demands of a
  binding with the same stride and buffer count.\<close>

theorem requirements_sufficient:
  assumes "get_memory_region_requirements bf h cfg = (SUCCESS, reqs)" "(name, mr) \<in> set (nc_mrs cfg)"
  shows "\<exists>req. (name, req) \<in> set reqs \<and> rq_kind req = mr_kind mr
    \<and> (mr_kind mr \<noteq> NULL_MR \<longrightarrow>
         unat (rq_slot_size req) * unat (rq_num_bufs req) < 2 ^ 64
         \<and> (unat (mr_buf_size mr) \<le> 2 ^ 62 \<and> unat h \<le> 2 ^ 62 \<longrightarrow> mr_buf_size mr \<le> rq_slot_size req)
         \<and> (unat (rq_slot_size req) * unat (rq_num_bufs req) \<le> 2 ^ 64 - 2 ^ 16 \<longrightarrow>
              unat (rq_slot_size req) * unat (rq_num_bufs req) \<le> unat (rq_capacity req)
              \<and> round_up_checked (rq_slot_size req * rq_num_bufs req) gpu_page_size = Some (rq_capacity req)))"
proof -
  let ?engine = "effective_engine_type bf cfg" and ?batches = "queue_mr_batches cfg"
  have "requirements_loop bf h ?engine ?batches (nc_mrs cfg) [] = (SUCCESS, reqs)"
    using assms(1) by (auto simp: get_memory_region_requirements_def Let_def split: if_splits)
  from requirements_loop_member [OF this assms(2)] obtain req where
    mem: "(name, req) \<in> set reqs" and req: "region_requirement bf h ?engine ?batches name mr = Inr req" by blast
  show ?thesis
  proof (cases "mr_kind mr = NULL_MR")
    case True
    then show ?thesis using mem req by (auto simp: region_requirement_def)
  next
    case False
    note cap = region_requirement_capacity [OF req False]
    let ?n = "unat (rq_slot_size req) * unat (rq_num_bufs req)"
    have n: "unat (rq_slot_size req * rq_num_bufs req) = ?n" using cap(1) unat_mult_lem [of "rq_slot_size req" "rq_num_bufs req"] by simp
    have slot: "mr_buf_size mr \<le> rq_slot_size req" if "unat (mr_buf_size mr) \<le> 2 ^ 62" "unat h \<le> 2 ^ 62"
      using slot_covers_buffer [OF cap(4) that] .
    have "?n \<le> unat (rq_capacity req) \<and> round_up_checked (rq_slot_size req * rq_num_bufs req) gpu_page_size = Some (rq_capacity req)"
      if "?n \<le> 2 ^ 64 - 2 ^ 16"
      using ceil_to_eq_round_up_checked [of 16 "rq_slot_size req * rq_num_bufs req"] that n cap(2)
        unat_ceil_to [of 16 "rq_slot_size req * rq_num_bufs req"] round_up_nat(2) [of "2 ^ 16" ?n]
      by (simp add: gpu_page_size_pow2(1))
    then show ?thesis using mem cap slot by blast
  qed
qed

definition bf_none :: BuildFlags where
  "bf_none = \<lparr>ENGINE_DPDK = False, ENGINE_SOCKET = False, ENGINE_RDMA = False, ENGINE_IBVERBS = True\<rparr>"

definition demo_mr :: MemoryRegionConfig where
  "demo_mr = \<lparr>mr_name = ''mr'', mr_kind = HUGE, mr_affinity = 0, mr_access = 1, mr_buf_size = 2048,
     mr_adj_size = 0, mr_ttl_size = 0, mr_num_bufs = 64, mr_owned = True\<rparr>"

lemma demo_requirements: "\<exists>reqs. get_memory_region_requirements bf_none 0 demo_cfg = (SUCCESS, reqs)"
proof -
  have engine: "effective_engine_type bf_none demo_cfg = IBVERBS"
    by (simp add: effective_engine_type_def is_explicit_engine_type_def demo_cfg_def)
  have c: "ceil_power_of_two 2048 = 2048" "ceil_power_of_two 1024 = 1024"
    by (simp_all add: ceil_power_of_two_def word_le_nat_alt)
  show ?thesis
    unfolding get_memory_region_requirements_def Let_def engine
    by (simp add: demo_cfg_def region_requirement_def slot_and_count_def c)
qed

theorem requirements_sufficient_witness:
  "\<exists>reqs. get_memory_region_requirements bf_none 0 demo_cfg = (SUCCESS, reqs)
     \<and> (\<exists>req. (''mr'', req) \<in> set reqs \<and> (2048::u64) \<le> rq_slot_size req)"
proof -
  obtain reqs where reqs: "get_memory_region_requirements bf_none 0 demo_cfg = (SUCCESS, reqs)"
    using demo_requirements by blast
  have "(''mr'', demo_mr) \<in> set (nc_mrs demo_cfg)" by (simp add: demo_cfg_def demo_mr_def)
  from requirements_sufficient [OF reqs this] reqs show ?thesis
    by (auto simp: demo_mr_def)
qed

text \<open>The guard of the requirements calculation covers the product of slot size and buffer count
  but not its rounding: a region of one-byte slots with 2^64 - 1 buffers is accepted with a
  reported capacity of zero, which the allocation refuses as an overflow.\<close>

theorem requirement_capacity_wraps:
  "region_requirement bf h IBVERBS batches name (demo_mr\<lparr>mr_buf_size := 1, mr_num_bufs := - 1\<rparr>)
     = Inr \<lparr>rq_kind = HUGE, rq_slot_size = 1, rq_num_bufs = - 1, rq_capacity = 0, rq_alignment = 128\<rparr>
   \<and> round_up_checked (1 * (- 1)) gpu_page_size = None"
  by (simp add: region_requirement_def slot_and_count_def demo_mr_def ceil_power_of_two_def ceil_to_def
    gpu_page_size_def region_alignment_def round_up_checked_def)

end
