(* ===== verification/External_Memory.thy ===== *)
theory External_Memory
  imports Memory_Sizing
begin

text \<open>
  Memory that the application supplies (\<^verbatim>\<open>Engine::set_external_memory_regions\<close> in \<^verbatim>\<open>src/src/engine.cpp\<close>): the
  checks on each binding and the map of resolved regions. The answers of the CUDA driver
  about a pointer are the fields of an environment record.
\<close>

section \<open>Model\<close>

record ResolvedExternalMemoryRegion =
  xr_data :: u64
  xr_capacity :: u64
  xr_cuda_context :: u64
  xr_cuda_device :: int

datatype CUmemorytype = CU_MEMORYTYPE_HOST | CU_MEMORYTYPE_DEVICE | CU_MEMORYTYPE_OTHER

text \<open>Answers of the CUDA driver about a pointer; \<open>None\<close> or \<open>False\<close> is a call that failed.\<close>

record PointerEnv =
  pe_context :: "u64 \<Rightarrow> u64 option"
  pe_memory_type :: "u64 \<Rightarrow> CUmemorytype option"
  pe_push_query :: "u64 \<Rightarrow> bool"
  pe_context_device :: "u64 \<Rightarrow> int option"
  pe_range_start :: "u64 \<Rightarrow> u64 option"
  pe_range_size :: "u64 \<Rightarrow> u64 option"
  pe_ordinal :: "u64 \<Rightarrow> int option"
  pe_rdma_capable :: "u64 \<Rightarrow> int option"
  pe_push_sync :: "u64 \<Rightarrow> bool"
  pe_set_sync :: "u64 \<Rightarrow> bool"

definition device_binding_ok :: "PointerEnv \<Rightarrow> u64 \<Rightarrow> u64 \<Rightarrow> u64 \<Rightarrow> u16 \<Rightarrow> bool" where
  "device_binding_ok env context ptr capacity affinity \<longleftrightarrow>
     (case (pe_range_start env ptr, pe_range_size env ptr) of
        (Some range_start, Some range_size) \<Rightarrow>
          \<not> (ptr < range_start \<or> ptr - range_start > range_size \<or> capacity > range_size - (ptr - range_start))
      | _ \<Rightarrow> False)
     \<and> pe_ordinal env ptr = Some (uint affinity)
     \<and> pe_rdma_capable env ptr \<noteq> Some 0
     \<and> context \<noteq> 0 \<and> pe_push_sync env context \<and> pe_set_sync env ptr"

definition resolve_cuda :: "PointerEnv \<Rightarrow> MemoryRegionConfig \<Rightarrow> ExternalMemoryRegion \<Rightarrow> (u64 \<times> int) option" where
  "resolve_cuda env mr binding =
     (let ptr = em_data binding in
      case (pe_context env ptr, pe_memory_type env ptr) of
        (Some context, Some memory_type) \<Rightarrow>
          if context = 0 then None
          else if memory_type \<noteq> (if mr_kind mr = DEVICE then CU_MEMORYTYPE_DEVICE else CU_MEMORYTYPE_HOST) then None
          else
            (case (pe_push_query env context, pe_context_device env context) of
               (True, Some device) \<Rightarrow>
                 if mr_kind mr = DEVICE \<and> \<not> device_binding_ok env context ptr (em_capacity binding) (mr_affinity mr)
                 then None else Some (context, device)
             | _ \<Rightarrow> None)
      | _ \<Rightarrow> None)"

definition resolve_binding ::
    "PointerEnv \<Rightarrow> MemoryRegionConfig \<Rightarrow> ExternalMemoryRegion \<Rightarrow> ResolvedExternalMemoryRegion option" where
  "resolve_binding env mr binding =
     (if mr_kind mr = DEVICE \<or> mr_kind mr = HOST_PINNED
      then map_option (\<lambda>(context, device). \<lparr>xr_data = em_data binding, xr_capacity = em_capacity binding,
             xr_cuda_context = context, xr_cuda_device = device\<rparr>) (resolve_cuda env mr binding)
      else Some \<lparr>xr_data = em_data binding, xr_capacity = em_capacity binding, xr_cuda_context = 0, xr_cuda_device = - 1\<rparr>)"

definition binding_range :: "(u64 \<times> u64) list \<Rightarrow> ExternalMemoryRegion \<Rightarrow> (u64 \<times> u64) option" where
  "binding_range ranges binding =
     (if em_data binding = 0 \<or> em_capacity binding = 0 then None
      else if em_capacity binding > (- 1) - em_data binding then None
      else
        (let begin = em_data binding; last = em_data binding + em_capacity binding in
         if list_ex (\<lambda>rng. begin < snd rng \<and> fst rng < last) ranges then None else Some (begin, last)))"

type_synonym ExternalMap = "(string \<times> ResolvedExternalMemoryRegion) list"

fun bind_loop ::
    "PointerEnv \<Rightarrow> NetworkConfig \<Rightarrow> (string \<times> ExternalMemoryRegion) list \<Rightarrow> (u64 \<times> u64) list \<Rightarrow> ExternalMap
     \<Rightarrow> Status \<times> ExternalMap" where
  "bind_loop env cfg [] ranges ext = (SUCCESS, ext)"
| "bind_loop env cfg ((name, binding) # bindings) ranges ext =
     (case mr_of cfg name of
        None \<Rightarrow> (INVALID_PARAMETER, ext)
      | Some mr \<Rightarrow>
          if mr_kind mr = NULL_MR then (INVALID_PARAMETER, ext)
          else
            (case binding_range ranges binding of
               None \<Rightarrow> (INVALID_PARAMETER, ext)
             | Some rng \<Rightarrow>
                 (case resolve_binding env mr binding of
                    None \<Rightarrow> (INVALID_PARAMETER, ext)
                  | Some resolved \<Rightarrow>
                      bind_loop env cfg bindings (ranges @ [rng]) (ext @ [(name, resolved)]))))"

definition set_external_memory_regions ::
    "PointerEnv \<Rightarrow> NetworkConfig \<Rightarrow> (string \<times> ExternalMemoryRegion) list \<Rightarrow> Status \<times> ExternalMap" where
  "set_external_memory_regions env cfg bindings =
     (case bind_loop env cfg bindings [] [] of
        (SUCCESS, ext) \<Rightarrow>
          if list_ex (\<lambda>(name, mr). mr_kind mr \<noteq> NULL_MR \<and> \<not> mr_owned mr \<and> map_of ext name = None) (nc_mrs cfg)
          then (INVALID_PARAMETER, []) else (SUCCESS, ext)
      | (status, ext) \<Rightarrow> (status, ext))"

section \<open>What accepted bindings satisfy\<close>

definition xr_range_ok :: "ResolvedExternalMemoryRegion \<Rightarrow> bool" where
  "xr_range_ok x \<longleftrightarrow> xr_data x \<noteq> 0 \<and> xr_capacity x \<noteq> 0 \<and> unat (xr_data x) + unat (xr_capacity x) < 2 ^ 64"

definition xr_disjoint :: "ResolvedExternalMemoryRegion \<Rightarrow> ResolvedExternalMemoryRegion \<Rightarrow> bool" where
  "xr_disjoint x y \<longleftrightarrow> unat (xr_data x) + unat (xr_capacity x) \<le> unat (xr_data y)
     \<or> unat (xr_data y) + unat (xr_capacity y) \<le> unat (xr_data x)"

definition ranges_of :: "ExternalMap \<Rightarrow> (u64 \<times> u64) list" where
  "ranges_of ext = map (\<lambda>(_, x). (xr_data x, xr_data x + xr_capacity x)) ext"

definition bind_inv :: "NetworkConfig \<Rightarrow> ExternalMap \<Rightarrow> bool" where
  "bind_inv cfg ext \<longleftrightarrow> sorted_wrt xr_disjoint (map snd ext)
     \<and> (\<forall>(name, x)\<in>set ext. xr_range_ok x \<and> (\<exists>mr. mr_of cfg name = Some mr \<and> mr_kind mr \<noteq> NULL_MR))"

lemma binding_range_Some:
  assumes "binding_range ranges b = Some r"
  shows "em_data b \<noteq> 0" "em_capacity b \<noteq> 0" "unat (em_data b) + unat (em_capacity b) < 2 ^ 64"
    "r = (em_data b, em_data b + em_capacity b)"
    "\<And>rng. rng \<in> set ranges \<Longrightarrow> \<not> (em_data b < snd rng \<and> fst rng < em_data b + em_capacity b)"
proof -
  have no: "\<not> em_capacity b > (- 1) - em_data b" and
    f: "em_data b \<noteq> 0" "em_capacity b \<noteq> 0" "r = (em_data b, em_data b + em_capacity b)"
      "\<not> list_ex (\<lambda>rng. em_data b < snd rng \<and> fst rng < em_data b + em_capacity b) ranges"
    using assms by (auto simp: binding_range_def Let_def split: if_splits)
  have "unat ((- 1 :: u64) - em_data b) = unat (- 1 :: u64) - unat (em_data b)"
    by (rule unat_sub [OF word_n1_ge])
  then have "unat (em_capacity b) \<le> 2 ^ 64 - 1 - unat (em_data b)"
    using no by (simp add: not_less word_le_nat_alt unsigned_minus_1_eq_mask mask_eq_exp_minus_1)
  then show "unat (em_data b) + unat (em_capacity b) < 2 ^ 64" using u64_bound [of "em_data b"] by linarith
  show "em_data b \<noteq> 0" "em_capacity b \<noteq> 0" "r = (em_data b, em_data b + em_capacity b)" using f by auto
  show "\<not> (em_data b < snd rng \<and> fst rng < em_data b + em_capacity b)" if "rng \<in> set ranges" for rng
    using f(4) that by (auto simp: list_ex_iff)
qed

lemma resolve_binding_Some:
  "resolve_binding env mr b = Some x \<Longrightarrow> xr_data x = em_data b \<and> xr_capacity x = em_capacity b"
  by (auto simp: resolve_binding_def split: if_splits)

lemma bind_inv_extend:
  assumes "bind_inv cfg ext" "binding_range (ranges_of ext) b = Some r" "resolve_binding env mr b = Some x"
    "mr_of cfg name = Some mr" "mr_kind mr \<noteq> NULL_MR"
  shows "bind_inv cfg (ext @ [(name, x)])" "ranges_of (ext @ [(name, x)]) = ranges_of ext @ [r]"
proof -
  note b = binding_range_Some [OF assms(2)]
  note x = resolve_binding_Some [OF assms(3)]
  have ok: "xr_range_ok x" using b x by (simp add: xr_range_ok_def)
  have nowrap: "unat (xr_data y + xr_capacity y) = unat (xr_data y) + unat (xr_capacity y)" if "xr_range_ok y" for y
    using that by (simp add: xr_range_ok_def unat_add_no_wrap)
  have "xr_disjoint y x" if "(n, y) \<in> set ext" for n y
  proof -
    have "xr_range_ok y" using assms(1) that by (auto simp: bind_inv_def)
    moreover have "(xr_data y, xr_data y + xr_capacity y) \<in> set (ranges_of ext)"
      using that by (force simp: ranges_of_def)
    from b(5) [OF this] have "\<not> (xr_data x < xr_data y + xr_capacity y \<and> xr_data y < xr_data x + xr_capacity x)"
      using x by simp
    ultimately show ?thesis
      using nowrap [of y] nowrap [OF ok] by (auto simp: xr_disjoint_def word_less_nat_alt)
  qed
  then show "bind_inv cfg (ext @ [(name, x)])"
    using assms ok by (auto simp: bind_inv_def sorted_wrt_append)
  show "ranges_of (ext @ [(name, x)]) = ranges_of ext @ [r]"
    using b(4) x by (simp add: ranges_of_def)
qed

lemma bind_loop_sound:
  assumes "bind_inv cfg ext" "bind_loop env cfg bindings (ranges_of ext) ext = (SUCCESS, ext')"
  shows "bind_inv cfg ext' \<and> map fst ext' = map fst ext @ map fst bindings"
  using assms
proof (induction bindings arbitrary: ext)
  case Nil
  then show ?case by simp
next
  case (Cons p bindings)
  obtain name b where p: "p = (name, b)" by force
  obtain mr r x where step: "mr_of cfg name = Some mr" "mr_kind mr \<noteq> NULL_MR"
    "binding_range (ranges_of ext) b = Some r" "resolve_binding env mr b = Some x"
    "bind_loop env cfg bindings (ranges_of ext @ [r]) (ext @ [(name, x)]) = (SUCCESS, ext')"
    using Cons.prems(2) p by (auto split: option.splits if_splits)
  note inv = bind_inv_extend [OF Cons.prems(1) step(3,4,1,2)]
  then show ?case using Cons.IH [OF inv(1)] step(5) p by simp
qed

section \<open>Properties\<close>

text \<open>C37: when the bindings are accepted, each of them is resolved, names a configured region that
  takes memory, covers a non-empty range that does not wrap around the address space, and is
  disjoint from every other; and every region that the engine does not own is bound.\<close>

theorem bindings_disjoint_and_complete:
  assumes "set_external_memory_regions env cfg bindings = (SUCCESS, ext)"
  shows "map fst ext = map fst bindings
    \<and> (\<forall>(name, x)\<in>set ext. (\<exists>mr. mr_of cfg name = Some mr \<and> mr_kind mr \<noteq> NULL_MR)
         \<and> xr_data x \<noteq> 0 \<and> xr_capacity x \<noteq> 0 \<and> unat (xr_data x) + unat (xr_capacity x) < 2 ^ 64)
    \<and> (\<forall>i j. i < j \<and> j < length ext \<longrightarrow> xr_disjoint (snd (ext ! i)) (snd (ext ! j)))
    \<and> (\<forall>(name, mr)\<in>set (nc_mrs cfg). mr_kind mr \<noteq> NULL_MR \<and> \<not> mr_owned mr \<longrightarrow> map_of ext name \<noteq> None)"
proof -
  have loop: "bind_loop env cfg bindings (ranges_of []) [] = (SUCCESS, ext)"
    and own: "\<not> list_ex (\<lambda>(name, mr). mr_kind mr \<noteq> NULL_MR \<and> \<not> mr_owned mr \<and> map_of ext name = None) (nc_mrs cfg)"
    using assms by (auto simp: set_external_memory_regions_def ranges_of_def split: prod.splits Status.splits if_splits)
  have "bind_inv cfg []" by (simp add: bind_inv_def)
  from bind_loop_sound [OF this loop] have inv: "bind_inv cfg ext" and names: "map fst ext = map fst bindings" by auto
  have dis: "xr_disjoint (snd (ext ! i)) (snd (ext ! j))" if "i < j" "j < length ext" for i j
    using inv that by (auto simp: bind_inv_def sorted_wrt_iff_nth_less)
  show ?thesis
    using inv names dis own by (fastforce simp: bind_inv_def xr_range_ok_def list_ex_iff)
qed

definition demo_bindings :: "(string \<times> ExternalMemoryRegion) list" where
  "demo_bindings = [(''mr'', \<lparr>em_data = 65536, em_capacity = 65536\<rparr>), (''tx'', \<lparr>em_data = 131072, em_capacity = 4096\<rparr>)]"

definition no_cuda :: PointerEnv where
  "no_cuda = \<lparr>pe_context = \<lambda>_. None, pe_memory_type = \<lambda>_. None, pe_push_query = \<lambda>_. False, pe_context_device = \<lambda>_. None,
     pe_range_start = \<lambda>_. None, pe_range_size = \<lambda>_. None, pe_ordinal = \<lambda>_. None, pe_rdma_capable = \<lambda>_. None,
     pe_push_sync = \<lambda>_. False, pe_set_sync = \<lambda>_. False\<rparr>"

theorem bindings_disjoint_and_complete_witness:
  "\<exists>ext. set_external_memory_regions no_cuda demo_cfg demo_bindings = (SUCCESS, ext) \<and> length ext = 2
     \<and> xr_disjoint (snd (ext ! 0)) (snd (ext ! 1))"
proof -
  obtain ext where ext: "set_external_memory_regions no_cuda demo_cfg demo_bindings = (SUCCESS, ext)"
    by (simp add: set_external_memory_regions_def demo_bindings_def binding_range_def resolve_binding_def demo_cfg_def
        word_less_nat_alt)
  note h = bindings_disjoint_and_complete [OF ext]
  then have "length (map fst ext) = length (map fst demo_bindings)" by simp
  then have len: "length ext = 2" by (simp add: demo_bindings_def)
  have "0 < (1::nat) \<and> 1 < length ext" using len by simp
  then have "xr_disjoint (snd (ext ! 0)) (snd (ext ! 1))" using h by blast
  then show ?thesis using ext len by blast
qed

end
