(* ===== verification/Cpp_Strings.thy ===== *)
theory Cpp_Strings
  imports Daqiri_Prelude
begin

text \<open>
  What the sources use of the text functions of the C++ library: the conversions between decimal,
  octal and hexadecimal text and integers, and the search functions of \<^verbatim>\<open>std::string\<close>. Positions that
  the library reports as \<^verbatim>\<open>npos\<close> are \<open>None\<close>.
\<close>

section \<open>Characters and digits\<close>

definition is_blank :: "char \<Rightarrow> bool" where
  "is_blank c \<longleftrightarrow> c \<in> {CHR 0x20, CHR 0x09, CHR 0x0A, CHR 0x0B, CHR 0x0C, CHR 0x0D}"

definition is_digit :: "char \<Rightarrow> bool" where
  "is_digit c \<longleftrightarrow> 48 \<le> (of_char c :: nat) \<and> (of_char c :: nat) \<le> 57"

definition digits_value :: "string \<Rightarrow> nat" where
  "digits_value s = fold (\<lambda>c acc. acc * 10 + (of_char c - 48)) s 0"

definition digit_of :: "char \<Rightarrow> nat option" where
  "digit_of c =
     (let n = of_char c :: nat in
      if 48 \<le> n \<and> n \<le> 57 then Some (n - 48)
      else if 97 \<le> n \<and> n \<le> 122 then Some (n - 87)
      else if 65 \<le> n \<and> n \<le> 90 then Some (n - 55)
      else None)"

section \<open>Conversions\<close>

text \<open>\<^verbatim>\<open>std::stoull\<close> when the whole string has to be consumed: blanks, a sign, decimal digits; a value out
  of range throws.\<close>

definition stoull_whole :: "string \<Rightarrow> u64 option" where
  "stoull_whole s =
     (let t = dropWhile is_blank s;
          (neg, ds) = (if t \<noteq> [] \<and> hd t = CHR 0x2D then (True, tl t)
                       else if t \<noteq> [] \<and> hd t = CHR 0x2B then (False, tl t) else (False, t))
      in if ds = [] \<or> \<not> list_all is_digit ds \<or> digits_value ds \<ge> 2 ^ 64 then None
         else Some (if neg then - of_nat (digits_value ds) else of_nat (digits_value ds)))"

text \<open>\<^verbatim>\<open>strtol\<close> in base ten: blanks, a sign, as many digits as there are; saturated at the limits of \<^verbatim>\<open>long\<close>.\<close>

definition strtol10 :: "string \<Rightarrow> int" where
  "strtol10 s =
     (let t = dropWhile is_blank s;
          (neg, ds) = (if t \<noteq> [] \<and> hd t = CHR 0x2D then (True, tl t)
                       else if t \<noteq> [] \<and> hd t = CHR 0x2B then (False, tl t) else (False, t));
          v = int (digits_value (takeWhile is_digit ds))
      in max (- (2 ^ 63)) (min (2 ^ 63 - 1) (if neg then - v else v)))"

text \<open>\<^verbatim>\<open>std::from_chars\<close> for an unsigned type, when the whole range has to be consumed: no blanks, no sign.\<close>

fun base_value :: "nat \<Rightarrow> string \<Rightarrow> nat \<Rightarrow> nat option" where
  "base_value base [] acc = Some acc"
| "base_value base (c # s) acc =
     (case digit_of c of
        None \<Rightarrow> None
      | Some d \<Rightarrow> if d < base then base_value base s (acc * base + d) else None)"

definition from_chars_whole :: "nat \<Rightarrow> nat \<Rightarrow> string \<Rightarrow> nat option" where
  "from_chars_whole base limit s =
     (if s = [] then None
      else case base_value base s 0 of None \<Rightarrow> None | Some v \<Rightarrow> if v < limit then Some v else None)"

text \<open>\<^verbatim>\<open>std::to_string\<close>.\<close>

fun nat_to_string :: "nat \<Rightarrow> string" where
  "nat_to_string n =
     (if n < 10 then [char_of (48 + n)] else nat_to_string (n div 10) @ [char_of (48 + n mod 10)])"

declare nat_to_string.simps [simp del]

definition int_to_string :: "int \<Rightarrow> string" where
  "int_to_string i = (if i < 0 then CHR 0x2D # nat_to_string (nat (- i)) else nat_to_string (nat i))"

section \<open>Search\<close>

text \<open>The text before and after the first, and the last, occurrence of a character.\<close>

fun split_first :: "char \<Rightarrow> string \<Rightarrow> (string \<times> string) option" where
  "split_first c [] = None"
| "split_first c (d # s) =
     (if d = c then Some ([], s) else map_option (\<lambda>(a, b). (d # a, b)) (split_first c s))"

definition split_last :: "char \<Rightarrow> string \<Rightarrow> (string \<times> string) option" where
  "split_last c s = map_option (\<lambda>(a, b). (rev b, rev a)) (split_first c (rev s))"

lemma split_first_append: "c \<notin> set a \<Longrightarrow> split_first c (a @ c # b) = Some (a, b)"
  by (induction a) auto

lemma split_first_None: "split_first c s = None \<longleftrightarrow> c \<notin> set s"
  by (induction s) auto

lemma split_last_append: "c \<notin> set b \<Longrightarrow> split_last c (a @ c # b) = Some (a, b)"
  using split_first_append [of c "rev b" "rev a"] by (simp add: split_last_def)

lemma split_last_None: "split_last c s = None \<longleftrightarrow> c \<notin> set s"
  by (simp add: split_last_def split_first_None)

section \<open>Printing and reading decimal numbers\<close>

lemma of_char_digit: "d < 10 \<Longrightarrow> (of_char (char_of (48 + d) :: char) :: nat) = 48 + d"
  by simp

lemma digit_of_digit: "d < 10 \<Longrightarrow> digit_of (char_of (48 + d)) = Some d"
  by (simp add: digit_of_def)

lemma base_value_append: "base_value base (s @ t) acc = Option.bind (base_value base s acc) (base_value base t)"
  by (induction s arbitrary: acc) (auto split: option.splits)

lemma base_value_nat_to_string: "base_value 10 (nat_to_string n) 0 = Some n"
proof (induction n rule: nat_to_string.induct)
  case (1 n)
  show ?case
  proof (cases "n < 10")
    case True
    then show ?thesis by (subst nat_to_string.simps) (simp add: digit_of_digit)
  next
    case False
    then show ?thesis using 1 by (subst nat_to_string.simps) (simp add: base_value_append digit_of_digit)
  qed
qed

lemma nat_to_string_nonempty: "nat_to_string n \<noteq> []"
  by (subst nat_to_string.simps) simp

lemma nat_to_string_digits: "c \<in> set (nat_to_string n) \<Longrightarrow> is_digit c"
proof (induction n rule: nat_to_string.induct)
  case (1 n)
  then show ?case
    by (subst (asm) (2) nat_to_string.simps) (auto simp: is_digit_def split: if_splits)
qed

lemma from_chars_to_string: "n < limit \<Longrightarrow> from_chars_whole 10 limit (nat_to_string n) = Some n"
  by (simp add: from_chars_whole_def base_value_nat_to_string nat_to_string_nonempty)

end
