(* ===== verification/Hugepages.thy ===== *)
theory Hugepages
  imports Memory_Sizing Cpp_Strings "HOL-Library.Multiset"
begin

text \<open>
  Choice and mapping of huge pages (\<^verbatim>\<open>discover_hugepage_candidates\<close> and \<^verbatim>\<open>allocate_hugetlb_arena\<close> in
  \<^verbatim>\<open>src/src/engine.cpp\<close>). Directory listings and the answers of the kernel are the fields of an
  environment record; every call that obtains or gives back memory is recorded in a trace.
\<close>

section \<open>Model: trace of resources\<close>

datatype resource = HostBlock u64 | PinnedBlock u64 | DeviceBlock u64 | Mapping u64 u64

datatype mem_event = Acquire resource | Release resource

section \<open>Model: candidates and mapping\<close>

record HugepageCandidate =
  hc_page_size :: u64
  hc_mapped_size :: u64
  hc_available_pages :: u64
  hc_availability_known :: bool
  hc_numa_local :: bool

text \<open>A directory entry: its name and what its two counter files hold, if they can be read.\<close>

type_synonym huge_entry = "string \<times> u64 option \<times> u64 option"

definition candidate_of :: "u64 \<Rightarrow> bool \<Rightarrow> huge_entry \<Rightarrow> HugepageCandidate option" where
  "candidate_of bytes node_specific entry =
     (let (name, free_file, resv_file) = entry; n = length name in
      if n \<le> 12 \<or> take 10 name \<noteq> ''hugepages-'' \<or> drop (n - 2) name \<noteq> ''kB'' then None
      else
        (case stoull_whole (take (n - 12) (drop 10 name)) of
           None \<Rightarrow> None
         | Some page_kib \<Rightarrow>
             if page_kib = 0 \<or> page_kib > (- 1) div 1024 then None
             else
               (let page_size = page_kib * 1024;
                    free_pages = (case free_file of None \<Rightarrow> 0 | Some v \<Rightarrow> v);
                    reserved_pages = (case resv_file of None \<Rightarrow> 0 | Some v \<Rightarrow> v)
                in if page_size AND (page_size - 1) \<noteq> 0 then None
                   else
                     (case round_up_checked bytes page_size of
                        None \<Rightarrow> None
                      | Some mapped_size \<Rightarrow>
                          if mapped_size = 0 then None
                          else Some \<lparr>hc_page_size = page_size, hc_mapped_size = mapped_size,
                                 hc_available_pages = (if free_pages > reserved_pages then free_pages - reserved_pages else 0),
                                 hc_availability_known = (free_file \<noteq> None), hc_numa_local = node_specific\<rparr>))))"

definition candidate_less :: "HugepageCandidate \<Rightarrow> HugepageCandidate \<Rightarrow> bool" where
  "candidate_less lhs rhs \<longleftrightarrow>
     (if hc_mapped_size lhs \<noteq> hc_mapped_size rhs then hc_mapped_size lhs < hc_mapped_size rhs
      else hc_page_size lhs > hc_page_size rhs)"

fun insert_by :: "('a \<Rightarrow> 'a \<Rightarrow> bool) \<Rightarrow> 'a \<Rightarrow> 'a list \<Rightarrow> 'a list" where
  "insert_by lt x [] = [x]"
| "insert_by lt x (y # ys) = (if lt y x then y # insert_by lt x ys else x # y # ys)"

definition std_sort :: "('a \<Rightarrow> 'a \<Rightarrow> bool) \<Rightarrow> 'a list \<Rightarrow> 'a list" where
  "std_sort lt xs = foldr (insert_by lt) xs []"

text \<open>The two directories of the kernel: per NUMA node, if it exists, and the global one.\<close>

record HugeEnv =
  he_node_dir :: "int \<Rightarrow> huge_entry list option"
  he_global_dir :: "huge_entry list option"
  he_mmap :: "int \<Rightarrow> u64 \<Rightarrow> u32 \<Rightarrow> u64 option"
  he_numa_nodes :: bool
  he_mbind :: "u64 \<Rightarrow> u64 \<Rightarrow> int \<Rightarrow> bool"
  he_populate :: "u64 \<Rightarrow> u64 \<Rightarrow> bool"

definition discover_hugepage_candidates :: "HugeEnv \<Rightarrow> u64 \<Rightarrow> int \<Rightarrow> HugepageCandidate list" where
  "discover_hugepage_candidates env bytes numa =
     (let node = (if numa \<ge> 0 then he_node_dir env numa else None);
          (entries, node_specific) = (case node of Some es \<Rightarrow> (Some es, True) | None \<Rightarrow> (he_global_dir env, False))
      in case entries of
           None \<Rightarrow> []
         | Some es \<Rightarrow> std_sort candidate_less (List.map_filter (candidate_of bytes node_specific) es))"

definition bind_region_numa :: "HugeEnv \<Rightarrow> u64 \<Rightarrow> u64 \<Rightarrow> int \<Rightarrow> bool" where
  "bind_region_numa env p bytes numa =
     (if p \<noteq> 0 \<and> numa \<ge> 0 \<and> he_numa_nodes env then he_mbind env p bytes numa else True)"

function page_shift :: "u64 \<Rightarrow> nat" where
  "page_shift value = (if value > 1 then Suc (page_shift (drop_bit 1 value)) else 0)"
  by auto
termination
  by (relation "measure unat") (auto simp: drop_bit_eq_div unat_div word_less_nat_alt)

record HugepageAllocation =
  hl_ptr :: u64
  hl_mapped_size :: u64
  hl_page_size :: u64

fun arena_loop ::
    "HugeEnv \<Rightarrow> int \<Rightarrow> HugepageCandidate list \<Rightarrow> mem_event list \<Rightarrow> HugepageAllocation option \<times> mem_event list" where
  "arena_loop env numa [] tr = (None, tr)"
| "arena_loop env numa (c # cs) tr =
     (let required_pages = hc_mapped_size c div hc_page_size c;
          hugepage_flag = push_bit 26 (of_nat (page_shift (hc_page_size c)))
      in if hc_numa_local c \<and> hc_availability_known c \<and> hc_available_pages c < required_pages
         then arena_loop env numa cs tr
         else
           (case he_mmap env numa (hc_mapped_size c) hugepage_flag of
              None \<Rightarrow> arena_loop env numa cs tr
            | Some ptr \<Rightarrow>
                if \<not> bind_region_numa env ptr (hc_mapped_size c) numa \<or> \<not> he_populate env ptr (hc_mapped_size c)
                then arena_loop env numa cs
                       (tr @ [Acquire (Mapping ptr (hc_mapped_size c)), Release (Mapping ptr (hc_mapped_size c))])
                else (Some \<lparr>hl_ptr = ptr, hl_mapped_size = hc_mapped_size c, hl_page_size = hc_page_size c\<rparr>,
                      tr @ [Acquire (Mapping ptr (hc_mapped_size c))])))"

definition allocate_hugetlb_arena ::
    "HugeEnv \<Rightarrow> u64 \<Rightarrow> int \<Rightarrow> mem_event list \<Rightarrow> HugepageAllocation option \<times> mem_event list" where
  "allocate_hugetlb_arena env bytes numa tr = arena_loop env numa (discover_hugepage_candidates env bytes numa) tr"

declare page_shift.simps [simp del]

section \<open>Sorting\<close>

lemma mset_insert_by: "mset (insert_by lt x xs) = add_mset x (mset xs)"
  by (induction xs) auto

lemma mset_std_sort: "mset (std_sort lt xs) = mset xs"
  by (induction xs) (simp_all add: std_sort_def mset_insert_by)

lemma set_std_sort: "set (std_sort lt xs) = set xs"
  using mset_std_sort [of lt xs] by (metis set_mset_mset)

lemma sorted_insert_by:
  assumes "\<And>a b. lt a b \<Longrightarrow> \<not> lt b a" "\<And>a b c. \<not> lt b a \<Longrightarrow> \<not> lt c b \<Longrightarrow> \<not> lt c a"
    and "sorted_wrt (\<lambda>a b. \<not> lt b a) xs"
  shows "sorted_wrt (\<lambda>a b. \<not> lt b a) (insert_by lt x xs)"
  using assms(3)
proof (induction xs)
  case (Cons y ys)
  have "set (insert_by lt x ys) = insert x (set ys)"
    using mset_insert_by [of lt x ys] by (metis set_mset_add_mset_insert set_mset_mset)
  then have st: "set (insert_by lt x ys) = insert x (set ys)" .
  have ys: "sorted_wrt (\<lambda>a b. \<not> lt b a) ys" "\<And>z. z \<in> set ys \<Longrightarrow> \<not> lt z y" using Cons.prems by auto
  show ?case
  proof (cases "lt y x")
    case True
    then show ?thesis using Cons.IH [OF ys(1)] ys(2) st assms(1) by simp
  next
    case False
    have "\<not> lt z x" if "z \<in> set ys" for z using assms(2) [OF False ys(2) [OF that]] .
    then show ?thesis using False ys by simp
  qed
qed simp

lemma sorted_std_sort:
  assumes "\<And>a b. lt a b \<Longrightarrow> \<not> lt b a" "\<And>a b c. \<not> lt b a \<Longrightarrow> \<not> lt c b \<Longrightarrow> \<not> lt c a"
  shows "sorted_wrt (\<lambda>a b. \<not> lt b a) (std_sort lt xs)"
proof (induction xs)
  case (Cons x xs)
  then show ?case using sorted_insert_by [of lt, OF assms] by (simp add: std_sort_def)
qed (simp add: std_sort_def)

lemma candidates_sorted:
  "sorted_wrt (\<lambda>a b. hc_mapped_size a \<le> hc_mapped_size b) (std_sort candidate_less cs)"
proof -
  have "sorted_wrt (\<lambda>a b. \<not> candidate_less b a) (std_sort candidate_less cs)"
    by (rule sorted_std_sort) (auto simp: candidate_less_def split: if_splits)
  then show ?thesis
    by (rule sorted_wrt_mono_rel [rotated]) (auto simp: candidate_less_def split: if_splits)
qed

section \<open>What is mapped\<close>

definition acquired :: "mem_event list \<Rightarrow> resource multiset" where
  "acquired tr = mset (List.map_filter (\<lambda>e. case e of Acquire r \<Rightarrow> Some r | Release r \<Rightarrow> None) tr)"

definition released :: "mem_event list \<Rightarrow> resource multiset" where
  "released tr = mset (List.map_filter (\<lambda>e. case e of Acquire r \<Rightarrow> None | Release r \<Rightarrow> Some r) tr)"

lemma trace_simps [simp]:
  "acquired [] = {#}" "released [] = {#}"
  "acquired (Acquire r # tr) = add_mset r (acquired tr)" "acquired (Release r # tr) = acquired tr"
  "released (Acquire r # tr) = released tr" "released (Release r # tr) = add_mset r (released tr)"
  "acquired (tr @ tr') = acquired tr + acquired tr'" "released (tr @ tr') = released tr + released tr'"
  by (simp_all add: acquired_def released_def map_filter_def)

definition candidate_ok :: "u64 \<Rightarrow> HugepageCandidate \<Rightarrow> bool" where
  "candidate_ok bytes c \<longleftrightarrow> hc_page_size c \<noteq> 0 \<and> hc_page_size c AND (hc_page_size c - 1) = 0
     \<and> round_up_checked bytes (hc_page_size c) = Some (hc_mapped_size c) \<and> hc_mapped_size c \<noteq> 0"

lemma candidate_of_ok: "candidate_of bytes local entry = Some c \<Longrightarrow> candidate_ok bytes c"
proof -
  assume c: "candidate_of bytes local entry = Some c"
  then have r: "round_up_checked bytes (hc_page_size c) = Some (hc_mapped_size c)"
    by (auto simp: candidate_of_def Let_def split: if_splits option.splits prod.splits)
  then have "hc_page_size c \<noteq> 0" using round_up_checked_None_iff [of bytes "hc_page_size c"] by auto
  with c r show ?thesis
    by (auto simp: candidate_ok_def candidate_of_def Let_def split: if_splits option.splits prod.splits)
qed

lemma map_filter_member: "y \<in> set (List.map_filter f xs) \<Longrightarrow> \<exists>x\<in>set xs. f x = Some y"
  by (force simp: map_filter_def)

lemma discovered_ok: "c \<in> set (discover_hugepage_candidates env bytes numa) \<Longrightarrow> candidate_ok bytes c"
  by (auto simp: discover_hugepage_candidates_def set_std_sort Let_def
    split: option.splits if_splits dest!: map_filter_member intro: candidate_of_ok)

lemma discovered_sorted:
  "sorted_wrt (\<lambda>a b. hc_mapped_size a \<le> hc_mapped_size b) (discover_hugepage_candidates env bytes numa)"
  by (auto simp: discover_hugepage_candidates_def candidates_sorted Let_def split: option.splits)

text \<open>A candidate that the loop does not pass over: the sysfs counters, the kernel, the NUMA policy
  and the population of the pages all allow it.\<close>

definition mapped_at :: "HugeEnv \<Rightarrow> int \<Rightarrow> HugepageCandidate \<Rightarrow> u64 option" where
  "mapped_at env numa c = he_mmap env numa (hc_mapped_size c) (push_bit 26 (of_nat (page_shift (hc_page_size c))))"

definition usable :: "HugeEnv \<Rightarrow> int \<Rightarrow> HugepageCandidate \<Rightarrow> bool" where
  "usable env numa c \<longleftrightarrow>
     \<not> (hc_numa_local c \<and> hc_availability_known c \<and> hc_available_pages c < hc_mapped_size c div hc_page_size c)
     \<and> (case mapped_at env numa c of None \<Rightarrow> False
        | Some ptr \<Rightarrow> bind_region_numa env ptr (hc_mapped_size c) numa \<and> he_populate env ptr (hc_mapped_size c))"

definition allocation_of :: "HugeEnv \<Rightarrow> int \<Rightarrow> HugepageCandidate \<Rightarrow> HugepageAllocation" where
  "allocation_of env numa c = \<lparr>hl_ptr = the (mapped_at env numa c), hl_mapped_size = hc_mapped_size c, hl_page_size = hc_page_size c\<rparr>"

lemma arena_loop_find:
  "fst (arena_loop env numa cs tr) = map_option (allocation_of env numa) (find (usable env numa) cs)"
  by (induction cs arbitrary: tr) (auto simp: Let_def usable_def mapped_at_def allocation_of_def split: option.splits)

lemma arena_loop_balance:
  assumes "arena_loop env numa cs tr = (res, tr')"
  shows "acquired tr' + released tr = released tr' + acquired tr
    + (case res of None \<Rightarrow> {#} | Some al \<Rightarrow> {#Mapping (hl_ptr al) (hl_mapped_size al)#})"
  using assms
  by (induction cs arbitrary: tr) (force simp: Let_def split: option.splits if_splits)+

lemma find_Some_member: "find P xs = Some x \<Longrightarrow> x \<in> set xs \<and> P x"
  by (auto simp: find_Some_iff)

lemma find_sorted_least:
  assumes "find P xs = Some x" "sorted_wrt R xs" "y \<in> set xs" "P y" "\<And>a. R a a"
  shows "R x y"
  using assms by (induction xs) (auto split: if_splits)

section \<open>Properties\<close>


definition demo_huge :: HugeEnv where
  "demo_huge = \<lparr>he_node_dir = \<lambda>_. None, he_global_dir = Some [(''hugepages-1048576kB'', Some 1, Some 0), (''hugepages-2048kB'', Some 9, Some 0)],
     he_mmap = \<lambda>_ sz _. Some sz, he_numa_nodes = False, he_mbind = \<lambda>_ _ _. True, he_populate = \<lambda>_ _. True\<rparr>"

lemma demo_candidates:
  "candidate_of 3000000 False (''hugepages-1048576kB'', Some 1, Some 0)
    = Some \<lparr>hc_page_size = 1073741824, hc_mapped_size = 1073741824, hc_available_pages = 1, hc_availability_known = True, hc_numa_local = False\<rparr>"
  "candidate_of 3000000 False (''hugepages-2048kB'', Some 9, Some 0)
    = Some \<lparr>hc_page_size = 2097152, hc_mapped_size = 4194304, hc_available_pages = 9, hc_availability_known = True, hc_numa_local = False\<rparr>"
  by (simp_all add: candidate_of_def stoull_whole_def digits_value_def is_blank_def is_digit_def round_up_checked_def
    Let_def word_less_nat_alt word_le_nat_alt)

lemma demo_arena:
  "allocate_hugetlb_arena demo_huge 3000000 0 []
    = (Some \<lparr>hl_ptr = 4194304, hl_mapped_size = 4194304, hl_page_size = 2097152\<rparr>, [Acquire (Mapping 4194304 4194304)])"
  by (simp add: allocate_hugetlb_arena_def discover_hugepage_candidates_def demo_huge_def map_filter_def demo_candidates
    std_sort_def candidate_less_def Let_def bind_region_numa_def word_less_nat_alt)


end
