(* ===== verification/Memory_Allocation.thy ===== *)
theory Memory_Allocation
  imports External_Memory Hugepages
begin

text \<open>
  Allocation and release of the memory regions of an engine (\<^verbatim>\<open>src/src/engine.cpp\<close>, \<^verbatim>\<open>src/src/engine.h\<close>).
  Calls to the operating system and to CUDA are fields of environment records: each field
  gives the answer of one call site, and the answers may depend on the region the call is made
  for. Every call that obtains or gives back memory is recorded in a trace.
\<close>

section \<open>Model: what the engine holds\<close>

datatype Deallocator = D_NONE | D_FREE | D_CUDA_HOST | D_CUDA_DEVICE | D_MUNMAP | D_EAL

record AllocRegion =
  ar_mr_name :: string
  ar_ptr :: u64
  ar_size :: u64
  ar_mapped_size :: u64
  ar_affinity :: int
  ar_cuda_context :: u64
  ar_cuda_device :: int
  ar_deallocator :: Deallocator
  ar_external :: bool

definition AllocRegion_init :: AllocRegion where
  "AllocRegion_init = \<lparr>ar_mr_name = [], ar_ptr = 0, ar_size = 0, ar_mapped_size = 0, ar_affinity = - 1,
     ar_cuda_context = 0, ar_cuda_device = - 1, ar_deallocator = D_NONE, ar_external = False\<rparr>"

record HugepageArena =
  ha_ptr :: u64
  ha_mapped_size :: u64
  ha_used_size :: u64
  ha_page_size :: u64
  ha_next_offset :: u64
  ha_affinity :: int

section \<open>Model: allocation\<close>

text \<open>The reasons for which the allocation gives up; each is one of the messages that the code logs.\<close>

datatype alloc_error =
    SizeOverflow | AlignedSizeOverflow | ZeroHugeRegion | ArenaSizeOverflow | ArenaUnavailable
  | ExternalTooSmall | ExternalMisaligned | NotBound | HostAllocFailed | PinnedAllocFailed
  | ArenaMissing | ArenaOverflow | DeviceAllocFailed | UnknownKind | NullPointer

definition status_of :: "alloc_error \<Rightarrow> Status" where
  "status_of e =
     (if e \<in> {SizeOverflow, AlignedSizeOverflow, ZeroHugeRegion, ArenaSizeOverflow, ExternalTooSmall, ExternalMisaligned,
             NotBound, UnknownKind}
      then INVALID_PARAMETER else NULL_PTR)"

text \<open>Answers of the calls made for one pinned or device region.\<close>

record CudaCalls =
  cc_select_device :: bool
  cc_host_alloc :: "u64 option"
  cc_host_context :: "u64 option"
  cc_init :: bool
  cc_previous :: "u64 option"
  cc_free0 :: bool
  cc_current :: "u64 option"
  cc_mem_alloc :: "u64 \<Rightarrow> u64 option"
  cc_set_sync_memops :: bool
  cc_active :: "u64 option"
  cc_restore_current :: bool
  cc_reactivate :: bool

record AllocEnv =
  ae_pool_huge :: bool
  ae_page_size :: u64
  ae_memalign :: "string \<Rightarrow> u64 option"
  ae_cuda :: "string \<Rightarrow> CudaCalls"
  ae_huge :: HugeEnv

definition size_region :: "MemoryRegionConfig \<Rightarrow> alloc_error + MemoryRegionConfig" where
  "size_region mr =
     (if mr_kind mr = NULL_MR
      then Inr (mr\<lparr>mr_num_bufs := 0, mr_adj_size := 0, mr_ttl_size := 0, mr_affinity := 0, mr_access := 0, mr_owned := True\<rparr>)
      else if mr_num_bufs mr \<noteq> 0 \<and> mr_adj_size mr > (- 1) div mr_num_bufs mr then Inl SizeOverflow
      else
        (case round_up_checked (mr_adj_size mr * mr_num_bufs mr) gpu_page_size of
           None \<Rightarrow> Inl AlignedSizeOverflow
         | Some ttl \<Rightarrow> Inr (mr\<lparr>mr_ttl_size := ttl\<rparr>)))"

type_synonym RegionMap = "(string \<times> MemoryRegionConfig) list"

fun size_regions :: "RegionMap \<Rightarrow> alloc_error + RegionMap" where
  "size_regions [] = Inr []"
| "size_regions ((name, mr) # mrs) =
     (case size_region mr of
        Inl e \<Rightarrow> Inl e
      | Inr mr' \<Rightarrow> (case size_regions mrs of Inl e \<Rightarrow> Inl e | Inr mrs' \<Rightarrow> Inr ((name, mr') # mrs')))"

definition pooled :: "ExternalMap \<Rightarrow> string \<times> MemoryRegionConfig \<Rightarrow> bool" where
  "pooled ext p \<longleftrightarrow> mr_owned (snd p) \<and> mr_kind (snd p) = HUGE \<and> map_of ext (fst p) = None"

abbreviation numa_of :: "MemoryRegionConfig \<Rightarrow> int" where
  "numa_of mr \<equiv> uint (mr_affinity mr)"

definition lookup0 :: "(int \<times> u64) list \<Rightarrow> int \<Rightarrow> u64" where
  "lookup0 totals numa = (case map_of totals numa of None \<Rightarrow> 0 | Some t \<Rightarrow> t)"

fun alist_put :: "'k \<Rightarrow> 'v \<Rightarrow> ('k \<times> 'v) list \<Rightarrow> ('k \<times> 'v) list" where
  "alist_put k v [] = [(k, v)]"
| "alist_put k v ((k', v') # xs) = (if k' = k then (k, v) # xs else (k', v') # alist_put k v xs)"

fun bytes_by_numa :: "ExternalMap \<Rightarrow> RegionMap \<Rightarrow> (int \<times> u64) list \<Rightarrow> alloc_error + (int \<times> u64) list" where
  "bytes_by_numa ext [] totals = Inr totals"
| "bytes_by_numa ext ((name, mr) # mrs) totals =
     (if \<not> pooled ext (name, mr) then bytes_by_numa ext mrs totals
      else if mr_ttl_size mr = 0 then Inl ZeroHugeRegion
      else
        (let total = lookup0 totals (numa_of mr) in
         if total > (- 1) - mr_ttl_size mr then Inl ArenaSizeOverflow
         else bytes_by_numa ext mrs (alist_put (numa_of mr) (total + mr_ttl_size mr) totals)))"

definition plan_less :: "int \<times> u64 \<Rightarrow> int \<times> u64 \<Rightarrow> bool" where
  "plan_less lhs rhs =
     (if fst lhs < 0 \<or> fst rhs < 0 then fst lhs \<ge> 0 \<and> fst rhs < 0 else fst lhs < fst rhs)"

fun allocate_arenas ::
    "HugeEnv \<Rightarrow> (int \<times> u64) list \<Rightarrow> HugepageArena list \<Rightarrow> (int \<times> nat) list \<Rightarrow> mem_event list
     \<Rightarrow> (alloc_error option \<times> (int \<times> nat) list) \<times> HugepageArena list \<times> mem_event list" where
  "allocate_arenas env [] arenas index tr = ((None, index), arenas, tr)"
| "allocate_arenas env ((numa, used_size) # plans) arenas index tr =
     (if used_size = 0 then allocate_arenas env plans arenas index tr
      else
        (case allocate_hugetlb_arena env used_size numa tr of
           (Some allocation, tr') \<Rightarrow>
             if hl_ptr allocation \<noteq> 0
             then allocate_arenas env plans
                    (arenas @ [\<lparr>ha_ptr = hl_ptr allocation, ha_mapped_size = hl_mapped_size allocation,
                                ha_used_size = used_size, ha_page_size = hl_page_size allocation, ha_next_offset = 0,
                                ha_affinity = numa\<rparr>])
                    (alist_put numa (length arenas) index) tr'
             else ((Some ArenaUnavailable, index), arenas, tr')
         | (None, tr') \<Rightarrow> ((Some ArenaUnavailable, index), arenas, tr')))"

definition external_alignment :: "AllocEnv \<Rightarrow> EngineType \<Rightarrow> MemoryKind \<Rightarrow> u64" where
  "external_alignment env engine kind =
     (if engine = DPDK then gpu_page_size
      else if engine = IBVERBS \<and> kind = DEVICE then ae_page_size env
      else get_alignment kind)"

definition base_region :: "MemoryRegionConfig \<Rightarrow> AllocRegion" where
  "base_region mr = AllocRegion_init\<lparr>ar_mr_name := mr_name mr, ar_affinity := numa_of mr, ar_size := mr_ttl_size mr,
     ar_mapped_size := mr_ttl_size mr\<rparr>"

definition use_external :: "AllocEnv \<Rightarrow> EngineType \<Rightarrow> MemoryRegionConfig \<Rightarrow> ResolvedExternalMemoryRegion \<Rightarrow> alloc_error + AllocRegion" where
  "use_external env engine mr x =
     (if xr_capacity x < mr_ttl_size mr then Inl ExternalTooSmall
      else if xr_data x mod external_alignment env engine (mr_kind mr) \<noteq> 0 then Inl ExternalMisaligned
      else Inr ((base_region mr)\<lparr>ar_ptr := xr_data x, ar_external := True, ar_cuda_context := xr_cuda_context x,
                                 ar_cuda_device := xr_cuda_device x, ar_deallocator := D_NONE\<rparr>))"

definition alloc_pinned :: "CudaCalls \<Rightarrow> MemoryRegionConfig \<Rightarrow> mem_event list \<Rightarrow> (alloc_error + AllocRegion) \<times> mem_event list" where
  "alloc_pinned cu mr tr =
     (if \<not> cc_select_device cu then (Inl PinnedAllocFailed, tr)
      else
        (case cc_host_alloc cu of
           None \<Rightarrow> (Inl PinnedAllocFailed, tr)
         | Some ptr \<Rightarrow>
             (case cc_host_context cu of
                Some ctx \<Rightarrow>
                  if ctx \<noteq> 0
                  then (Inr ((base_region mr)\<lparr>ar_ptr := ptr, ar_cuda_context := ctx, ar_cuda_device := numa_of mr,
                               ar_deallocator := D_CUDA_HOST\<rparr>), tr @ [Acquire (PinnedBlock ptr)])
                  else (Inl PinnedAllocFailed, tr @ [Acquire (PinnedBlock ptr), Release (PinnedBlock ptr)])
              | None \<Rightarrow> (Inl PinnedAllocFailed, tr @ [Acquire (PinnedBlock ptr), Release (PinnedBlock ptr)]))))"

definition restore_previous :: "CudaCalls \<Rightarrow> u64 \<Rightarrow> bool" where
  "restore_previous cu previous =
     (case cc_active cu of None \<Rightarrow> False | Some active \<Rightarrow> \<not> (active \<noteq> previous \<and> \<not> cc_restore_current cu))"

definition alloc_device :: "CudaCalls \<Rightarrow> MemoryRegionConfig \<Rightarrow> mem_event list \<Rightarrow> (alloc_error + AllocRegion) \<times> mem_event list" where
  "alloc_device cu mr tr =
     (case (cc_init cu, cc_previous cu, cc_select_device cu, cc_free0 cu, cc_current cu,
           cc_mem_alloc cu (align_ceil (mr_ttl_size mr) gpu_page_size)) of
        (True, Some previous, True, True, Some current, Some cuptr) \<Rightarrow>
          if current = 0 then (Inl DeviceAllocFailed, tr)
          else if \<not> cc_set_sync_memops cu
          then (Inl DeviceAllocFailed, tr @ [Acquire (DeviceBlock cuptr), Release (DeviceBlock cuptr)])
          else if \<not> restore_previous cu previous
          then (Inl DeviceAllocFailed,
                tr @ Acquire (DeviceBlock cuptr) # (if cc_reactivate cu then [Release (DeviceBlock cuptr)] else []))
          else (Inr ((base_region mr)\<lparr>ar_ptr := cuptr, ar_cuda_context := current, ar_cuda_device := numa_of mr,
                       ar_deallocator := D_CUDA_DEVICE\<rparr>), tr @ [Acquire (DeviceBlock cuptr)])
      | _ \<Rightarrow> (Inl DeviceAllocFailed, tr))"

definition alloc_huge :: "HugeEnv \<Rightarrow> MemoryRegionConfig \<Rightarrow> mem_event list \<Rightarrow> AllocRegion \<times> mem_event list" where
  "alloc_huge env mr tr =
     (case allocate_hugetlb_arena env (mr_ttl_size mr) (numa_of mr) tr of
        (Some allocation, tr') \<Rightarrow>
          if hl_ptr allocation \<noteq> 0
          then ((base_region mr)\<lparr>ar_ptr := hl_ptr allocation, ar_deallocator := D_MUNMAP,
                                 ar_mapped_size := hl_mapped_size allocation\<rparr>, tr')
          else (base_region mr, tr')
      | (None, tr') \<Rightarrow> (base_region mr, tr'))"

definition carve :: "(int \<times> nat) list \<Rightarrow> HugepageArena list \<Rightarrow> MemoryRegionConfig \<Rightarrow> (alloc_error + AllocRegion) \<times> HugepageArena list" where
  "carve index arenas mr =
     (case map_of index (numa_of mr) of
        None \<Rightarrow> (Inl ArenaMissing, arenas)
      | Some i \<Rightarrow>
          (let arena = arenas ! i in
           if ha_next_offset arena > ha_used_size arena \<or> mr_ttl_size mr > ha_used_size arena - ha_next_offset arena
           then (Inl ArenaOverflow, arenas)
           else (Inr ((base_region mr)\<lparr>ar_ptr := ha_ptr arena + ha_next_offset arena, ar_deallocator := D_NONE\<rparr>),
                 arenas[i := arena\<lparr>ha_next_offset := ha_next_offset arena + mr_ttl_size mr\<rparr>])))"

definition null_checked :: "alloc_error + AllocRegion \<Rightarrow> alloc_error + AllocRegion" where
  "null_checked r = (case r of Inl e \<Rightarrow> Inl e | Inr ar \<Rightarrow> if ar_ptr ar = 0 then Inl NullPointer else Inr ar)"

definition allocate_region ::
    "AllocEnv \<Rightarrow> EngineType \<Rightarrow> ExternalMap \<Rightarrow> (int \<times> nat) list \<Rightarrow> string \<Rightarrow> MemoryRegionConfig
     \<Rightarrow> HugepageArena list \<Rightarrow> mem_event list \<Rightarrow> (alloc_error + AllocRegion) \<times> HugepageArena list \<times> mem_event list" where
  "allocate_region env engine ext index name mr arenas tr =
     (case map_of ext name of
        Some x \<Rightarrow> (use_external env engine mr x, arenas, tr)
      | None \<Rightarrow>
          if \<not> mr_owned mr then (Inl NotBound, arenas, tr)
          else
            (case mr_kind mr of
               MemoryKind.HOST \<Rightarrow>
                 (case ae_memalign env name of
                    None \<Rightarrow> (Inl HostAllocFailed, arenas, tr)
                  | Some ptr \<Rightarrow> (null_checked (Inr ((base_region mr)\<lparr>ar_ptr := ptr, ar_deallocator := D_FREE\<rparr>)), arenas,
                                 tr @ [Acquire (HostBlock ptr)]))
             | HOST_PINNED \<Rightarrow> (case alloc_pinned (ae_cuda env name) mr tr of (r, tr') \<Rightarrow> (null_checked r, arenas, tr'))
             | HUGE \<Rightarrow>
                 if ae_pool_huge env
                 then (case carve index arenas mr of (r, arenas') \<Rightarrow> (null_checked r, arenas', tr))
                 else (case alloc_huge (ae_huge env) mr tr of (ar, tr') \<Rightarrow> (null_checked (Inr ar), arenas, tr'))
             | DEVICE \<Rightarrow> (case alloc_device (ae_cuda env name) mr tr of (r, tr') \<Rightarrow> (null_checked r, arenas, tr'))
             | _ \<Rightarrow> (Inl UnknownKind, arenas, tr)))"

fun allocate_loop ::
    "AllocEnv \<Rightarrow> EngineType \<Rightarrow> ExternalMap \<Rightarrow> (int \<times> nat) list \<Rightarrow> RegionMap \<Rightarrow> (string \<times> AllocRegion) list
     \<Rightarrow> HugepageArena list \<Rightarrow> mem_event list
     \<Rightarrow> alloc_error option \<times> (string \<times> AllocRegion) list \<times> HugepageArena list \<times> mem_event list" where
  "allocate_loop env engine ext index [] regions arenas tr = (None, regions, arenas, tr)"
| "allocate_loop env engine ext index ((name, mr) # mrs) regions arenas tr =
     (if mr_kind mr = NULL_MR then allocate_loop env engine ext index mrs regions arenas tr
      else
        (case allocate_region env engine ext index name mr arenas tr of
           (Inl e, arenas', tr') \<Rightarrow> (Some e, regions, arenas', tr')
         | (Inr ar, arenas', tr') \<Rightarrow>
             allocate_loop env engine ext index mrs (alist_put (mr_name mr) ar regions) arenas' tr'))"

text \<open>What the engine holds: the allocated regions and the arenas.\<close>

record MemState =
  ms_regions :: "(string \<times> AllocRegion) list"
  ms_arenas :: "HugepageArena list"

definition arena_plans :: "AllocEnv \<Rightarrow> ExternalMap \<Rightarrow> RegionMap \<Rightarrow> alloc_error + (int \<times> u64) list" where
  "arena_plans env ext mrs =
     (if ae_pool_huge env
      then (case bytes_by_numa ext mrs [] of Inl e \<Rightarrow> Inl e | Inr totals \<Rightarrow> Inr (std_sort plan_less totals))
      else Inr [])"

definition allocate_memory_regions ::
    "AllocEnv \<Rightarrow> EngineType \<Rightarrow> ExternalMap \<Rightarrow> RegionMap \<Rightarrow> MemState \<Rightarrow> alloc_error option \<times> MemState \<times> mem_event list" where
  "allocate_memory_regions env engine ext mrs st =
     (case size_regions mrs of
        Inl e \<Rightarrow> (Some e, st, [])
      | Inr mrs' \<Rightarrow>
          (case arena_plans env ext mrs' of
             Inl e \<Rightarrow> (Some e, st, [])
           | Inr plans \<Rightarrow>
               (case allocate_arenas (ae_huge env) plans (ms_arenas st) [] [] of
                  ((Some e, _), arenas, tr) \<Rightarrow> (Some e, st\<lparr>ms_arenas := arenas\<rparr>, tr)
                | ((None, index), arenas, tr) \<Rightarrow>
                    (case allocate_loop env engine ext index mrs' (ms_regions st) arenas tr of
                       (e, regions, arenas', tr') \<Rightarrow> (e, \<lparr>ms_regions = regions, ms_arenas = arenas'\<rparr>, tr')))))"

section \<open>Model: release\<close>

record FreeEnv =
  fr_current :: "string \<Rightarrow> u64 option"
  fr_activate :: "string \<Rightarrow> bool"

definition free_region :: "FreeEnv \<Rightarrow> string \<times> AllocRegion \<Rightarrow> mem_event list" where
  "free_region env p =
     (let (name, region) = p in
      if ar_ptr region = 0 then []
      else
        (case ar_deallocator region of
           D_FREE \<Rightarrow> [Release (HostBlock (ar_ptr region))]
         | D_CUDA_HOST \<Rightarrow> [Release (PinnedBlock (ar_ptr region))]
         | D_CUDA_DEVICE \<Rightarrow>
             (case fr_current env name of
                None \<Rightarrow> []
              | Some previous \<Rightarrow>
                  if ar_cuda_context region \<noteq> 0 \<and> previous \<noteq> ar_cuda_context region \<and> \<not> fr_activate env name then []
                  else [Release (DeviceBlock (ar_ptr region))])
         | D_MUNMAP \<Rightarrow> [Release (Mapping (ar_ptr region) (ar_mapped_size region))]
         | D_EAL \<Rightarrow> []
         | D_NONE \<Rightarrow> []))"

definition free_arena :: "HugepageArena \<Rightarrow> mem_event list" where
  "free_arena arena = (if ha_ptr arena = 0 then [] else [Release (Mapping (ha_ptr arena) (ha_mapped_size arena))])"

definition free_memory_regions :: "FreeEnv \<Rightarrow> MemState \<Rightarrow> MemState \<times> mem_event list" where
  "free_memory_regions env st =
     (\<lparr>ms_regions = [], ms_arenas = []\<rparr>,
      concat (map (free_region env) (ms_regions st)) @ concat (map free_arena (ms_arenas st)))"

section \<open>Model: pools and placement\<close>

definition numa_from_mem :: "(u16 \<Rightarrow> int option) \<Rightarrow> MemoryRegionConfig \<Rightarrow> int" where
  "numa_from_mem host_numa mr =
     (if mr_kind mr = DEVICE then (case host_numa (mr_affinity mr) of None \<Rightarrow> - 1 | Some val \<Rightarrow> val) else numa_of mr)"

section \<open>Association lists and sizes\<close>

lemma map_of_alist_put [simp]: "map_of (alist_put k v xs) = (map_of xs)(k \<mapsto> v)"
  by (induction xs) auto

lemma keys_alist_put: "fst ` set (alist_put k v xs) = insert k (fst ` set xs)"
  by (induction k v xs rule: alist_put.induct) (simp_all add: insert_commute)

lemma distinct_alist_put: "distinct (map fst xs) \<Longrightarrow> distinct (map fst (alist_put k v xs))"
  by (induction k v xs rule: alist_put.induct) (simp_all add: keys_alist_put, clarsimp)

lemma alist_put_fresh: "k \<notin> fst ` set xs \<Longrightarrow> alist_put k v xs = xs @ [(k, v)]"
  by (induction xs) auto

lemma size_region_Inr:
  "size_region mr = Inr mr' \<Longrightarrow> mr_name mr' = mr_name mr \<and> mr_kind mr' = mr_kind mr"
  by (auto simp: size_region_def split: if_splits option.splits)

lemma size_regions_names:
  "size_regions mrs = Inr mrs' \<Longrightarrow> map (\<lambda>p. (fst p, mr_name (snd p))) mrs' = map (\<lambda>p. (fst p, mr_name (snd p))) mrs"
  by (induction mrs arbitrary: mrs') (auto split: sum.splits dest!: size_region_Inr)

section \<open>Arenas hold what is carved from them\<close>

definition pooled_bytes :: "ExternalMap \<Rightarrow> int \<Rightarrow> RegionMap \<Rightarrow> nat" where
  "pooled_bytes ext numa mrs = sum_list (map (\<lambda>p. unat (mr_ttl_size (snd p))) (filter (\<lambda>p. pooled ext p \<and> numa_of (snd p) = numa) mrs))"

lemma pooled_bytes_simps [simp]:
  "pooled_bytes ext numa [] = 0"
  "pooled_bytes ext numa (p # mrs) =
     (if pooled ext p \<and> numa_of (snd p) = numa then unat (mr_ttl_size (snd p)) else 0) + pooled_bytes ext numa mrs"
  "pooled_bytes ext numa (mrs @ mrs') = pooled_bytes ext numa mrs + pooled_bytes ext numa mrs'"
  by (simp_all add: pooled_bytes_def)

lemma lookup0_put: "lookup0 (alist_put k v xs) n = (if n = k then v else lookup0 xs n)"
  by (simp add: lookup0_def)

lemma bytes_by_numa_totals:
  assumes "bytes_by_numa ext mrs totals = Inr totals'" "distinct (map fst totals)"
  shows "distinct (map fst totals') \<and> (\<forall>numa. unat (lookup0 totals' numa) = unat (lookup0 totals numa) + pooled_bytes ext numa mrs)
    \<and> (\<forall>p\<in>set mrs. pooled ext p \<longrightarrow> mr_ttl_size (snd p) \<noteq> 0)"
  using assms
proof (induction mrs arbitrary: totals)
  case (Cons p mrs)
  obtain name mr where p: "p = (name, mr)" by force
  show ?case
  proof (cases "pooled ext (name, mr)")
    case False
    then show ?thesis using Cons p by auto
  next
    case True
    let ?n = "numa_of mr" and ?t = "mr_ttl_size mr"
    let ?totals = "alist_put ?n (lookup0 totals ?n + ?t) totals"
    have step: "?t \<noteq> 0" "\<not> lookup0 totals ?n > (- 1) - ?t" "bytes_by_numa ext mrs ?totals = Inr totals'"
      using Cons.prems(1) True p by (auto simp: Let_def split: if_splits)
    have "unat ((- 1 :: u64) - ?t) = unat (- 1 :: u64) - unat ?t" by (rule unat_sub [OF word_n1_ge])
    then have "unat (lookup0 totals ?n) \<le> 2 ^ 64 - 1 - unat ?t"
      using step(2) by (simp add: not_less word_le_nat_alt unsigned_minus_1_eq_mask mask_eq_exp_minus_1)
    then have "unat (lookup0 totals ?n) + unat ?t < 2 ^ 64" using u64_bound [of ?t] by linarith
    then have add: "unat (lookup0 totals ?n + ?t) = unat (lookup0 totals ?n) + unat ?t" by (rule unat_add_no_wrap)
    from Cons.IH [OF step(3) distinct_alist_put [OF Cons.prems(2)]]
    show ?thesis using add True step(1) p by (auto simp: lookup0_put)
  qed
qed simp

lemma arena_mapped_ge:
  assumes "allocate_hugetlb_arena env bytes numa tr = (Some al, tr')"
  shows "bytes \<le> hl_mapped_size al"
proof -
  let ?cs = "discover_hugepage_candidates env bytes numa"
  have "map_option (allocation_of env numa) (find (usable env numa) ?cs) = Some al"
    using arena_loop_find [of env numa ?cs tr] assms by (simp add: allocate_hugetlb_arena_def)
  then obtain c where c: "c \<in> set ?cs" "hl_mapped_size al = hc_mapped_size c"
    using find_Some_member by (fastforce simp: allocation_of_def)
  have ok: "candidate_ok bytes c" using discovered_ok [OF c(1)] .
  then have a: "hc_page_size c \<noteq> 0" "unat bytes + unat (hc_page_size c) \<le> 2 ^ 64"
    using round_up_checked_None_iff [of bytes "hc_page_size c"] by (auto simp: candidate_ok_def)
  obtain m where "round_up_checked bytes (hc_page_size c) = Some m"
    "unat m = (unat bytes + unat (hc_page_size c) - 1) div unat (hc_page_size c) * unat (hc_page_size c)"
    using round_up_checked_Some [OF a] .
  then show ?thesis
    using ok c(2) round_up_nat(2) [of "unat (hc_page_size c)" "unat bytes"] a(1)
    by (simp add: candidate_ok_def word_le_nat_alt unat_gt_0)
qed

definition fresh_arena :: "(int \<times> u64) list \<Rightarrow> int \<Rightarrow> HugepageArena \<Rightarrow> bool" where
  "fresh_arena plans numa a \<longleftrightarrow> (numa, ha_used_size a) \<in> set plans \<and> ha_affinity a = numa \<and> ha_next_offset a = 0
     \<and> ha_used_size a \<le> ha_mapped_size a"

definition index_ok :: "(int \<times> u64) list \<Rightarrow> (int \<times> nat) list \<Rightarrow> HugepageArena list \<Rightarrow> bool" where
  "index_ok plans index arenas \<longleftrightarrow>
     (\<forall>numa i. map_of index numa = Some i \<longrightarrow> i < length arenas \<and> fresh_arena plans numa (arenas ! i))"

lemma allocate_arenas_index:
  assumes "allocate_arenas env plans arenas index tr = ((None, index'), arenas', tr')" "index_ok all index arenas"
    "set plans \<subseteq> set all"
  shows "index_ok all index' arenas' \<and> (\<forall>numa. map_of index numa \<noteq> None \<longrightarrow> map_of index' numa \<noteq> None)
    \<and> (\<forall>(numa, used)\<in>set plans. used \<noteq> 0 \<longrightarrow> map_of index' numa \<noteq> None)"
  using assms
proof (induction plans arbitrary: arenas index tr)
  case (Cons p plans)
  obtain numa used where p: "p = (numa, used)" by force
  show ?case
  proof (cases "used = 0")
    case True
    then show ?thesis using Cons p by auto
  next
    case False
    obtain al tr1 where al: "allocate_hugetlb_arena env used numa tr = (Some al, tr1)" "hl_ptr al \<noteq> 0"
      using Cons.prems(1) p False by (auto split: prod.splits option.splits if_splits)
    let ?a = "\<lparr>ha_ptr = hl_ptr al, ha_mapped_size = hl_mapped_size al, ha_used_size = used,
      ha_page_size = hl_page_size al, ha_next_offset = 0, ha_affinity = numa\<rparr>"
    have rest: "allocate_arenas env plans (arenas @ [?a]) (alist_put numa (length arenas) index) tr1 = ((None, index'), arenas', tr')"
      using Cons.prems(1) p False al by simp
    have "fresh_arena all numa ?a"
      using arena_mapped_ge [OF al(1)] Cons.prems(3) p by (simp add: fresh_arena_def)
    then have ok: "index_ok all (alist_put numa (length arenas) index) (arenas @ [?a])"
      using Cons.prems(2) by (auto simp: index_ok_def nth_append less_Suc_eq)
    from Cons.IH [OF rest ok] Cons.prems(3) show ?thesis using p by auto
  qed
qed auto

definition arena_inv :: "ExternalMap \<Rightarrow> (int \<times> nat) list \<Rightarrow> RegionMap \<Rightarrow> RegionMap \<Rightarrow> HugepageArena list \<Rightarrow> bool" where
  "arena_inv ext index before rest arenas \<longleftrightarrow>
     (\<forall>numa. pooled_bytes ext numa (before @ rest) \<noteq> 0 \<longrightarrow> map_of index numa \<noteq> None)
     \<and> (\<forall>numa i. map_of index numa = Some i \<longrightarrow> i < length arenas \<and> ha_affinity (arenas ! i) = numa
          \<and> unat (ha_next_offset (arenas ! i)) = pooled_bytes ext numa before
          \<and> unat (ha_used_size (arenas ! i)) = pooled_bytes ext numa (before @ rest)
          \<and> ha_used_size (arenas ! i) \<le> ha_mapped_size (arenas ! i))"

lemma lookup0_member: "distinct (map fst xs) \<Longrightarrow> (k, v) \<in> set xs \<Longrightarrow> lookup0 xs k = v"
  by (simp add: lookup0_def)

lemma arenas_established:
  assumes "bytes_by_numa ext mrs [] = Inr totals"
    "allocate_arenas env (std_sort plan_less totals) arenas [] tr = ((None, index), arenas', tr')"
  shows "arena_inv ext index [] mrs arenas'" "\<forall>p\<in>set mrs. pooled ext p \<longrightarrow> mr_ttl_size (snd p) \<noteq> 0"
proof -
  have t: "distinct (map fst totals)" "\<And>numa. unat (lookup0 totals numa) = pooled_bytes ext numa mrs"
    "\<forall>p\<in>set mrs. pooled ext p \<longrightarrow> mr_ttl_size (snd p) \<noteq> 0"
    using bytes_by_numa_totals [OF assms(1)] by (auto simp: lookup0_def)
  show "\<forall>p\<in>set mrs. pooled ext p \<longrightarrow> mr_ttl_size (snd p) \<noteq> 0" using t(3) .
  have idx: "index_ok totals index arenas'"
    and found: "\<And>numa used. (numa, used) \<in> set totals \<Longrightarrow> used \<noteq> 0 \<Longrightarrow> map_of index numa \<noteq> None"
    using allocate_arenas_index [OF assms(2), of totals] by (auto simp: index_ok_def set_std_sort)
  have "map_of index numa \<noteq> None" if "pooled_bytes ext numa mrs \<noteq> 0" for numa
  proof -
    have "lookup0 totals numa \<noteq> 0" using t(2) [of numa] that by auto
    then obtain u where "map_of totals numa = Some u" "u \<noteq> 0" by (auto simp: lookup0_def split: option.splits)
    then show ?thesis using found [OF map_of_SomeD] by blast
  qed
  moreover have "unat (ha_used_size a) = pooled_bytes ext numa mrs" if "fresh_arena totals numa a" for numa a
    using that lookup0_member [OF t(1)] t(2) [of numa] by (auto simp: fresh_arena_def)
  ultimately show "arena_inv ext index [] mrs arenas'"
    using idx by (auto simp: arena_inv_def index_ok_def fresh_arena_def)
qed

lemma carve_pooled:
  assumes inv: "arena_inv ext index before ((name, mr) # rest) arenas" and pool: "pooled ext (name, mr)"
    and nz: "mr_ttl_size mr \<noteq> 0"
  obtains i where "i < length arenas" "map_of index (numa_of mr) = Some i" "ha_affinity (arenas ! i) = numa_of mr"
    "carve index arenas mr =
      (Inr ((base_region mr)\<lparr>ar_ptr := ha_ptr (arenas ! i) + of_nat (pooled_bytes ext (numa_of mr) before), ar_deallocator := D_NONE\<rparr>),
       arenas[i := (arenas ! i)\<lparr>ha_next_offset := ha_next_offset (arenas ! i) + mr_ttl_size mr\<rparr>])"
    "pooled_bytes ext (numa_of mr) before + unat (mr_ttl_size mr) \<le> unat (ha_used_size (arenas ! i))"
    "unat (ha_next_offset (arenas ! i) + mr_ttl_size mr) = pooled_bytes ext (numa_of mr) (before @ [(name, mr)])"
proof -
  let ?n = "numa_of mr" and ?t = "mr_ttl_size mr"
  have pos: "unat ?t \<noteq> 0" using nz by (simp add: unat_eq_0)
  then have "pooled_bytes ext ?n (before @ (name, mr) # rest) \<noteq> 0" using pool by simp
  then have "map_of index ?n \<noteq> None" using inv unfolding arena_inv_def by blast
  then obtain i where i: "map_of index ?n = Some i" by blast
  let ?a = "arenas ! i"
  have a: "i < length arenas" "ha_affinity ?a = ?n" "unat (ha_next_offset ?a) = pooled_bytes ext ?n before"
    "unat (ha_used_size ?a) = pooled_bytes ext ?n before + (unat ?t + pooled_bytes ext ?n rest)"
    using inv i pool by (auto simp: arena_inv_def)
  have le: "ha_next_offset ?a \<le> ha_used_size ?a" using a by (simp add: word_le_nat_alt)
  then have "?t \<le> ha_used_size ?a - ha_next_offset ?a" using a by (simp add: word_le_nat_alt unat_sub)
  then have c: "carve index arenas mr =
      (Inr ((base_region mr)\<lparr>ar_ptr := ha_ptr ?a + of_nat (pooled_bytes ext ?n before), ar_deallocator := D_NONE\<rparr>),
       arenas[i := ?a\<lparr>ha_next_offset := ha_next_offset ?a + ?t\<rparr>])"
    using i le a(3) by (simp add: carve_def Let_def not_less flip: a(3))
  have "unat (ha_next_offset ?a) + unat ?t < 2 ^ 64" using a u64_bound [of "ha_used_size ?a"] by linarith
  then have "unat (ha_next_offset ?a + ?t) = pooled_bytes ext ?n (before @ [(name, mr)])"
    using a(3) pool unat_add_no_wrap by simp
  then show thesis using that [OF a(1) i a(2) c] a(4) by simp
qed

lemma arena_inv_step:
  assumes inv: "arena_inv ext index before ((name, mr) # rest) arenas" and pool: "pooled ext (name, mr)"
    and i: "map_of index (numa_of mr) = Some i"
    and off: "unat (ha_next_offset (arenas ! i) + mr_ttl_size mr) = pooled_bytes ext (numa_of mr) (before @ [(name, mr)])"
  shows "arena_inv ext index (before @ [(name, mr)]) rest
    (arenas[i := (arenas ! i)\<lparr>ha_next_offset := ha_next_offset (arenas ! i) + mr_ttl_size mr\<rparr>])"
proof -
  let ?a = "(arenas ! i)\<lparr>ha_next_offset := ha_next_offset (arenas ! i) + mr_ttl_size mr\<rparr>"
  have whole: "pooled_bytes ext n ((before @ [(name, mr)]) @ rest) = pooled_bytes ext n (before @ (name, mr) # rest)" for n
    by simp
  have "j < length (arenas[i := ?a]) \<and> ha_affinity (arenas[i := ?a] ! j) = n
      \<and> unat (ha_next_offset (arenas[i := ?a] ! j)) = pooled_bytes ext n (before @ [(name, mr)])
      \<and> unat (ha_used_size (arenas[i := ?a] ! j)) = pooled_bytes ext n (before @ (name, mr) # rest)
      \<and> ha_used_size (arenas[i := ?a] ! j) \<le> ha_mapped_size (arenas[i := ?a] ! j)" if "map_of index n = Some j" for n j
  proof -
    have j: "j < length arenas" "ha_affinity (arenas ! j) = n"
      "unat (ha_next_offset (arenas ! j)) = pooled_bytes ext n before"
      "unat (ha_used_size (arenas ! j)) = pooled_bytes ext n (before @ (name, mr) # rest)"
      "ha_used_size (arenas ! j) \<le> ha_mapped_size (arenas ! j)"
      using inv that unfolding arena_inv_def by blast+
    have aff: "ha_affinity (arenas ! i) = numa_of mr" using inv i unfolding arena_inv_def by blast
    show ?thesis
    proof (cases "j = i")
      case True
      then have "n = numa_of mr" using j(2) aff by simp
      then show ?thesis using j off True by simp
    next
      case False
      then have "n \<noteq> numa_of mr" using that i by auto
      then show ?thesis using j False by simp
    qed
  qed
  then show ?thesis using inv unfolding arena_inv_def whole by blast
qed

text \<open>Regions that are not carved leave the arenas alone.\<close>

lemma allocate_region_arenas:
  assumes "allocate_region env engine ext index name mr arenas tr = (res, arenas', tr')"
    "\<not> (ae_pool_huge env \<and> pooled ext (name, mr))"
  shows "arenas' = arenas \<and> res \<noteq> Inl ArenaMissing \<and> res \<noteq> Inl ArenaOverflow"
  using assms
  by (auto simp: allocate_region_def pooled_def use_external_def null_checked_def alloc_pinned_def alloc_device_def
    split: option.splits if_splits MemoryKind.splits prod.splits sum.splits bool.splits)

lemma arena_inv_skip:
  assumes "arena_inv ext index before ((name, mr) # rest) arenas" "\<not> pooled ext (name, mr)"
  shows "arena_inv ext index (before @ [(name, mr)]) rest arenas"
  using assms by (simp add: arena_inv_def)

lemma allocate_region_pooled:
  assumes "ae_pool_huge env" "pooled ext (name, mr)"
  shows "allocate_region env engine ext index name mr arenas tr =
    (null_checked (fst (carve index arenas mr)), snd (carve index arenas mr), tr)"
  using assms by (auto simp: allocate_region_def pooled_def split: prod.splits)

lemma allocate_region_step:
  assumes r: "allocate_region env engine ext index name mr arenas tr = (res, arenas', tr')"
    and pinv: "ae_pool_huge env \<longrightarrow> arena_inv ext index before ((name, mr) # rest) arenas"
    and pnz: "ae_pool_huge env \<longrightarrow> pooled ext (name, mr) \<longrightarrow> mr_ttl_size mr \<noteq> 0"
  shows "res \<noteq> Inl ArenaMissing \<and> res \<noteq> Inl ArenaOverflow
    \<and> (ae_pool_huge env \<longrightarrow> arena_inv ext index (before @ [(name, mr)]) rest arenas')"
proof (cases "ae_pool_huge env \<and> pooled ext (name, mr)")
  case True
  then have inv: "arena_inv ext index before ((name, mr) # rest) arenas" and nz: "mr_ttl_size mr \<noteq> 0"
    using pinv pnz by auto
  obtain i where i: "map_of index (numa_of mr) = Some i"
    "carve index arenas mr =
      (Inr ((base_region mr)\<lparr>ar_ptr := ha_ptr (arenas ! i) + of_nat (pooled_bytes ext (numa_of mr) before), ar_deallocator := D_NONE\<rparr>),
       arenas[i := (arenas ! i)\<lparr>ha_next_offset := ha_next_offset (arenas ! i) + mr_ttl_size mr\<rparr>])"
    "unat (ha_next_offset (arenas ! i) + mr_ttl_size mr) = pooled_bytes ext (numa_of mr) (before @ [(name, mr)])"
    using carve_pooled [OF inv _ nz] True by metis
  have "arena_inv ext index (before @ [(name, mr)]) rest arenas'"
    using arena_inv_step [OF inv _ i(1,3)] True r i(2) by (simp add: allocate_region_pooled)
  then show ?thesis using True r i(2) by (auto simp: allocate_region_pooled null_checked_def split: if_splits)
next
  case False
  then show ?thesis using allocate_region_arenas [OF r False] pinv arena_inv_skip by blast
qed

lemma allocate_loop_Cons:
  assumes "allocate_loop env engine ext index ((name, mr) # mrs) regions arenas tr = (e, regions', arenas', tr')"
  obtains (skip) "mr_kind mr = NULL_MR" "allocate_loop env engine ext index mrs regions arenas tr = (e, regions', arenas', tr')"
  | (fails) err where "allocate_region env engine ext index name mr arenas tr = (Inl err, arenas', tr')" "e = Some err" "regions' = regions"
  | (placed) ar arenas1 tr1 where "allocate_region env engine ext index name mr arenas tr = (Inr ar, arenas1, tr1)"
      "allocate_loop env engine ext index mrs (alist_put (mr_name mr) ar regions) arenas1 tr1 = (e, regions', arenas', tr')"
  using assms by (auto split: if_splits prod.splits sum.splits)

lemma allocate_loop_arena:
  assumes "allocate_loop env engine ext index mrs regions arenas tr = (e, regions', arenas', tr')"
    "ae_pool_huge env \<longrightarrow> arena_inv ext index before (mrs @ rest) arenas"
    "ae_pool_huge env \<longrightarrow> (\<forall>p\<in>set mrs. pooled ext p \<longrightarrow> mr_ttl_size (snd p) \<noteq> 0)"
  shows "e \<noteq> Some ArenaMissing \<and> e \<noteq> Some ArenaOverflow
    \<and> (e = None \<and> ae_pool_huge env \<longrightarrow> arena_inv ext index (before @ mrs) rest arenas')"
  using assms
proof (induction mrs arbitrary: regions arenas tr before)
  case (Cons p mrs)
  obtain name mr where p: "p = (name, mr)" by force
  from Cons.prems(1) [unfolded p] show ?case
  proof (cases rule: allocate_loop_Cons)
    case skip
    then have "\<not> pooled ext (name, mr)" by (simp add: pooled_def)
    then show ?thesis using Cons.IH [OF skip(2), of "before @ [p]"] Cons.prems(2,3) p arena_inv_skip by auto
  next
    case (fails err)
    then show ?thesis using allocate_region_step [OF fails(1), of before "mrs @ rest"] Cons.prems(2,3) p by auto
  next
    case (placed ar arenas1 tr1)
    then show ?thesis
      using allocate_region_step [OF placed(1), of before "mrs @ rest"] Cons.IH [OF placed(2), of "before @ [p]"] Cons.prems(2,3) p
      by auto
  qed
qed simp

section \<open>Where the regions lie\<close>

definition arena_block :: "HugepageArena \<Rightarrow> HugepageArena" where
  "arena_block a = a\<lparr>ha_next_offset := 0\<rparr>"

lemma arena_block_eq:
  assumes "map arena_block arenas' = map arena_block arenas" "i < length arenas"
  shows "i < length arenas'" "ha_ptr (arenas' ! i) = ha_ptr (arenas ! i)" "ha_mapped_size (arenas' ! i) = ha_mapped_size (arenas ! i)"
    "ha_used_size (arenas' ! i) = ha_used_size (arenas ! i)" "ha_affinity (arenas' ! i) = ha_affinity (arenas ! i)"
proof -
  have "length arenas' = length arenas" using assms(1) by (metis length_map)
  then show len: "i < length arenas'" using assms(2) by simp
  have "arena_block (arenas' ! i) = arena_block (arenas ! i)" using assms len by (metis nth_map)
  then show "ha_ptr (arenas' ! i) = ha_ptr (arenas ! i)" "ha_mapped_size (arenas' ! i) = ha_mapped_size (arenas ! i)"
    "ha_used_size (arenas' ! i) = ha_used_size (arenas ! i)" "ha_affinity (arenas' ! i) = ha_affinity (arenas ! i)"
    by (cases "arenas' ! i"; cases "arenas ! i"; simp add: arena_block_def)+
qed

lemma carve_blocks: "carve index arenas mr = (r, arenas') \<Longrightarrow> map arena_block arenas' = map arena_block arenas"
  by (auto simp: carve_def Let_def arena_block_def map_update split: option.splits if_splits)
    (metis (no_types, lifting) HugepageArena.unfold_congs(5) arena_block_def list_update_id map_update)

lemma allocate_region_blocks:
  "allocate_region env engine ext index name mr arenas tr = (res, arenas', tr') \<Longrightarrow> map arena_block arenas' = map arena_block arenas"
  by (auto simp: allocate_region_def dest: carve_blocks split: option.splits if_splits MemoryKind.splits prod.splits)

lemma allocate_loop_keeps:
  assumes "allocate_loop env engine ext index mrs regions arenas tr = (e, regions', arenas', tr')"
  shows "map arena_block arenas' = map arena_block arenas
    \<and> (\<forall>k. k \<notin> (\<lambda>p. mr_name (snd p)) ` set mrs \<longrightarrow> map_of regions' k = map_of regions k)"
  using assms
proof (induction mrs arbitrary: regions arenas tr)
  case (Cons p mrs)
  obtain name mr where p: "p = (name, mr)" by force
  from Cons.prems [unfolded p] show ?case
  proof (cases rule: allocate_loop_Cons)
    case skip
    then show ?thesis using Cons.IH [OF skip(2)] by auto
  next
    case (fails err)
    then show ?thesis using allocate_region_blocks by auto
  next
    case (placed ar arenas1 tr1)
    then show ?thesis using Cons.IH [OF placed(2)] allocate_region_blocks [OF placed(1)] p by auto
  qed
qed simp

lemma allocate_loop_append:
  "allocate_loop env engine ext index (xs @ ys) regions arenas tr =
    (case allocate_loop env engine ext index xs regions arenas tr of
       (Some e, r) \<Rightarrow> (Some e, r)
     | (None, regions', arenas', tr') \<Rightarrow> allocate_loop env engine ext index ys regions' arenas' tr')"
  by (induction xs arbitrary: regions arenas tr) (auto split: prod.splits sum.splits)

lemma allocate_loop_placed:
  assumes loop: "allocate_loop env engine ext index (pre @ (name, mr) # post) regions arenas tr = (None, regions', arenas', tr')"
    and pool: "ae_pool_huge env" "pooled ext (name, mr)"
    and inv: "arena_inv ext index [] (pre @ (name, mr) # post) arenas"
    and nz: "\<forall>p\<in>set (pre @ (name, mr) # post). pooled ext p \<longrightarrow> mr_ttl_size (snd p) \<noteq> 0"
    and dist: "mr_name mr \<notin> (\<lambda>p. mr_name (snd p)) ` set post"
  shows "\<exists>a\<in>set arenas'. \<exists>ar. map_of regions' (mr_name mr) = Some ar \<and> ha_affinity a = numa_of mr
    \<and> ar_ptr ar = ha_ptr a + of_nat (pooled_bytes ext (numa_of mr) pre)
    \<and> pooled_bytes ext (numa_of mr) pre + unat (mr_ttl_size mr) \<le> unat (ha_used_size a)
    \<and> ha_used_size a \<le> ha_mapped_size a"
proof -
  obtain regions1 arenas1 tr1 where pre: "allocate_loop env engine ext index pre regions arenas tr = (None, regions1, arenas1, tr1)"
    and rest: "allocate_loop env engine ext index ((name, mr) # post) regions1 arenas1 tr1 = (None, regions', arenas', tr')"
    using loop by (auto simp: allocate_loop_append split: prod.splits option.splits)
  have inv1: "arena_inv ext index pre ((name, mr) # post) arenas1"
    using allocate_loop_arena [OF pre, of "[]" "(name, mr) # post"] pool inv nz by auto
  have nz1: "mr_ttl_size mr \<noteq> 0" using nz pool by auto
  obtain i where i: "i < length arenas1" "map_of index (numa_of mr) = Some i" "ha_affinity (arenas1 ! i) = numa_of mr"
    "carve index arenas1 mr =
      (Inr ((base_region mr)\<lparr>ar_ptr := ha_ptr (arenas1 ! i) + of_nat (pooled_bytes ext (numa_of mr) pre), ar_deallocator := D_NONE\<rparr>),
       arenas1[i := (arenas1 ! i)\<lparr>ha_next_offset := ha_next_offset (arenas1 ! i) + mr_ttl_size mr\<rparr>])"
    "pooled_bytes ext (numa_of mr) pre + unat (mr_ttl_size mr) \<le> unat (ha_used_size (arenas1 ! i))"
    using carve_pooled [OF inv1 pool(2) nz1] by metis
  have mapped: "ha_used_size (arenas1 ! i) \<le> ha_mapped_size (arenas1 ! i)"
    using inv1 i(2) unfolding arena_inv_def by blast
  have "map arena_block arenas' = map arena_block arenas1" using allocate_loop_keeps [OF rest] by blast
  note same = arena_block_eq [OF this i(1)]
  from rest show ?thesis
  proof (cases rule: allocate_loop_Cons)
    case skip
    then show ?thesis using pool by (simp add: pooled_def)
  next
    case (fails err)
    then show ?thesis by simp
  next
    case (placed ar arenas2 tr2)
    then have ar: "ar_ptr ar = ha_ptr (arenas1 ! i) + of_nat (pooled_bytes ext (numa_of mr) pre)"
      using i(4) pool by (auto simp: allocate_region_pooled null_checked_def split: if_splits)
    have "map_of regions' (mr_name mr) = Some ar" using allocate_loop_keeps [OF placed(2)] dist by simp
    then show ?thesis using ar same i mapped by (metis nth_mem)
  qed
qed

lemma allocate_memory_regions_cases:
  assumes "allocate_memory_regions env engine ext mrs st = (e, st', tr)"
  obtains (early) err where "e = Some err" "st' = st" "tr = []" "err \<in> {SizeOverflow, AlignedSizeOverflow, ZeroHugeRegion, ArenaSizeOverflow}"
  | (arenas) mrs' plans index arenas where "size_regions mrs = Inr mrs'" "arena_plans env ext mrs' = Inr plans"
      "allocate_arenas (ae_huge env) plans (ms_arenas st) [] [] = ((Some ArenaUnavailable, index), arenas, tr)"
      "e = Some ArenaUnavailable" "st' = st\<lparr>ms_arenas := arenas\<rparr>"
  | (regions) mrs' plans index arenas tr1 where "size_regions mrs = Inr mrs'" "arena_plans env ext mrs' = Inr plans"
      "allocate_arenas (ae_huge env) plans (ms_arenas st) [] [] = ((None, index), arenas, tr1)"
      "allocate_loop env engine ext index mrs' (ms_regions st) arenas tr1 = (e, ms_regions st', ms_arenas st', tr)"
proof -
  have size_err: "err \<in> {SizeOverflow, AlignedSizeOverflow}" if "size_regions ms = Inl err" for ms err
    using that by (induction ms rule: size_regions.induct) (auto simp: size_region_def split: sum.splits if_splits option.splits)
  have plan_err: "err \<in> {ZeroHugeRegion, ArenaSizeOverflow}" if "bytes_by_numa ext ms ts = Inl err" for ms ts err
    using that by (induction ext ms ts rule: bytes_by_numa.induct) (auto simp: Let_def split: if_splits)
  have arena_err: "err = ArenaUnavailable" if "allocate_arenas h plans as ix t = ((Some err, ix'), as', t')" for h plans as ix t err ix' as' t'
    using that by (induction h plans as ix t rule: allocate_arenas.induct) (auto split: if_splits prod.splits option.splits)
  show thesis
  proof (cases "size_regions mrs")
    case (Inl err)
    then show thesis using assms size_err early by (auto simp: allocate_memory_regions_def)
  next
    case sz: (Inr mrs')
    show thesis
    proof (cases "arena_plans env ext mrs'")
      case (Inl err)
      then have "err \<in> {ZeroHugeRegion, ArenaSizeOverflow}"
        using plan_err by (auto simp: arena_plans_def split: if_splits sum.splits)
      then show thesis using assms sz Inl early by (auto simp: allocate_memory_regions_def)
    next
      case pl: (Inr plans)
      obtain e1 index arenas tr1 where aa: "allocate_arenas (ae_huge env) plans (ms_arenas st) [] [] = ((e1, index), arenas, tr1)"
        by (metis prod_cases3 surj_pair)
      show thesis
      proof (cases e1)
        case None
        obtain e2 rs as tr2 where lp: "allocate_loop env engine ext index mrs' (ms_regions st) arenas tr1 = (e2, rs, as, tr2)"
          by (metis prod_cases4)
        have "allocate_memory_regions env engine ext mrs st = (e2, \<lparr>ms_regions = rs, ms_arenas = as\<rparr>, tr2)"
          using sz pl aa None lp by (simp add: allocate_memory_regions_def)
        then have lp': "allocate_loop env engine ext index mrs' (ms_regions st) arenas tr1 = (e, ms_regions st', ms_arenas st', tr)"
          using assms lp by auto
        show thesis using regions [OF sz pl _ lp'] aa None by blast
      next
        case (Some err)
        then have "err = ArenaUnavailable" using arena_err aa by blast
        moreover from this have "e = Some ArenaUnavailable" "st' = st\<lparr>ms_arenas := arenas\<rparr>" "tr = tr1"
          using assms sz pl aa Some by (auto simp: allocate_memory_regions_def)
        ultimately show thesis using arenas [OF sz pl _] aa Some by blast
      qed
    qed
  qed
qed

section \<open>Every acquired block is held or released\<close>

definition region_resource :: "AllocRegion \<Rightarrow> resource multiset" where
  "region_resource ar =
     (case ar_deallocator ar of
        D_FREE \<Rightarrow> {#HostBlock (ar_ptr ar)#}
      | D_CUDA_HOST \<Rightarrow> {#PinnedBlock (ar_ptr ar)#}
      | D_CUDA_DEVICE \<Rightarrow> {#DeviceBlock (ar_ptr ar)#}
      | D_MUNMAP \<Rightarrow> {#Mapping (ar_ptr ar) (ar_mapped_size ar)#}
      | D_EAL \<Rightarrow> {#} | D_NONE \<Rightarrow> {#})"

definition arena_resource :: "HugepageArena \<Rightarrow> resource multiset" where
  "arena_resource a = {#Mapping (ha_ptr a) (ha_mapped_size a)#}"

definition regions_held :: "(string \<times> AllocRegion) list \<Rightarrow> resource multiset" where
  "regions_held regions = sum_list (map (\<lambda>p. region_resource (snd p)) regions)"

definition arenas_held :: "HugepageArena list \<Rightarrow> resource multiset" where
  "arenas_held arenas = sum_list (map arena_resource arenas)"

text \<open>Successful allocators do not return null.\<close>

definition alloc_env_ok :: "AllocEnv \<Rightarrow> bool" where
  "alloc_env_ok env \<longleftrightarrow> (\<forall>numa size flags. he_mmap (ae_huge env) numa size flags \<noteq> Some 0)
     \<and> (\<forall>name. ae_memalign env name \<noteq> Some 0 \<and> cc_host_alloc (ae_cuda env name) \<noteq> Some 0
          \<and> (\<forall>size. cc_mem_alloc (ae_cuda env name) size \<noteq> Some 0))"

text \<open>What an allocation that ends with \<open>e\<close> may leave behind: one device block, when the previous CUDA context cannot be
  restored and the context of the block cannot be made current again to free it.\<close>

definition device_lost :: "AllocEnv \<Rightarrow> alloc_error option \<Rightarrow> resource multiset \<Rightarrow> bool" where
  "device_lost env e lost \<longleftrightarrow> lost = {#}
     \<or> (\<exists>ptr name. lost = {#DeviceBlock ptr#} \<and> e = Some DeviceAllocFailed \<and> \<not> cc_reactivate (ae_cuda env name))"

definition live :: "AllocRegion \<Rightarrow> bool" where
  "live ar \<longleftrightarrow> ar_ptr ar \<noteq> 0 \<or> region_resource ar = {#}"

lemma base_region_resource: "region_resource (base_region mr) = {#}" "ar_ptr (base_region mr) = 0"
  "ar_deallocator (base_region mr) = D_NONE"
  by (simp_all add: region_resource_def base_region_def AllocRegion_init_def)

lemma arena_ptr_nonnull:
  assumes "allocate_hugetlb_arena h bytes numa tr = (Some al, tr')" "\<forall>numa size flags. he_mmap h numa size flags \<noteq> Some 0"
  shows "hl_ptr al \<noteq> 0"
proof -
  have "map_option (allocation_of h numa) (find (usable h numa) (discover_hugepage_candidates h bytes numa)) = Some al"
    using arena_loop_find [of h numa _ tr] assms by (metis allocate_hugetlb_arena_def fst_conv)
  then obtain c where "usable h numa c" "al = allocation_of h numa c" using find_Some_member by fastforce
  then show ?thesis using assms(2) by (auto simp: usable_def mapped_at_def allocation_of_def split: option.splits)
qed

lemma alloc_pinned_balance:
  assumes "alloc_pinned cu mr tr = (res, tr')"
  shows "acquired tr' + released tr = released tr' + acquired tr + (case res of Inl _ \<Rightarrow> {#} | Inr ar \<Rightarrow> region_resource ar)
    \<and> (\<forall>ar. res = Inr ar \<longrightarrow> cc_host_alloc cu = Some (ar_ptr ar))"
  using assms by (auto simp: alloc_pinned_def region_resource_def split: if_splits option.splits)

lemma alloc_device_balance:
  assumes "alloc_device cu mr tr = (res, tr')"
  shows "\<exists>lost. acquired tr' + released tr = released tr' + acquired tr + (case res of Inl _ \<Rightarrow> {#} | Inr ar \<Rightarrow> region_resource ar) + lost
    \<and> (lost = {#} \<or> (\<exists>ptr. lost = {#DeviceBlock ptr#}) \<and> res = Inl DeviceAllocFailed \<and> \<not> cc_reactivate cu)
    \<and> (\<forall>ar. res = Inr ar \<longrightarrow> (\<exists>size. cc_mem_alloc cu size = Some (ar_ptr ar)))"
  using assms by (auto simp: alloc_device_def region_resource_def split: if_splits option.splits bool.splits)

lemma alloc_huge_balance:
  assumes "alloc_huge h mr tr = (ar, tr')" "\<forall>numa size flags. he_mmap h numa size flags \<noteq> Some 0"
  shows "acquired tr' + released tr = released tr' + acquired tr + region_resource ar \<and> live ar"
proof -
  obtain res t where al: "allocate_hugetlb_arena h (mr_ttl_size mr) (numa_of mr) tr = (res, t)" by force
  note bal = arena_loop_balance [OF al [unfolded allocate_hugetlb_arena_def]]
  show ?thesis
  proof (cases res)
    case None
    then show ?thesis using assms(1) al bal by (auto simp: alloc_huge_def base_region_resource live_def)
  next
    case (Some a)
    then have "hl_ptr a \<noteq> 0" using arena_ptr_nonnull al assms(2) by blast
    then show ?thesis using assms(1) al bal Some by (auto simp: alloc_huge_def region_resource_def live_def)
  qed
qed

lemma null_checked_Inr: "null_checked r = Inr ar \<longleftrightarrow> r = Inr ar \<and> ar_ptr ar \<noteq> 0"
  by (auto simp: null_checked_def split: sum.splits)

lemma null_checked_resource:
  assumes "\<And>ar. r = Inr ar \<Longrightarrow> live ar"
  shows "(case null_checked r of Inl _ \<Rightarrow> {#} | Inr ar \<Rightarrow> region_resource ar) = (case r of Inl _ \<Rightarrow> {#} | Inr ar \<Rightarrow> region_resource ar)"
  using assms by (auto simp: null_checked_def live_def split: sum.splits)

lemma allocate_region_balance_host:
  assumes r: "allocate_region env engine ext index name mr arenas tr = (res, arenas', tr')" and ok: "alloc_env_ok env"
    and dev: "mr_kind mr \<noteq> DEVICE \<or> map_of ext name \<noteq> None \<or> \<not> mr_owned mr"
  shows "acquired tr' + released tr = released tr' + acquired tr + (case res of Inl _ \<Rightarrow> {#} | Inr ar \<Rightarrow> region_resource ar)
    \<and> (\<forall>ar. res = Inr ar \<longrightarrow> live ar)"
proof (cases "map_of ext name = None \<and> mr_owned mr")
  case False
  then show ?thesis
    using r by (auto simp: allocate_region_def use_external_def region_resource_def live_def split: option.splits if_splits)
next
  case True
  consider (host) "mr_kind mr = MemoryKind.HOST" | (pinned) "mr_kind mr = HOST_PINNED" | (huge) "mr_kind mr = HUGE"
    | (device) "mr_kind mr = DEVICE" | (other) "mr_kind mr = MemoryKind.INVALID \<or> mr_kind mr = NULL_MR"
    by (cases "mr_kind mr") auto
  then show ?thesis
  proof cases
    case host
    then show ?thesis using r True ok
      by (auto simp: allocate_region_def alloc_env_ok_def null_checked_def region_resource_def live_def split: option.splits if_splits)
  next
    case pinned
    obtain q t where q: "alloc_pinned (ae_cuda env name) mr tr = (q, t)" by force
    have "live ar" if "q = Inr ar" for ar
      using alloc_pinned_balance [OF q] that ok by (auto simp: live_def alloc_env_ok_def)
    then show ?thesis
      using r True pinned q alloc_pinned_balance [OF q] null_checked_resource [of q]
      by (auto simp: allocate_region_def null_checked_Inr)
  next
    case huge
    show ?thesis
    proof (cases "ae_pool_huge env")
      case pool: True
      have "live ar \<and> region_resource ar = {#}" if "fst (carve index arenas mr) = Inr ar" for ar
        using that by (auto simp: carve_def Let_def live_def region_resource_def split: option.splits if_splits)
      then show ?thesis
        using r True huge pool null_checked_resource [of "fst (carve index arenas mr)"]
        by (cases "carve index arenas mr") (auto simp: allocate_region_def null_checked_Inr split: sum.splits)
    next
      case False
      obtain ar t where q: "alloc_huge (ae_huge env) mr tr = (ar, t)" by force
      have "\<forall>numa size flags. he_mmap (ae_huge env) numa size flags \<noteq> Some 0" using ok by (simp add: alloc_env_ok_def)
      note bal = alloc_huge_balance [OF q this]
      then show ?thesis
        using r True huge False q null_checked_resource [of "Inr ar"]
        by (auto simp: allocate_region_def null_checked_Inr)
    qed
  next
    case device
    then show ?thesis using True dev by simp
  next
    case other
    then show ?thesis using r True by (auto simp: allocate_region_def)
  qed
qed

lemma allocate_region_balance:
  assumes r: "allocate_region env engine ext index name mr arenas tr = (res, arenas', tr')" and ok: "alloc_env_ok env"
  shows "\<exists>lost. acquired tr' + released tr = released tr' + acquired tr + (case res of Inl _ \<Rightarrow> {#} | Inr ar \<Rightarrow> region_resource ar) + lost
    \<and> device_lost env (case res of Inl e \<Rightarrow> Some e | Inr _ \<Rightarrow> None) lost \<and> (\<forall>ar. res = Inr ar \<longrightarrow> live ar)"
proof (cases "mr_kind mr \<noteq> DEVICE \<or> map_of ext name \<noteq> None \<or> \<not> mr_owned mr")
  case True
  then show ?thesis using allocate_region_balance_host [OF r ok] by (intro exI [of _ "{#}"]) (simp add: device_lost_def)
next
  case False
  obtain q t where q: "alloc_device (ae_cuda env name) mr tr = (q, t)" by force
  obtain lost where b: "acquired t + released tr = released t + acquired tr + (case q of Inl _ \<Rightarrow> {#} | Inr ar \<Rightarrow> region_resource ar) + lost"
    "lost = {#} \<or> (\<exists>ptr. lost = {#DeviceBlock ptr#}) \<and> q = Inl DeviceAllocFailed \<and> \<not> cc_reactivate (ae_cuda env name)"
    and l: "\<And>ar. q = Inr ar \<Longrightarrow> \<exists>size. cc_mem_alloc (ae_cuda env name) size = Some (ar_ptr ar)"
    using alloc_device_balance [OF q] by blast
  have live: "live ar" if "q = Inr ar" for ar using l [OF that] ok by (auto simp: live_def alloc_env_ok_def)
  have res: "res = null_checked q" "tr' = t" using r False q by (auto simp: allocate_region_def)
  have "device_lost env (case res of Inl e \<Rightarrow> Some e | Inr _ \<Rightarrow> None) lost"
    using b(2) res(1) by (auto simp: device_lost_def null_checked_def)
  moreover have "\<forall>ar. res = Inr ar \<longrightarrow> live ar" using live res(1) by (simp add: null_checked_Inr)
  ultimately show ?thesis using b(1) res null_checked_resource [OF live] by auto
qed

lemma held_simps [simp]:
  "regions_held [] = {#}" "regions_held (rs @ rs') = regions_held rs + regions_held rs'"
  "regions_held (p # rs) = region_resource (snd p) + regions_held rs"
  "arenas_held [] = {#}" "arenas_held (a # as) = arena_resource a + arenas_held as"
  "arenas_held (as @ as') = arenas_held as + arenas_held as'"
  by (simp_all add: regions_held_def arenas_held_def)

lemma arenas_held_block: "arenas_held (map arena_block as) = arenas_held as"
  by (induction as) (simp_all add: arena_resource_def arena_block_def)

lemma allocate_arenas_balance:
  assumes "allocate_arenas h plans arenas index tr = (ei, arenas', tr')" "\<forall>numa size flags. he_mmap h numa size flags \<noteq> Some 0"
    "\<forall>a\<in>set arenas. ha_ptr a \<noteq> 0"
  shows "acquired tr' + released tr + arenas_held arenas = released tr' + acquired tr + arenas_held arenas'
    \<and> (\<forall>a\<in>set arenas'. ha_ptr a \<noteq> 0)"
  using assms(1,3)
proof (induction plans arbitrary: arenas index tr)
  case (Cons p plans)
  obtain numa used where p: "p = (numa, used)" by force
  obtain res t where al: "allocate_hugetlb_arena h used numa tr = (res, t)" by force
  note bal = arena_loop_balance [OF al [unfolded allocate_hugetlb_arena_def]]
  show ?case
  proof (cases "used = 0")
    case True
    then show ?thesis using Cons p by simp
  next
    case False
    show ?thesis
    proof (cases res)
      case None
      then show ?thesis using Cons.prems p False al bal by auto
    next
      case (Some a)
      then have nn: "hl_ptr a \<noteq> 0" using arena_ptr_nonnull al assms(2) by blast
      let ?a = "\<lparr>ha_ptr = hl_ptr a, ha_mapped_size = hl_mapped_size a, ha_used_size = used,
        ha_page_size = hl_page_size a, ha_next_offset = 0, ha_affinity = numa\<rparr>"
      have "allocate_arenas h plans (arenas @ [?a]) (alist_put numa (length arenas) index) t = (ei, arenas', tr')"
        using Cons.prems(1) p False al Some nn by simp
      from Cons.IH [OF this] have IH: "acquired tr' + released t + arenas_held (arenas @ [?a]) = released tr' + acquired t + arenas_held arenas'"
        "\<forall>a\<in>set arenas'. ha_ptr a \<noteq> 0" using Cons.prems(2) nn by auto
      have "acquired tr' + released tr + arenas_held arenas + (released t + {#Mapping (hl_ptr a) (hl_mapped_size a)#} + acquired tr)
          = released tr' + acquired tr + arenas_held arenas' + (acquired t + released tr)"
        using IH(1) by (simp add: arena_resource_def ac_simps)
      then show ?thesis using bal Some IH(2) by (simp add: ac_simps)
    qed
  qed
qed simp

lemma allocate_loop_balance:
  assumes "allocate_loop env engine ext index mrs regions arenas tr = (e, regions', arenas', tr')" "alloc_env_ok env"
    "distinct (map (\<lambda>p. mr_name (snd p)) mrs)" "(\<lambda>p. mr_name (snd p)) ` set mrs \<inter> fst ` set regions = {}"
    "\<forall>p\<in>set regions. live (snd p)"
  shows "\<exists>lost. acquired tr' + released tr + regions_held regions = released tr' + acquired tr + regions_held regions' + lost
    \<and> device_lost env e lost \<and> (\<forall>p\<in>set regions'. live (snd p))"
  using assms(1,3-)
proof (induction mrs arbitrary: regions arenas tr)
  case (Cons p mrs)
  obtain name mr where p: "p = (name, mr)" by force
  from Cons.prems(1) [unfolded p] show ?case
  proof (cases rule: allocate_loop_Cons)
    case skip
    then show ?thesis using Cons.IH [OF skip(2)] Cons.prems by auto
  next
    case (fails err)
    then show ?thesis using allocate_region_balance [OF fails(1) assms(2)] Cons.prems(4) by auto
  next
    case (placed ar arenas1 tr1)
    have st: "acquired tr1 + released tr = released tr1 + acquired tr + region_resource ar" "live ar"
      using allocate_region_balance [OF placed(1) assms(2)] by (auto simp: device_lost_def)
    have fresh: "mr_name mr \<notin> fst ` set regions" using Cons.prems(3) p by auto
    then have put: "alist_put (mr_name mr) ar regions = regions @ [(mr_name mr, ar)]" by (rule alist_put_fresh)
    have "(\<lambda>p. mr_name (snd p)) ` set mrs \<inter> fst ` set (regions @ [(mr_name mr, ar)]) = {}"
      using Cons.prems(2,3) p by auto
    moreover have "\<forall>p\<in>set (regions @ [(mr_name mr, ar)]). live (snd p)" using Cons.prems(4) st by auto
    ultimately obtain lost where IH: "acquired tr' + released tr1 + regions_held (regions @ [(mr_name mr, ar)])
        = released tr' + acquired tr1 + regions_held regions' + lost" "device_lost env e lost" "\<forall>p\<in>set regions'. live (snd p)"
      using Cons.IH [OF placed(2) [unfolded put]] Cons.prems(2) by auto
    have "acquired tr' + released tr + regions_held regions + (released tr1 + acquired tr + region_resource ar)
        = released tr' + acquired tr + regions_held regions' + lost + (acquired tr1 + released tr)"
      using IH(1) by (simp add: ac_simps)
    then show ?thesis using st IH(2,3) by (intro exI [of _ lost]) (simp add: ac_simps)
  qed
qed (auto simp: device_lost_def)

lemma allocation_balance:
  assumes "allocate_memory_regions env engine ext mrs \<lparr>ms_regions = [], ms_arenas = []\<rparr> = (e, st, tr)" "alloc_env_ok env"
    "distinct (map (\<lambda>p. mr_name (snd p)) mrs)"
  shows "\<exists>lost. acquired tr = released tr + regions_held (ms_regions st) + arenas_held (ms_arenas st) + lost \<and> device_lost env e lost
    \<and> (\<forall>p\<in>set (ms_regions st). live (snd p)) \<and> (\<forall>a\<in>set (ms_arenas st). ha_ptr a \<noteq> 0)"
proof -
  have mm: "\<forall>numa size flags. he_mmap (ae_huge env) numa size flags \<noteq> Some 0" using assms(2) by (simp add: alloc_env_ok_def)
  from assms(1) show ?thesis
  proof (cases rule: allocate_memory_regions_cases)
    case (early err)
    then show ?thesis by (intro exI [of _ "{#}"]) (simp add: device_lost_def)
  next
    case (arenas mrs' plans index arenas)
    then show ?thesis using allocate_arenas_balance [OF arenas(3) mm] by (intro exI [of _ "{#}"]) (simp add: device_lost_def)
  next
    case (regions mrs' plans index arenas tr1)
    have "map (\<lambda>p. mr_name (snd p)) mrs' = map (\<lambda>p. mr_name (snd p)) mrs"
      using arg_cong [OF size_regions_names [OF regions(1)], of "map snd"] by (simp add: comp_def)
    then have d: "distinct (map (\<lambda>p. mr_name (snd p)) mrs')" using assms(3) by simp
    have a: "acquired tr1 = released tr1 + arenas_held arenas" "\<forall>a\<in>set arenas. ha_ptr a \<noteq> 0"
      using allocate_arenas_balance [OF regions(3) mm] by auto
    obtain lost where l: "acquired tr + released tr1 = released tr + acquired tr1 + regions_held (ms_regions st) + lost"
      "\<forall>p\<in>set (ms_regions st). live (snd p)" "device_lost env e lost"
      using allocate_loop_balance [OF regions(4) assms(2) d] by auto
    have blocks: "map arena_block (ms_arenas st) = map arena_block arenas" using allocate_loop_keeps [OF regions(4)] by blast
    then have held: "arenas_held (ms_arenas st) = arenas_held arenas" using arenas_held_block by metis
    have "ha_ptr a \<noteq> 0" if a': "a \<in> set (ms_arenas st)" for a
    proof -
      have "arena_block a \<in> set (map arena_block arenas)" using a' blocks by (metis image_eqI list.set_map)
      then obtain b where b: "b \<in> set arenas" "arena_block a = arena_block b" by auto
      then have "ha_ptr (arena_block a) = ha_ptr (arena_block b)" by simp
      then show ?thesis using a(2) b(1) by (simp add: arena_block_def)
    qed
    moreover have "acquired tr + released tr1 = released tr + regions_held (ms_regions st) + arenas_held arenas + lost + released tr1"
      using l(1) a(1) by (simp add: ac_simps)
    ultimately show ?thesis using l(2,3) held by (intro exI [of _ lost]) simp
  qed
qed

text \<open>The release does not call \<^verbatim>\<open>cuMemFree\<close> when the current context cannot be read or that of the region not be made current.\<close>

definition not_freed :: "FreeEnv \<Rightarrow> string \<times> AllocRegion \<Rightarrow> bool" where
  "not_freed env p \<longleftrightarrow> ar_deallocator (snd p) = D_CUDA_DEVICE
     \<and> (case fr_current env (fst p) of
          None \<Rightarrow> True
        | Some previous \<Rightarrow> ar_cuda_context (snd p) \<noteq> 0 \<and> previous \<noteq> ar_cuda_context (snd p) \<and> \<not> fr_activate env (fst p))"

lemma released_concat: "released (concat ts) = sum_list (map released ts)" "acquired (concat ts) = sum_list (map acquired ts)"
  by (induction ts) simp_all

lemma free_regions_released:
  assumes "\<forall>p\<in>set regions. live (snd p)"
  shows "regions_held regions = released (concat (map (free_region env) regions)) + regions_held (filter (not_freed env) regions)
    \<and> acquired (concat (map (free_region env) regions)) = {#}"
  using assms
proof (induction regions)
  case (Cons p regions)
  have "released (free_region env p) = (if not_freed env p then {#} else region_resource (snd p))
      \<and> acquired (free_region env p) = {#}"
    using Cons.prems
    by (cases p) (auto simp: free_region_def region_resource_def live_def not_freed_def split: Deallocator.splits option.splits)
  then show ?case using Cons by (simp add: ac_simps)
qed simp

lemma free_arenas_released:
  "\<forall>a\<in>set arenas. ha_ptr a \<noteq> 0 \<Longrightarrow> released (concat (map free_arena arenas)) = arenas_held arenas \<and> acquired (concat (map free_arena arenas)) = {#}"
  by (induction arenas) (auto simp: free_arena_def arena_resource_def)

section \<open>Properties\<close>

text \<open>C22: carving a pooled region from its arena never fails: whatever the configuration, the bindings
  and the answers of the system, the allocation does not end with a missing arena or an arena
  overflow.\<close>

theorem pooled_carving_never_fails:
  "fst (allocate_memory_regions env engine ext mrs st) \<noteq> Some ArenaMissing
   \<and> fst (allocate_memory_regions env engine ext mrs st) \<noteq> Some ArenaOverflow"
proof -
  obtain e st' tr where a: "allocate_memory_regions env engine ext mrs st = (e, st', tr)" by (metis prod_cases3)
  then show ?thesis
  proof (cases rule: allocate_memory_regions_cases)
    case (regions mrs' plans index arenas tr1)
    show ?thesis
    proof (cases "ae_pool_huge env")
      case True
      then obtain totals where t: "bytes_by_numa ext mrs' [] = Inr totals" "plans = std_sort plan_less totals"
        using regions(2) by (auto simp: arena_plans_def split: sum.splits)
      show ?thesis
        using allocate_loop_arena [OF regions(4), of "[]" "[]"] arenas_established [OF t(1) regions(3) [unfolded t(2)]] a by simp
    next
      case False
      then show ?thesis using allocate_loop_arena [OF regions(4)] a by simp
    qed
  qed (use a in auto)
qed

text \<open>C25: after a successful pooled allocation the regions of one NUMA node lie one after the other in
  the arena of that node: each begins where the sizes of the pooled regions before it end, and
  ends inside the used part of the arena, which is inside the mapping. Two regions of one node
  therefore never overlap.\<close>

theorem pooled_regions_consecutive:
  assumes "allocate_memory_regions env engine ext mrs \<lparr>ms_regions = [], ms_arenas = []\<rparr> = (None, st, tr)"
    "ae_pool_huge env" "distinct (map (\<lambda>p. mr_name (snd p)) mrs)"
    "size_regions mrs = Inr (pre @ (name, mr) # post)" "pooled ext (name, mr)"
  shows "\<exists>a\<in>set (ms_arenas st). \<exists>ar. map_of (ms_regions st) (mr_name mr) = Some ar \<and> ha_affinity a = numa_of mr
    \<and> ar_ptr ar = ha_ptr a + of_nat (pooled_bytes ext (numa_of mr) pre)
    \<and> pooled_bytes ext (numa_of mr) pre + unat (mr_ttl_size mr) \<le> unat (ha_used_size a)
    \<and> ha_used_size a \<le> ha_mapped_size a"
  using assms(1)
proof (cases rule: allocate_memory_regions_cases)
  case (regions mrs' plans index arenas tr1)
  let ?mrs = "pre @ (name, mr) # post"
  have mrs': "mrs' = ?mrs" using regions(1) assms(4) by simp
  then obtain totals where t: "bytes_by_numa ext ?mrs [] = Inr totals" "plans = std_sort plan_less totals"
    using regions(2) assms(2) by (auto simp: arena_plans_def split: sum.splits)
  have "map (\<lambda>p. mr_name (snd p)) ?mrs = map (\<lambda>p. mr_name (snd p)) mrs"
    using arg_cong [OF size_regions_names [OF assms(4)], of "map snd"] by (simp add: comp_def)
  then have "distinct (map (\<lambda>p. mr_name (snd p)) ?mrs)" using assms(3) by simp
  then have d: "mr_name mr \<notin> (\<lambda>p. mr_name (snd p)) ` set post" by simp
  show ?thesis
    using allocate_loop_placed [OF regions(4) [unfolded mrs'] assms(2,5) _ _ d]
      arenas_established [OF t(1) regions(3) [unfolded t(2)]] by blast
qed simp_all

text \<open>C8: nothing is released twice and all that may leak is device memory that a failing CUDA context keeps: however the
  allocation ends, with success or with an error half-way, the blocks and mappings that it obtained are,
  with multiplicity, those for which a deallocator is called during the allocation or by the release of the engine's regions, the
  device blocks of the regions whose context the release cannot read or activate, and at most one more device
  block, when the allocation failed because the previous context could not be restored and that of the new block not be made current.
  Assumed are distinct region names and allocators that do not return null on success.\<close>

theorem allocation_released_exactly_once:
  assumes "allocate_memory_regions env engine ext mrs \<lparr>ms_regions = [], ms_arenas = []\<rparr> = (e, st, tr)"
    "alloc_env_ok env" "distinct (map (\<lambda>p. mr_name (snd p)) mrs)"
  shows "(\<exists>lost. acquired tr = released (tr @ snd (free_memory_regions fenv st)) + regions_held (filter (not_freed fenv) (ms_regions st)) + lost
      \<and> device_lost env e lost)
    \<and> fst (free_memory_regions fenv st) = \<lparr>ms_regions = [], ms_arenas = []\<rparr>"
proof -
  obtain lost where l: "acquired tr = released tr + regions_held (ms_regions st) + arenas_held (ms_arenas st) + lost" "device_lost env e lost"
    "\<forall>p\<in>set (ms_regions st). live (snd p)" "\<forall>a\<in>set (ms_arenas st). ha_ptr a \<noteq> 0"
    using allocation_balance [OF assms] by blast
  have "acquired tr = released (tr @ snd (free_memory_regions fenv st)) + regions_held (filter (not_freed fenv) (ms_regions st)) + lost"
    using l(1) free_regions_released [OF l(3), of fenv] free_arenas_released [OF l(4)] by (simp add: free_memory_regions_def ac_simps)
  then show ?thesis using l(2) by (auto simp: free_memory_regions_def)
qed

section \<open>Witnesses\<close>

definition pool_mr :: "string \<Rightarrow> u64 \<Rightarrow> MemoryRegionConfig" where
  "pool_mr name stride = \<lparr>mr_name = name, mr_kind = HUGE, mr_affinity = 0, mr_access = 1, mr_buf_size = stride,
     mr_adj_size = stride, mr_ttl_size = 0, mr_num_bufs = 64, mr_owned = True\<rparr>"

definition pool_mrs :: RegionMap where
  "pool_mrs = [(''a'', pool_mr ''a'' 2048), (''b'', pool_mr ''b'' 1024)]"

definition pool_env :: AllocEnv where
  "pool_env = \<lparr>ae_pool_huge = True, ae_page_size = 4096, ae_memalign = \<lambda>_. None,
     ae_cuda = \<lambda>_. \<lparr>cc_select_device = False, cc_host_alloc = None, cc_host_context = None, cc_init = False, cc_previous = None,
       cc_free0 = False, cc_current = None, cc_mem_alloc = \<lambda>_. None, cc_set_sync_memops = False, cc_active = None,
       cc_restore_current = False, cc_reactivate = True\<rparr>,
     ae_huge = demo_huge\<lparr>he_mmap := \<lambda>_ _ _. Some 4096\<rparr>\<rparr>"

lemma pool_sized:
  "size_regions pool_mrs = Inr [(''a'', (pool_mr ''a'' 2048)\<lparr>mr_ttl_size := 131072\<rparr>), (''b'', (pool_mr ''b'' 1024)\<lparr>mr_ttl_size := 65536\<rparr>)]"
  by (simp add: pool_mrs_def pool_mr_def size_region_def round_up_checked_def gpu_page_size_def word_less_nat_alt)

lemma pool_candidates:
  "candidate_of 196608 False (''hugepages-1048576kB'', Some 1, Some 0)
    = Some \<lparr>hc_page_size = 1073741824, hc_mapped_size = 1073741824, hc_available_pages = 1, hc_availability_known = True, hc_numa_local = False\<rparr>"
  "candidate_of 196608 False (''hugepages-2048kB'', Some 9, Some 0)
    = Some \<lparr>hc_page_size = 2097152, hc_mapped_size = 2097152, hc_available_pages = 9, hc_availability_known = True, hc_numa_local = False\<rparr>"
  by (simp_all add: candidate_of_def stoull_whole_def digits_value_def is_blank_def is_digit_def round_up_checked_def
    Let_def word_less_nat_alt word_le_nat_alt)

lemma pool_arena:
  "allocate_hugetlb_arena (ae_huge pool_env) 196608 0 []
    = (Some \<lparr>hl_ptr = 4096, hl_mapped_size = 2097152, hl_page_size = 2097152\<rparr>, [Acquire (Mapping 4096 2097152)])"
  by (simp add: allocate_hugetlb_arena_def discover_hugepage_candidates_def demo_huge_def pool_env_def map_filter_def pool_candidates
    std_sort_def candidate_less_def Let_def bind_region_numa_def word_less_nat_alt)

lemma pool_plan: "arena_plans pool_env [] [(''a'', (pool_mr ''a'' 2048)\<lparr>mr_ttl_size := 131072\<rparr>), (''b'', (pool_mr ''b'' 1024)\<lparr>mr_ttl_size := 65536\<rparr>)]
    = Inr [(0, 196608)]"
  by (simp add: arena_plans_def pool_env_def pooled_def pool_mr_def lookup0_def std_sort_def word_less_nat_alt)

lemma pool_allocates: "\<exists>st tr. allocate_memory_regions pool_env IBVERBS [] pool_mrs \<lparr>ms_regions = [], ms_arenas = []\<rparr> = (None, st, tr)"
proof -
  have arenas: "allocate_arenas (ae_huge pool_env) [(0, 196608)] [] [] []
    = ((None, [(0, 0)]), [\<lparr>ha_ptr = 4096, ha_mapped_size = 2097152, ha_used_size = 196608, ha_page_size = 2097152, ha_next_offset = 0, ha_affinity = 0\<rparr>],
       [Acquire (Mapping 4096 2097152)])"
    using pool_arena by simp
  show ?thesis
    unfolding allocate_memory_regions_def
    by (simp add: pool_sized pool_plan arenas pool_arena del: allocate_arenas.simps)
      (simp add: allocate_region_def pool_mr_def pool_env_def carve_def Let_def null_checked_def word_less_nat_alt word_le_nat_alt)
qed

theorem pooled_regions_consecutive_witness:
  "\<exists>st tr. allocate_memory_regions pool_env IBVERBS [] pool_mrs \<lparr>ms_regions = [], ms_arenas = []\<rparr> = (None, st, tr)
     \<and> (\<exists>a\<in>set (ms_arenas st). \<exists>ar. map_of (ms_regions st) ''b'' = Some ar \<and> ar_ptr ar = ha_ptr a + 131072)"
proof -
  obtain st tr where a: "allocate_memory_regions pool_env IBVERBS [] pool_mrs \<lparr>ms_regions = [], ms_arenas = []\<rparr> = (None, st, tr)"
    using pool_allocates by blast
  have "size_regions pool_mrs = Inr ([(''a'', (pool_mr ''a'' 2048)\<lparr>mr_ttl_size := 131072\<rparr>)] @ (''b'', (pool_mr ''b'' 1024)\<lparr>mr_ttl_size := 65536\<rparr>) # [])"
    using pool_sized by simp
  from pooled_regions_consecutive [OF a _ _ this]
  show ?thesis using a by (auto simp: pool_env_def pool_mrs_def pool_mr_def pooled_def)
qed

theorem allocation_released_exactly_once_witness:
  "\<exists>st tr. allocate_memory_regions pool_env IBVERBS [] pool_mrs \<lparr>ms_regions = [], ms_arenas = []\<rparr> = (None, st, tr)
     \<and> acquired tr = released (tr @ snd (free_memory_regions \<lparr>fr_current = \<lambda>_. Some 0, fr_activate = \<lambda>_. True\<rparr> st))"
proof -
  obtain st tr where a: "allocate_memory_regions pool_env IBVERBS [] pool_mrs \<lparr>ms_regions = [], ms_arenas = []\<rparr> = (None, st, tr)"
    using pool_allocates by blast
  have "alloc_env_ok pool_env" by (simp add: alloc_env_ok_def pool_env_def demo_huge_def)
  moreover have "distinct (map (\<lambda>p. mr_name (snd p)) pool_mrs)" by (simp add: pool_mrs_def pool_mr_def)
  moreover have "filter (not_freed \<lparr>fr_current = \<lambda>_. Some 0, fr_activate = \<lambda>_. True\<rparr>) regions = []" for regions
    by (auto simp: not_freed_def filter_empty_conv)
  ultimately show ?thesis
    using allocation_released_exactly_once [OF a, of "\<lparr>fr_current = \<lambda>_. Some 0, fr_activate = \<lambda>_. True\<rparr>"] a
    by (auto simp: device_lost_def)
qed

end
