(* ===== verification/Buffer_Pools.thy ===== *)
theory Buffer_Pools
  imports Ring_Buffer Memory_Allocation
begin

text \<open>
  Filling a ring with the buffers of a memory region (\<^verbatim>\<open>Engine::populate_pool\<close> in \<^verbatim>\<open>src/src/engine.cpp\<close>):
  the component where the pointer ring and the allocated regions meet.
\<close>

section \<open>Model\<close>

primrec populate_loop :: "nat \<Rightarrow> u64 \<Rightarrow> u64 \<Rightarrow> u64 \<Rightarrow> u64 Ring \<Rightarrow> (Status \<times> u64 Ring) option" where
  "populate_loop 0 base stride i ring = Some (SUCCESS, ring)"
| "populate_loop (Suc n) base stride i ring =
     (case ring_enqueue ring (base + i * stride) of
        None \<Rightarrow> None
      | Some (ok, ring') \<Rightarrow> if ok then populate_loop n base stride (i + 1) ring' else Some (NULL_PTR, ring'))"

text \<open>\<^verbatim>\<open>cfg_.mrs_[mr_name]\<close> and \<^verbatim>\<open>ar_[mr_name]\<close> insert an empty record for an unknown name; the callers pass
  configured names, and an unknown one is \<open>None\<close> here.\<close>

definition populate_pool :: "RegionMap \<Rightarrow> MemState \<Rightarrow> u64 Ring \<Rightarrow> string \<Rightarrow> (Status \<times> u64 Ring) option" where
  "populate_pool mrs st ring name =
     (case (map_of mrs name, map_of (ms_regions st) name) of
        (Some mr, Some ar) \<Rightarrow> populate_loop (unat (mr_num_bufs mr)) (ar_ptr ar) (mr_adj_size mr) 0 ring
      | _ \<Rightarrow> None)"

definition buffer_addresses :: "u64 \<Rightarrow> u64 \<Rightarrow> u64 \<Rightarrow> nat \<Rightarrow> u64 list" where
  "buffer_addresses base stride i n = map (\<lambda>k. base + (i + of_nat k) * stride) [0..<n]"

lemma buffer_addresses_Suc:
  "buffer_addresses base stride i (Suc n) = (base + i * stride) # buffer_addresses base stride (i + 1) n"
  by (simp add: buffer_addresses_def upt_conv_Cons map_Suc_upt [symmetric] algebra_simps del: upt_Suc)

lemma populate_loop_fills:
  assumes "ring_inv ring"
  shows "\<exists>status ring'. populate_loop n base stride i ring = Some (status, ring') \<and> ring_inv ring'
    \<and> (if length (ring_items ring) + n \<le> ring_cap ring
       then status = SUCCESS \<and> ring_items ring' = ring_items ring @ buffer_addresses base stride i n
       else status = NULL_PTR \<and> length (ring_items ring') = ring_cap ring)"
  using assms
proof (induction n arbitrary: i ring)
  case 0
  then show ?case using ring_q.items_cap [of ring] by (simp add: buffer_addresses_def)
next
  case (Suc n)
  show ?case
  proof (cases "length (ring_items ring) < ring_cap ring")
    case True
    then obtain r1 where r1: "ring_enqueue ring (base + i * stride) = Some (True, r1)" "ring_inv r1"
      "ring_items r1 = ring_items ring @ [base + i * stride]" "ring_cap r1 = ring_cap ring"
      using ring_q.enq_room [OF Suc.prems] by metis
    obtain status ring' where rest: "populate_loop n base stride (i + 1) r1 = Some (status, ring')" "ring_inv ring'"
      "if length (ring_items r1) + n \<le> ring_cap r1
       then status = SUCCESS \<and> ring_items ring' = ring_items r1 @ buffer_addresses base stride (i + 1) n
       else status = NULL_PTR \<and> length (ring_items ring') = ring_cap r1"
      using Suc.IH [OF r1(2), of "i + 1"] by blast
    then have "populate_loop (Suc n) base stride i ring = Some (status, ring')" using r1(1) by simp
    moreover have "if length (ring_items ring) + Suc n \<le> ring_cap ring
       then status = SUCCESS \<and> ring_items ring' = ring_items ring @ buffer_addresses base stride i (Suc n)
       else status = NULL_PTR \<and> length (ring_items ring') = ring_cap ring"
      using rest(3) r1(3,4) by (simp add: buffer_addresses_Suc split: if_splits)
    ultimately show ?thesis using rest(2) by blast
  next
    case False
    then have "length (ring_items ring) = ring_cap ring" using ring_q.items_cap [OF Suc.prems] by simp
    moreover from this have "ring_enqueue ring (base + i * stride) = Some (False, ring)" using ring_q.enq_full [OF Suc.prems] by blast
    ultimately show ?thesis using Suc.prems by simp
  qed
qed

section \<open>Properties\<close>

text \<open>Filling an empty ring with the buffers of a region never spins. When the ring holds them all
  it succeeds and the ring holds the buffer addresses in order, one stride apart from the
  region's base; otherwise it reports a null pointer and leaves the ring full.\<close>

theorem populate_pool_fills:
  assumes "ring_inv ring" "ring_items ring = []" "map_of mrs name = Some mr" "map_of (ms_regions st) name = Some ar"
  shows "\<exists>status ring'. populate_pool mrs st ring name = Some (status, ring') \<and> ring_inv ring'
    \<and> (if unat (mr_num_bufs mr) \<le> ring_cap ring
       then status = SUCCESS \<and> ring_items ring' = map (\<lambda>k. ar_ptr ar + of_nat k * mr_adj_size mr) [0..<unat (mr_num_bufs mr)]
       else status = NULL_PTR \<and> length (ring_items ring') = ring_cap ring)"
proof -
  have "populate_pool mrs st ring name = populate_loop (unat (mr_num_bufs mr)) (ar_ptr ar) (mr_adj_size mr) 0 ring"
    using assms(3,4) by (simp add: populate_pool_def)
  moreover have "buffer_addresses (ar_ptr ar) (mr_adj_size mr) 0 n = map (\<lambda>k. ar_ptr ar + of_nat k * mr_adj_size mr) [0..<n]" for n
    by (simp add: buffer_addresses_def)
  ultimately show ?thesis
    using populate_loop_fills [OF assms(1), of "unat (mr_num_bufs mr)" "ar_ptr ar" "mr_adj_size mr" 0]
    by (simp only: assms(2) append_Nil list.size add_0)
qed

theorem populate_pool_fills_witness:
  "\<exists>ring ring'. ring_create (Some (\<lambda>_. 0)) 5 SPSC = Some ring
    \<and> populate_pool [(''m'', (pool_mr ''m'' 2048)\<lparr>mr_num_bufs := 3\<rparr>)]
        \<lparr>ms_regions = [(''m'', AllocRegion_init\<lparr>ar_ptr := 65536\<rparr>)], ms_arenas = []\<rparr> ring ''m'' = Some (SUCCESS, ring')
    \<and> ring_items ring' = [65536, 67584, 69632]"
proof -
  obtain ring where r: "ring_create (Some (\<lambda>_. 0 :: u64)) 5 SPSC = Some ring" "ring_inv ring" "ring_items ring = []" "4 \<le> ring_cap ring"
    using ring_create_inv [of 5 "\<lambda>_. 0 :: u64" SPSC] by auto
  let ?mr = "(pool_mr ''m'' 2048)\<lparr>mr_num_bufs := 3\<rparr>" and ?ar = "AllocRegion_init\<lparr>ar_ptr := 65536\<rparr>"
  have "\<exists>status ring'. populate_pool [(''m'', ?mr)] \<lparr>ms_regions = [(''m'', ?ar)], ms_arenas = []\<rparr> ring ''m'' = Some (status, ring')
      \<and> ring_inv ring' \<and> (if unat (mr_num_bufs ?mr) \<le> ring_cap ring
        then status = SUCCESS \<and> ring_items ring' = map (\<lambda>k. ar_ptr ?ar + of_nat k * mr_adj_size ?mr) [0..<unat (mr_num_bufs ?mr)]
        else status = NULL_PTR \<and> length (ring_items ring') = ring_cap ring)"
    by (rule populate_pool_fills [OF r(2,3)]) simp_all
  then show ?thesis using r(1,4) by (auto simp: pool_mr_def upt_rec)
qed

end
