(* ===== verification/Rx_Schedule.thy ===== *)
theory Rx_Schedule
  imports Config_Validation Cpp_Strings "HOL-Library.Multiset"
begin

text \<open>
  Receiving from any queue of a port and from any port, in rotation (\<^verbatim>\<open>Engine::get_rx_burst\<close> in
  \<^verbatim>\<open>src/src/engine.cpp\<close>), the assignment of receive queues to CPU cores, and the other operations of
  the base class that have a body of their own. The pure virtual receive operation of one
  queue is an argument: it may read and change the rest of the engine's state, \<open>'e\<close>.
\<close>

section \<open>Model: rotation\<close>

type_synonym 'e recv = "'e \<Rightarrow> int \<Rightarrow> int \<Rightarrow> Status \<times> 'e"

record 'e RxState =
  rs_next_port_index :: nat
  rs_next_queue_index :: "int \<Rightarrow> nat"
  rs_engine :: 'e

definition nothing :: "Status \<Rightarrow> bool" where
  "nothing ret \<longleftrightarrow> \<not> (ret \<noteq> NULL_PTR \<and> ret \<noteq> NOT_READY)"

text \<open>The loop over the indices in order: the first result that is something ends it.\<close>

fun rr_scan :: "(nat \<Rightarrow> 's \<Rightarrow> Status \<times> 's) \<Rightarrow> nat list \<Rightarrow> bool \<Rightarrow> 's \<Rightarrow> Status \<times> nat option \<times> 's" where
  "rr_scan poll [] saw_not_ready st = (if saw_not_ready then NOT_READY else NULL_PTR, None, st)"
| "rr_scan poll (check_index # rest) saw_not_ready st =
     (case poll check_index st of (ret, st') \<Rightarrow>
        if \<not> nothing ret then (ret, Some check_index, st')
        else rr_scan poll rest (saw_not_ready \<or> ret = NOT_READY) st')"

definition rotation :: "nat \<Rightarrow> nat \<Rightarrow> nat list" where
  "rotation start num = map (\<lambda>i. (start + i) mod num) [0..<num]"

definition get_rx_burst_port :: "'e recv \<Rightarrow> NetworkConfig \<Rightarrow> int \<Rightarrow> 'e RxState \<Rightarrow> Status \<times> 'e RxState" where
  "get_rx_burst_port recv cfg port_id st =
     (if port_id < 0 \<or> port_id \<ge> int (length (nc_ifs cfg)) then (INVALID_PARAMETER, st)
      else
        (let queues = rx_queues (if_rx (nc_ifs cfg ! nat port_id));
             num_queues = length queues;
             (ret, got, e) = rr_scan (\<lambda>i e. recv e port_id (cq_id (rxq_common (queues ! i))))
               (rotation (rs_next_queue_index st port_id) num_queues) False (rs_engine st)
         in (ret, st\<lparr>rs_engine := e,
                     rs_next_queue_index := (case got of
                        None \<Rightarrow> rs_next_queue_index st
                      | Some i \<Rightarrow> (rs_next_queue_index st)(port_id := (i + 1) mod num_queues))\<rparr>)))"

definition get_rx_burst :: "'e recv \<Rightarrow> NetworkConfig \<Rightarrow> 'e RxState \<Rightarrow> Status \<times> 'e RxState" where
  "get_rx_burst recv cfg st =
     (if nc_ifs cfg = [] then (NULL_PTR, st)
      else
        (let num_interfaces = length (nc_ifs cfg);
             (ret, got, st') = rr_scan (\<lambda>i st. get_rx_burst_port recv cfg (uint (if_port_id (nc_ifs cfg ! i))) st)
               (rotation (rs_next_port_index st) num_interfaces) False st
         in (ret, case got of None \<Rightarrow> st' | Some i \<Rightarrow> st'\<lparr>rs_next_port_index := (i + 1) mod num_interfaces\<rparr>)))"

section \<open>Model: queues of a core\<close>

definition MAX_RX_Q_PER_CORE :: nat where "MAX_RX_Q_PER_CORE = 16"

type_synonym core_map = "u32 \<Rightarrow> (u16 \<times> u16) list"

definition assign_queue :: "u16 \<Rightarrow> RxQueueConfig \<Rightarrow> core_map \<Rightarrow> core_map" where
  "assign_queue port q m =
     (let cpu_core = of_int (strtol10 (cq_cpu_core (rxq_common q))) in
      m(cpu_core := m cpu_core @ [(port, of_int (cq_id (rxq_common q)))]))"

definition init_rx_core_q_map :: "NetworkConfig \<Rightarrow> core_map \<Rightarrow> core_map" where
  "init_rx_core_q_map cfg m =
     fold (\<lambda>intf. fold (assign_queue (if_port_id intf)) (rx_queues (if_rx intf))) (nc_ifs cfg) m"

definition init_next_queue_index :: "NetworkConfig \<Rightarrow> (int \<rightharpoonup> nat) \<Rightarrow> (int \<rightharpoonup> nat)" where
  "init_next_queue_index cfg m =
     fold (\<lambda>intf m. if m (uint (if_port_id intf)) = None then m(uint (if_port_id intf) \<mapsto> 0) else m) (nc_ifs cfg) m"

section \<open>Model: other operations of the base class\<close>

definition get_num_rx_queues :: "NetworkConfig \<Rightarrow> nat \<Rightarrow> u16 option" where
  "get_num_rx_queues cfg port_id =
     (if port_id < length (nc_ifs cfg) then Some (of_nat (length (rx_queues (if_rx (nc_ifs cfg ! port_id))))) else None)"

definition get_tx_packet_burst_checked :: "('e \<Rightarrow> bool) \<Rightarrow> ('e \<Rightarrow> Status \<times> 'e) \<Rightarrow> 'e \<Rightarrow> Status \<times> 'e" where
  "get_tx_packet_burst_checked is_tx_burst_available get_tx_packet_burst e =
     (if \<not> is_tx_burst_available e then (NO_FREE_BURST_BUFFERS, e) else get_tx_packet_burst e)"

definition in_multicast :: "u32 \<Rightarrow> bool" where "in_multicast a \<longleftrightarrow> a AND 0xf0000000 = 0xe0000000"
definition in_badclass :: "u32 \<Rightarrow> bool" where "in_badclass a \<longleftrightarrow> a AND 0xf0000000 = 0xf0000000"

definition resolve_ipv4_mac :: "NetworkConfig \<Rightarrow> int \<Rightarrow> u32 \<Rightarrow> bool \<Rightarrow> u32 \<Rightarrow> Status" where
  "resolve_ipv4_mac cfg port dst_host mac_null timeout_ms =
     (if mac_null then NULL_PTR
      else if port < 0 \<or> port \<ge> int (length (nc_ifs cfg)) \<or> dst_host = 0 \<or> dst_host = 0xffffffff
              \<or> in_multicast dst_host \<or> in_badclass dst_host \<or> timeout_ms = 0
      then INVALID_PARAMETER
      else NOT_SUPPORTED)"

fun set_lengths_loop :: "('b \<Rightarrow> nat \<Rightarrow> int list \<Rightarrow> Status \<times> 'b) \<Rightarrow> int list \<Rightarrow> nat list \<Rightarrow> 'b \<Rightarrow> Status \<times> 'b" where
  "set_lengths_loop set_packet_lengths lens [] burst = (SUCCESS, burst)"
| "set_lengths_loop set_packet_lengths lens (idx # rest) burst =
     (case set_packet_lengths burst idx lens of (status, burst') \<Rightarrow>
        if status \<noteq> SUCCESS then (status, burst') else set_lengths_loop set_packet_lengths lens rest burst')"

definition set_all_packet_lengths ::
    "('b \<Rightarrow> nat \<Rightarrow> int list \<Rightarrow> Status \<times> 'b) \<Rightarrow> ('b \<Rightarrow> nat) \<Rightarrow> 'b option \<Rightarrow> int list \<Rightarrow> Status \<times> 'b option" where
  "set_all_packet_lengths set_packet_lengths num_pkts burst lens =
     (case burst of
        None \<Rightarrow> (NULL_PTR, None)
      | Some b \<Rightarrow> (case set_lengths_loop set_packet_lengths lens [0..<num_pkts b] b of (status, b') \<Rightarrow> (status, Some b')))"

section \<open>Rotation is fair\<close>

text \<open>What a rotation promises: a cursor below the number of members, and after a member has been
  served the cursor stands behind it. A member that is always found ready when the search
  reaches it is then served within one round.\<close>

locale fair_rotation =
  fixes num :: nat and cursor :: "'s \<Rightarrow> nat" and step :: "'s \<Rightarrow> 's" and served :: "'s \<Rightarrow> nat option" and valid :: "'s \<Rightarrow> bool"
  assumes cursor_bound: "valid s \<Longrightarrow> cursor s < num"
    and valid_step: "valid s \<Longrightarrow> valid (step s)"
    and cursor_step: "valid s \<Longrightarrow> served s = Some i \<Longrightarrow> cursor (step s) = (i + 1) mod num"
begin

definition ahead :: "nat \<Rightarrow> 's \<Rightarrow> nat" where
  "ahead k s = (k + num - cursor s) mod num"

lemma ahead_step:
  assumes "valid s" "k < num" "served s = Some ((cursor s + a) mod num)" "a < ahead k s"
  shows "ahead k (step s) = ahead k s - a - 1"
proof -
  let ?c = "cursor s" and ?d = "ahead k s"
  have c: "?c < num" using cursor_bound [OF assms(1)] .
  have d: "?d < num" using c by (simp add: ahead_def)
  have k: "k = (?c + ?d) mod num" using c assms(2) by (simp add: ahead_def mod_add_right_eq)
  have c': "cursor (step s) = (?c + (a + 1)) mod num"
    using cursor_step [OF assms(1,3)] by (simp add: mod_Suc_eq)
  have "(k + num - cursor (step s)) mod num = (?d - (a + 1)) mod num"
  proof -
    have lt: "cursor (step s) < num" using cursor_bound [OF valid_step [OF assms(1)]] .
    have "int ((k + num - cursor (step s)) mod num) = (int k + int num - int (cursor (step s))) mod int num"
      using lt by (simp add: zmod_int of_nat_diff)
    also have "\<dots> = (int k - int (cursor (step s))) mod int num"
      using mod_add_self2 [of "int k - int (cursor (step s))" "int num"] by (simp only: diff_add_eq)
    also have "\<dots> = ((int ?c + int ?d) mod int num - (int ?c + int (a + 1)) mod int num) mod int num"
      using k c' by (metis of_nat_add zmod_int)
    also have "\<dots> = (int ?d - int (a + 1)) mod int num" by (simp add: mod_diff_eq)
    also have "\<dots> = int ((?d - (a + 1)) mod num)" using assms(4) by (simp add: zmod_int of_nat_diff)
    finally show ?thesis by simp
  qed
  moreover have "(?d - (a + 1)) mod num = ?d - (a + 1)" using d by simp
  ultimately show ?thesis by (simp add: ahead_def)
qed

lemma served_within_round:
  assumes "valid s" "k < num"
    and ready: "\<And>s. valid s \<Longrightarrow> \<exists>a\<le>ahead k s. served s = Some ((cursor s + a) mod num)"
  shows "\<exists>m<num. served ((step ^^ m) s) = Some k"
proof -
  have reach: "\<exists>m\<le>ahead k t. served ((step ^^ m) t) = Some k" if "valid t" for t
    using that
  proof (induction "ahead k t" arbitrary: t rule: less_induct)
    case less
    obtain a where a: "a \<le> ahead k t" "served t = Some ((cursor t + a) mod num)" using ready [OF less.prems] by blast
    show ?case
    proof (cases "a = ahead k t")
      case True
      then have "(cursor t + a) mod num = k"
        using cursor_bound [OF less.prems] assms(2) by (simp add: ahead_def mod_add_right_eq)
      then show ?thesis using a(2) by (intro exI [of _ 0]) simp
    next
      case False
      then have lt: "a < ahead k t" using a(1) by simp
      note st = ahead_step [OF less.prems assms(2) a(2) lt]
      obtain m where "m \<le> ahead k (step t)" "served ((step ^^ m) (step t)) = Some k"
        using less.hyps [of "step t"] st lt valid_step [OF less.prems] by auto
      then show ?thesis using st lt by (intro exI [of _ "Suc m"]) (simp add: funpow_swap1)
    qed
  qed
  have "ahead k s < num" using cursor_bound [OF assms(1)] by (simp add: ahead_def)
  then show ?thesis using reach [OF assms(1)] by (meson le_less_trans)
qed

end

lemma rr_scan_ready:
  assumes "k \<in> set idxs" "\<And>st. \<not> nothing (fst (poll k st))"
  shows "\<exists>ret i st' pre post. rr_scan poll idxs saw st = (ret, Some i, st') \<and> \<not> nothing ret \<and> idxs = pre @ i # post \<and> k \<notin> set pre"
  using assms(1)
proof (induction idxs arbitrary: saw st)
  case (Cons j idxs)
  obtain ret st' where p: "poll j st = (ret, st')" by force
  show ?case
  proof (cases "nothing ret")
    case False
    then show ?thesis using p by (intro exI [of _ ret] exI [of _ j] exI [of _ st'] exI [of _ "[]"] exI [of _ idxs]) simp
  next
    case True
    then have "j \<noteq> k" using assms(2) [of st] p by auto
    then have "k \<in> set idxs" using Cons.prems by simp
    from Cons.IH [OF this, of "saw \<or> ret = NOT_READY" st'] obtain r i st'' pre post where
      "rr_scan poll idxs (saw \<or> ret = NOT_READY) st' = (r, Some i, st'')" "\<not> nothing r" "idxs = pre @ i # post" "k \<notin> set pre" by blast
    then show ?thesis using p True \<open>j \<noteq> k\<close>
      by (intro exI [of _ r] exI [of _ i] exI [of _ st''] exI [of _ "j # pre"] exI [of _ post]) simp
  qed
qed simp

lemma rr_scan_rotation:
  assumes "start < num" "k < num" "\<And>st. \<not> nothing (fst (poll k st))"
  shows "\<exists>ret a st'. rr_scan poll (rotation start num) saw st = (ret, Some ((start + a) mod num), st') \<and> \<not> nothing ret
    \<and> a \<le> (k + num - start) mod num"
proof -
  let ?b = "(k + num - start) mod num"
  have k: "(start + ?b) mod num = k" using assms(1,2) by (simp add: mod_add_right_eq)
  have b: "?b < num" using assms(1) by simp
  then have mem: "k \<in> set (rotation start num)" using k by (auto simp: rotation_def intro!: image_eqI [of _ _ ?b])
  obtain ret i st' pre post where s: "rr_scan poll (rotation start num) saw st = (ret, Some i, st')" "\<not> nothing ret"
    "rotation start num = pre @ i # post" "k \<notin> set pre"
    using rr_scan_ready [of k "rotation start num" poll saw st, OF mem] assms(3) by metis
  let ?a = "length pre"
  have len: "?a < num" using arg_cong [OF s(3), of length] by (simp add: rotation_def)
  have i: "i = (start + ?a) mod num" using arg_cong [OF s(3), of "\<lambda>xs. xs ! ?a"] len by (simp add: rotation_def)
  have "?a \<le> ?b"
  proof (rule ccontr)
    assume "\<not> ?a \<le> ?b"
    then have "?b < ?a" by simp
    then have "pre ! ?b = rotation start num ! ?b" using s(3) by (simp add: nth_append)
    then have "pre ! ?b = k" using k b by (simp add: rotation_def)
    then show False using s(4) \<open>?b < ?a\<close> by (metis nth_mem)
  qed
  then show ?thesis using s i by blast
qed

section \<open>The two rotations\<close>

definition port_queues :: "NetworkConfig \<Rightarrow> int \<Rightarrow> RxQueueConfig list" where
  "port_queues cfg port = rx_queues (if_rx (nc_ifs cfg ! nat port))"

definition queue_scan :: "'e recv \<Rightarrow> NetworkConfig \<Rightarrow> int \<Rightarrow> 'e RxState \<Rightarrow> Status \<times> nat option \<times> 'e" where
  "queue_scan recv cfg port st =
     rr_scan (\<lambda>i e. recv e port (cq_id (rxq_common (port_queues cfg port ! i))))
       (rotation (rs_next_queue_index st port) (length (port_queues cfg port))) False (rs_engine st)"

definition port_scan :: "'e recv \<Rightarrow> NetworkConfig \<Rightarrow> 'e RxState \<Rightarrow> Status \<times> nat option \<times> 'e RxState" where
  "port_scan recv cfg st =
     rr_scan (\<lambda>i st. get_rx_burst_port recv cfg (uint (if_port_id (nc_ifs cfg ! i))) st)
       (rotation (rs_next_port_index st) (length (nc_ifs cfg))) False st"

definition queue_valid :: "NetworkConfig \<Rightarrow> int \<Rightarrow> 'e RxState \<Rightarrow> bool" where
  "queue_valid cfg port st \<longleftrightarrow> 0 \<le> port \<and> port < int (length (nc_ifs cfg)) \<and> rs_next_queue_index st port < length (port_queues cfg port)"

lemma get_rx_burst_port_valid:
  assumes "queue_valid cfg port st" "queue_scan recv cfg port st = (ret, got, e)"
  shows "get_rx_burst_port recv cfg port st = (ret, st\<lparr>rs_engine := e, rs_next_queue_index := (case got of
      None \<Rightarrow> rs_next_queue_index st
    | Some i \<Rightarrow> (rs_next_queue_index st)(port := (i + 1) mod length (port_queues cfg port)))\<rparr>)"
  using assms unfolding get_rx_burst_port_def queue_valid_def queue_scan_def port_queues_def by simp

lemma get_rx_burst_valid:
  assumes "nc_ifs cfg \<noteq> []" "port_scan recv cfg st = (ret, got, st')"
  shows "get_rx_burst recv cfg st = (ret, case got of None \<Rightarrow> st' | Some i \<Rightarrow> st'\<lparr>rs_next_port_index := (i + 1) mod length (nc_ifs cfg)\<rparr>)"
  using assms by (simp add: get_rx_burst_def port_scan_def)

lemma get_rx_burst_port_cursor: "rs_next_port_index (snd (get_rx_burst_port recv cfg port st)) = rs_next_port_index st"
  by (simp add: get_rx_burst_port_def Let_def split: prod.splits)

lemma rr_scan_inv:
  assumes "\<And>i st. P st \<Longrightarrow> P (snd (poll i st))" "P st" "rr_scan poll idxs saw st = (ret, got, st')"
  shows "P st'"
  using assms(2,3)
proof (induction idxs arbitrary: saw st)
  case (Cons i idxs)
  then show ?case using assms(1) [of st i] by (auto split: prod.splits if_splits)
qed simp

interpretation queue_rr: fair_rotation "length (port_queues cfg port)" "\<lambda>st. rs_next_queue_index st port"
  "\<lambda>st. snd (get_rx_burst_port recv cfg port st)" "\<lambda>st. fst (snd (queue_scan recv cfg port st))" "queue_valid cfg port"
  for recv :: "'e recv" and cfg port
proof
  fix s :: "'e RxState" and i
  assume v: "queue_valid cfg port s"
  obtain ret got e where q: "queue_scan recv cfg port s = (ret, got, e)" by (metis prod_cases3)
  show "rs_next_queue_index s port < length (port_queues cfg port)" using v by (simp add: queue_valid_def)
  show "queue_valid cfg port (snd (get_rx_burst_port recv cfg port s))"
    using get_rx_burst_port_valid [OF v q] v by (auto simp: queue_valid_def intro!: mod_less_divisor split: option.splits)
  assume "fst (snd (queue_scan recv cfg port s)) = Some i"
  then show "rs_next_queue_index (snd (get_rx_burst_port recv cfg port s)) port = (i + 1) mod length (port_queues cfg port)"
    using get_rx_burst_port_valid [OF v q] q by simp
qed

interpretation port_rr: fair_rotation "length (nc_ifs cfg)" rs_next_port_index
  "\<lambda>st. snd (get_rx_burst recv cfg st)" "\<lambda>st. fst (snd (port_scan recv cfg st))" "\<lambda>st. rs_next_port_index st < length (nc_ifs cfg)"
  for recv :: "'e recv" and cfg
proof
  fix s :: "'e RxState" and i
  assume v: "rs_next_port_index s < length (nc_ifs cfg)"
  then have ne: "nc_ifs cfg \<noteq> []" by auto
  obtain ret got st' where q: "port_scan recv cfg s = (ret, got, st')" by (metis prod_cases3)
  have st': "rs_next_port_index st' = rs_next_port_index s"
    using rr_scan_inv [of "\<lambda>t. rs_next_port_index t = rs_next_port_index s", OF _ _ q [unfolded port_scan_def]]
    by (simp add: get_rx_burst_port_cursor)
  show "rs_next_port_index s < length (nc_ifs cfg)" using v .
  show "rs_next_port_index (snd (get_rx_burst recv cfg s)) < length (nc_ifs cfg)"
    using get_rx_burst_valid [OF ne q] v st' ne by (auto split: option.splits)
  assume "fst (snd (port_scan recv cfg s)) = Some i"
  then show "rs_next_port_index (snd (get_rx_burst recv cfg s)) = (i + 1) mod length (nc_ifs cfg)"
    using get_rx_burst_valid [OF ne q] q by simp
qed

section \<open>Every queue is assigned to its core\<close>

definition core_of :: "RxQueueConfig \<Rightarrow> u32" where
  "core_of q = of_int (strtol10 (cq_cpu_core (rxq_common q)))"

definition queue_key :: "u16 \<times> RxQueueConfig \<Rightarrow> u16 \<times> u16" where
  "queue_key p = (fst p, of_int (cq_id (rxq_common (snd p))))"

lemma assign_queues:
  "fold (assign_queue port) qs m c = m c @ map queue_key (filter (\<lambda>p. core_of (snd p) = c) (map (Pair port) qs))"
  by (induction qs arbitrary: m) (simp_all add: assign_queue_def Let_def core_of_def queue_key_def)

lemma init_rx_core_q_map_exact:
  "init_rx_core_q_map cfg m c = m c @ map queue_key (filter (\<lambda>p. core_of (snd p) = c)
     (concat (map (\<lambda>intf. map (Pair (if_port_id intf)) (rx_queues (if_rx intf))) (nc_ifs cfg))))"
proof -
  have "fold (\<lambda>intf. fold (assign_queue (if_port_id intf)) (rx_queues (if_rx intf))) ifs m c
      = m c @ map queue_key (filter (\<lambda>p. core_of (snd p) = c)
          (concat (map (\<lambda>intf. map (Pair (if_port_id intf)) (rx_queues (if_rx intf))) ifs)))" for ifs
    by (induction ifs arbitrary: m) (simp_all add: assign_queues)
  then show ?thesis by (simp add: init_rx_core_q_map_def)
qed

section \<open>Properties\<close>

text \<open>C20: receiving from a port does not starve a queue: a queue that always has something when it is
  asked is the one that is served by one of the next \<open>n\<close> calls, where \<open>n\<close> is the number of
  queues, whatever the other queues do.\<close>

theorem queue_not_starved:
  assumes "queue_valid cfg port st" "k < length (port_queues cfg port)"
    "\<forall>e. \<not> nothing (fst (recv e port (cq_id (rxq_common (port_queues cfg port ! k)))))"
  shows "\<exists>m<length (port_queues cfg port).
    fst (snd (queue_scan recv cfg port (((\<lambda>st. snd (get_rx_burst_port recv cfg port st)) ^^ m) st))) = Some k"
proof (rule queue_rr.served_within_round [OF assms(1,2)])
  fix s :: "'a RxState"
  assume v: "queue_valid cfg port s"
  let ?n = "length (port_queues cfg port)" and ?c = "rs_next_queue_index s port"
  have "?c < ?n" using v by (simp add: queue_valid_def)
  from rr_scan_rotation [OF this assms(2), of "\<lambda>i e. recv e port (cq_id (rxq_common (port_queues cfg port ! i)))" False "rs_engine s"]
  obtain a where "fst (snd (queue_scan recv cfg port s)) = Some ((?c + a) mod ?n)" "a \<le> (k + ?n - ?c) mod ?n"
    using assms(3) by (auto simp: queue_scan_def)
  then show "\<exists>a\<le>queue_rr.ahead cfg port k s. fst (snd (queue_scan recv cfg port s)) = Some ((?c + a) mod ?n)"
    by (auto simp: queue_rr.ahead_def)
qed

text \<open>Receiving from any port does not starve a port: an interface whose port always yields
  something is the one that is served by one of the next \<open>n\<close> calls, where \<open>n\<close> is the number
  of interfaces.\<close>

theorem port_not_starved:
  assumes "rs_next_port_index st < length (nc_ifs cfg)" "k < length (nc_ifs cfg)"
    "\<forall>st. \<not> nothing (fst (get_rx_burst_port recv cfg (uint (if_port_id (nc_ifs cfg ! k))) st))"
  shows "\<exists>m<length (nc_ifs cfg). fst (snd (port_scan recv cfg (((\<lambda>st. snd (get_rx_burst recv cfg st)) ^^ m) st))) = Some k"
proof (rule port_rr.served_within_round [OF assms(1,2)])
  fix s :: "'a RxState"
  let ?n = "length (nc_ifs cfg)" and ?c = "rs_next_port_index s"
  assume "?c < ?n"
  from rr_scan_rotation [OF this assms(2), of "\<lambda>i st. get_rx_burst_port recv cfg (uint (if_port_id (nc_ifs cfg ! i))) st" False s]
  obtain a where "fst (snd (port_scan recv cfg s)) = Some ((?c + a) mod ?n)" "a \<le> (k + ?n - ?c) mod ?n"
    using assms(3) by (auto simp: port_scan_def)
  then show "\<exists>a\<le>port_rr.ahead cfg k s. fst (snd (port_scan recv cfg s)) = Some ((?c + a) mod ?n)"
    by (auto simp: port_rr.ahead_def)
qed

definition two_queues :: NetworkConfig where
  "two_queues = demo_cfg\<lparr>nc_ifs := [demo_if\<lparr>if_rx := (if_rx demo_if)\<lparr>rx_queues :=
     [demo_rxq\<lparr>rxq_common := (rxq_common demo_rxq)\<lparr>cq_id := 0\<rparr>\<rparr>, demo_rxq\<lparr>rxq_common := (rxq_common demo_rxq)\<lparr>cq_id := 1\<rparr>\<rparr>]\<rparr>\<rparr>]\<rparr>"

theorem queue_not_starved_witness:
  "\<exists>m<2. fst (snd (queue_scan (\<lambda>e _ _. (SUCCESS, e)) two_queues 0
     (((\<lambda>st. snd (get_rx_burst_port (\<lambda>e _ _. (SUCCESS, e)) two_queues 0 st)) ^^ m)
       \<lparr>rs_next_port_index = 0, rs_next_queue_index = \<lambda>_. 0, rs_engine = ()\<rparr>))) = Some 1"
proof -
  have "length (port_queues two_queues 0) = 2" by (simp add: port_queues_def two_queues_def)
  moreover have "queue_valid two_queues 0 \<lparr>rs_next_port_index = 0, rs_next_queue_index = \<lambda>_. 0, rs_engine = ()\<rparr>"
    using calculation by (simp add: queue_valid_def) (simp add: two_queues_def)
  ultimately show ?thesis
    using queue_not_starved [of two_queues 0 "\<lparr>rs_next_port_index = 0, rs_next_queue_index = \<lambda>_. 0, rs_engine = ()\<rparr>" 1 "\<lambda>e _ _. (SUCCESS, e)"]
    by (simp add: nothing_def)
qed

theorem port_not_starved_witness:
  "\<exists>m<1. fst (snd (port_scan (\<lambda>e _ _. (SUCCESS, e)) two_queues
     (((\<lambda>st. snd (get_rx_burst (\<lambda>e _ _. (SUCCESS, e)) two_queues st)) ^^ m)
       \<lparr>rs_next_port_index = 0, rs_next_queue_index = \<lambda>_. 0, rs_engine = ()\<rparr>))) = Some 0"
proof -
  have len: "length (nc_ifs two_queues) = 1" "if_port_id (nc_ifs two_queues ! 0) = 0"
    "rx_queues (if_rx (nc_ifs two_queues ! 0)) \<noteq> []"
    by (simp_all add: two_queues_def demo_if_def)
  have poll: "\<not> nothing (fst (get_rx_burst_port (\<lambda>e _ _. (SUCCESS, e)) two_queues 0 st))" for st :: "unit RxState"
  proof -
    obtain x xs where "rotation (rs_next_queue_index st 0) (length (rx_queues (if_rx (nc_ifs two_queues ! 0)))) = x # xs"
      using len(3) by (cases "rotation (rs_next_queue_index st 0) (length (rx_queues (if_rx (nc_ifs two_queues ! 0))))")
        (auto simp: rotation_def)
    then show ?thesis using len(1) by (simp add: get_rx_burst_port_def nothing_def)
  qed
  show ?thesis
    using port_not_starved [of "\<lparr>rs_next_port_index = 0, rs_next_queue_index = \<lambda>_. 0, rs_engine = ()\<rparr>" two_queues 0 "\<lambda>e _ _. (SUCCESS, e)"]
      poll len by simp
qed

end
