(* ===== verification/Endpoint_Addr.thy ===== *)
theory Endpoint_Addr
  imports Config_Validation Cpp_Strings
begin

text \<open>
  Textual addresses (\<^verbatim>\<open>src/src/common.cpp\<close>): Ethernet addresses, and endpoint addresses of the form
  \<^verbatim>\<open>scheme://ipv4:port?query\<close> with the functions that read and print them. The IPv4 parser of the C
  library is an argument.
\<close>

section \<open>Model: Ethernet addresses\<close>

definition kEthAddrLength :: nat where "kEthAddrLength = 6"

definition hex_digit_value :: "char \<Rightarrow> int" where
  "hex_digit_value digit =
     (let c = int (of_char digit) in
      if c \<ge> 48 \<and> c \<le> 57 then c - 48
      else if c \<ge> 97 \<and> c \<le> 102 then c - 97 + 10
      else if c \<ge> 65 \<and> c \<le> 70 then c - 65 + 10
      else - 1)"

text \<open>The loop with the octets that are left and the text from the current offset.\<close>

fun parse_octets :: "nat \<Rightarrow> string \<Rightarrow> u8 list option" where
  "parse_octets 0 s = Some []"
| "parse_octets (Suc n) (a # b # s) =
     (let high = hex_digit_value a; low = hex_digit_value b in
      if high < 0 \<or> low < 0 then None
      else
        (let octet = of_int (high * 16 + low) in
         if n = 0 then (if s = [] then Some [octet] else None)
         else
           (case s of
              [] \<Rightarrow> None
            | c # s' \<Rightarrow> if c \<noteq> CHR 0x3A then None else map_option ((#) octet) (parse_octets n s'))))"
| "parse_octets (Suc n) s = None"

text \<open>A destination is present unless the pointer is null; the value is what is written to it.\<close>

definition parse_eth_addr :: "bool \<Rightarrow> string \<Rightarrow> Status + u8 list" where
  "parse_eth_addr dst addr =
     (if \<not> dst then Inl NULL_PTR
      else (case parse_octets kEthAddrLength addr of None \<Rightarrow> Inl INVALID_PARAMETER | Some parsed \<Rightarrow> Inr parsed))"

definition format_eth_addr :: "bool \<Rightarrow> string \<Rightarrow> u8 list option" where
  "format_eth_addr dst addr =
     (if \<not> dst then None
      else (case parse_eth_addr True addr of
              Inl _ \<Rightarrow> Some (replicate kEthAddrLength 0)
            | Inr parsed \<Rightarrow> Some parsed))"

section \<open>Model: endpoint addresses\<close>

record ParsedEndpointAddress =
  ep_protocol :: SocketProtocol
  ep_host :: string
  ep_port :: u16

definition protocol_from_endpoint_scheme :: "string \<Rightarrow> SocketProtocol" where
  "protocol_from_endpoint_scheme scheme =
     (if scheme = ''tcp'' then TCP
      else if scheme = ''udp'' then UDP
      else if scheme = ''rdma'' \<or> scheme = ''roce'' then ROCE
      else SocketProtocol.INVALID)"

definition endpoint_scheme_from_protocol :: "SocketProtocol \<Rightarrow> string" where
  "endpoint_scheme_from_protocol protocol =
     (case protocol of TCP \<Rightarrow> ''tcp'' | UDP \<Rightarrow> ''udp'' | ROCE \<Rightarrow> ''roce'' | SocketProtocol.INVALID \<Rightarrow> [])"

definition query_item_ok :: "string \<Rightarrow> bool" where
  "query_item_ok item =
     (case split_first (CHR 0x3D) item of
        None \<Rightarrow> False
      | Some (key, value) \<Rightarrow> \<not> (key = [] \<or> value = []) \<and> key = ''engine'' \<and> value = ''ibverbs'')"

lemma split_first_length: "split_first c s = Some (a, b) \<Longrightarrow> length b < length s"
  by (induction s arbitrary: a b) (auto split: if_splits)

function query_loop :: "string \<Rightarrow> bool" where
  "query_loop s =
     (case split_first (CHR 0x26) s of
        None \<Rightarrow> query_item_ok s
      | Some (item, rest) \<Rightarrow> query_item_ok item \<and> query_loop rest)"
  by pat_completeness auto
termination
  by (relation "measure length") (auto dest: split_first_length)

declare query_loop.simps [simp del]

definition parse_endpoint_query :: "string \<Rightarrow> SocketProtocol \<Rightarrow> bool" where
  "parse_endpoint_query query protocol =
     (if query = [] then True
      else if protocol \<noteq> ROCE then False
      else query_loop query)"

definition parse_port :: "SocketProtocol \<Rightarrow> bool \<Rightarrow> string \<Rightarrow> u16 option" where
  "parse_port protocol allow_missing_roce_port port_str =
     (case from_chars_whole 10 (2 ^ 32) port_str of
        None \<Rightarrow> None
      | Some port \<Rightarrow>
          if port > 65535 \<or> (port = 0 \<and> \<not> (allow_missing_roce_port \<and> protocol = ROCE)) then None
          else Some (of_nat port))"

definition parse_authority :: "SocketProtocol \<Rightarrow> bool \<Rightarrow> string \<Rightarrow> (string \<times> u16) option" where
  "parse_authority protocol allow_missing_roce_port authority =
     (if authority = [] \<or> CHR 0x2F \<in> set authority then None
      else
        (case split_last (CHR 0x3A) authority of
           None \<Rightarrow> if allow_missing_roce_port \<and> protocol = ROCE then Some (authority, 0) else None
         | Some (host, port_str) \<Rightarrow>
             if host = [] \<or> port_str = [] then None
             else map_option (Pair host) (parse_port protocol allow_missing_roce_port port_str)))"

definition parse_endpoint_addr :: "pton \<Rightarrow> string \<Rightarrow> bool \<Rightarrow> ParsedEndpointAddress option" where
  "parse_endpoint_addr inet_pton value allow_missing_roce_port =
     (case find_scheme [] value of
        None \<Rightarrow> None
      | Some scheme \<Rightarrow>
          if scheme = [] then None
          else
            (let protocol = protocol_from_endpoint_scheme scheme;
                 endpoint = drop (length scheme + 3) value;
                 (authority, query) = (case split_first (CHR 0x3F) endpoint of
                    None \<Rightarrow> (endpoint, []) | Some (a, q) \<Rightarrow> (a, q))
             in if protocol = SocketProtocol.INVALID then None
                else if \<not> parse_endpoint_query query protocol then None
                else
                  (case parse_authority protocol allow_missing_roce_port authority of
                     None \<Rightarrow> None
                   | Some (host, port) \<Rightarrow>
                       if inet_pton host = None then None
                       else Some \<lparr>ep_protocol = protocol, ep_host = host, ep_port = port\<rparr>)))"

definition apply_endpoint_addr ::
    "pton \<Rightarrow> string \<Rightarrow> bool \<Rightarrow> SocketProtocol \<Rightarrow> (SocketProtocol \<times> string \<times> u16) option" where
  "apply_endpoint_addr inet_pton value allow_missing_roce_port protocol =
     (case parse_endpoint_addr inet_pton value allow_missing_roce_port of
        None \<Rightarrow> None
      | Some parsed \<Rightarrow>
          if protocol \<noteq> SocketProtocol.INVALID \<and> protocol \<noteq> ep_protocol parsed then None
          else Some (ep_protocol parsed, ep_host parsed, ep_port parsed))"

definition make_endpoint_addr :: "SocketProtocol \<Rightarrow> string \<Rightarrow> u16 \<Rightarrow> string" where
  "make_endpoint_addr protocol ip port =
     (let scheme = endpoint_scheme_from_protocol protocol in
      if scheme = [] \<or> ip = [] then []
      else if protocol = ROCE \<and> port = 0 then scheme @ ''://'' @ ip
      else if port = 0 then []
      else scheme @ ''://'' @ ip @ '':'' @ nat_to_string (unat port))"

section \<open>Reading Ethernet addresses\<close>

lemma hex_digit_value_iff: "0 \<le> hex_digit_value c \<longleftrightarrow> is_hex_digit c"
  by (auto simp: hex_digit_value_def is_hex_digit_def Let_def)

lemma parse_octets_iff: "parse_octets (Suc n) s \<noteq> None \<longleftrightarrow> mac_octets (Suc n) s"
proof (induction n arbitrary: s)
  case 0
  show ?case
  proof (cases s rule: remdups_adj.cases)
    case (3 a b t)
    then show ?thesis
      using hex_digit_value_iff [of a] hex_digit_value_iff [of b] by (cases t) (auto simp: Let_def)
  qed auto
next
  case (Suc n)
  show ?case
  proof (cases s rule: remdups_adj.cases)
    case (3 a b t)
    then show ?thesis
      using Suc.IH hex_digit_value_iff [of a] hex_digit_value_iff [of b]
      by (cases t) (auto simp: Let_def)
  qed auto
qed

lemma parse_octets_length: "parse_octets n s = Some os \<Longrightarrow> length os = n"
  by (induction n s arbitrary: os rule: parse_octets.induct) (auto simp: Let_def split: if_splits list.splits)

text \<open>The canonical text of an address: two lower-case digits per octet, separated by colons.\<close>

definition hex_char :: "nat \<Rightarrow> char" where
  "hex_char d = (if d < 10 then char_of (48 + d) else char_of (87 + d))"

fun mac_text :: "u8 list \<Rightarrow> string" where
  "mac_text [] = []"
| "mac_text [x] = [hex_char (unat x div 16), hex_char (unat x mod 16)]"
| "mac_text (x # y # xs) = hex_char (unat x div 16) # hex_char (unat x mod 16) # CHR 0x3A # mac_text (y # xs)"

lemma of_hex_char: "d < 16 \<Longrightarrow> (of_char (hex_char d) :: nat) = (if d < 10 then 48 + d else 87 + d)"
  by (simp add: hex_char_def)

lemma hex_char_value: "d < 16 \<Longrightarrow> hex_digit_value (hex_char d) = int d"
  by (simp add: hex_digit_value_def of_hex_char Let_def)

lemma octet_high: "unat (x :: u8) div 16 < 16"
proof -
  have "unat x < 2 ^ LENGTH(8)" by (rule unsigned_less)
  then show ?thesis by (simp add: less_mult_imp_div_less)
qed

lemma octet_value:
  "of_int (int (unat (x :: u8) div 16) * 16 + int (unat x mod 16)) = x"
proof -
  have "int (unat x div 16) * 16 + int (unat x mod 16) = int (unat x)"
    by presburger
  then show ?thesis by simp
qed

lemma parse_octets_mac_text: "os \<noteq> [] \<Longrightarrow> parse_octets (length os) (mac_text os) = Some os"
proof (induction os rule: mac_text.induct)
  case (2 x)
  then show ?case
    using octet_value [of x] by (simp add: Let_def hex_char_value octet_high)
next
  case (3 x y xs)
  then show ?case
    using octet_value [of x] by (simp add: Let_def hex_char_value octet_high)
qed simp

text \<open>C35: An Ethernet address is accepted exactly when it has the shape the configuration validator asks for, and
  refused as an invalid parameter otherwise; the converted address always has six octets, and the
  colon-separated text of six octets is read back to them.\<close>

theorem parse_eth_addr_correct:
  "parse_eth_addr dst addr =
     (if \<not> dst then Inl NULL_PTR
      else if is_mac_address addr then Inr (the (format_eth_addr dst addr)) else Inl INVALID_PARAMETER) \<and>
   map_option length (format_eth_addr dst addr) = (if dst then Some kEthAddrLength else None) \<and>
   parse_eth_addr True (mac_text [a, b, c, d, e, f]) = Inr [a, b, c, d, e, f]"
proof (intro conjI)
  show "parse_eth_addr dst addr =
           (if \<not> dst then Inl NULL_PTR
            else if is_mac_address addr then Inr (the (format_eth_addr dst addr)) else Inl INVALID_PARAMETER)"
    using parse_octets_iff [of 5 addr]
    by (auto simp: parse_eth_addr_def format_eth_addr_def kEthAddrLength_def is_mac_address_def eval_nat_numeral
      split: option.splits)
  show "map_option length (format_eth_addr dst addr) = (if dst then Some kEthAddrLength else None)"
    using parse_octets_length [of kEthAddrLength addr]
    by (auto simp: parse_eth_addr_def format_eth_addr_def split: option.splits)
  have "kEthAddrLength = length [a, b, c, d, e, f]" by (simp add: kEthAddrLength_def)
  then show "parse_eth_addr True (mac_text [a, b, c, d, e, f]) = Inr [a, b, c, d, e, f]"
    using parse_octets_mac_text [of "[a, b, c, d, e, f]"] by (simp only: parse_eth_addr_def) simp
qed

section \<open>Endpoint addresses\<close>

lemma find_scheme_append: "CHR 0x3A \<notin> set s \<Longrightarrow> find_scheme acc (s @ '':'' @ ''//'' @ r) = Some (rev acc @ s)"
  by (induction s arbitrary: acc) auto

lemma scheme_round_trip:
  "p \<noteq> SocketProtocol.INVALID \<Longrightarrow>
     endpoint_scheme_from_protocol p \<noteq> [] \<and> CHR 0x3A \<notin> set (endpoint_scheme_from_protocol p) \<and>
     protocol_from_endpoint_scheme (endpoint_scheme_from_protocol p) = p"
  by (cases p) (auto simp: endpoint_scheme_from_protocol_def protocol_from_endpoint_scheme_def)

lemma digits_plain: "\<not> is_digit c \<Longrightarrow> c \<notin> set (nat_to_string n)"
  using nat_to_string_digits by blast

lemma parse_port_printed:
  "p \<noteq> 0 \<Longrightarrow> parse_port proto allow (nat_to_string (unat (p :: u16))) = Some p"
proof -
  assume p: "p \<noteq> 0"
  have lt: "unat p < 2 ^ LENGTH(16)" by (rule unsigned_less)
  have "unat p \<noteq> 0" using p by (simp add: unsigned_eq_0_iff)
  with lt show ?thesis
    by (simp add: parse_port_def from_chars_to_string)
qed

text \<open>The hosts the printed form can carry: no separator of the grammar, and accepted by the C library.\<close>

definition plain_host :: "pton \<Rightarrow> string \<Rightarrow> bool" where
  "plain_host inet_pton ip \<longleftrightarrow>
     ip \<noteq> [] \<and> inet_pton ip \<noteq> None \<and> set ip \<inter> {CHR 0x3A, CHR 0x2F, CHR 0x3F} = {}"

lemma parse_authority_printed:
  assumes h: "plain_host pt ip" and port: "port \<noteq> 0"
  shows "parse_authority p allow (ip @ '':'' @ nat_to_string (unat port)) = Some (ip, port)"
proof -
  have d: "\<And>c. c \<in> set (nat_to_string (unat port)) \<Longrightarrow> c \<noteq> CHR 0x2F \<and> c \<noteq> CHR 0x3A"
    using nat_to_string_digits by (fastforce simp: is_digit_def)
  have "split_last (CHR 0x3A) (ip @ CHR 0x3A # nat_to_string (unat port)) = Some (ip, nat_to_string (unat port))"
    using d by (intro split_last_append) blast
  moreover have "CHR 0x2F \<notin> set (ip @ CHR 0x3A # nat_to_string (unat port))"
    using h d by (auto simp: plain_host_def)
  ultimately show ?thesis
    using h by (simp add: parse_authority_def plain_host_def nat_to_string_nonempty parse_port_printed [OF port])
qed

lemma parse_endpoint_addr_plain:
  assumes p: "p \<noteq> SocketProtocol.INVALID" and q: "CHR 0x3F \<notin> set authority"
    and a: "parse_authority p allow authority = Some (ip, port)" and h: "pt ip \<noteq> None"
  shows "parse_endpoint_addr pt (endpoint_scheme_from_protocol p @ ''://'' @ authority) allow =
           Some \<lparr>ep_protocol = p, ep_host = ip, ep_port = port\<rparr>"
  using scheme_round_trip [OF p] find_scheme_append [of "endpoint_scheme_from_protocol p" "[]" authority] p a h
  by (simp add: parse_endpoint_addr_def Let_def split_first_None [THEN iffD2, OF q] parse_endpoint_query_def)

text \<open>C34: Printing an endpoint address and reading it back gives the protocol, host and port it was printed from,
  for every protocol the printer supports; an endpoint without a port is printed, and read, for RoCE only.\<close>

theorem endpoint_addr_round_trip:
  assumes "p \<noteq> SocketProtocol.INVALID" and "plain_host pt ip" and "port \<noteq> 0 \<or> (p = ROCE \<and> allow)"
  shows "parse_endpoint_addr pt (make_endpoint_addr p ip port) allow =
           Some \<lparr>ep_protocol = p, ep_host = ip, ep_port = port\<rparr> \<and>
         apply_endpoint_addr pt (make_endpoint_addr p ip port) allow q =
           (if q = SocketProtocol.INVALID \<or> q = p then Some (p, ip, port) else None)"
proof (intro conjI)
  have h: "pt ip \<noteq> None" "ip \<noteq> []" "CHR 0x3F \<notin> set ip" "CHR 0x3A \<notin> set ip" "CHR 0x2F \<notin> set ip"
    using assms(2) by (auto simp: plain_host_def)
  show *: "parse_endpoint_addr pt (make_endpoint_addr p ip port) allow =
           Some \<lparr>ep_protocol = p, ep_host = ip, ep_port = port\<rparr>"
  proof (cases "port = 0")
    case True
    then have r: "p = ROCE" "allow" using assms(3) by auto
    have "parse_authority p allow ip = Some (ip, port)"
      using r True h split_last_None [of "CHR 0x3A" ip] by (simp add: parse_authority_def)
    from parse_endpoint_addr_plain [where pt = pt, OF assms(1) h(3) this h(1)] show ?thesis
      using r True h scheme_round_trip [OF assms(1)] by (simp add: make_endpoint_addr_def Let_def)
  next
    case False
    have q: "CHR 0x3F \<notin> set (ip @ '':'' @ nat_to_string (unat port))"
      using h digits_plain [of "CHR 0x3F"] by (simp add: is_digit_def)
    from parse_endpoint_addr_plain [where pt = pt, OF assms(1) q parse_authority_printed [OF assms(2) False] h(1)] show ?thesis
      using False h scheme_round_trip [OF assms(1)] by (simp add: make_endpoint_addr_def Let_def)
  qed
  show "apply_endpoint_addr pt (make_endpoint_addr p ip port) allow q =
           (if q = SocketProtocol.INVALID \<or> q = p then Some (p, ip, port) else None)"
    by (simp add: apply_endpoint_addr_def *)
qed

theorem endpoint_addr_round_trip_witness:
  "parse_endpoint_addr (\<lambda>h. if h = ''10.0.0.1'' then Some 0x0A000001 else None)
     (make_endpoint_addr ROCE ''10.0.0.1'' 4791) False =
     Some \<lparr>ep_protocol = ROCE, ep_host = ''10.0.0.1'', ep_port = 4791\<rparr>"
  by (rule endpoint_addr_round_trip [THEN conjunct1]) (simp_all add: plain_host_def)

end
