(* ===== verification/Yaml_Values.thy ===== *)
theory Yaml_Values
  imports Endpoint_Addr "HOL-Library.Monad_Syntax"
begin

text \<open>
  Reading typed values from YAML nodes: the helpers of \<^verbatim>\<open>include/daqiri/common.h\<close> and the field readers of
  \<^verbatim>\<open>src/src/common.cpp\<close>. The YAML library is not part of the repository: a node is a value of an
  arbitrary type, and the operations the code calls on nodes are the fields of a record that every
  reader takes as its first argument. An operation that throws has the result \<open>None\<close>. A reader that
  returns false and a reader that lets an exception through have the same result \<open>None\<close>: the outermost
  reader, \<^verbatim>\<open>decode\<close>, turns exceptions into false and every intermediate caller returns false when a
  reader it calls does.
\<close>

section \<open>Nodes\<close>

record 'n Yaml =
  y_index :: "'n \<Rightarrow> string \<Rightarrow> 'n option"
  y_defined :: "'n \<Rightarrow> bool"
  y_is_scalar :: "'n \<Rightarrow> bool option"
  y_is_map :: "'n \<Rightarrow> bool option"
  y_is_sequence :: "'n \<Rightarrow> bool option"
  y_tag :: "'n \<Rightarrow> string option"
  y_elements :: "'n \<Rightarrow> 'n list option"   \<comment> \<open>what iterating over a sequence visits\<close>
  y_keys :: "'n \<Rightarrow> 'n list option"       \<comment> \<open>the first components of what iterating over a map visits\<close>
  y_string :: "'n \<Rightarrow> string option"      \<comment> \<open>\<^verbatim>\<open>as<std::string>()\<close>\<close>
  y_bool :: "'n \<Rightarrow> bool option"          \<comment> \<open>\<^verbatim>\<open>as<bool>()\<close>\<close>

text \<open>\<^verbatim>\<open>if (!b) return false\<close>.\<close>

definition require :: "bool \<Rightarrow> unit option" where
  "require b = (if b then Some () else None)"

text \<open>\<^verbatim>\<open>node[key].IsDefined()\<close> and \<^verbatim>\<open>if (node[key])\<close>.\<close>

definition has_key :: "'n Yaml \<Rightarrow> 'n \<Rightarrow> string \<Rightarrow> bool option" where
  "has_key y node key = map_option (y_defined y) (y_index y node key)"

definition string_field :: "'n Yaml \<Rightarrow> 'n \<Rightarrow> string \<Rightarrow> string option" where
  "string_field y node key = y_index y node key \<bind> y_string y"

section \<open>Model: readers of one value\<close>

fun keys_known :: "'n Yaml \<Rightarrow> string list \<Rightarrow> 'n list \<Rightarrow> unit option" where
  "keys_known y allowed_keys [] = Some ()"
| "keys_known y allowed_keys (entry # entries) = do {
     scalar \<leftarrow> y_is_scalar y entry;
     require scalar;
     key \<leftarrow> y_string y entry;
     require (key \<in> set allowed_keys);
     keys_known y allowed_keys entries
   }"

definition validate_yaml_mapping_keys :: "'n Yaml \<Rightarrow> 'n \<Rightarrow> string list \<Rightarrow> unit option" where
  "validate_yaml_mapping_keys y node allowed_keys = do {
     is_map \<leftarrow> y_is_map y node;
     require is_map;
     entries \<leftarrow> y_keys y node;
     keys_known y allowed_keys entries
   }"

definition parse_optional_yaml_scalar ::
    "'n Yaml \<Rightarrow> bool \<Rightarrow> ('n \<Rightarrow> 'v option) \<Rightarrow> 'n \<Rightarrow> string \<Rightarrow> 'v \<Rightarrow> 'v option" where
  "parse_optional_yaml_scalar y is_bool as_T node key default_value = do {
     value_node \<leftarrow> y_index y node key;
     if \<not> y_defined y value_node then Some default_value
     else do {
       scalar \<leftarrow> y_is_scalar y value_node;
       require scalar;
       if is_bool then do {
         tag \<leftarrow> y_tag y value_node;
         require (\<not> (tag = ''!'' \<or> tag = ''tag:yaml.org,2002:str''));
         as_T value_node
       } else as_T value_node
     }
   }"

definition optional_string :: "'n Yaml \<Rightarrow> 'n \<Rightarrow> string \<Rightarrow> string \<Rightarrow> string option" where
  "optional_string y = parse_optional_yaml_scalar y False (y_string y)"

definition optional_bool :: "'n Yaml \<Rightarrow> 'n \<Rightarrow> string \<Rightarrow> bool \<Rightarrow> bool option" where
  "optional_bool y = parse_optional_yaml_scalar y True (y_bool y)"

text \<open>The integer types the template is used at: signed or not, and their width.\<close>

definition int_min :: "bool \<Rightarrow> nat \<Rightarrow> int" where
  "int_min signed_T bits = (if signed_T then - (2 ^ (bits - 1)) else 0)"

definition int_max :: "bool \<Rightarrow> nat \<Rightarrow> int" where
  "int_max signed_T bits = (if signed_T then 2 ^ (bits - 1) - 1 else 2 ^ bits - 1)"

definition split_sign :: "string \<Rightarrow> (bool \<times> string) option" where
  "split_sign text =
     (if hd text = CHR 0x2B \<or> hd text = CHR 0x2D
      then (if tl text = [] then None else Some (hd text = CHR 0x2D, tl text))
      else Some (False, text))"

definition split_base :: "string \<Rightarrow> (nat \<times> string) option" where
  "split_base text =
     (if take 2 text = ''0o'' then Some (8, drop 2 text)
      else if take 2 text = ''0x'' then Some (16, drop 2 text)
      else if hd text = CHR 0x30 \<and> length text \<noteq> 1 then None
      else Some (10, text))"

definition integer_from_text :: "bool \<Rightarrow> nat \<Rightarrow> string \<Rightarrow> int option" where
  "integer_from_text signed_T bits text = do {
     require (text \<noteq> []);
     (negative, text) \<leftarrow> split_sign text;
     require (signed_T \<or> \<not> negative);
     (base, text) \<leftarrow> split_base text;
     require (text \<noteq> []);
     magnitude \<leftarrow> from_chars_whole base (2 ^ 64) text;
     if negative then do {
       require (\<not> int magnitude > int_max signed_T bits + 1);
       Some (if int magnitude = int_max signed_T bits + 1 then int_min signed_T bits else - int magnitude)
     } else do {
       require (\<not> int magnitude > int_max signed_T bits);
       Some (int magnitude)
     }
   }"

definition parse_yaml_integer :: "'n Yaml \<Rightarrow> bool \<Rightarrow> nat \<Rightarrow> 'n \<Rightarrow> int option" where
  "parse_yaml_integer y signed_T bits node = do {
     scalar \<leftarrow> y_is_scalar y node;
     require scalar;
     tag \<leftarrow> y_tag y node;
     require (tag = ''?'' \<or> tag = ''tag:yaml.org,2002:int'');
     text \<leftarrow> y_string y node;
     integer_from_text signed_T bits text
   }"

definition parse_yaml_unsigned :: "'n Yaml \<Rightarrow> 'n \<Rightarrow> 'a::len word option" where
  "parse_yaml_unsigned y node = map_option of_int (parse_yaml_integer y False LENGTH('a) node)"

definition parse_optional_yaml_integer :: "'n Yaml \<Rightarrow> bool \<Rightarrow> nat \<Rightarrow> 'n \<Rightarrow> string \<Rightarrow> int \<Rightarrow> int option" where
  "parse_optional_yaml_integer y signed_T bits node key default_value = do {
     value_node \<leftarrow> y_index y node key;
     if \<not> y_defined y value_node then Some default_value
     else parse_yaml_integer y signed_T bits value_node
   }"

definition optional_unsigned :: "'n Yaml \<Rightarrow> 'n \<Rightarrow> string \<Rightarrow> 'a::len word \<Rightarrow> 'a word option" where
  "optional_unsigned y node key default_value =
     map_option of_int (parse_optional_yaml_integer y False LENGTH('a) node key (uint default_value))"

definition DirectionStringToType :: "string \<Rightarrow> Direction" where
  "DirectionStringToType dir =
     (if dir = ''rx'' then Direction.RX else if dir = ''tx'' then Direction.TX else TX_RX)"

definition parse_u64_scalar :: "'n Yaml \<Rightarrow> 'n \<Rightarrow> u64 option" where
  "parse_u64_scalar y node = (if y_defined y node then parse_yaml_unsigned y node else None)"

text \<open>\<^verbatim>\<open>parse_u8_field\<close>, \<^verbatim>\<open>parse_u16_field\<close> and \<^verbatim>\<open>parse_u32_field\<close>.\<close>

definition parse_narrow :: "nat \<Rightarrow> u64 \<Rightarrow> 'a::len word option" where
  "parse_narrow bits parsed = (if unat parsed > 2 ^ bits - 1 then None else Some (of_nat (unat parsed)))"

definition parse_u8_field :: "'n Yaml \<Rightarrow> 'n \<Rightarrow> string \<Rightarrow> u8 option" where
  "parse_u8_field y node key = y_index y node key \<bind> parse_u64_scalar y \<bind> parse_narrow 8"

definition parse_u16_field :: "'n Yaml \<Rightarrow> 'n \<Rightarrow> string \<Rightarrow> u16 option" where
  "parse_u16_field y node key = y_index y node key \<bind> parse_u64_scalar y \<bind> parse_narrow 16"

definition parse_u32_field :: "'n Yaml \<Rightarrow> 'n \<Rightarrow> string \<Rightarrow> u32 option" where
  "parse_u32_field y node key = y_index y node key \<bind> parse_u64_scalar y \<bind> parse_narrow 32"

definition nested_or_self :: "'n Yaml \<Rightarrow> 'n \<Rightarrow> string \<Rightarrow> 'n option" where
  "nested_or_self y node key = map_option (\<lambda>nested. if y_defined y nested then nested else node) (y_index y node key)"

text \<open>The definitions that evaluate a reader on a given document, and the congruence rule that evaluates a step before
  the steps that follow it.\<close>

lemma bind_weak_cong: "m = m' \<Longrightarrow> Option.bind m f = Option.bind m' f"
  by simp

lemmas yaml_eval =
  has_key_def string_field_def validate_yaml_mapping_keys_def parse_optional_yaml_scalar_def optional_string_def
  optional_bool_def int_min_def int_max_def split_sign_def split_base_def integer_from_text_def parse_yaml_integer_def
  parse_yaml_unsigned_def parse_optional_yaml_integer_def optional_unsigned_def parse_u64_scalar_def parse_narrow_def
  parse_u8_field_def parse_u16_field_def parse_u32_field_def nested_or_self_def from_chars_whole_def digit_of_def

section \<open>Integers\<close>

lemma require_Some [simp]: "require b = Some u \<longleftrightarrow> b"
  by (simp add: require_def)

lemma require_bind [simp]: "(require b \<bind> f) = (if b then f () else None)"
  by (simp add: require_def)

lemma bind_Some: "(m \<bind> f) = Some v \<longleftrightarrow> (\<exists>x. m = Some x \<and> f x = Some v)"
  by (cases m) auto

lemma bind_SomeE:
  assumes "(m \<bind> f) = Some v"
  obtains x where "m = Some x" "f x = Some v"
  using assms by (auto simp: bind_Some)

lemma bind_pairE:
  assumes "(m \<bind> case_prod f) = Some v"
  obtains a b where "m = Some (a, b)" "f a b = Some v"
  using assms by (auto simp: bind_Some)

lemma requireE:
  assumes "(if b then m else None) = Some v"
  obtains "b" "m = Some v"
  using assms by (auto split: if_splits)

lemma nat_to_string_small: "n < 10 \<Longrightarrow> nat_to_string n = [char_of (48 + n)]"
  by (subst nat_to_string.simps) simp

lemma nat_to_string_hd: "0 < n \<Longrightarrow> hd (nat_to_string n) \<noteq> CHR 0x30"
proof (induction n rule: nat_to_string.induct)
  case (1 n)
  show ?case
  proof (cases "n < 10")
    case True
    have "(of_char (char_of (48 + n) :: char) :: nat) \<noteq> of_char (CHR 0x30)" using True 1 by simp
    then have "char_of (48 + n) \<noteq> CHR 0x30" by metis
    then show ?thesis using True by (simp add: nat_to_string_small)
  next
    case False
    then have "0 < n div 10" by simp
    then show ?thesis using 1 False by (subst nat_to_string.simps) (simp add: nat_to_string_nonempty)
  qed
qed

lemma split_base_decimal: "split_base (nat_to_string n) = Some (10, nat_to_string n)"
proof -
  have d: "\<And>c. c \<in> set (take 2 (nat_to_string n)) \<Longrightarrow> is_digit c"
    using nat_to_string_digits set_take_subset by fast
  have "take 2 (nat_to_string n) \<noteq> ''0o''" "take 2 (nat_to_string n) \<noteq> ''0x''"
    using d [of "CHR ''o''"] d [of "CHR ''x''"] by (auto simp: is_digit_def)
  moreover have "hd (nat_to_string n) \<noteq> CHR 0x30 \<or> length (nat_to_string n) = 1"
    using nat_to_string_hd [of n] nat_to_string_small [of 0] by (cases "n = 0") auto
  ultimately show ?thesis by (auto simp: split_base_def)
qed

lemma split_sign_decimal:
  "split_sign (int_to_string v) = Some (v < 0, nat_to_string (nat \<bar>v\<bar>))"
proof (cases "v < 0")
  case True
  then show ?thesis by (simp add: split_sign_def int_to_string_def nat_to_string_nonempty)
next
  case False
  have "is_digit (hd (nat_to_string (nat v)))"
    using nat_to_string_digits nat_to_string_nonempty hd_in_set by blast
  then have "hd (nat_to_string (nat v)) \<noteq> CHR 0x2B" "hd (nat_to_string (nat v)) \<noteq> CHR 0x2D"
    by (auto simp: is_digit_def)
  then show ?thesis using False by (simp add: split_sign_def int_to_string_def)
qed

lemma from_chars_decimal:
  "from_chars_whole 10 limit (nat_to_string n) = (if n < limit then Some n else None)"
  by (simp add: from_chars_whole_def base_value_nat_to_string nat_to_string_nonempty)

lemma int_to_string_nonempty: "int_to_string v \<noteq> []"
  by (simp add: int_to_string_def nat_to_string_nonempty)

lemma int_limits:
  assumes "0 < bits" "bits \<le> 64"
  shows "int_max signed_T bits < 2 ^ 64" "int_min True bits = - int_max True bits - 1" "- int_min signed_T bits < 2 ^ 64" "0 \<le> int_max signed_T bits"
proof -
  have a: "(2 :: int) ^ (bits - 1) \<le> 2 ^ 63" using assms by (intro power_increasing) auto
  have b: "(2 :: int) ^ bits \<le> 2 ^ 64" using assms by (intro power_increasing) auto
  show "int_max signed_T bits < 2 ^ 64" using a b by (simp add: int_max_def)
  show "int_min True bits = - int_max True bits - 1" by (simp add: int_min_def int_max_def)
  show "- int_min signed_T bits < 2 ^ 64" using a by (simp add: int_min_def)
  show "0 \<le> int_max signed_T bits" by (simp add: int_max_def)
qed

lemma integer_from_decimal:
  assumes "0 < bits" "bits \<le> 64"
  shows "integer_from_text signed_T bits (int_to_string v) =
           (if int_min signed_T bits \<le> v \<and> v \<le> int_max signed_T bits then Some v else None)"
proof (cases "nat \<bar>v\<bar> < 2 ^ 64")
  case True
  have "int_max signed_T bits + 1 \<ge> 0" using int_limits [OF assms] by (smt (verit))
  then show ?thesis
    using True int_limits(2) [OF assms]
    by (cases signed_T; cases "v < 0")
      (auto simp: integer_from_text_def int_to_string_nonempty split_sign_decimal split_base_decimal
        nat_to_string_nonempty from_chars_decimal int_min_def)
next
  case False
  then have "\<not> (int_min signed_T bits \<le> v \<and> v \<le> int_max signed_T bits)"
    using int_limits(1,3) [OF assms, of signed_T] by (auto simp: nat_less_iff not_less)
  then show ?thesis using False
    by (auto simp: integer_from_text_def int_to_string_nonempty split_sign_decimal split_base_decimal
        nat_to_string_nonempty from_chars_decimal)
qed

lemma integer_from_text_range:
  assumes "0 < bits" "bits \<le> 64" "integer_from_text signed_T bits text = Some v"
  shows "int_min signed_T bits \<le> v \<and> v \<le> int_max signed_T bits"
  using assms(3) int_limits(1,3,4) [OF assms(1,2), of signed_T] int_limits(2) [OF assms(1,2)]
  by (auto simp: integer_from_text_def bind_Some int_min_def split: if_splits)

text \<open>C30: An integer is read at the width of its type. A plain scalar that spells a decimal integer is read to that
  integer when it lies between the limits of the type, signed or unsigned, and refused otherwise; whatever the
  spelling of a scalar, what is read lies between the limits.\<close>

theorem parse_yaml_integer_exact:
  assumes "bits \<in> {8, 16, 32, 64}" and "y_is_scalar y node = Some True" and "y_tag y node = Some ''?''"
  shows "(\<forall>v. y_string y node = Some (int_to_string v) \<longrightarrow>
            parse_yaml_integer y signed_T bits node =
              (if int_min signed_T bits \<le> v \<and> v \<le> int_max signed_T bits then Some v else None)) \<and>
         (\<forall>v. parse_yaml_integer y signed_T bits node = Some v \<longrightarrow>
            int_min signed_T bits \<le> v \<and> v \<le> int_max signed_T bits)"
proof -
  have bits: "0 < bits" "bits \<le> 64" using assms(1) by auto
  have "parse_yaml_integer y signed_T bits node = y_string y node \<bind> integer_from_text signed_T bits"
    using assms(2,3) by (simp add: parse_yaml_integer_def)
  then show ?thesis
    using integer_from_decimal [OF bits] integer_from_text_range [OF bits] by (auto simp: bind_Some)
qed

text \<open>Nodes that are plain scalars, given by their text.\<close>

definition scalar_yaml :: "string Yaml" where
  "scalar_yaml =
     \<lparr>y_index = \<lambda>_ _. None, y_defined = \<lambda>_. True, y_is_scalar = \<lambda>_. Some True, y_is_map = \<lambda>_. Some False,
      y_is_sequence = \<lambda>_. Some False, y_tag = \<lambda>_. Some ''?'', y_elements = \<lambda>_. None, y_keys = \<lambda>_. None,
      y_string = Some, y_bool = \<lambda>_. None\<rparr>"

theorem parse_yaml_integer_exact_witness:
  "parse_yaml_integer scalar_yaml True 8 (int_to_string (- 128)) = Some (- 128) \<and>
   parse_yaml_integer scalar_yaml True 8 (int_to_string 128) = None"
proof -
  have y: "y_is_scalar scalar_yaml t = Some True" "y_tag scalar_yaml t = Some ''?''" "y_string scalar_yaml t = Some t" for t
    by (simp_all add: scalar_yaml_def)
  have "parse_yaml_integer scalar_yaml True 8 (int_to_string v) =
      (if int_min True 8 \<le> v \<and> v \<le> int_max True 8 then Some v else None)" for v
    using parse_yaml_integer_exact [of 8 scalar_yaml "int_to_string v" True] y by blast
  then show ?thesis by (simp add: int_min_def int_max_def)
qed

end
