(* ===== verification/Yaml_Flows.thy ===== *)
theory Yaml_Flows
  imports Yaml_Values
begin

text \<open>
  Reading flows and flex items from the configuration file (\<^verbatim>\<open>src/src/common.cpp\<close>): \<^verbatim>\<open>parse_flow_action_config\<close>,
  \<^verbatim>\<open>parse_flow_config\<close> and \<^verbatim>\<open>parse_flex_item_config\<close>, one definition per section of the code where the functions are long.
\<close>

section \<open>Model: sequences and optional fields\<close>

definition as_sequence :: "'n Yaml \<Rightarrow> 'n \<Rightarrow> 'n list option" where
  "as_sequence y node = do {
     is_sequence \<leftarrow> y_is_sequence y node;
     require is_sequence;
     y_elements y node
   }"

definition as_nonempty_sequence :: "'n Yaml \<Rightarrow> 'n \<Rightarrow> 'n list option" where
  "as_nonempty_sequence y node = do {
     elements \<leftarrow> as_sequence y node;
     require (elements \<noteq> []);
     Some elements
   }"

primrec read_each :: "('n \<Rightarrow> 'v option) \<Rightarrow> 'n list \<Rightarrow> 'v list option" where
  "read_each f [] = Some []"
| "read_each f (e # es) = do { v \<leftarrow> f e; vs \<leftarrow> read_each f es; Some (v # vs) }"

text \<open>A field that keeps its value when the key is absent.\<close>

definition optional_field ::
    "'n Yaml \<Rightarrow> ('n Yaml \<Rightarrow> 'n \<Rightarrow> string \<Rightarrow> 'v option) \<Rightarrow> 'n \<Rightarrow> string \<Rightarrow> 'v \<Rightarrow> 'v option" where
  "optional_field y parse node key old = do {
     present \<leftarrow> has_key y node key;
     if present then parse y node key else Some old
   }"

definition caught :: "'v throws \<Rightarrow> 'v option" where
  "caught r = (case r of Inl _ \<Rightarrow> None | Inr v \<Rightarrow> Some v)"

section \<open>Model: flow actions\<close>

definition parse_queue_action :: "'n Yaml \<Rightarrow> 'n \<Rightarrow> FlowAction \<Rightarrow> FlowAction option" where
  "parse_queue_action y action_node action = do {
     validate_yaml_mapping_keys y action_node [''type'', ''id'', ''ids''];
     has_id \<leftarrow> has_key y action_node ''id'';
     has_ids \<leftarrow> has_key y action_node ''ids'';
     require (\<not> (has_id \<and> has_ids));
     if has_ids then do {
       ids \<leftarrow> y_index y action_node ''ids'';
       elements \<leftarrow> as_nonempty_sequence y ids;
       parsed \<leftarrow> read_each (\<lambda>id_node. parse_u64_scalar y id_node \<bind> parse_narrow 16) elements;
       Some (action\<lparr>fa_ids := parsed\<rparr>)
     } else do {
       parsed \<leftarrow> parse_u16_field y action_node ''id'';
       Some (action\<lparr>fa_ids := [], fa_id := parsed\<rparr>)
     }
   }"

definition parse_vlan_action :: "'n Yaml \<Rightarrow> 'n \<Rightarrow> FlowAction \<Rightarrow> FlowAction option" where
  "parse_vlan_action y action_node action = do {
     vlan \<leftarrow> nested_or_self y action_node ''vlan'';
     nested \<leftarrow> has_key y action_node ''vlan'';
     (if nested then do {
        validate_yaml_mapping_keys y action_node [''type'', ''vlan''];
        validate_yaml_mapping_keys y vlan [''vlan_id'', ''pcp'', ''dei'', ''ethertype'']
      }
      else validate_yaml_mapping_keys y action_node
        (if fa_type action = VLAN_PUSH then [''type'', ''vlan_id'', ''pcp'', ''dei'', ''ethertype''] else [''type'']));
     if fa_type action = VLAN_PUSH then do {
       vlan_id \<leftarrow> parse_u16_field y vlan ''vlan_id'';
       pcp \<leftarrow> optional_field y parse_u8_field vlan ''pcp'' (vl_pcp (fa_vlan action));
       dei \<leftarrow> optional_field y parse_u8_field vlan ''dei'' (vl_dei (fa_vlan action));
       ethertype \<leftarrow> optional_field y parse_u16_field vlan ''ethertype'' (vl_ethertype (fa_vlan action));
       Some (action\<lparr>fa_vlan := \<lparr>vl_vlan_id = vlan_id, vl_pcp = pcp, vl_dei = dei, vl_ethertype = ethertype\<rparr>\<rparr>)
     } else Some action
   }"

definition tunnel_keys :: "string list" where
  "tunnel_keys =
     [''type'', ''outer_eth_src'', ''outer_eth_dst'', ''outer_ipv4_src'', ''outer_ipv4_dst'', ''outer_ipv4_ttl'',
      ''outer_ipv4_tos'', ''outer_udp_src'', ''outer_udp_dst'', ''vni'', ''gre_protocol'', ''tni'', ''flow_id'']"

definition parse_tunnel_type :: "'n Yaml \<Rightarrow> 'n \<Rightarrow> 'n \<Rightarrow> TunnelType option" where
  "parse_tunnel_type y action_node tunnel = do {
     has_type \<leftarrow> has_key y tunnel ''type'';
     text \<leftarrow> (if has_type then string_field y tunnel ''type'' else string_field y action_node ''tunnel_type'');
     caught (tunnel_type_from_string text)
   }"

definition parse_tunnel_fields :: "'n Yaml \<Rightarrow> 'n \<Rightarrow> TunnelConfig \<Rightarrow> TunnelConfig option" where
  "parse_tunnel_fields y tunnel cfg = do {
     eth_src \<leftarrow> optional_string y tunnel ''outer_eth_src'' [];
     eth_dst \<leftarrow> optional_string y tunnel ''outer_eth_dst'' [];
     ipv4_src \<leftarrow> optional_string y tunnel ''outer_ipv4_src'' [];
     ipv4_dst \<leftarrow> optional_string y tunnel ''outer_ipv4_dst'' [];
     ttl \<leftarrow> optional_field y parse_u8_field tunnel ''outer_ipv4_ttl'' (tn_outer_ipv4_ttl cfg);
     tos \<leftarrow> optional_field y parse_u8_field tunnel ''outer_ipv4_tos'' (tn_outer_ipv4_tos cfg);
     udp_src \<leftarrow> optional_field y parse_u16_field tunnel ''outer_udp_src'' (tn_outer_udp_src cfg);
     udp_dst \<leftarrow> optional_field y parse_u16_field tunnel ''outer_udp_dst'' (tn_outer_udp_dst cfg);
     vni \<leftarrow> optional_field y parse_u32_field tunnel ''vni'' (tn_vni cfg);
     gre_protocol \<leftarrow> optional_field y parse_u16_field tunnel ''gre_protocol'' (tn_gre_protocol cfg);
     tni \<leftarrow> optional_field y parse_u32_field tunnel ''tni'' (tn_tni cfg);
     flow_id \<leftarrow> optional_field y parse_u8_field tunnel ''flow_id'' (tn_flow_id cfg);
     Some (cfg\<lparr>tn_outer_eth_src := eth_src, tn_outer_eth_dst := eth_dst, tn_outer_ipv4_src := ipv4_src,
       tn_outer_ipv4_dst := ipv4_dst, tn_outer_ipv4_ttl := ttl, tn_outer_ipv4_tos := tos, tn_outer_udp_src := udp_src,
       tn_outer_udp_dst := udp_dst, tn_vni := vni, tn_gre_protocol := gre_protocol, tn_tni := tni, tn_flow_id := flow_id\<rparr>)
   }"

definition parse_tunnel_action :: "'n Yaml \<Rightarrow> 'n \<Rightarrow> FlowAction \<Rightarrow> FlowAction option" where
  "parse_tunnel_action y action_node action = do {
     tunnel \<leftarrow> nested_or_self y action_node ''tunnel'';
     nested \<leftarrow> has_key y action_node ''tunnel'';
     (if nested then do {
        validate_yaml_mapping_keys y action_node [''type'', ''tunnel''];
        validate_yaml_mapping_keys y tunnel tunnel_keys
      }
      else validate_yaml_mapping_keys y action_node
        [''type'', ''tunnel_type'', ''outer_eth_src'', ''outer_eth_dst'', ''outer_ipv4_src'', ''outer_ipv4_dst'',
         ''outer_ipv4_ttl'', ''outer_ipv4_tos'', ''outer_udp_src'', ''outer_udp_dst'', ''vni'', ''gre_protocol'',
         ''tni'', ''flow_id'']);
     ttype \<leftarrow> parse_tunnel_type y action_node tunnel;
     fields \<leftarrow> parse_tunnel_fields y tunnel ((fa_tunnel action)\<lparr>tn_type := ttype\<rparr>);
     Some (action\<lparr>fa_tunnel := fields\<rparr>)
   }"

definition parse_flow_action_config :: "'n Yaml \<Rightarrow> 'n \<Rightarrow> FlowAction \<Rightarrow> FlowAction option" where
  "parse_flow_action_config y action_node action = do {
     require (y_defined y action_node);
     is_map \<leftarrow> y_is_map y action_node;
     require is_map;
     type_text \<leftarrow> string_field y action_node ''type'';
     ftype \<leftarrow> caught (flow_type_from_string type_text);
     let action = action\<lparr>fa_type := ftype\<rparr>;
     if ftype = QUEUE then parse_queue_action y action_node action
     else if ftype = VLAN_PUSH \<or> ftype = VLAN_POP then parse_vlan_action y action_node action
     else parse_tunnel_action y action_node action
   }"

section \<open>Model: flows\<close>

definition parse_flow_actions :: "'n Yaml \<Rightarrow> 'n \<Rightarrow> FlowAction list option" where
  "parse_flow_actions y flow_item = do {
     has_action \<leftarrow> has_key y flow_item ''action'';
     has_actions \<leftarrow> has_key y flow_item ''actions'';
     require (\<not> (has_action \<and> has_actions));
     if has_actions then do {
       actions \<leftarrow> y_index y flow_item ''actions'';
       elements \<leftarrow> as_nonempty_sequence y actions;
       read_each (\<lambda>action_node. parse_flow_action_config y action_node default_FlowAction) elements
     } else if has_action then do {
       action_node \<leftarrow> y_index y flow_item ''action'';
       action \<leftarrow> parse_flow_action_config y action_node default_FlowAction;
       Some [action]
     } else None
   }"

text \<open>The queue action of a flow, or its first action when it has none.\<close>

definition main_action :: "FlowAction list \<Rightarrow> FlowAction" where
  "main_action actions =
     (case find (\<lambda>action. fa_type action = QUEUE) actions of Some action \<Rightarrow> action | None \<Rightarrow> hd actions)"

definition parse_address :: "'n Yaml \<Rightarrow> 'n \<Rightarrow> string \<Rightarrow> bool \<times> u8 list \<Rightarrow> (bool \<times> u8 list) option" where
  "parse_address y ethernet_node key old = do {
     address_node \<leftarrow> y_index y ethernet_node key;
     if \<not> y_defined y address_node then Some old
     else do {
       text \<leftarrow> y_string y address_node;
       (case parse_eth_addr True text of Inl _ \<Rightarrow> None | Inr parsed \<Rightarrow> Some (True, parsed))
     }
   }"

definition parse_ethernet_match :: "'n Yaml \<Rightarrow> 'n \<Rightarrow> EthernetMatch \<Rightarrow> EthernetMatch option" where
  "parse_ethernet_match y ethernet_node m = do {
     is_map \<leftarrow> y_is_map y ethernet_node;
     require is_map;
     validate_yaml_mapping_keys y ethernet_node [''src'', ''dst''];
     (match_src, src) \<leftarrow> parse_address y ethernet_node ''src'' (em_match_src m, em_src m);
     (match_dst, dst) \<leftarrow> parse_address y ethernet_node ''dst'' (em_match_dst m, em_dst m);
     require (match_src \<or> match_dst);
     Some \<lparr>em_match_src = match_src, em_src = src, em_match_dst = match_dst, em_dst = dst\<rparr>
   }"

definition parse_ecpri_match :: "'n Yaml \<Rightarrow> 'n \<Rightarrow> EcpriMatch \<Rightarrow> EcpriMatch option" where
  "parse_ecpri_match y ecpri_node m = do {
     is_map \<leftarrow> y_is_map y ecpri_node;
     require is_map;
     validate_yaml_mapping_keys y ecpri_node [''msg_type'', ''pc_id'', ''rtc_id''];
     has_type \<leftarrow> has_key y ecpri_node ''msg_type'';
     msg_type \<leftarrow> optional_field y parse_u8_field ecpri_node ''msg_type'' (ec_msg_type m);
     has_pc_id \<leftarrow> has_key y ecpri_node ''pc_id'';
     id_node \<leftarrow> y_index y ecpri_node (if has_pc_id then ''pc_id'' else ''rtc_id'');
     mid \<leftarrow> (if y_defined y id_node then parse_yaml_unsigned y id_node else Some (ec_id m));
     let m = m\<lparr>ec_match_msg_type := ec_match_msg_type m \<or> has_type, ec_msg_type := msg_type,
               ec_match_id := ec_match_id m \<or> y_defined y id_node, ec_id := mid\<rparr>;
     require (\<not> (ec_match_id m \<and> \<not> ec_match_msg_type m));
     Some m
   }"

text \<open>An IPv4 address of the match, 0 (\<^verbatim>\<open>INADDR_ANY\<close>) when the key is absent.\<close>

definition parse_ipv4_match :: "'n Yaml \<Rightarrow> pton \<Rightarrow> 'n \<Rightarrow> string \<Rightarrow> u32 option" where
  "parse_ipv4_match y inet_pton match_node key = do {
     present \<leftarrow> has_key y match_node key;
     if present then string_field y match_node key \<bind> inet_pton else Some 0
   }"

definition no_standard_criteria :: "FlowMatch \<Rightarrow> bool" where
  "no_standard_criteria m \<longleftrightarrow>
     fm_udp_src m = 0 \<and> fm_udp_dst m = 0 \<and> fm_ipv4_len m = 0 \<and> fm_ipv4_src m = 0 \<and> fm_ipv4_dst m = 0"

definition parse_flex_item_match :: "'n Yaml \<Rightarrow> 'n \<Rightarrow> FlexItemMatch option" where
  "parse_flex_item_match y match_node = do {
     item \<leftarrow> y_index y match_node ''flex_item_id'' \<bind> parse_yaml_unsigned y;
     val \<leftarrow> y_index y match_node ''val'' \<bind> parse_yaml_unsigned y;
     msk \<leftarrow> y_index y match_node ''mask'' \<bind> parse_yaml_unsigned y;
     Some \<lparr>fx_flex_item_id = item, fx_val = val, fx_mask = msk\<rparr>
   }"

definition parse_standard_match :: "'n Yaml \<Rightarrow> pton \<Rightarrow> 'n \<Rightarrow> bool \<Rightarrow> FlowMatch \<Rightarrow> FlowMatch option" where
  "parse_standard_match y inet_pton match_node ethernet m = do {
     udp_src \<leftarrow> optional_field y parse_u16_field match_node ''udp_src'' 0;
     udp_dst \<leftarrow> optional_field y parse_u16_field match_node ''udp_dst'' 0;
     ipv4_len \<leftarrow> optional_field y parse_u16_field match_node ''ipv4_len'' 0;
     ipv4_src \<leftarrow> parse_ipv4_match y inet_pton match_node ''ipv4_src'';
     ipv4_dst \<leftarrow> parse_ipv4_match y inet_pton match_node ''ipv4_dst'';
     let m = m\<lparr>fm_udp_src := udp_src, fm_udp_dst := udp_dst, fm_ipv4_len := ipv4_len, fm_ipv4_src := ipv4_src,
               fm_ipv4_dst := ipv4_dst\<rparr>;
     has_flex \<leftarrow> has_key y match_node ''flex_item_id'';
     if no_standard_criteria m \<and> has_flex then do {
       flex \<leftarrow> parse_flex_item_match y match_node;
       Some (m\<lparr>fm_flex_item_match := flex, fm_type := FLEX_ITEM\<rparr>)
     }
     else if ethernet \<and> no_standard_criteria m then Some (m\<lparr>fm_type := ETHERNET\<rparr>)
     else Some m
   }"

definition parse_flow_match :: "'n Yaml \<Rightarrow> pton \<Rightarrow> 'n \<Rightarrow> FlowMatch option" where
  "parse_flow_match y inet_pton match_node =
     (if \<not> y_defined y match_node then Some default_FlowMatch
      else do {
        validate_yaml_mapping_keys y match_node
          [''udp_src'', ''udp_dst'', ''ipv4_len'', ''ipv4_src'', ''ipv4_dst'', ''flex_item_id'', ''val'', ''mask'',
           ''ethernet'', ''ecpri''];
        ecpri_node \<leftarrow> y_index y match_node ''ecpri'';
        ethernet_node \<leftarrow> y_index y match_node ''ethernet'';
        ethernet_match \<leftarrow>
          (if y_defined y ethernet_node then parse_ethernet_match y ethernet_node (fm_ethernet_match default_FlowMatch)
           else Some (fm_ethernet_match default_FlowMatch));
        let m = default_FlowMatch\<lparr>fm_ethernet_match := ethernet_match\<rparr>;
        if y_defined y ecpri_node then do {
          ecpri \<leftarrow> parse_ecpri_match y ecpri_node (fm_ecpri_match m);
          Some (m\<lparr>fm_type := ECPRI, fm_ecpri_match := ecpri\<rparr>)
        }
        else parse_standard_match y inet_pton match_node (y_defined y ethernet_node) m
      })"

definition parse_flow_config :: "'n Yaml \<Rightarrow> pton \<Rightarrow> 'n \<Rightarrow> FlowConfig option" where
  "parse_flow_config y inet_pton flow_item = do {
     validate_yaml_mapping_keys y flow_item [''name'', ''id'', ''match'', ''action'', ''actions''];
     name \<leftarrow> string_field y flow_item ''name'';
     flow_id \<leftarrow> y_index y flow_item ''id'' \<bind> parse_yaml_unsigned y;
     actions \<leftarrow> parse_flow_actions y flow_item;
     match_node \<leftarrow> y_index y flow_item ''match'';
     m \<leftarrow> parse_flow_match y inet_pton match_node;
     Some \<lparr>fc_name = name, fc_id = flow_id, fc_action = main_action actions, fc_actions = actions, fc_match = m\<rparr>
   }"

definition parse_flex_item_config :: "'n Yaml \<Rightarrow> 'n \<Rightarrow> FlexItemConfig option" where
  "parse_flex_item_config y flex_item = do {
     validate_yaml_mapping_keys y flex_item [''name'', ''id'', ''udp_dst_port'', ''offset''];
     name \<leftarrow> string_field y flex_item ''name'';
     item \<leftarrow> y_index y flex_item ''id'' \<bind> parse_yaml_unsigned y;
     udp_dst_port \<leftarrow> y_index y flex_item ''udp_dst_port'' \<bind> parse_yaml_unsigned y;
     offset \<leftarrow> y_index y flex_item ''offset'' \<bind> parse_yaml_unsigned y;
     require (\<not> (offset mod 4 \<noteq> 0 \<or> offset > 28));
     Some \<lparr>fi_name = name, fi_id = item, fi_udp_dst_port = udp_dst_port, fi_offset = offset\<rparr>
   }"

section \<open>Properties\<close>

lemma caught_Inl [simp]: "caught (Inl e) = None"
  by (simp add: caught_def)

lemma caught_Inr [simp]: "caught (Inr v) = Some v"
  by (simp add: caught_def)

lemma flow_type_names:
  "flow_type_from_string t = Inr TUNNEL_ENCAP \<longleftrightarrow> t = ''tunnel_encap''"
  "flow_type_from_string t = Inr TUNNEL_DECAP \<longleftrightarrow> t = ''tunnel_decap''"
  by (simp_all add: flow_type_from_string_def)

lemma string_field_present:
  assumes "\<And>n. y_string y n \<noteq> None \<Longrightarrow> y_defined y n" "string_field y node key = Some t"
  shows "has_key y node key = Some True"
  using assms by (auto simp: string_field_def has_key_def bind_Some)

text \<open>C38: A tunnel action is read only when its parameters are nested under the key \<^verbatim>\<open>tunnel\<close>. When they stand beside
  the action's own \<^verbatim>\<open>type\<close>, with the tunnel named by \<^verbatim>\<open>tunnel_type\<close>, the list of accepted keys admits them, but the
  tunnel's type is then looked up under \<^verbatim>\<open>type\<close>, which holds the action's type, so that every such action is refused.\<close>

theorem flat_tunnel_action_refused:
  assumes "\<And>n. y_string y n \<noteq> None \<Longrightarrow> y_defined y n"
    and "has_key y action_node ''tunnel'' = Some False"
    and "string_field y action_node ''type'' = Some t"
    and "flow_type_from_string t \<in> {Inr TUNNEL_ENCAP, Inr TUNNEL_DECAP}"
  shows "parse_flow_action_config y action_node action = None"
proof -
  obtain ft where ft: "flow_type_from_string t = Inr ft" "ft = TUNNEL_ENCAP \<or> ft = TUNNEL_DECAP"
    using assms(4) by auto
  have present: "has_key y action_node ''type'' = Some True" by (rule string_field_present [OF assms(1,3)])
  have self: "nested_or_self y action_node ''tunnel'' = Some action_node"
    using assms(2) by (auto simp: nested_or_self_def has_key_def)
  have "isl (tunnel_type_from_string t)"
    using ft by (auto simp: flow_type_names tunnel_type_from_string_def)
  then have "parse_tunnel_type y action_node action_node = None"
    using present assms(3) by (auto simp: parse_tunnel_type_def caught_def split: sum.splits)
  then have "parse_tunnel_action y action_node a = None" for a
    using self assms(2) by (cases "validate_yaml_mapping_keys y action_node
        [''type'', ''tunnel_type'', ''outer_eth_src'', ''outer_eth_dst'', ''outer_ipv4_src'', ''outer_ipv4_dst'',
         ''outer_ipv4_ttl'', ''outer_ipv4_tos'', ''outer_udp_src'', ''outer_udp_dst'', ''vni'', ''gre_protocol'',
         ''tni'', ''flow_id'']") (simp_all add: parse_tunnel_action_def)
  then show ?thesis
    using assms(3) ft by (cases "y_is_map y action_node") (auto simp: parse_flow_action_config_def Let_def)
qed

text \<open>Documents as trees of plain scalars, sequences and maps.\<close>

datatype doc = Missing | Scalar string | Sequence "doc list" | Map "(string \<times> doc) list"

definition doc_index :: "doc \<Rightarrow> string \<Rightarrow> doc option" where
  "doc_index d key =
     (case d of Map entries \<Rightarrow> Some (case map_of entries key of None \<Rightarrow> Missing | Some v \<Rightarrow> v) | _ \<Rightarrow> None)"

definition doc_yaml :: "doc Yaml" where
  "doc_yaml =
     \<lparr>y_index = doc_index, y_defined = \<lambda>d. d \<noteq> Missing,
      y_is_scalar = \<lambda>d. Some (case d of Scalar _ \<Rightarrow> True | _ \<Rightarrow> False),
      y_is_map = \<lambda>d. Some (case d of Map _ \<Rightarrow> True | _ \<Rightarrow> False),
      y_is_sequence = \<lambda>d. Some (case d of Sequence _ \<Rightarrow> True | _ \<Rightarrow> False),
      y_tag = \<lambda>_. Some ''?'',
      y_elements = \<lambda>d. (case d of Sequence ds \<Rightarrow> Some ds | _ \<Rightarrow> None),
      y_keys = \<lambda>d. (case d of Map entries \<Rightarrow> Some (map (Scalar \<circ> fst) entries) | _ \<Rightarrow> None),
      y_string = \<lambda>d. (case d of Scalar t \<Rightarrow> Some t | _ \<Rightarrow> None),
      y_bool = \<lambda>d. (case d of Scalar t \<Rightarrow>
        (if t = ''true'' then Some True else if t = ''false'' then Some False else None) | _ \<Rightarrow> None)\<rparr>"

lemma doc_yaml_sel [simp]:
  "y_index doc_yaml (Map entries) key = Some (case map_of entries key of None \<Rightarrow> Missing | Some v \<Rightarrow> v)"
  "y_defined doc_yaml d = (d \<noteq> Missing)"
  "y_is_scalar doc_yaml (Scalar t) = Some True" "y_is_scalar doc_yaml (Sequence ds) = Some False"
  "y_is_scalar doc_yaml (Map entries) = Some False"
  "y_is_map doc_yaml (Scalar t) = Some False" "y_is_map doc_yaml (Sequence ds) = Some False"
  "y_is_map doc_yaml (Map entries) = Some True"
  "y_is_sequence doc_yaml (Scalar t) = Some False" "y_is_sequence doc_yaml (Sequence ds) = Some True"
  "y_is_sequence doc_yaml (Map entries) = Some False"
  "y_tag doc_yaml d = Some ''?''"
  "y_elements doc_yaml (Sequence ds) = Some ds" "y_keys doc_yaml (Map entries) = Some (map (Scalar \<circ> fst) entries)"
  "y_string doc_yaml (Scalar t) = Some t"
  "y_bool doc_yaml (Scalar t) = (if t = ''true'' then Some True else if t = ''false'' then Some False else None)"
  by (simp_all add: doc_yaml_def doc_index_def)

lemma doc_string_defined: "y_string doc_yaml n \<noteq> None \<Longrightarrow> y_defined doc_yaml n"
  by (cases n) (simp_all add: doc_yaml_def)

theorem flat_tunnel_action_refused_witness:
  "parse_flow_action_config doc_yaml
     (Map [(''type'', Scalar ''tunnel_encap''), (''tunnel_type'', Scalar ''vxlan''), (''vni'', Scalar ''7'')])
     default_FlowAction = None"
  by (rule flat_tunnel_action_refused [OF doc_string_defined, where t = "''tunnel_encap''"])
    (simp_all add: has_key_def string_field_def flow_type_from_string_def)

end
