(* ===== verification/Yaml_Reorder.thy ===== *)
theory Yaml_Reorder
  imports Yaml_Flows
begin

text \<open>
  Reading reorder plans from the configuration file, \<^verbatim>\<open>parse_reorder_config\<close> of \<^verbatim>\<open>src/src/common.cpp\<close>: one
  definition per section of the function.
\<close>

section \<open>Model\<close>

definition default_ReorderConfig :: ReorderConfig where
  "default_ReorderConfig =
     \<lparr>re_name = [], re_reorder_engine = ''sw'', re_cyclic_sequence = False, re_reorder_type = [], re_memory_region = [],
      re_payload_byte_offset = 0, re_packet_size = 0, re_flow_ids = [], re_method = ReorderMethod.INVALID,
      re_missing_action = PASSTHROUGH,
      re_seq_batch_number =
        \<lparr>sb_sequence_number = \<lparr>bf_bit_offset = 0, bf_bit_width = 0\<rparr>,
         sb_batch_number = \<lparr>bf_bit_offset = 0, bf_bit_width = 0\<rparr>, sb_packets_per_batch = 0\<rparr>,
      re_seq_packets_per_batch =
        \<lparr>sp_sequence_number = \<lparr>bf_bit_offset = 0, bf_bit_width = 0\<rparr>, sp_packets_per_batch = 0\<rparr>,
      re_data_types =
        \<lparr>dt_enabled = False, dt_input_type = SAME, dt_output_type = SAME, dt_input_endianness = ReorderEndianness.HOST\<rparr>\<rparr>"

definition parse_bit_field :: "'n Yaml \<Rightarrow> 'n \<Rightarrow> string \<Rightarrow> ReorderBitFieldConfig option" where
  "parse_bit_field y node field_name = do {
     present \<leftarrow> has_key y node field_name;
     require present;
     bit_field \<leftarrow> y_index y node field_name;
     validate_yaml_mapping_keys y bit_field [''bit_offset'', ''bit_width''];
     bit_offset \<leftarrow> y_index y bit_field ''bit_offset'' \<bind> parse_yaml_unsigned y;
     bit_width \<leftarrow> y_index y bit_field ''bit_width'' \<bind> parse_yaml_unsigned y;
     require (\<not> (bit_width < 1 \<or> bit_width > 32));
     Some \<lparr>bf_bit_offset = bit_offset, bf_bit_width = bit_width\<rparr>
   }"

definition pow2_u64 :: "u8 \<Rightarrow> u64 option" where
  "pow2_u64 exponent = (if exponent > 63 then None else Some (push_bit (unat exponent) 1))"

definition parse_reorder_fields :: "'n Yaml \<Rightarrow> 'n \<Rightarrow> ReorderConfig option" where
  "parse_reorder_fields y reorder_item = do {
     name \<leftarrow> string_field y reorder_item ''name'';
     reorder_engine \<leftarrow> optional_string y reorder_item ''reorder_engine'' ''sw'';
     cyclic_sequence \<leftarrow> optional_bool y reorder_item ''cyclic_sequence'' False;
     missing_action \<leftarrow> optional_string y reorder_item ''missing_action'' ''passthrough'';
     reorder_type \<leftarrow> string_field y reorder_item ''reorder_type'';
     memory_region \<leftarrow> string_field y reorder_item ''memory_region'';
     payload_byte_offset \<leftarrow> y_index y reorder_item ''payload_byte_offset'' \<bind> parse_yaml_unsigned y;
     packet_size \<leftarrow> optional_unsigned y reorder_item ''packet_size'' 0;
     flow_ids_node \<leftarrow> y_index y reorder_item ''flow_ids'';
     require (y_defined y flow_ids_node);
     elements \<leftarrow> as_sequence y flow_ids_node;
     flow_ids \<leftarrow> read_each (parse_yaml_unsigned y) elements;
     require (flow_ids \<noteq> []);
     Some (default_ReorderConfig\<lparr>re_name := name, re_reorder_engine := reorder_engine,
       re_cyclic_sequence := cyclic_sequence, re_missing_action := reorder_missing_action_from_string missing_action,
       re_reorder_type := reorder_type, re_memory_region := memory_region,
       re_payload_byte_offset := payload_byte_offset, re_packet_size := packet_size, re_flow_ids := flow_ids\<rparr>)
   }"

text \<open>\<^verbatim>\<open>node[a] ? node[a] : node[b]\<close>.\<close>

definition either_key :: "'n Yaml \<Rightarrow> 'n \<Rightarrow> string \<Rightarrow> string \<Rightarrow> 'n option" where
  "either_key y node a b = do {
     first \<leftarrow> y_index y node a;
     if y_defined y first then Some first else y_index y node b
   }"

definition parse_reorder_data_types :: "'n Yaml \<Rightarrow> 'n \<Rightarrow> ReorderDataTypesConfig \<Rightarrow> ReorderDataTypesConfig option" where
  "parse_reorder_data_types y reorder_item dt = do {
     data_types_node \<leftarrow> y_index y reorder_item ''data_types'';
     if \<not> y_defined y data_types_node then Some dt
     else do {
       is_map \<leftarrow> y_is_map y data_types_node;
       require is_map;
       validate_yaml_mapping_keys y data_types_node
         [''input_type'', ''output_type'', ''endianness'', ''input'', ''output'', ''input_endianness''];
       input_node \<leftarrow> either_key y data_types_node ''input_type'' ''input'';
       output_node \<leftarrow> either_key y data_types_node ''output_type'' ''output'';
       require (y_defined y input_node \<and> y_defined y output_node);
       input_text \<leftarrow> y_string y input_node;
       output_text \<leftarrow> y_string y output_node;
       endianness_node \<leftarrow> either_key y data_types_node ''endianness'' ''input_endianness'';
       endianness \<leftarrow>
         (if y_defined y endianness_node then map_option reorder_endianness_from_string (y_string y endianness_node)
          else Some (dt_input_endianness dt));
       require (is_reorder_input_data_type (reorder_data_type_from_string input_text));
       require (is_reorder_output_data_type (reorder_data_type_from_string output_text));
       require (endianness \<noteq> ReorderEndianness.INVALID);
       Some \<lparr>dt_enabled = True, dt_input_type = reorder_data_type_from_string input_text,
         dt_output_type = reorder_data_type_from_string output_text, dt_input_endianness = endianness\<rparr>
     }
   }"

definition parse_seq_batch_number :: "'n Yaml \<Rightarrow> 'n \<Rightarrow> ReorderSeqBatchNumberConfig option" where
  "parse_seq_batch_number y seq_batch_node = do {
     validate_yaml_mapping_keys y seq_batch_node [''sequence_number'', ''batch_number''];
     sequence_number \<leftarrow> parse_bit_field y seq_batch_node ''sequence_number'';
     batch_number \<leftarrow> parse_bit_field y seq_batch_node ''batch_number'';
     total_sequence_numbers \<leftarrow> pow2_u64 (bf_bit_width sequence_number);
     total_batches \<leftarrow> pow2_u64 (bf_bit_width batch_number);
     require (\<not> (total_batches = 0 \<or> total_sequence_numbers mod total_batches \<noteq> 0));
     let derived = total_sequence_numbers div total_batches;
     require (\<not> (derived = 0 \<or> derived > 0xffffffff));
     Some \<lparr>sb_sequence_number = sequence_number, sb_batch_number = batch_number,
       sb_packets_per_batch = of_nat (unat derived)\<rparr>
   }"

definition parse_seq_packets_per_batch :: "'n Yaml \<Rightarrow> 'n \<Rightarrow> ReorderSeqPacketsPerBatchConfig option" where
  "parse_seq_packets_per_batch y seq_ppb_node = do {
     validate_yaml_mapping_keys y seq_ppb_node [''sequence_number'', ''packets_per_batch''];
     sequence_number \<leftarrow> parse_bit_field y seq_ppb_node ''sequence_number'';
     packets_per_batch \<leftarrow> y_index y seq_ppb_node ''packets_per_batch'' \<bind> parse_yaml_unsigned y;
     require (packets_per_batch \<noteq> 0);
     total_sequence_numbers \<leftarrow> pow2_u64 (bf_bit_width sequence_number);
     require (\<not> total_sequence_numbers mod of_nat (unat packets_per_batch) \<noteq> 0);
     Some \<lparr>sp_sequence_number = sequence_number, sp_packets_per_batch = packets_per_batch\<rparr>
   }"

definition parse_reorder_method :: "'n Yaml \<Rightarrow> 'n \<Rightarrow> ReorderConfig \<Rightarrow> ReorderConfig option" where
  "parse_reorder_method y reorder_item cfg = do {
     method_node \<leftarrow> y_index y reorder_item ''method'';
     require (y_defined y method_node);
     is_map \<leftarrow> y_is_map y method_node;
     require is_map;
     validate_yaml_mapping_keys y method_node [''seq_batch_number'', ''seq_packets_per_batch''];
     has_seq_batch_number \<leftarrow> has_key y method_node ''seq_batch_number'';
     has_seq_packets_per_batch \<leftarrow> has_key y method_node ''seq_packets_per_batch'';
     require (has_seq_batch_number \<noteq> has_seq_packets_per_batch);
     if has_seq_batch_number then do {
       seq_batch \<leftarrow> y_index y method_node ''seq_batch_number'' \<bind> parse_seq_batch_number y;
       Some (cfg\<lparr>re_method := SEQ_BATCH_NUMBER, re_seq_batch_number := seq_batch\<rparr>)
     } else do {
       seq_ppb \<leftarrow> y_index y method_node ''seq_packets_per_batch'' \<bind> parse_seq_packets_per_batch y;
       Some (cfg\<lparr>re_method := SEQ_PACKETS_PER_BATCH, re_seq_packets_per_batch := seq_ppb\<rparr>)
     }
   }"

definition parse_reorder_config :: "'n Yaml \<Rightarrow> 'n \<Rightarrow> ReorderConfig option" where
  "parse_reorder_config y reorder_item = do {
     validate_yaml_mapping_keys y reorder_item
       [''name'', ''reorder_engine'', ''cyclic_sequence'', ''missing_action'', ''reorder_type'', ''memory_region'',
        ''payload_byte_offset'', ''packet_size'', ''flow_ids'', ''data_types'', ''method''];
     cfg \<leftarrow> parse_reorder_fields y reorder_item;
     require (\<not> (re_reorder_engine cfg \<noteq> ''hw'' \<and> re_reorder_engine cfg \<noteq> ''sw''));
     require (re_missing_action cfg \<noteq> ReorderMissingAction.INVALID);
     require (\<not> (re_reorder_type cfg \<noteq> ''gpu'' \<and> re_reorder_type cfg \<noteq> ''cpu''));
     data_types \<leftarrow> parse_reorder_data_types y reorder_item (re_data_types cfg);
     parse_reorder_method y reorder_item (cfg\<lparr>re_data_types := data_types\<rparr>)
   }"

section \<open>Batches divide the sequence space\<close>

lemma pow2_u64_value:
  assumes "pow2_u64 w = Some p"
  shows "unat p = 2 ^ unat w" "unat w \<le> 63"
proof -
  show w: "unat w \<le> 63" using assms by (auto simp: pow2_u64_def word_less_nat_alt split: if_splits)
  have "p = 2 ^ unat w" using assms by (simp add: pow2_u64_def push_bit_of_1 split: if_splits)
  then show "unat p = 2 ^ unat w" using unat_pow2 [of "unat w", where 'a = 64] w by simp
qed

lemma parse_bit_field_width:
  assumes "parse_bit_field y node name = Some f"
  shows "1 \<le> unat (bf_bit_width f) \<and> unat (bf_bit_width f) \<le> 32"
  using assms by (auto simp: parse_bit_field_def bind_Some word_less_nat_alt not_less split: if_splits)

lemma parse_seq_batch_number_divides:
  assumes "parse_seq_batch_number y node = Some c"
  shows "unat (sb_packets_per_batch c) * 2 ^ unat (bf_bit_width (sb_batch_number c)) =
           2 ^ unat (bf_bit_width (sb_sequence_number c))"
    and "unat (bf_bit_width (sb_sequence_number c)) \<in> {1..32}" "unat (bf_bit_width (sb_batch_number c)) \<in> {1..32}"
proof -
  obtain s b ts tb where c: "parse_bit_field y node ''sequence_number'' = Some s"
      "parse_bit_field y node ''batch_number'' = Some b"
      "pow2_u64 (bf_bit_width s) = Some ts" "pow2_u64 (bf_bit_width b) = Some tb"
      "ts mod tb = 0" "\<not> ts div tb > 0xffffffff"
      "c = \<lparr>sb_sequence_number = s, sb_batch_number = b, sb_packets_per_batch = ucast (ts div tb)\<rparr>"
    using assms by (auto simp: parse_seq_batch_number_def bind_Some Let_def split: if_splits del: mod_0_imp_dvd)
  have small: "unat (ts div tb) < 2 ^ LENGTH(32)" using c(6) by (simp add: word_less_nat_alt not_less)
  have "unat (of_nat (unat (ts div tb)) :: u32) = unat ts div unat tb"
    using small by (simp only: unat_of_nat mod_less) (simp add: unat_div)
  then have "unat (ucast (ts div tb) :: u32) = unat ts div unat tb" by simp
  moreover have "unat ts mod unat tb = 0" using arg_cong [OF c(5), of unat] by (simp only: unat_mod unat_0)
  ultimately show "unat (sb_packets_per_batch c) * 2 ^ unat (bf_bit_width (sb_batch_number c)) =
           2 ^ unat (bf_bit_width (sb_sequence_number c))"
    using pow2_u64_value(1) [OF c(3)] pow2_u64_value(1) [OF c(4)] c(7)
    by (metis ReorderSeqBatchNumberConfig.select_convs mult_div_mod_eq add.right_neutral mult.commute)
  show "unat (bf_bit_width (sb_sequence_number c)) \<in> {1..32}" "unat (bf_bit_width (sb_batch_number c)) \<in> {1..32}"
    using parse_bit_field_width [OF c(1)] parse_bit_field_width [OF c(2)] c(7) by auto
qed

lemma parse_seq_packets_per_batch_divides:
  assumes "parse_seq_packets_per_batch y node = Some c"
  shows "sp_packets_per_batch c \<noteq> 0" "unat (sp_packets_per_batch c) dvd 2 ^ unat (bf_bit_width (sp_sequence_number c))"
    and "unat (bf_bit_width (sp_sequence_number c)) \<in> {1..32}"
proof -
  obtain s ppb ts where c: "parse_bit_field y node ''sequence_number'' = Some s" "ppb \<noteq> 0"
      "pow2_u64 (bf_bit_width s) = Some ts" "ts mod ucast ppb = 0"
      "c = \<lparr>sp_sequence_number = s, sp_packets_per_batch = ppb\<rparr>"
    using assms by (auto simp: parse_seq_packets_per_batch_def bind_Some split: if_splits del: mod_0_imp_dvd)
  have "unat ppb < 2 ^ LENGTH(32)" by (rule unsigned_less)
  then have "unat (of_nat (unat ppb) :: u64) = unat ppb" by (simp only: unat_of_nat) simp
  then have "unat (ucast ppb :: u64) = unat ppb" by simp
  then have "unat ts mod unat ppb = 0" using arg_cong [OF c(4), of unat] by (simp only: unat_mod unat_0)
  then show "unat (sp_packets_per_batch c) dvd 2 ^ unat (bf_bit_width (sp_sequence_number c))"
    using pow2_u64_value(1) [OF c(3)] c(5) by (metis ReorderSeqPacketsPerBatchConfig.select_convs dvd_eq_mod_eq_0)
  show "sp_packets_per_batch c \<noteq> 0" using c by simp
  show "unat (bf_bit_width (sp_sequence_number c)) \<in> {1..32}" using parse_bit_field_width [OF c(1)] c(5) by auto
qed

section \<open>Accepted plans\<close>

definition batches_ok :: "ReorderConfig \<Rightarrow> bool" where
  "batches_ok c \<longleftrightarrow>
     (case re_method c of
        SEQ_BATCH_NUMBER \<Rightarrow>
          (let m = re_seq_batch_number c; w = unat (bf_bit_width (sb_sequence_number m)); b = unat (bf_bit_width (sb_batch_number m))
           in w \<in> {1..32} \<and> b \<in> {1..32} \<and> unat (sb_packets_per_batch m) * 2 ^ b = 2 ^ w)
      | SEQ_PACKETS_PER_BATCH \<Rightarrow>
          (let m = re_seq_packets_per_batch c; w = unat (bf_bit_width (sp_sequence_number m))
           in w \<in> {1..32} \<and> sp_packets_per_batch m \<noteq> 0 \<and> unat (sp_packets_per_batch m) dvd 2 ^ w)
      | ReorderMethod.INVALID \<Rightarrow> False)"

definition data_types_ok :: "ReorderDataTypesConfig \<Rightarrow> bool" where
  "data_types_ok dt \<longleftrightarrow>
     (dt_enabled dt \<longrightarrow> is_reorder_input_data_type (dt_input_type dt) \<and> is_reorder_output_data_type (dt_output_type dt) \<and>
        dt_input_endianness dt \<noteq> ReorderEndianness.INVALID)"

definition reorder_config_ok :: "ReorderConfig \<Rightarrow> bool" where
  "reorder_config_ok c \<longleftrightarrow>
     re_flow_ids c \<noteq> [] \<and> re_reorder_engine c \<in> {''hw'', ''sw''} \<and> re_reorder_type c \<in> {''gpu'', ''cpu''} \<and>
     re_missing_action c \<noteq> ReorderMissingAction.INVALID \<and> data_types_ok (re_data_types c) \<and> batches_ok c"

lemma parse_reorder_fields_ok:
  assumes "parse_reorder_fields y item = Some c"
  shows "re_flow_ids c \<noteq> [] \<and> data_types_ok (re_data_types c)"
  using assms
  by (auto simp: parse_reorder_fields_def bind_Some default_ReorderConfig_def data_types_ok_def split: if_splits)

lemma parse_reorder_data_types_ok:
  assumes "parse_reorder_data_types y item dt = Some dt'" "data_types_ok dt"
  shows "data_types_ok dt'"
proof -
  obtain node where n: "y_index y item ''data_types'' = Some node"
    using assms(1) unfolding parse_reorder_data_types_def by (elim bind_SomeE)
  show ?thesis
  proof (cases "y_defined y node")
    case True
    then show ?thesis
      using assms(1) n unfolding parse_reorder_data_types_def
      by (simp del: if_split) (elim bind_SomeE requireE, auto simp: data_types_ok_def split del: if_split)
  qed (use assms n in \<open>simp add: parse_reorder_data_types_def\<close>)
qed

lemma parse_reorder_method_ok:
  assumes "parse_reorder_method y item c = Some c'"
  shows "batches_ok c'" "re_flow_ids c' = re_flow_ids c" "re_reorder_engine c' = re_reorder_engine c"
    "re_reorder_type c' = re_reorder_type c" "re_missing_action c' = re_missing_action c" "re_data_types c' = re_data_types c"
proof -
  have "(\<exists>node m. parse_seq_batch_number y node = Some m \<and> c' = c\<lparr>re_method := SEQ_BATCH_NUMBER, re_seq_batch_number := m\<rparr>) \<or>
        (\<exists>node m. parse_seq_packets_per_batch y node = Some m \<and>
           c' = c\<lparr>re_method := SEQ_PACKETS_PER_BATCH, re_seq_packets_per_batch := m\<rparr>)"
    using assms unfolding parse_reorder_method_def
    by (elim bind_SomeE) (auto split: if_splits elim!: bind_SomeE requireE)
  then show "batches_ok c'" "re_flow_ids c' = re_flow_ids c" "re_reorder_engine c' = re_reorder_engine c"
    "re_reorder_type c' = re_reorder_type c" "re_missing_action c' = re_missing_action c" "re_data_types c' = re_data_types c"
    by (elim disjE exE conjE; simp add: batches_ok_def Let_def parse_seq_batch_number_divides [simplified]
        parse_seq_packets_per_batch_divides [simplified])+
qed

lemma reorder_config_read_ok:
  assumes "parse_reorder_config y reorder_item = Some c"
  shows "reorder_config_ok c"
proof -
  obtain c0 dt where c: "parse_reorder_fields y reorder_item = Some c0"
      "re_reorder_engine c0 \<in> {''hw'', ''sw''}" "re_missing_action c0 \<noteq> ReorderMissingAction.INVALID"
      "re_reorder_type c0 \<in> {''gpu'', ''cpu''}"
      "parse_reorder_data_types y reorder_item (re_data_types c0) = Some dt"
      "parse_reorder_method y reorder_item (c0\<lparr>re_data_types := dt\<rparr>) = Some c"
    using assms by (auto simp: parse_reorder_config_def bind_Some split: if_splits)
  show ?thesis
    using c parse_reorder_fields_ok [OF c(1)] parse_reorder_data_types_ok [OF c(5)] parse_reorder_method_ok [OF c(6)]
    by (simp add: reorder_config_ok_def)
qed

text \<open>A plan with sequence numbers of eight bits in batches numbered with three.\<close>

definition example_method :: doc where
  "example_method =
     Map [(''sequence_number'', Map [(''bit_offset'', Scalar ''0''), (''bit_width'', Scalar ''8'')]),
          (''batch_number'', Map [(''bit_offset'', Scalar ''8''), (''bit_width'', Scalar ''3'')])]"

definition example_plan :: doc where
  "example_plan =
     Map [(''name'', Scalar ''r''), (''reorder_type'', Scalar ''gpu''), (''memory_region'', Scalar ''m''),
       (''payload_byte_offset'', Scalar ''42''), (''flow_ids'', Sequence [Scalar ''1'']),
       (''method'', Map [(''seq_batch_number'', example_method)])]"

lemma example_method_read:
  "\<exists>m. parse_seq_batch_number doc_yaml example_method = Some m \<and> sb_packets_per_batch m = 32"
  by (simp add: example_method_def yaml_eval parse_bit_field_def parse_seq_batch_number_def pow2_u64_def Let_def
    cong: bind_weak_cong)

lemma example_fields_read:
  "\<exists>c. parse_reorder_fields doc_yaml example_plan = Some c \<and> re_reorder_engine c = ''sw'' \<and>
     re_missing_action c = PASSTHROUGH \<and> re_reorder_type c = ''gpu''"
  by (simp add: example_plan_def yaml_eval parse_reorder_fields_def as_sequence_def default_ReorderConfig_def
    reorder_missing_action_from_string_def cong: bind_weak_cong)

lemma example_plan_read:
  "\<exists>c. parse_reorder_config doc_yaml example_plan = Some c \<and> sb_packets_per_batch (re_seq_batch_number c) = 32"
proof -
  obtain c where c: "parse_reorder_fields doc_yaml example_plan = Some c" "re_reorder_engine c = ''sw''"
    "re_missing_action c = PASSTHROUGH" "re_reorder_type c = ''gpu''"
    using example_fields_read by blast
  obtain m where m: "parse_seq_batch_number doc_yaml example_method = Some m" "sb_packets_per_batch m = 32"
    using example_method_read by blast
  have dt: "parse_reorder_data_types doc_yaml example_plan dt = Some dt" for dt
    by (simp add: example_plan_def parse_reorder_data_types_def)
  have me: "example_method \<noteq> Missing" by (simp add: example_method_def)
  have "parse_reorder_method doc_yaml example_plan c = Some (c\<lparr>re_method := SEQ_BATCH_NUMBER, re_seq_batch_number := m\<rparr>)" for c
    using m(1) me by (simp add: example_plan_def parse_reorder_method_def yaml_eval cong: bind_weak_cong)
  moreover have "validate_yaml_mapping_keys doc_yaml example_plan
       [''name'', ''reorder_engine'', ''cyclic_sequence'', ''missing_action'', ''reorder_type'', ''memory_region'',
        ''payload_byte_offset'', ''packet_size'', ''flow_ids'', ''data_types'', ''method''] = Some ()"
    by (simp add: example_plan_def yaml_eval cong: bind_weak_cong)
  ultimately show ?thesis using c m(2) dt by (simp add: parse_reorder_config_def)
qed

text \<open>C28: A reorder plan that the reader accepts is usable. It names at least one flow, a known engine, memory kind and
  action for missing packets; its bit fields are 1 to 32 bits wide; the packets of a batch are not zero and the
  batches divide the sequence numbers without a rest, so that no batch straddles the wrap-around; and a conversion of
  data types has a valid source, target and byte order.\<close>

theorem parsed_reorder_config_ok:
  assumes "parse_reorder_config y reorder_item = Some c"
  shows "reorder_config_ok c"
  using assms by (rule reorder_config_read_ok)

theorem parsed_reorder_config_ok_witness:
  "\<exists>c. parse_reorder_config doc_yaml example_plan = Some c \<and>
     sb_packets_per_batch (re_seq_batch_number c) = 32 \<and> reorder_config_ok c"
proof -
  obtain c where c: "parse_reorder_config doc_yaml example_plan = Some c"
    "sb_packets_per_batch (re_seq_batch_number c) = 32"
    using example_plan_read by (elim exE conjE)
  show ?thesis by (intro exI [of _ c] conjI c parsed_reorder_config_ok [OF c(1)])
qed

end
