(* ===== verification/Yaml_Queues.thy ===== *)
theory Yaml_Queues
  imports Yaml_Flows
begin

text \<open>
  Reading memory regions, sockets and queues from the configuration file (\<^verbatim>\<open>src/src/common.cpp\<close>), and
  \<^verbatim>\<open>EngineFactory::get_default_engine_type\<close> of \<^verbatim>\<open>src/src/engine.cpp\<close>. Warnings and log messages have no counterpart.
\<close>

section \<open>Model: memory regions\<close>

primrec parse_access :: "'n Yaml \<Rightarrow> string list \<Rightarrow> u32 \<Rightarrow> 'n list \<Rightarrow> u32 option" where
  "parse_access y seen_access access [] = Some access"
| "parse_access y seen_access access (access_node # nodes) = do {
     name \<leftarrow> y_string y access_node;
     require (name \<notin> set seen_access);
     flag \<leftarrow> (if name = ''local'' then Some MEM_ACCESS_LOCAL
              else if name = ''rdma_write'' then Some MEM_ACCESS_RDMA_WRITE
              else if name = ''rdma_read'' then Some MEM_ACCESS_RDMA_READ
              else if name = ''relaxed_ordering'' then Some MEM_ACCESS_RELAXED_ORDERING
              else None);
     parse_access y (name # seen_access) (or access flag) nodes
   }"

definition parse_null_region :: "'n Yaml \<Rightarrow> 'n \<Rightarrow> string \<Rightarrow> MemoryRegionConfig option" where
  "parse_null_region y mr name = do {
     buf_size \<leftarrow> (optional_unsigned y mr ''buf_size'' 0 :: u32 option);
     Some \<lparr>mr_name = name, mr_kind = NULL_MR, mr_affinity = 0, mr_access = 0, mr_buf_size = of_nat (unat buf_size),
       mr_adj_size = 0, mr_ttl_size = 0, mr_num_bufs = 0, mr_owned = True\<rparr>
   }"

definition parse_buffer_region :: "'n Yaml \<Rightarrow> 'n \<Rightarrow> string \<Rightarrow> MemoryKind \<Rightarrow> MemoryRegionConfig option" where
  "parse_buffer_region y mr name kind = do {
     buf_size \<leftarrow> y_index y mr ''buf_size'' \<bind> parse_yaml_unsigned y;
     num_bufs \<leftarrow> y_index y mr ''num_bufs'' \<bind> parse_yaml_unsigned y;
     affinity \<leftarrow> y_index y mr ''affinity'' \<bind> parse_yaml_unsigned y;
     require (\<not> (buf_size = 0 \<or> num_bufs = 0));
     access_node \<leftarrow> y_index y mr ''access'';
     access \<leftarrow> (if y_defined y access_node then as_sequence y access_node \<bind> parse_access y [] 0
                else Some MEM_ACCESS_LOCAL);
     owned \<leftarrow> optional_bool y mr ''owned'' True;
     Some \<lparr>mr_name = name, mr_kind = kind, mr_affinity = affinity, mr_access = access, mr_buf_size = buf_size,
       mr_adj_size = 0, mr_ttl_size = 0, mr_num_bufs = num_bufs, mr_owned = owned\<rparr>
   }"

definition parse_memory_region_config :: "'n Yaml \<Rightarrow> 'n \<Rightarrow> MemoryRegionConfig option" where
  "parse_memory_region_config y mr = do {
     validate_yaml_mapping_keys y mr [''name'', ''kind'', ''affinity'', ''access'', ''num_bufs'', ''buf_size'', ''owned''];
     name \<leftarrow> string_field y mr ''name'';
     kind_node \<leftarrow> y_index y mr ''kind'';
     scalar \<leftarrow> y_is_scalar y kind_node;
     require scalar;
     tag \<leftarrow> y_tag y kind_node;
     require (tag \<noteq> ''tag:yaml.org,2002:null'');
     kind_text \<leftarrow> y_string y kind_node;
     let kind = GetMemoryKindFromString kind_text;
     require (name \<noteq> []);
     require (kind \<noteq> MemoryKind.INVALID);
     if kind = NULL_MR then parse_null_region y mr name else parse_buffer_region y mr name kind
   }"

section \<open>Model: sockets\<close>

definition default_SocketConfig :: SocketConfig where
  "default_SocketConfig =
     \<lparr>so_mode = SocketMode.INVALID, so_local_addr = [], so_remote_addr = [], so_local_ip = [], so_remote_ip = [],
      so_local_port = 0, so_remote_port = 0, so_max_payload_size = 0, so_max_burst_interval_ms = 0, so_min_ipg_ns = 0,
      so_retry_connect_s = 1\<rparr>"

text \<open>An endpoint given as an address replaces the protocol, host and port read so far; without one, the address is
  printed from them.\<close>

definition resolve_endpoint ::
    "pton \<Rightarrow> string \<Rightarrow> bool \<Rightarrow> SocketProtocol \<times> string \<times> u16 \<Rightarrow> (SocketProtocol \<times> string \<times> u16) option" where
  "resolve_endpoint inet_pton addr allow_missing_roce_port old =
     (if addr \<noteq> [] then apply_endpoint_addr inet_pton addr allow_missing_roce_port (fst old) else Some old)"

definition parse_socket_endpoints ::
    "'n Yaml \<Rightarrow> pton \<Rightarrow> 'n \<Rightarrow> SocketConfig \<Rightarrow> SocketProtocol \<Rightarrow> (SocketConfig \<times> SocketProtocol) option" where
  "parse_socket_endpoints y inet_pton socket_item cfg protocol = do {
     local_addr \<leftarrow> optional_string y socket_item ''local_addr'' [];
     remote_addr \<leftarrow> optional_string y socket_item ''remote_addr'' [];
     has_local_ip \<leftarrow> has_key y socket_item ''local_ip'';
     has_local_port \<leftarrow> has_key y socket_item ''local_port'';
     has_remote_ip \<leftarrow> has_key y socket_item ''remote_ip'';
     has_remote_port \<leftarrow> has_key y socket_item ''remote_port'';
     require (\<not> (local_addr \<noteq> [] \<and> (has_local_ip \<or> has_local_port)));
     require (\<not> (remote_addr \<noteq> [] \<and> (has_remote_ip \<or> has_remote_port)));
     local_ip \<leftarrow> optional_string y socket_item ''local_ip'' [];
     remote_ip \<leftarrow> optional_string y socket_item ''remote_ip'' [];
     local_port \<leftarrow> optional_unsigned y socket_item ''local_port'' 0;
     remote_port \<leftarrow> optional_unsigned y socket_item ''remote_port'' 0;
     (protocol, local_ip, local_port) \<leftarrow>
       resolve_endpoint inet_pton local_addr (so_mode cfg = SocketMode.CLIENT) (protocol, local_ip, local_port);
     (protocol, remote_ip, remote_port) \<leftarrow>
       resolve_endpoint inet_pton remote_addr False (protocol, remote_ip, remote_port);
     require (protocol \<noteq> SocketProtocol.INVALID);
     Some (cfg\<lparr>so_local_addr := (if local_addr = [] then make_endpoint_addr protocol local_ip local_port else local_addr),
               so_remote_addr := (if remote_addr = [] then make_endpoint_addr protocol remote_ip remote_port else remote_addr),
               so_local_ip := local_ip, so_remote_ip := remote_ip, so_local_port := local_port,
               so_remote_port := remote_port\<rparr>, protocol)
   }"

definition parse_socket_limits :: "'n Yaml \<Rightarrow> 'n \<Rightarrow> SocketConfig \<Rightarrow> SocketConfig option" where
  "parse_socket_limits y socket_item cfg = do {
     max_payload_size \<leftarrow> optional_unsigned y socket_item ''max_payload_size'' 0;
     max_burst_interval_ms \<leftarrow> optional_unsigned y socket_item ''max_burst_interval_ms'' 0;
     min_ipg_ns \<leftarrow> optional_unsigned y socket_item ''min_ipg_ns'' 0;
     retry_connect_s \<leftarrow> parse_optional_yaml_integer y True 32 socket_item ''retry_connect_s'' 1;
     has_payload \<leftarrow> has_key y socket_item ''max_payload_size'';
     require (\<not> (has_payload \<and> max_payload_size = 0));
     require (\<not> retry_connect_s < 0);
     Some (cfg\<lparr>so_max_payload_size := max_payload_size, so_max_burst_interval_ms := max_burst_interval_ms,
       so_min_ipg_ns := min_ipg_ns, so_retry_connect_s := retry_connect_s\<rparr>)
   }"

definition socket_endpoint_required :: "SocketConfig \<Rightarrow> SocketProtocol \<Rightarrow> bool" where
  "socket_endpoint_required cfg protocol \<longleftrightarrow>
     (if so_mode cfg = SocketMode.SERVER then so_local_ip cfg \<noteq> [] \<and> so_local_port cfg \<noteq> 0
      else if so_mode cfg = SocketMode.CLIENT \<and> protocol = ROCE then so_local_ip cfg \<noteq> []
      else so_remote_ip cfg \<noteq> [] \<and> so_remote_port cfg \<noteq> 0)"

definition parse_socket_config ::
    "'n Yaml \<Rightarrow> pton \<Rightarrow> 'n \<Rightarrow> SocketProtocol \<Rightarrow> (SocketConfig \<times> SocketProtocol) option" where
  "parse_socket_config y inet_pton socket_item protocol = do {
     validate_yaml_mapping_keys y socket_item
       [''mode'', ''local_addr'', ''remote_addr'', ''max_payload_size'', ''max_burst_interval_ms'', ''min_ipg_ns'',
        ''retry_connect_s'', ''local_ip'', ''local_port'', ''remote_ip'', ''remote_port''];
     mode_text \<leftarrow> string_field y socket_item ''mode'';
     require (GetSocketModeFromString mode_text \<noteq> SocketMode.INVALID);
     let cfg = default_SocketConfig\<lparr>so_mode := GetSocketModeFromString mode_text\<rparr>;
     (cfg, protocol) \<leftarrow> parse_socket_endpoints y inet_pton socket_item cfg protocol;
     cfg \<leftarrow> parse_socket_limits y socket_item cfg;
     remote_addr \<leftarrow> optional_string y socket_item ''remote_addr'' [];
     has_remote_ip \<leftarrow> has_key y socket_item ''remote_ip'';
     has_remote_port \<leftarrow> has_key y socket_item ''remote_port'';
     require (\<not> (so_mode cfg = SocketMode.CLIENT \<and> protocol = ROCE \<and>
                 (remote_addr \<noteq> [] \<or> has_remote_ip \<or> has_remote_port)));
     require (socket_endpoint_required cfg protocol);
     Some (cfg, protocol)
   }"

definition parse_roce_config :: "'n Yaml \<Rightarrow> 'n \<Rightarrow> RoCEConfig option" where
  "parse_roce_config y roce_item = do {
     validate_yaml_mapping_keys y roce_item [''transport_mode''];
     text \<leftarrow> string_field y roce_item ''transport_mode'';
     require (GetRDMATransportModeFromString text \<noteq> RDMATransportMode.INVALID);
     Some \<lparr>rc_transport_mode = GetRDMATransportModeFromString text\<rparr>
   }"

section \<open>Model: queues\<close>

definition get_default_engine_type :: "BuildFlags \<Rightarrow> EngineType" where
  "get_default_engine_type bf =
     (if ENGINE_IBVERBS bf then IBVERBS else if ENGINE_DPDK bf then DPDK
      else if ENGINE_SOCKET bf then EngineType.SOCKET else RDMA)"

definition default_CommonQueueConfig :: CommonQueueConfig where
  "default_CommonQueueConfig =
     \<lparr>cq_name = [], cq_id = 0, cq_batch_size = 0, cq_split_boundary = 0, cq_cpu_core = [], cq_mrs = [], cq_offloads = []\<rparr>"

definition parse_worker_fields :: "'n Yaml \<Rightarrow> 'n \<Rightarrow> (string \<times> int) option" where
  "parse_worker_fields y q_item = do {
     has_core \<leftarrow> has_key y q_item ''cpu_core'';
     has_batch \<leftarrow> has_key y q_item ''batch_size'';
     require (has_core \<and> has_batch);
     cpu_core \<leftarrow> y_index y q_item ''cpu_core'' \<bind> parse_yaml_integer y True 32;
     require (\<not> cpu_core < - 1);
     batch_size \<leftarrow> y_index y q_item ''batch_size'' \<bind> parse_yaml_integer y True 32;
     require (\<not> batch_size \<le> 0);
     Some (int_to_string cpu_core, batch_size)
   }"

definition parse_common_queue_config ::
    "'n Yaml \<Rightarrow> 'n \<Rightarrow> CommonQueueConfig \<Rightarrow> bool \<Rightarrow> bool \<Rightarrow> CommonQueueConfig option" where
  "parse_common_queue_config y q_item common parse_memory_regions require_worker_fields = do {
     name \<leftarrow> string_field y q_item ''name'';
     queue_id \<leftarrow> (y_index y q_item ''id'' \<bind> parse_yaml_unsigned y :: u16 option);
     (cpu_core, batch_size) \<leftarrow> (if require_worker_fields then parse_worker_fields y q_item else Some ([], 0));
     mrs_node \<leftarrow> y_index y q_item ''memory_regions'';
     mrs \<leftarrow>
       (if y_defined y mrs_node then do {
          elements \<leftarrow> as_nonempty_sequence y mrs_node;
          if \<not> parse_memory_regions then Some (cq_mrs common)
          else do { names \<leftarrow> read_each (y_string y) elements; Some (cq_mrs common @ names) }
        } else Some (cq_mrs common));
     require (\<not> (parse_memory_regions \<and> mrs = []));
     Some (common\<lparr>cq_name := name, cq_id := uint queue_id, cq_cpu_core := cpu_core, cq_batch_size := batch_size,
       cq_mrs := mrs\<rparr>)
   }"

definition resolved_engine :: "BuildFlags \<Rightarrow> EngineType \<Rightarrow> EngineType" where
  "resolved_engine bf engine_type = (if engine_type = DEFAULT then get_default_engine_type bf else engine_type)"

definition parse_poll_mode :: "'n Yaml \<Rightarrow> 'n \<Rightarrow> QueuePollMode \<Rightarrow> QueuePollMode option" where
  "parse_poll_mode y q_item old = do {
     present \<leftarrow> has_key y q_item ''poll_mode'';
     if present then do {
       text \<leftarrow> string_field y q_item ''poll_mode'';
       require (queue_poll_mode_from_string text \<noteq> QueuePollMode.INVALID);
       Some (queue_poll_mode_from_string text)
     } else Some old
   }"

text \<open>The fields a queue must leave out when the application polls it itself.\<close>

primrec fields_absent :: "'n Yaml \<Rightarrow> 'n \<Rightarrow> string list \<Rightarrow> unit option" where
  "fields_absent y q_item [] = Some ()"
| "fields_absent y q_item (key # keys) = do {
     present \<leftarrow> has_key y q_item key;
     require (\<not> present);
     fields_absent y q_item keys
   }"

definition check_direct_mode :: "'n Yaml \<Rightarrow> EngineType \<Rightarrow> 'n \<Rightarrow> QueuePollMode \<Rightarrow> string list \<Rightarrow> unit option" where
  "check_direct_mode y engine q_item poll_mode forbidden =
     (if poll_mode = DIRECT then do {
        require (\<not> (engine \<noteq> IBVERBS \<and> engine \<noteq> RDMA));
        fields_absent y q_item forbidden
      } else Some ())"

definition parse_rx_queue_common_config ::
    "'n Yaml \<Rightarrow> 'n \<Rightarrow> RxQueueConfig \<Rightarrow> bool \<Rightarrow> RxQueueConfig option" where
  "parse_rx_queue_common_config y q_item q parse_memory_regions = do {
     common \<leftarrow> parse_common_queue_config y q_item (rxq_common q) parse_memory_regions True;
     Some (q\<lparr>rxq_common := common\<rparr>)
   }"

definition parse_rx_queue_config ::
    "'n Yaml \<Rightarrow> BuildFlags \<Rightarrow> EngineType \<Rightarrow> 'n \<Rightarrow> RxQueueConfig \<Rightarrow> bool \<Rightarrow> RxQueueConfig option" where
  "parse_rx_queue_config y bf engine_type q_item q parse_memory_regions = do {
     validate_yaml_mapping_keys y q_item
       [''name'', ''id'', ''poll_mode'', ''cpu_core'', ''batch_size'', ''memory_regions'', ''timeout_us'', ''cqe_compression''];
     let engine = resolved_engine bf engine_type;
     poll_mode \<leftarrow> parse_poll_mode y q_item (rxq_poll_mode q);
     cqe_compression \<leftarrow> optional_bool y q_item ''cqe_compression'' False;
     require (\<not> (cqe_compression \<and> engine \<noteq> IBVERBS));
     check_direct_mode y engine q_item poll_mode [''cpu_core'', ''batch_size'', ''timeout_us''];
     common \<leftarrow> parse_common_queue_config y q_item (rxq_common q) parse_memory_regions (poll_mode = INDIRECT);
     Some (q\<lparr>rxq_common := common, rxq_poll_mode := poll_mode, rxq_cqe_compression := cqe_compression\<rparr>)
   }"

primrec parse_offloads :: "'n Yaml \<Rightarrow> string list \<Rightarrow> string list \<Rightarrow> 'n list \<Rightarrow> string list option" where
  "parse_offloads y seen offloads [] = Some offloads"
| "parse_offloads y seen offloads (off # offs) = do {
     value \<leftarrow> y_string y off;
     require (value = ''tx_eth_src'');
     require (value \<notin> set seen);
     parse_offloads y (value # seen) (offloads @ [value]) offs
   }"

definition parse_buffer_mode :: "'n Yaml \<Rightarrow> 'n \<Rightarrow> TxBufferMode \<Rightarrow> TxBufferMode option" where
  "parse_buffer_mode y q_item old = do {
     present \<leftarrow> has_key y q_item ''buffer_mode'';
     if present then do {
       mode \<leftarrow> string_field y q_item ''buffer_mode'';
       if mode = ''shared'' then Some SHARED else if mode = ''cyclic'' then Some CYCLIC else None
     } else Some old
   }"

definition parse_tx_queue_common_config ::
    "'n Yaml \<Rightarrow> 'n \<Rightarrow> TxQueueConfig \<Rightarrow> bool \<Rightarrow> bool \<Rightarrow> TxQueueConfig option" where
  "parse_tx_queue_common_config y q_item q parse_memory_regions require_worker_fields = do {
     common \<leftarrow> parse_common_queue_config y q_item (txq_common q) parse_memory_regions require_worker_fields;
     offloads_node \<leftarrow> y_index y q_item ''offloads'';
     offloads \<leftarrow> (if y_defined y offloads_node
                  then as_sequence y offloads_node \<bind> parse_offloads y [] (cq_offloads common)
                  else Some (cq_offloads common));
     pacing_mbps \<leftarrow> optional_unsigned y q_item ''pacing_mbps'' (txq_pacing_mbps q);
     buffer_mode \<leftarrow> parse_buffer_mode y q_item (txq_buffer_mode q);
     max_inflight_sends \<leftarrow> optional_unsigned y q_item ''max_inflight_sends'' 0;
     (optional_unsigned y q_item ''timeout_us'' 0 :: u64 option);
     Some (q\<lparr>txq_common := common\<lparr>cq_offloads := offloads\<rparr>, txq_pacing_mbps := pacing_mbps,
       txq_buffer_mode := buffer_mode, txq_max_inflight_sends := max_inflight_sends\<rparr>)
   }"

definition parse_tx_queue_config ::
    "'n Yaml \<Rightarrow> BuildFlags \<Rightarrow> EngineType \<Rightarrow> 'n \<Rightarrow> TxQueueConfig \<Rightarrow> bool \<Rightarrow> TxQueueConfig option" where
  "parse_tx_queue_config y bf engine_type q_item q parse_memory_regions = do {
     validate_yaml_mapping_keys y q_item
       [''name'', ''id'', ''poll_mode'', ''cpu_core'', ''batch_size'', ''memory_regions'', ''offloads'', ''pacing_mbps'',
        ''timeout_us'', ''buffer_mode'', ''max_inflight_sends''];
     let engine = resolved_engine bf engine_type;
     poll_mode \<leftarrow> parse_poll_mode y q_item (txq_poll_mode q);
     check_direct_mode y engine q_item poll_mode [''cpu_core'', ''batch_size''];
     parse_tx_queue_common_config y q_item (q\<lparr>txq_poll_mode := poll_mode\<rparr>) parse_memory_regions (poll_mode = INDIRECT)
   }"

section \<open>Accepted queues and regions\<close>

lemma digit_char_value: "d < 10 \<Longrightarrow> is_digit (char_of (48 + d)) \<and> (of_char (char_of (48 + d) :: char) :: nat) - 48 = d"
  by (simp add: is_digit_def)

lemma digits_value_append: "digits_value (s @ [c]) = digits_value s * 10 + (of_char c - 48)"
  by (simp add: digits_value_def)

lemma digits_value_printed: "digits_value (nat_to_string n) = n"
proof (induction n rule: nat_to_string.induct)
  case (1 n)
  show ?case
  proof (cases "n < 10")
    case True
    then show ?thesis by (simp add: nat_to_string_small digits_value_def)
  next
    case False
    then have "digits_value (nat_to_string n) = digits_value (nat_to_string (n div 10)) * 10 + n mod 10"
      by (subst nat_to_string.simps) (simp add: digits_value_append)
    then show ?thesis using 1 False by simp
  qed
qed

lemma strtol10_printed:
  assumes "- (2 ^ 63) \<le> v" "v < 2 ^ 63"
  shows "strtol10 (int_to_string v) = v"
proof -
  have all: "takeWhile is_digit (nat_to_string n) = nat_to_string n" for n
    using nat_to_string_digits by (simp add: takeWhile_eq_all_conv)
  have hd: "is_digit (hd (nat_to_string n))" for n
    using nat_to_string_digits nat_to_string_nonempty hd_in_set by blast
  have blank: "dropWhile is_blank (nat_to_string n) = nat_to_string n" for n
    using hd [of n] by (cases "nat_to_string n") (auto simp: is_blank_def is_digit_def nat_to_string_nonempty)
  have sign: "hd (nat_to_string n) \<noteq> CHR 0x2D" "hd (nat_to_string n) \<noteq> CHR 0x2B" for n
    using hd [of n] by (auto simp: is_digit_def)
  show ?thesis
  proof (cases "v < 0")
    case True
    then show ?thesis using assms
      by (simp add: strtol10_def int_to_string_def is_blank_def all digits_value_printed)
  next
    case False
    then show ?thesis using assms
      by (simp add: strtol10_def int_to_string_def blank sign all digits_value_printed)
  qed
qed

text \<open>A queue with a worker has a core, as the scheduler will read it, and a batch size; one that the application polls
  itself has neither and needs an engine with direct access.\<close>

definition queue_ok :: "EngineType \<Rightarrow> bool \<Rightarrow> QueuePollMode \<Rightarrow> CommonQueueConfig \<Rightarrow> bool" where
  "queue_ok engine needs_regions poll_mode q \<longleftrightarrow>
     (case poll_mode of
        INDIRECT \<Rightarrow> 0 < cq_batch_size q \<and> - 1 \<le> strtol10 (cq_cpu_core q) \<and> cq_cpu_core q = int_to_string (strtol10 (cq_cpu_core q))
      | DIRECT \<Rightarrow> engine \<in> {IBVERBS, RDMA} \<and> cq_batch_size q = 0 \<and> cq_cpu_core q = []
      | QueuePollMode.INVALID \<Rightarrow> False) \<and>
     0 \<le> cq_id q \<and> cq_id q < 2 ^ 16 \<and> (needs_regions \<longrightarrow> cq_mrs q \<noteq> [])"

lemma parse_worker_fields_ok:
  assumes "parse_worker_fields y q_item = Some (core, batch)"
  shows "0 < batch \<and> - 1 \<le> strtol10 core \<and> core = int_to_string (strtol10 core)"
proof -
  obtain node c where c: "parse_yaml_integer y True 32 node = Some c" "\<not> c < - 1" "0 < batch" "core = int_to_string c"
    using assms unfolding parse_worker_fields_def
    by (simp only: require_bind) (elim bind_SomeE requireE, auto)
  have "c \<le> int_max True 32"
    using c(1) integer_from_text_range [of 32 True] by (auto simp: parse_yaml_integer_def bind_Some split: if_splits)
  then have "strtol10 core = c" using c(2,4) strtol10_printed [of c] by (simp add: int_max_def)
  then show ?thesis using c by simp
qed

lemma parse_common_queue_config_ok:
  assumes "parse_common_queue_config y q_item c regions worker = Some c'"
  shows "0 \<le> cq_id c' \<and> cq_id c' < 2 ^ 16 \<and> (regions \<longrightarrow> cq_mrs c' \<noteq> [])"
    and "worker \<Longrightarrow> 0 < cq_batch_size c' \<and> - 1 \<le> strtol10 (cq_cpu_core c') \<and> cq_cpu_core c' = int_to_string (strtol10 (cq_cpu_core c'))"
    and "\<not> worker \<Longrightarrow> cq_batch_size c' = 0 \<and> cq_cpu_core c' = []"
proof -
  obtain name and qid :: u16 and core batch mrs where f:
      "(if worker then parse_worker_fields y q_item else Some ([], 0)) = Some (core, batch)"
      "\<not> (regions \<and> mrs = [])"
      "c' = c\<lparr>cq_name := name, cq_id := uint qid, cq_cpu_core := core, cq_batch_size := batch, cq_mrs := mrs\<rparr>"
    using assms unfolding parse_common_queue_config_def
    by (simp only: require_bind) (elim bind_SomeE requireE, auto split: prod.splits elim!: bind_SomeE requireE split del: if_split)
  have "uint qid < 2 ^ LENGTH(16)" by (rule unsigned_less)
  then show "0 \<le> cq_id c' \<and> cq_id c' < 2 ^ 16 \<and> (regions \<longrightarrow> cq_mrs c' \<noteq> [])" using f by simp
  show "worker \<Longrightarrow> 0 < cq_batch_size c' \<and> - 1 \<le> strtol10 (cq_cpu_core c') \<and> cq_cpu_core c' = int_to_string (strtol10 (cq_cpu_core c'))"
    using f parse_worker_fields_ok [of y q_item core batch] by simp
  show "\<not> worker \<Longrightarrow> cq_batch_size c' = 0 \<and> cq_cpu_core c' = []" using f by simp
qed

lemma parse_poll_mode_ok:
  assumes "parse_poll_mode y q_item old = Some m" "old \<noteq> QueuePollMode.INVALID"
  shows "m \<noteq> QueuePollMode.INVALID"
  using assms by (auto simp: parse_poll_mode_def bind_Some split: if_splits)

lemma checked_queue_ok:
  assumes "check_direct_mode y engine q_item m keys = Some u" "m \<noteq> QueuePollMode.INVALID"
    "parse_common_queue_config y q_item c regions (m = INDIRECT) = Some c'"
  shows "queue_ok engine regions m c'"
  using assms(1,2) parse_common_queue_config_ok [OF assms(3)]
  by (cases m) (auto simp: queue_ok_def check_direct_mode_def split: if_splits)

lemma parse_rx_queue_config_ok:
  assumes "parse_rx_queue_config y bf engine_type q_item q regions = Some q'" "rxq_poll_mode q \<noteq> QueuePollMode.INVALID"
  shows "queue_ok (resolved_engine bf engine_type) regions (rxq_poll_mode q') (rxq_common q') \<and>
     (rxq_cqe_compression q' \<longrightarrow> resolved_engine bf engine_type = IBVERBS)"
proof -
  obtain m cqe u c where f: "parse_poll_mode y q_item (rxq_poll_mode q) = Some m"
      "\<not> (cqe \<and> resolved_engine bf engine_type \<noteq> IBVERBS)"
      "check_direct_mode y (resolved_engine bf engine_type) q_item m [''cpu_core'', ''batch_size'', ''timeout_us''] = Some u"
      "parse_common_queue_config y q_item (rxq_common q) regions (m = INDIRECT) = Some c"
      "q' = q\<lparr>rxq_common := c, rxq_poll_mode := m, rxq_cqe_compression := cqe\<rparr>"
    using assms(1) unfolding parse_rx_queue_config_def Let_def
    by (simp only: require_bind) (elim bind_SomeE requireE, simp)
  have "m \<noteq> QueuePollMode.INVALID" by (rule parse_poll_mode_ok [OF f(1) assms(2)])
  from checked_queue_ok [OF f(3) this f(4)] show ?thesis using f by auto
qed

lemma parse_tx_queue_config_ok:
  assumes "parse_tx_queue_config y bf engine_type q_item q regions = Some q'" "txq_poll_mode q \<noteq> QueuePollMode.INVALID"
  shows "queue_ok (resolved_engine bf engine_type) regions (txq_poll_mode q') (txq_common q')"
proof -
  obtain m u where f: "parse_poll_mode y q_item (txq_poll_mode q) = Some m"
      "check_direct_mode y (resolved_engine bf engine_type) q_item m [''cpu_core'', ''batch_size''] = Some u"
      "parse_tx_queue_common_config y q_item (q\<lparr>txq_poll_mode := m\<rparr>) regions (m = INDIRECT) = Some q'"
    using assms(1) unfolding parse_tx_queue_config_def Let_def
    by (elim bind_SomeE) simp
  obtain c os where g: "parse_common_queue_config y q_item (txq_common q) regions (m = INDIRECT) = Some c"
      "txq_common q' = c\<lparr>cq_offloads := os\<rparr>" "txq_poll_mode q' = m"
    using f(3) unfolding parse_tx_queue_common_config_def by (elim bind_SomeE) auto
  have "m \<noteq> QueuePollMode.INVALID" by (rule parse_poll_mode_ok [OF f(1) assms(2)])
  from checked_queue_ok [OF f(2) this g(1)] show ?thesis using g by (cases m) (simp_all add: queue_ok_def)
qed

text \<open>A null region has no buffers of its own; every other region has buffers of a known kind.\<close>

definition region_ok :: "MemoryRegionConfig \<Rightarrow> bool" where
  "region_ok mr \<longleftrightarrow>
     mr_name mr \<noteq> [] \<and> mr_kind mr \<noteq> MemoryKind.INVALID \<and>
     (if mr_kind mr = NULL_MR then mr_num_bufs mr = 0 \<and> mr_owned mr else mr_buf_size mr \<noteq> 0 \<and> mr_num_bufs mr \<noteq> 0)"

lemma parse_buffer_region_ok:
  assumes "parse_buffer_region y mr name kind = Some r"
  shows "mr_name r = name \<and> mr_kind r = kind \<and> mr_buf_size r \<noteq> 0 \<and> mr_num_bufs r \<noteq> 0"
  using assms unfolding parse_buffer_region_def
  by (simp only: require_bind) (elim bind_SomeE requireE, auto split del: if_split)

lemma parse_memory_region_config_ok:
  assumes "parse_memory_region_config y mr = Some r"
  shows "region_ok r"
proof -
  obtain name kind where f: "name \<noteq> []" "kind \<noteq> MemoryKind.INVALID"
      "(if kind = NULL_MR then parse_null_region y mr name else parse_buffer_region y mr name kind) = Some r"
    using assms unfolding parse_memory_region_config_def Let_def
    by (simp only: require_bind) (elim bind_SomeE requireE, simp split del: if_split)
  then show ?thesis using parse_buffer_region_ok [of y mr name kind r]
    by (auto simp: region_ok_def parse_null_region_def bind_Some split: if_splits)
qed

lemma resolve_endpoint_protocol:
  assumes "resolve_endpoint pt addr allow (p, ip, port) = Some (p', ip', port')" "p \<noteq> SocketProtocol.INVALID"
  shows "p' = p"
  using assms by (auto simp: resolve_endpoint_def apply_endpoint_addr_def split: if_splits option.splits)

text \<open>The interfaces of one configuration share one protocol: it is fixed by the first and kept by the others.\<close>

lemma parse_socket_config_protocol:
  assumes "parse_socket_config y pt item p = Some (cfg, p')"
  shows "p' \<noteq> SocketProtocol.INVALID \<and> (p \<noteq> SocketProtocol.INVALID \<longrightarrow> p' = p) \<and> socket_endpoint_required cfg p'"
proof -
  obtain c0 c1 where f: "parse_socket_endpoints y pt item c0 p = Some (c1, p')" "socket_endpoint_required cfg p'"
    using assms unfolding parse_socket_config_def Let_def
    by (simp only: require_bind) (elim bind_SomeE requireE, auto split: prod.splits elim!: bind_SomeE requireE)
  obtain la lip lport p1 lip1 lport1 ra rip rport rip1 rport1 where g:
      "resolve_endpoint pt la (so_mode c0 = SocketMode.CLIENT) (p, lip, lport) = Some (p1, lip1, lport1)"
      "resolve_endpoint pt ra False (p1, rip, rport) = Some (p', rip1, rport1)" "p' \<noteq> SocketProtocol.INVALID"
    using f(1) unfolding parse_socket_endpoints_def
    by (simp only: require_bind) (elim bind_SomeE requireE, auto split: prod.splits elim!: bind_SomeE requireE)
  show ?thesis using g f(2) resolve_endpoint_protocol [OF g(1)] resolve_endpoint_protocol [OF g(2)] by auto
qed

end
