(* ===== verification/Yaml_Decode.thy ===== *)
theory Yaml_Decode
  imports Yaml_Reorder Yaml_Queues
begin

text \<open>
  Reading the whole configuration, \<^verbatim>\<open>YAML::convert<NetworkConfig>::decode\<close> of \<^verbatim>\<open>include/daqiri/common.h\<close>, one
  definition per section. The configuration record that is filled in is an argument, since some of
  its fields are not initialised by the code, and so is the port number of a new interface.
\<close>

section \<open>Model: the common section\<close>

definition parse_engine :: "'n Yaml \<Rightarrow> BuildFlags \<Rightarrow> 'n \<Rightarrow> StreamType \<Rightarrow> EngineType option" where
  "parse_engine y bf node stream_type = do {
     present \<leftarrow> has_key y node ''engine'';
     if present then do {
       text \<leftarrow> string_field y node ''engine'';
       engine \<leftarrow> caught (config_engine_from_string bf text stream_type);
       require (\<not> (engine \<noteq> DEFAULT \<and> \<not> engine_type_supports_stream_type engine stream_type));
       Some engine
     } else Some DEFAULT
   }"

definition resolve_engine_type :: "BuildFlags \<Rightarrow> CommonConfig \<Rightarrow> CommonConfig option" where
  "resolve_engine_type bf common =
     (if is_explicit_engine_type (cc_engine common) then Some (common\<lparr>cc_engine_type := cc_engine common\<rparr>)
      else if cc_stream_type common = StreamType.SOCKET \<and> cc_protocol common = SocketProtocol.INVALID
      then Some (common\<lparr>cc_engine_type := UNKNOWN\<rparr>)
      else
        (let engine_type = engine_type_from_stream_type bf (cc_stream_type common) (cc_protocol common) in
         if engine_type \<noteq> UNKNOWN then Some (common\<lparr>cc_engine_type := engine_type, cc_engine := engine_type\<rparr>)
         else None))"

definition parse_loopback :: "'n Yaml \<Rightarrow> 'n \<Rightarrow> LoopbackType option" where
  "parse_loopback y node = do {
     loopback \<leftarrow> optional_string y node ''loopback'' [];
     if loopback = ''sw'' then Some LOOPBACK_TYPE_SW
     else if loopback = ''hw'' then Some LOOPBACK_TYPE_HW
     else if loopback \<noteq> [] then None
     else Some DISABLED
   }"

definition parse_common :: "'n Yaml \<Rightarrow> BuildFlags \<Rightarrow> 'n \<Rightarrow> CommonConfig \<Rightarrow> CommonConfig option" where
  "parse_common y bf node common = do {
     has_manager \<leftarrow> has_key y node ''manager'';
     require (\<not> has_manager);
     version \<leftarrow> y_index y node ''version'' \<bind> parse_yaml_integer y True 32;
     master_core \<leftarrow> y_index y node ''master_core'' \<bind> parse_yaml_integer y True 32;
     require (version = 1);
     require (\<not> master_core < - 1);
     has_stream \<leftarrow> has_key y node ''stream_type'';
     require has_stream;
     stream_text \<leftarrow> string_field y node ''stream_type'';
     let stream_type = stream_type_from_string stream_text;
     require (stream_type \<noteq> StreamType.INVALID);
     engine \<leftarrow> parse_engine y bf node stream_type;
     has_protocol \<leftarrow> has_key y node ''protocol'';
     require (\<not> has_protocol);
     let protocol = (if stream_type = StreamType.SOCKET \<and> engine = RDMA then ROCE else SocketProtocol.INVALID);
     require (\<not> (stream_type = StreamType.SOCKET \<and> is_explicit_engine_type engine \<and> protocol \<noteq> SocketProtocol.INVALID \<and>
                 \<not> engine_type_supports_socket_protocol engine protocol));
     common \<leftarrow> resolve_engine_type bf (common\<lparr>cc_version := version, cc_master_core := master_core,
       cc_stream_type := stream_type, cc_engine := engine, cc_protocol := protocol\<rparr>);
     loopback \<leftarrow> parse_loopback y node;
     require (\<not> (loopback = LOOPBACK_TYPE_HW \<and> (stream_type \<noteq> RAW \<or> cc_engine_type common \<noteq> IBVERBS)));
     Some (common\<lparr>cc_loopback := loopback\<rparr>)
   }"

primrec parse_memory_regions :: "'n Yaml \<Rightarrow> (string \<times> MemoryRegionConfig) list \<Rightarrow> 'n list \<Rightarrow> (string \<times> MemoryRegionConfig) list option" where
  "parse_memory_regions y mrs [] = Some mrs"
| "parse_memory_regions y mrs (mr # nodes) = do {
     tmr \<leftarrow> parse_memory_region_config y mr;
     require (map_of mrs (mr_name tmr) = None);
     parse_memory_regions y (mrs @ [(mr_name tmr, tmr)]) nodes
   }"

section \<open>Model: interfaces\<close>

definition default_RxQueueConfig :: RxQueueConfig where
  "default_RxQueueConfig =
     \<lparr>rxq_common = default_CommonQueueConfig, rxq_timeout_us = 0, rxq_poll_mode = INDIRECT, rxq_cqe_compression = False\<rparr>"

definition default_TxQueueConfig :: TxQueueConfig where
  "default_TxQueueConfig =
     \<lparr>txq_common = default_CommonQueueConfig, txq_poll_mode = INDIRECT, txq_pacing_mbps = 0, txq_buffer_mode = CYCLIC,
      txq_max_inflight_sends = 0\<rparr>"

definition default_RxConfig :: RxConfig where
  "default_RxConfig =
     \<lparr>rx_flow_isolation = False, rx_hardware_timestamps = False, rx_dynamic_flow_capacity = 0, rx_queues = [], rx_flows = [],
      rx_flex_items = [], rx_reorder_configs = []\<rparr>"

definition default_TxConfig :: TxConfig where
  "default_TxConfig = \<lparr>tx_accurate_send = False, tx_queues = [], tx_flows = []\<rparr>"

definition parse_rx_queue :: "'n Yaml \<Rightarrow> BuildFlags \<Rightarrow> EngineType \<Rightarrow> bool \<Rightarrow> 'n \<Rightarrow> RxQueueConfig option" where
  "parse_rx_queue y bf engine_type roce_used q_item = do {
     q \<leftarrow> parse_rx_queue_config y bf engine_type q_item default_RxQueueConfig (\<not> roce_used);
     timeout_us \<leftarrow> optional_unsigned y q_item ''timeout_us'' 0;
     Some (q\<lparr>rxq_timeout_us := timeout_us\<rparr>)
   }"

text \<open>An optional sequence of items; without the key there are none.\<close>

definition optional_items :: "'n Yaml \<Rightarrow> ('n list \<Rightarrow> 'v list option) \<Rightarrow> 'n \<Rightarrow> string \<Rightarrow> 'v list option" where
  "optional_items y f node key = do {
     items \<leftarrow> y_index y node key;
     if y_defined y items then as_sequence y items \<bind> f else Some []
   }"

primrec parse_reorder_configs :: "'n Yaml \<Rightarrow> string list \<Rightarrow> 'n list \<Rightarrow> ReorderConfig list option" where
  "parse_reorder_configs y reorder_names [] = Some []"
| "parse_reorder_configs y reorder_names (reorder_item # items) = do {
     cfg \<leftarrow> parse_reorder_config y reorder_item;
     require (re_name cfg \<notin> set reorder_names);
     cfgs \<leftarrow> parse_reorder_configs y (re_name cfg # reorder_names) items;
     Some (cfg # cfgs)
   }"

definition parse_rx_section :: "'n Yaml \<Rightarrow> BuildFlags \<Rightarrow> pton \<Rightarrow> EngineType \<Rightarrow> bool \<Rightarrow> 'n \<Rightarrow> RxConfig option" where
  "parse_rx_section y bf inet_pton engine_type roce_used rx = do {
     validate_yaml_mapping_keys y rx
       [''flow_isolation'', ''dynamic_flow_capacity'', ''hardware_timestamps'', ''queues'', ''flows'', ''flex_items'',
        ''reorder_configs''];
     queue_items \<leftarrow> y_index y rx ''queues'' \<bind> as_nonempty_sequence y;
     flow_isolation \<leftarrow> optional_bool y rx ''flow_isolation'' False;
     hardware_timestamps \<leftarrow> optional_bool y rx ''hardware_timestamps'' False;
     dynamic_flow_capacity \<leftarrow> optional_unsigned y rx ''dynamic_flow_capacity'' 0;
     queues \<leftarrow> read_each (parse_rx_queue y bf engine_type roce_used) queue_items;
     flows \<leftarrow> optional_items y (read_each (parse_flow_config y inet_pton)) rx ''flows'';
     flex_items \<leftarrow> optional_items y (read_each (parse_flex_item_config y)) rx ''flex_items'';
     reorder_configs \<leftarrow> optional_items y (parse_reorder_configs y []) rx ''reorder_configs'';
     Some \<lparr>rx_flow_isolation = flow_isolation, rx_hardware_timestamps = hardware_timestamps,
       rx_dynamic_flow_capacity = dynamic_flow_capacity, rx_queues = queues, rx_flows = flows, rx_flex_items = flex_items,
       rx_reorder_configs = reorder_configs\<rparr>
   }"

definition parse_tx_section :: "'n Yaml \<Rightarrow> BuildFlags \<Rightarrow> pton \<Rightarrow> EngineType \<Rightarrow> bool \<Rightarrow> 'n \<Rightarrow> TxConfig option" where
  "parse_tx_section y bf inet_pton engine_type roce_used tx = do {
     validate_yaml_mapping_keys y tx [''accurate_send'', ''queues'', ''flows''];
     queue_items \<leftarrow> y_index y tx ''queues'' \<bind> as_nonempty_sequence y;
     accurate_send \<leftarrow> optional_bool y tx ''accurate_send'' False;
     queues \<leftarrow> read_each
       (\<lambda>q_item. parse_tx_queue_config y bf engine_type q_item default_TxQueueConfig (\<not> roce_used)) queue_items;
     flows \<leftarrow> optional_items y (read_each (parse_flow_config y inet_pton)) tx ''flows'';
     Some \<lparr>tx_accurate_send = accurate_send, tx_queues = queues, tx_flows = flows\<rparr>
   }"

definition default_InterfaceConfig :: "u16 \<Rightarrow> InterfaceConfig" where
  "default_InterfaceConfig port_id =
     \<lparr>if_name = [], if_address = [], if_port_id = port_id, if_socket = default_SocketConfig,
      if_roce = \<lparr>rc_transport_mode = RDMATransportMode.INVALID\<rparr>,
      if_rdma = \<lparr>rd_mode = RDMAMode.INVALID, rd_xmode = RDMATransportMode.INVALID, rd_port = 0\<rparr>,
      if_rx = default_RxConfig, if_tx = default_TxConfig\<rparr>"

definition rdma_from_socket :: "SocketConfig \<Rightarrow> RoCEConfig \<Rightarrow> RDMAConfig" where
  "rdma_from_socket so roce =
     \<lparr>rd_mode = (if so_mode so = SocketMode.SERVER then RDMAMode.SERVER else RDMAMode.CLIENT),
      rd_xmode = rc_transport_mode roce,
      rd_port = (if so_mode so = SocketMode.CLIENT \<and> so_local_port so = 0 then so_remote_port so else so_local_port so)\<rparr>"

definition parse_transport ::
    "'n Yaml \<Rightarrow> BuildFlags \<Rightarrow> pton \<Rightarrow> 'n \<Rightarrow> CommonConfig \<Rightarrow> InterfaceConfig \<Rightarrow> (CommonConfig \<times> InterfaceConfig) option" where
  "parse_transport y bf inet_pton intf common ifcfg = do {
     has_socket \<leftarrow> has_key y intf ''socket_config'';
     has_roce \<leftarrow> has_key y intf ''roce_config'';
     if cc_stream_type common = StreamType.SOCKET then do {
       require has_socket;
       socket_node \<leftarrow> y_index y intf ''socket_config'';
       (socket, protocol) \<leftarrow> parse_socket_config y inet_pton socket_node (cc_protocol common);
       common \<leftarrow> resolve_engine_type bf (common\<lparr>cc_protocol := protocol\<rparr>);
       require (\<not> (is_explicit_engine_type (cc_engine common) \<and>
                   \<not> engine_type_supports_socket_protocol (cc_engine common) (cc_protocol common)));
       if cc_protocol common = ROCE then do {
         require has_roce;
         roce \<leftarrow> y_index y intf ''roce_config'' \<bind> parse_roce_config y;
         Some (common, ifcfg\<lparr>if_socket := socket, if_roce := roce, if_rdma := rdma_from_socket socket roce\<rparr>)
       } else do {
         require (\<not> has_roce);
         Some (common, ifcfg\<lparr>if_socket := socket\<rparr>)
       }
     } else do {
       require (\<not> (has_socket \<or> has_roce));
       Some (common, ifcfg)
     }
   }"

definition parse_interface ::
    "'n Yaml \<Rightarrow> BuildFlags \<Rightarrow> pton \<Rightarrow> u16 \<Rightarrow> CommonConfig \<Rightarrow> 'n \<Rightarrow> (CommonConfig \<times> InterfaceConfig) option" where
  "parse_interface y bf inet_pton port_id common intf = do {
     validate_yaml_mapping_keys y intf
       [''name'', ''address'', ''socket_config'', ''roce_config'', ''rx'', ''tx'', ''rdma_config''];
     name \<leftarrow> string_field y intf ''name'';
     address \<leftarrow> string_field y intf ''address'';
     has_rdma \<leftarrow> has_key y intf ''rdma_config'';
     require (\<not> has_rdma);
     (common, ifcfg) \<leftarrow> parse_transport y bf inet_pton intf common
       ((default_InterfaceConfig port_id)\<lparr>if_name := name, if_address := address\<rparr>);
     let roce_used = (cc_stream_type common = StreamType.SOCKET \<and> cc_protocol common = ROCE);
     rx \<leftarrow> y_index y intf ''rx'';
     tx \<leftarrow> y_index y intf ''tx'';
     require (\<not> (\<not> y_defined y rx \<and> \<not> y_defined y tx));
     rx_cfg \<leftarrow> (if y_defined y rx then parse_rx_section y bf inet_pton (cc_engine_type common) roce_used rx
                else Some (if_rx ifcfg));
     tx_cfg \<leftarrow> (if y_defined y tx then parse_tx_section y bf inet_pton (cc_engine_type common) roce_used tx
                else Some (if_tx ifcfg));
     Some (common, ifcfg\<lparr>if_rx := rx_cfg, if_tx := tx_cfg\<rparr>)
   }"

primrec parse_interfaces ::
    "'n Yaml \<Rightarrow> BuildFlags \<Rightarrow> pton \<Rightarrow> u16 \<Rightarrow> CommonConfig \<Rightarrow> 'n list \<Rightarrow> (CommonConfig \<times> InterfaceConfig list) option" where
  "parse_interfaces y bf inet_pton port_id common [] = Some (common, [])"
| "parse_interfaces y bf inet_pton port_id common (intf # intfs) = do {
     (common, ifcfg) \<leftarrow> parse_interface y bf inet_pton port_id common intf;
     (common, ifcfgs) \<leftarrow> parse_interfaces y bf inet_pton port_id common intfs;
     Some (common, ifcfg # ifcfgs)
   }"

definition queue_regions :: "InterfaceConfig \<Rightarrow> string list" where
  "queue_regions intf =
     concat (map (cq_mrs \<circ> rxq_common) (rx_queues (if_rx intf))) @ concat (map (cq_mrs \<circ> txq_common) (tx_queues (if_tx intf)))"

definition gpu_mrs :: "(string \<times> MemoryRegionConfig) list \<Rightarrow> InterfaceConfig list \<Rightarrow> string list" where
  "gpu_mrs mrs ifs =
     filter (\<lambda>mr_name. case map_of mrs mr_name of None \<Rightarrow> False | Some mr \<Rightarrow> mr_kind mr = DEVICE) (concat (map queue_regions ifs))"

definition parse_meta_buffers :: "'n Yaml \<Rightarrow> 'n \<Rightarrow> string \<Rightarrow> u32 option" where
  "parse_meta_buffers y node key = do {
     bufs \<leftarrow> optional_unsigned y node key 256;
     require (bufs \<noteq> 0);
     Some bufs
   }"

definition decode :: "'n Yaml \<Rightarrow> BuildFlags \<Rightarrow> pton \<Rightarrow> u16 \<Rightarrow> 'n \<Rightarrow> NetworkConfig \<Rightarrow> NetworkConfig option" where
  "decode y bf inet_pton port_id node input_spec = do {
     is_map \<leftarrow> y_is_map y node;
     require is_map;
     validate_yaml_mapping_keys y node
       [''version'', ''stream_type'', ''engine'', ''master_core'', ''debug'', ''log_level'', ''loopback'',
        ''tx_meta_buffers'', ''rx_meta_buffers'', ''memory_regions'', ''interfaces'', ''manager'', ''protocol''];
     common \<leftarrow> parse_common y bf node (nc_common input_spec);
     debug \<leftarrow> optional_bool y node ''debug'' False;
     level_text \<leftarrow> optional_string y node ''log_level'' (LogLevel_to_string WARN);
     log_level \<leftarrow> caught (LogLevel_from_string level_text);
     tx_meta_buffers \<leftarrow> parse_meta_buffers y node ''tx_meta_buffers'';
     rx_meta_buffers \<leftarrow> parse_meta_buffers y node ''rx_meta_buffers'';
     mr_nodes \<leftarrow> y_index y node ''memory_regions'' \<bind> as_nonempty_sequence y;
     mrs \<leftarrow> parse_memory_regions y (nc_mrs input_spec) mr_nodes;
     intfs \<leftarrow> y_index y node ''interfaces'' \<bind> as_nonempty_sequence y;
     (common, ifs) \<leftarrow> parse_interfaces y bf inet_pton port_id common intfs;
     require (\<not> (cc_stream_type common = StreamType.SOCKET \<and> cc_protocol common = SocketProtocol.INVALID));
     require (\<not> (cc_stream_type common = StreamType.SOCKET \<and> (cc_protocol common = TCP \<or> cc_protocol common = UDP) \<and>
                 gpu_mrs mrs (nc_ifs input_spec @ ifs) \<noteq> []));
     Some (input_spec\<lparr>nc_common := common, nc_mrs := mrs, nc_ifs := nc_ifs input_spec @ ifs, nc_debug := of_bool debug,
       nc_tx_meta_buffers := tx_meta_buffers, nc_rx_meta_buffers := rx_meta_buffers, nc_log_level := log_level\<rparr>)
   }"

section \<open>The engine and the protocol\<close>

lemma read_each_all: "read_each f xs = Some vs \<Longrightarrow> (\<And>x v. f x = Some v \<Longrightarrow> P v) \<Longrightarrow> \<forall>v\<in>set vs. P v"
  by (induction xs arbitrary: vs) (auto simp: bind_Some)

lemma read_each_nonempty: "read_each f xs = Some vs \<Longrightarrow> xs \<noteq> [] \<Longrightarrow> vs \<noteq> []"
  by (cases xs) (auto simp: bind_Some)

lemma as_nonempty_sequence_nonempty: "as_nonempty_sequence y node = Some es \<Longrightarrow> es \<noteq> []"
  by (auto simp: as_nonempty_sequence_def bind_Some split: if_splits)

text \<open>What holds of the common section before, and after, the interfaces have been read.\<close>

definition engine_fits :: "CommonConfig \<Rightarrow> bool" where
  "engine_fits c \<longleftrightarrow>
     cc_stream_type c \<noteq> StreamType.INVALID \<and>
     (is_explicit_engine_type (cc_engine c) \<longrightarrow> engine_type_supports_stream_type (cc_engine c) (cc_stream_type c)) \<and>
     (cc_stream_type c = RAW \<longrightarrow> is_explicit_engine_type (cc_engine c) \<and> cc_engine_type c = cc_engine c)"

definition engine_settled :: "CommonConfig \<Rightarrow> bool" where
  "engine_settled c \<longleftrightarrow>
     engine_fits c \<and> is_explicit_engine_type (cc_engine c) \<and> cc_engine_type c = cc_engine c \<and>
     (cc_stream_type c = StreamType.SOCKET \<longrightarrow>
        cc_protocol c \<noteq> SocketProtocol.INVALID \<and> engine_type_supports_socket_protocol (cc_engine c) (cc_protocol c))"

definition common_basics :: "CommonConfig \<Rightarrow> bool" where
  "common_basics c \<longleftrightarrow>
     cc_version c = 1 \<and> - 1 \<le> cc_master_core c \<and>
     (cc_loopback c = LOOPBACK_TYPE_HW \<longrightarrow> cc_stream_type c = RAW \<and> cc_engine_type c = IBVERBS)"

lemma derived_engine_fits:
  assumes "engine_type_from_stream_type bf st p = e" "e \<noteq> UNKNOWN"
  shows "is_explicit_engine_type e \<and> engine_type_supports_stream_type e st"
  using assms by (cases st) (auto simp: is_explicit_engine_type_def split: if_splits)

lemma resolve_engine_type_fits:
  assumes "resolve_engine_type bf c = Some c'" "cc_stream_type c \<noteq> StreamType.INVALID"
    "is_explicit_engine_type (cc_engine c) \<Longrightarrow> engine_type_supports_stream_type (cc_engine c) (cc_stream_type c)"
  shows "engine_fits c'" "cc_stream_type c' = cc_stream_type c" "cc_protocol c' = cc_protocol c"
    "cc_version c' = cc_version c" "cc_master_core c' = cc_master_core c" "cc_loopback c' = cc_loopback c"
    "cc_stream_type c = StreamType.SOCKET \<and> cc_protocol c = SocketProtocol.INVALID \<or>
       is_explicit_engine_type (cc_engine c') \<and> cc_engine_type c' = cc_engine c'"
    "is_explicit_engine_type (cc_engine c) \<Longrightarrow> c' = c\<lparr>cc_engine_type := cc_engine c\<rparr>"
  using assms derived_engine_fits [of bf "cc_stream_type c" "cc_protocol c"]
  by (auto simp: resolve_engine_type_def engine_fits_def Let_def is_explicit_engine_type_def split: if_splits)

lemma parse_engine_fits:
  assumes "parse_engine y bf node st = Some e" "is_explicit_engine_type e"
  shows "engine_type_supports_stream_type e st"
  using assms by (auto simp: parse_engine_def bind_Some is_explicit_engine_type_def split: if_splits)

lemma parse_common_ok:
  assumes "parse_common y bf node c0 = Some c"
  shows "engine_fits c \<and> common_basics c"
proof -
  obtain version master st e p c1 l where f: "version = 1" "\<not> master < - 1" "st \<noteq> StreamType.INVALID"
      "parse_engine y bf node st = Some e"
      "resolve_engine_type bf (c0\<lparr>cc_version := version, cc_master_core := master, cc_stream_type := st, cc_engine := e,
         cc_protocol := p\<rparr>) = Some c1"
      "\<not> (l = LOOPBACK_TYPE_HW \<and> (st \<noteq> RAW \<or> cc_engine_type c1 \<noteq> IBVERBS))" "c = c1\<lparr>cc_loopback := l\<rparr>"
    using assms unfolding parse_common_def Let_def
    by (simp only: require_bind) (elim bind_SomeE requireE, simp split del: if_split)
  note r = resolve_engine_type_fits [OF f(5)]
  have "engine_fits c1" by (rule r(1)) (use f(3) parse_engine_fits [OF f(4)] in simp_all)
  moreover have "cc_stream_type c1 = st \<and> cc_version c1 = 1 \<and> cc_master_core c1 = master"
    using r(2,4,5) f(1,3) parse_engine_fits [OF f(4)] by simp
  ultimately show ?thesis using f by (auto simp: engine_fits_def common_basics_def)
qed

lemma parse_transport_ok:
  assumes "parse_transport y bf pt intf c i = Some (c', i')" "engine_fits c"
  shows "engine_settled c' \<and> (engine_settled c \<longrightarrow> c' = c) \<and> (common_basics c \<longrightarrow> common_basics c') \<and>
    if_rx i' = if_rx i \<and> if_tx i' = if_tx i"
proof (cases "cc_stream_type c = StreamType.SOCKET")
  case True
  then obtain node so p c1 where f: "parse_socket_config y pt node (cc_protocol c) = Some (so, p)"
      "resolve_engine_type bf (c\<lparr>cc_protocol := p\<rparr>) = Some c'"
      "\<not> (is_explicit_engine_type (cc_engine c') \<and> \<not> engine_type_supports_socket_protocol (cc_engine c') (cc_protocol c'))"
      "if_rx i' = if_rx i \<and> if_tx i' = if_tx i"
    using assms(1) unfolding parse_transport_def
    by (simp only: require_bind if_True simp_thms)
      (elim bind_SomeE requireE, auto split: prod.splits if_splits elim!: bind_SomeE requireE)
  note s = parse_socket_config_protocol [OF f(1)]
  have "cc_stream_type (c\<lparr>cc_protocol := p\<rparr>) \<noteq> StreamType.INVALID"
    "is_explicit_engine_type (cc_engine (c\<lparr>cc_protocol := p\<rparr>)) \<Longrightarrow>
       engine_type_supports_stream_type (cc_engine (c\<lparr>cc_protocol := p\<rparr>)) (cc_stream_type (c\<lparr>cc_protocol := p\<rparr>))"
    using assms(2) by (simp_all add: engine_fits_def)
  note r = resolve_engine_type_fits [OF f(2) this]
  have "engine_settled c'" using r s f(3) True by (auto simp: engine_settled_def)
  moreover have "c' = c" if "engine_settled c"
  proof -
    have "p = cc_protocol c" using that s True by (auto simp: engine_settled_def)
    then show ?thesis using r(8) that by (simp add: engine_settled_def)
  qed
  moreover have "common_basics c \<longrightarrow> common_basics c'" using r True by (auto simp: common_basics_def)
  ultimately show ?thesis using f(4) by blast
next
  case False
  then have "c' = c" "i' = i"
    using assms(1) unfolding parse_transport_def by (auto simp: bind_Some split: if_splits)
  then show ?thesis
    using assms(2) False by (cases "cc_stream_type c") (simp_all add: engine_settled_def engine_fits_def)
qed

section \<open>Interfaces\<close>

definition rx_section_ok :: "EngineType \<Rightarrow> bool \<Rightarrow> RxConfig \<Rightarrow> bool" where
  "rx_section_ok engine needs_regions rx \<longleftrightarrow>
     (\<forall>q\<in>set (rx_queues rx). queue_ok engine needs_regions (rxq_poll_mode q) (rxq_common q) \<and>
        (rxq_cqe_compression q \<longrightarrow> engine = IBVERBS)) \<and>
     (\<forall>r\<in>set (rx_reorder_configs rx). reorder_config_ok r) \<and> distinct (map re_name (rx_reorder_configs rx))"

definition tx_section_ok :: "EngineType \<Rightarrow> bool \<Rightarrow> TxConfig \<Rightarrow> bool" where
  "tx_section_ok engine needs_regions tx \<longleftrightarrow>
     (\<forall>q\<in>set (tx_queues tx). queue_ok engine needs_regions (txq_poll_mode q) (txq_common q))"

definition uses_roce :: "CommonConfig \<Rightarrow> bool" where
  "uses_roce c \<longleftrightarrow> cc_stream_type c = StreamType.SOCKET \<and> cc_protocol c = ROCE"

definition interface_ok :: "CommonConfig \<Rightarrow> InterfaceConfig \<Rightarrow> bool" where
  "interface_ok c i \<longleftrightarrow>
     (rx_queues (if_rx i) \<noteq> [] \<or> tx_queues (if_tx i) \<noteq> []) \<and>
     rx_section_ok (cc_engine_type c) (\<not> uses_roce c) (if_rx i) \<and> tx_section_ok (cc_engine_type c) (\<not> uses_roce c) (if_tx i)"

lemma parse_reorder_configs_ok:
  "parse_reorder_configs y names items = Some cfgs \<Longrightarrow>
     (\<forall>r\<in>set cfgs. reorder_config_ok r) \<and> distinct (map re_name cfgs) \<and> set (map re_name cfgs) \<inter> set names = {}"
proof (induction items arbitrary: names cfgs)
  case (Cons item items)
  then obtain cfg rest where f: "parse_reorder_config y item = Some cfg" "re_name cfg \<notin> set names"
      "parse_reorder_configs y (re_name cfg # names) items = Some rest" "cfgs = cfg # rest"
    by (auto simp: bind_Some split: if_splits)
  from Cons.IH [OF f(3)] reorder_config_read_ok [OF f(1)] show ?case using f(2,4) by auto
qed simp

lemma optional_items_cases:
  assumes "optional_items y f node key = Some vs"
  shows "vs = [] \<or> (\<exists>es. f es = Some vs)"
  using assms by (auto simp: optional_items_def bind_Some split: if_splits)

lemma settled_resolved: "engine_settled c \<Longrightarrow> resolved_engine bf (cc_engine_type c) = cc_engine_type c"
  by (simp add: engine_settled_def resolved_engine_def is_explicit_engine_type_def)

lemma parse_rx_section_ok:
  assumes "parse_rx_section y bf pt e roce rx = Some r"
  shows "rx_queues r \<noteq> [] \<and> rx_section_ok (resolved_engine bf e) (\<not> roce) r"
proof -
  obtain node items where f: "as_nonempty_sequence y node = Some items"
      "read_each (parse_rx_queue y bf e roce) items = Some (rx_queues r)"
      "optional_items y (parse_reorder_configs y []) rx ''reorder_configs'' = Some (rx_reorder_configs r)"
    using assms unfolding parse_rx_section_def by (elim bind_SomeE) auto
  have "\<forall>q\<in>set (rx_queues r). queue_ok (resolved_engine bf e) (\<not> roce) (rxq_poll_mode q) (rxq_common q) \<and>
       (rxq_cqe_compression q \<longrightarrow> resolved_engine bf e = IBVERBS)"
  proof (rule read_each_all [OF f(2)])
    fix item q assume "parse_rx_queue y bf e roce item = Some q"
    then show "queue_ok (resolved_engine bf e) (\<not> roce) (rxq_poll_mode q) (rxq_common q) \<and>
       (rxq_cqe_compression q \<longrightarrow> resolved_engine bf e = IBVERBS)"
      using parse_rx_queue_config_ok [of y bf e item default_RxQueueConfig "\<not> roce"]
      unfolding parse_rx_queue_def by (elim bind_SomeE) (auto simp: default_RxQueueConfig_def)
  qed
  then show ?thesis
    using read_each_nonempty [OF f(2) as_nonempty_sequence_nonempty [OF f(1)]] optional_items_cases [OF f(3)]
      parse_reorder_configs_ok [of y "[]"] by (auto simp: rx_section_ok_def)
qed

lemma parse_tx_section_ok:
  assumes "parse_tx_section y bf pt e roce tx = Some r"
  shows "tx_queues r \<noteq> [] \<and> tx_section_ok (resolved_engine bf e) (\<not> roce) r"
proof -
  let ?read = "\<lambda>q_item. parse_tx_queue_config y bf e q_item default_TxQueueConfig (\<not> roce)"
  obtain node items where f: "as_nonempty_sequence y node = Some items" "read_each ?read items = Some (tx_queues r)"
    using assms unfolding parse_tx_section_def by (elim bind_SomeE) auto
  have "\<forall>q\<in>set (tx_queues r). queue_ok (resolved_engine bf e) (\<not> roce) (txq_poll_mode q) (txq_common q)"
  proof (rule read_each_all [OF f(2)])
    fix item q assume "?read item = Some q"
    from parse_tx_queue_config_ok [OF this]
    show "queue_ok (resolved_engine bf e) (\<not> roce) (txq_poll_mode q) (txq_common q)"
      by (simp add: default_TxQueueConfig_def)
  qed
  then show ?thesis
    using read_each_nonempty [OF f(2) as_nonempty_sequence_nonempty [OF f(1)]] by (simp add: tx_section_ok_def)
qed

lemma default_sections_ok: "rx_section_ok e n default_RxConfig" "tx_section_ok e n default_TxConfig"
  by (simp_all add: rx_section_ok_def tx_section_ok_def default_RxConfig_def default_TxConfig_def)

lemma parse_interface_ok:
  assumes "parse_interface y bf pt port_id c intf = Some (c', i)" "engine_fits c"
  shows "engine_settled c' \<and> (engine_settled c \<longrightarrow> c' = c) \<and> (common_basics c \<longrightarrow> common_basics c') \<and> interface_ok c' i"
proof -
  let ?roce = "cc_stream_type c' = StreamType.SOCKET \<and> cc_protocol c' = ROCE"
  have "\<exists>i0 i1 rx tx rx_cfg tx_cfg. parse_transport y bf pt intf c i0 = Some (c', i1) \<and>
      if_rx i0 = default_RxConfig \<and> if_tx i0 = default_TxConfig \<and> (y_defined y rx \<or> y_defined y tx) \<and>
      (if y_defined y rx then parse_rx_section y bf pt (cc_engine_type c') ?roce rx else Some (if_rx i1)) = Some rx_cfg \<and>
      (if y_defined y tx then parse_tx_section y bf pt (cc_engine_type c') ?roce tx else Some (if_tx i1)) = Some tx_cfg \<and>
      i = i1\<lparr>if_rx := rx_cfg, if_tx := tx_cfg\<rparr>"
    using assms(1) unfolding parse_interface_def Let_def
    by (simp only: require_bind)
      (elim bind_pairE bind_SomeE requireE, simp only: option.inject prod.inject,
       intro exI conjI, elim conjE, hypsubst, assumption,
       simp_all add: default_InterfaceConfig_def split del: if_split, auto split del: if_split)
  then obtain i0 i1 rx tx rx_cfg tx_cfg where f: "parse_transport y bf pt intf c i0 = Some (c', i1)"
      "if_rx i0 = default_RxConfig" "if_tx i0 = default_TxConfig" "y_defined y rx \<or> y_defined y tx"
      "(if y_defined y rx then parse_rx_section y bf pt (cc_engine_type c') ?roce rx else Some (if_rx i1)) = Some (if_rx i)"
      "(if y_defined y tx then parse_tx_section y bf pt (cc_engine_type c') ?roce tx else Some (if_tx i1)) = Some (if_tx i)"
    by (elim exE conjE) simp
  note t = parse_transport_ok [OF f(1) assms(2)]
  have res: "resolved_engine bf (cc_engine_type c') = cc_engine_type c'" using t settled_resolved by blast
  have rx: "rx_section_ok (cc_engine_type c') (\<not> uses_roce c') (if_rx i) \<and> (y_defined y rx \<longrightarrow> rx_queues (if_rx i) \<noteq> [])"
    using f(2,5) t parse_rx_section_ok [of y bf pt "cc_engine_type c'" ?roce rx "if_rx i"]
    by (cases "y_defined y rx") (simp_all add: res uses_roce_def default_sections_ok)
  have tx: "tx_section_ok (cc_engine_type c') (\<not> uses_roce c') (if_tx i) \<and> (y_defined y tx \<longrightarrow> tx_queues (if_tx i) \<noteq> [])"
    using f(3,6) t parse_tx_section_ok [of y bf pt "cc_engine_type c'" ?roce tx "if_tx i"]
    by (cases "y_defined y tx") (simp_all add: res uses_roce_def default_sections_ok)
  have "interface_ok c' i" using rx tx f(4) by (auto simp: interface_ok_def)
  then show ?thesis using t by blast
qed

lemma parse_interfaces_ok:
  assumes "parse_interfaces y bf pt port_id c intfs = Some (c', ifs)" "engine_fits c" "common_basics c"
  shows "engine_fits c' \<and> common_basics c' \<and> (intfs \<noteq> [] \<longrightarrow> engine_settled c' \<and> ifs \<noteq> []) \<and> (engine_settled c \<longrightarrow> c' = c) \<and>
    (\<forall>i\<in>set ifs. interface_ok c' i)"
  using assms
proof (induction intfs arbitrary: c ifs)
  case (Cons intf intfs)
  from Cons.prems(1) obtain c1 i rest where f: "parse_interface y bf pt port_id c intf = Some (c1, i)"
      "parse_interfaces y bf pt port_id c1 intfs = Some (c', rest)" "ifs = i # rest"
    by (auto simp: bind_Some)
  note p = parse_interface_ok [OF f(1) Cons.prems(2)]
  have fits: "engine_fits c1" using p by (simp add: engine_settled_def)
  from Cons.IH [OF f(2) fits] p Cons.prems(3) have "c' = c1" "common_basics c1" "\<forall>i\<in>set rest. interface_ok c1 i" by auto
  then show ?case using p fits f(3) by auto
qed simp

section \<open>Accepted configurations\<close>

definition regions_ok :: "(string \<times> MemoryRegionConfig) list \<Rightarrow> bool" where
  "regions_ok mrs \<longleftrightarrow> distinct (map fst mrs) \<and> (\<forall>(name, mr)\<in>set mrs. name = mr_name mr \<and> region_ok mr)"

lemma parse_memory_regions_ok:
  "parse_memory_regions y mrs nodes = Some mrs' \<Longrightarrow> regions_ok mrs \<Longrightarrow> regions_ok mrs' \<and> length mrs' = length mrs + length nodes"
proof (induction nodes arbitrary: mrs)
  case (Cons node nodes)
  from Cons.prems(1) obtain tmr where f: "parse_memory_region_config y node = Some tmr" "map_of mrs (mr_name tmr) = None"
      "parse_memory_regions y (mrs @ [(mr_name tmr, tmr)]) nodes = Some mrs'"
    by (auto simp: bind_Some split: if_splits)
  have "regions_ok (mrs @ [(mr_name tmr, tmr)])"
    using Cons.prems(2) f(2) parse_memory_region_config_ok [OF f(1)] by (auto simp: regions_ok_def map_of_eq_None_iff)
  from Cons.IH [OF f(3) this] show ?case by simp
qed simp

definition config_ok :: "NetworkConfig \<Rightarrow> bool" where
  "config_ok nc \<longleftrightarrow>
     (let c = nc_common nc in
      common_basics c \<and>
      engine_type_supports_stream_type (cc_engine_type c) (cc_stream_type c) \<and>
      (cc_stream_type c = StreamType.SOCKET \<longrightarrow> engine_type_supports_socket_protocol (cc_engine_type c) (cc_protocol c)) \<and>
      nc_mrs nc \<noteq> [] \<and> regions_ok (nc_mrs nc) \<and>
      nc_ifs nc \<noteq> [] \<and> (\<forall>i\<in>set (nc_ifs nc). interface_ok c i) \<and>
      (cc_stream_type c = StreamType.SOCKET \<and> cc_protocol c \<in> {TCP, UDP} \<longrightarrow>
         (\<forall>i\<in>set (nc_ifs nc). \<forall>name\<in>set (queue_regions i). \<forall>mr. map_of (nc_mrs nc) name = Some mr \<longrightarrow> mr_kind mr \<noteq> DEVICE)) \<and>
      nc_tx_meta_buffers nc \<noteq> 0 \<and> nc_rx_meta_buffers nc \<noteq> 0)"

lemma gpu_mrs_empty:
  assumes "gpu_mrs mrs ifs = []" "i \<in> set ifs" "name \<in> set (queue_regions i)" "map_of mrs name = Some mr"
  shows "mr_kind mr \<noteq> DEVICE"
proof
  assume "mr_kind mr = DEVICE"
  then have "name \<in> set (gpu_mrs mrs ifs)" using assms(2-4) by (auto simp: gpu_mrs_def)
  then show False using assms(1) by simp
qed

lemma decode_sections:
  assumes "decode y bf pt port_id node spec = Some nc"
  obtains c mr_nodes mrs intfs c' ifs where "parse_common y bf node (nc_common spec) = Some c"
    "mr_nodes \<noteq> []" "parse_memory_regions y (nc_mrs spec) mr_nodes = Some mrs"
    "intfs \<noteq> []" "parse_interfaces y bf pt port_id c intfs = Some (c', ifs)"
    "\<not> (cc_stream_type c' = StreamType.SOCKET \<and> (cc_protocol c' = TCP \<or> cc_protocol c' = UDP) \<and>
        gpu_mrs mrs (nc_ifs spec @ ifs) \<noteq> [])"
    "nc_common nc = c'" "nc_mrs nc = mrs" "nc_ifs nc = nc_ifs spec @ ifs"
    "nc_tx_meta_buffers nc \<noteq> 0" "nc_rx_meta_buffers nc \<noteq> 0"
proof -
  have meta: "parse_meta_buffers y node key = Some b \<Longrightarrow> b \<noteq> 0" for key b
    by (auto simp: parse_meta_buffers_def bind_Some split: if_splits)
  have "\<exists>c mr_nodes mrs intfs c' ifs. parse_common y bf node (nc_common spec) = Some c \<and>
    mr_nodes \<noteq> [] \<and> parse_memory_regions y (nc_mrs spec) mr_nodes = Some mrs \<and>
    intfs \<noteq> [] \<and> parse_interfaces y bf pt port_id c intfs = Some (c', ifs) \<and>
    \<not> (cc_stream_type c' = StreamType.SOCKET \<and> (cc_protocol c' = TCP \<or> cc_protocol c' = UDP) \<and>
        gpu_mrs mrs (nc_ifs spec @ ifs) \<noteq> []) \<and>
    nc_common nc = c' \<and> nc_mrs nc = mrs \<and> nc_ifs nc = nc_ifs spec @ ifs \<and>
    nc_tx_meta_buffers nc \<noteq> 0 \<and> nc_rx_meta_buffers nc \<noteq> 0"
    using assms unfolding decode_def
    by (simp only: require_bind)
      (elim bind_pairE bind_SomeE requireE, intro exI conjI, assumption, rule as_nonempty_sequence_nonempty, assumption,
       assumption, rule as_nonempty_sequence_nonempty, assumption, assumption, assumption,
       auto dest: meta)
  then show thesis using that by blast
qed

section \<open>An accepted document\<close>

definition example_region :: doc where
  "example_region =
     Map [(''name'', Scalar ''m''), (''kind'', Scalar ''host''), (''affinity'', Scalar ''0''), (''num_bufs'', Scalar ''64''),
          (''buf_size'', Scalar ''2048'')]"

definition example_queue :: doc where
  "example_queue =
     Map [(''name'', Scalar ''q''), (''id'', Scalar ''0''), (''cpu_core'', Scalar ''3''), (''batch_size'', Scalar ''32''),
          (''memory_regions'', Sequence [Scalar ''m''])]"

definition example_rx :: doc where
  "example_rx = Map [(''queues'', Sequence [example_queue])]"

definition example_interface :: doc where
  "example_interface = Map [(''name'', Scalar ''i''), (''address'', Scalar ''a''), (''rx'', example_rx)]"

definition example_config :: doc where
  "example_config =
     Map [(''version'', Scalar ''1''), (''master_core'', Scalar ''0''), (''stream_type'', Scalar ''raw''),
          (''memory_regions'', Sequence [example_region]), (''interfaces'', Sequence [example_interface])]"

definition example_build :: BuildFlags where
  "example_build = \<lparr>ENGINE_DPDK = True, ENGINE_SOCKET = False, ENGINE_RDMA = False, ENGINE_IBVERBS = False\<rparr>"

lemmas example_docs = example_region_def example_queue_def example_rx_def example_interface_def example_config_def

lemma example_docs_defined: "example_region \<noteq> Missing" "example_queue \<noteq> Missing" "example_rx \<noteq> Missing"
  "example_interface \<noteq> Missing"
  by (simp_all add: example_docs)

lemma example_region_read: "\<exists>mr. parse_memory_region_config doc_yaml example_region = Some mr"
  by (simp add: example_region_def yaml_eval parse_memory_region_config_def parse_buffer_region_def
    GetMemoryKindFromString_def Let_def cong: bind_weak_cong)

lemma example_queue_common:
  "\<exists>c. parse_common_queue_config doc_yaml example_queue default_CommonQueueConfig True True = Some c"
  by (simp add: example_queue_def yaml_eval parse_common_queue_config_def parse_worker_fields_def as_nonempty_sequence_def
    as_sequence_def cong: bind_weak_cong)

lemma example_queue_read: "\<exists>q. parse_rx_queue doc_yaml example_build DPDK False example_queue = Some q"
proof -
  obtain c where "parse_common_queue_config doc_yaml example_queue default_CommonQueueConfig True True = Some c"
    using example_queue_common by (elim exE)
  moreover have "parse_poll_mode doc_yaml example_queue INDIRECT = Some INDIRECT"
    by (simp add: example_queue_def parse_poll_mode_def yaml_eval cong: bind_weak_cong)
  moreover have "optional_bool doc_yaml example_queue ''cqe_compression'' False = Some False"
    "optional_unsigned doc_yaml example_queue ''timeout_us'' (0 :: u64) = Some 0"
    by (simp_all add: example_queue_def yaml_eval cong: bind_weak_cong)
  moreover have "validate_yaml_mapping_keys doc_yaml example_queue
       [''name'', ''id'', ''poll_mode'', ''cpu_core'', ''batch_size'', ''memory_regions'', ''timeout_us'', ''cqe_compression''] =
     Some ()"
    by (simp add: example_queue_def yaml_eval cong: bind_weak_cong)
  ultimately show ?thesis
    by (simp add: parse_rx_queue_def parse_rx_queue_config_def default_RxQueueConfig_def check_direct_mode_def Let_def)
qed

lemma example_rx_read: "\<exists>r. parse_rx_section doc_yaml example_build pt DPDK False example_rx = Some r"
proof -
  obtain q where "parse_rx_queue doc_yaml example_build DPDK False example_queue = Some q"
    using example_queue_read by (elim exE)
  then show ?thesis
    by (simp add: example_rx_def yaml_eval parse_rx_section_def as_nonempty_sequence_def as_sequence_def optional_items_def
      cong: bind_weak_cong)
qed

definition example_common :: "CommonConfig \<Rightarrow> CommonConfig" where
  "example_common c = c\<lparr>cc_version := 1, cc_master_core := 0, cc_stream_type := RAW, cc_engine := DPDK,
     cc_protocol := SocketProtocol.INVALID, cc_engine_type := DPDK, cc_loopback := DISABLED\<rparr>"

lemma example_common_read: "parse_common doc_yaml example_build example_config c = Some (example_common c)"
  by (simp add: example_config_def yaml_eval parse_common_def parse_engine_def parse_loopback_def resolve_engine_type_def
    is_explicit_engine_type_def example_build_def stream_type_from_string_def example_common_def Let_def
    cong: bind_weak_cong)

lemma example_interface_read:
  "\<exists>i. parse_interface doc_yaml example_build pt port_id (example_common c) example_interface = Some (example_common c, i)"
proof -
  obtain r where "parse_rx_section doc_yaml example_build pt DPDK False example_rx = Some r"
    using example_rx_read [of pt] by (elim exE)
  then show ?thesis
    by (simp add: example_interface_def example_docs_defined yaml_eval parse_interface_def parse_transport_def
      example_common_def Let_def cong: bind_weak_cong)
qed

lemma example_config_read:
  "\<exists>nc. decode doc_yaml example_build pt port_id example_config spec = Some nc" if "nc_mrs spec = []"
proof -
  obtain mr where "parse_memory_region_config doc_yaml example_region = Some mr"
    using example_region_read by (elim exE)
  moreover obtain i where "parse_interface doc_yaml example_build pt port_id (example_common (nc_common spec)) example_interface =
      Some (example_common (nc_common spec), i)"
    using example_interface_read [of pt port_id "nc_common spec"] by (elim exE)
  moreover have "y_index doc_yaml example_config ''memory_regions'' = Some (Sequence [example_region])"
    "y_index doc_yaml example_config ''interfaces'' = Some (Sequence [example_interface])"
    "y_is_map doc_yaml example_config = Some True"
    "optional_bool doc_yaml example_config ''debug'' False = Some False"
    "optional_string doc_yaml example_config ''log_level'' t = Some t"
    "parse_meta_buffers doc_yaml example_config ''tx_meta_buffers'' = Some 256"
    "parse_meta_buffers doc_yaml example_config ''rx_meta_buffers'' = Some 256" for t
    by (simp_all add: example_config_def yaml_eval parse_meta_buffers_def cong: bind_weak_cong)
  moreover have "validate_yaml_mapping_keys doc_yaml example_config
       [''version'', ''stream_type'', ''engine'', ''master_core'', ''debug'', ''log_level'', ''loopback'',
        ''tx_meta_buffers'', ''rx_meta_buffers'', ''memory_regions'', ''interfaces'', ''manager'', ''protocol''] = Some ()"
    by (simp add: example_config_def yaml_eval cong: bind_weak_cong)
  moreover have "LogLevel_from_string ''warn'' = Inr WARN"
    by (simp add: LogLevel_from_string_def string_to_level_map_def tolower_def)
  ultimately show ?thesis
    using that by (simp add: decode_def example_common_read as_nonempty_sequence_def as_sequence_def example_common_def)
qed

definition empty_config :: NetworkConfig where
  "empty_config =
     \<lparr>nc_common = \<lparr>cc_version = 0, cc_master_core = 0, cc_dir = TX_RX, cc_stream_type = StreamType.INVALID,
        cc_protocol = SocketProtocol.INVALID, cc_engine = DEFAULT, cc_engine_type = UNKNOWN, cc_loopback = DISABLED\<rparr>,
      nc_mrs = [], nc_ifs = [], nc_debug = 0, nc_tx_meta_buffers = 0, nc_rx_meta_buffers = 0, nc_log_level = WARN\<rparr>"

section \<open>Property\<close>

text \<open>C10: A configuration that the reader accepts is consistent. The engine that will be started supports the stream type
  and, for sockets, the transport that all interfaces share; regions have distinct names, known kinds and, unless they
  discard, buffers; every interface has a queue; a queue with a worker has a positive batch size and a core that
  the scheduler reads back as written, a queue the application polls has neither and runs on an engine with direct
  access; queues other than RoCE's name a region; reorder plans are usable and distinct; and no queue of a TCP or UDP
  stream uses device memory.\<close>

theorem decoded_config_ok:
  assumes "decode y bf inet_pton port_id node input_spec = Some nc" and "nc_mrs input_spec = []" and "nc_ifs input_spec = []"
  shows "config_ok nc"
proof -
  obtain c mr_nodes mrs intfs c' ifs where f: "parse_common y bf node (nc_common input_spec) = Some c"
    "mr_nodes \<noteq> []" "parse_memory_regions y (nc_mrs input_spec) mr_nodes = Some mrs"
    "intfs \<noteq> []" "parse_interfaces y bf inet_pton port_id c intfs = Some (c', ifs)"
    "\<not> (cc_stream_type c' = StreamType.SOCKET \<and> (cc_protocol c' = TCP \<or> cc_protocol c' = UDP) \<and>
        gpu_mrs mrs (nc_ifs input_spec @ ifs) \<noteq> [])"
    "nc_common nc = c'" "nc_mrs nc = mrs" "nc_ifs nc = nc_ifs input_spec @ ifs"
    "nc_tx_meta_buffers nc \<noteq> 0" "nc_rx_meta_buffers nc \<noteq> 0"
    by (rule decode_sections [OF assms(1)])
  have c: "engine_fits c" "common_basics c" using parse_common_ok [OF f(1)] by auto
  note i = parse_interfaces_ok [OF f(5) c]
  have "regions_ok (nc_mrs input_spec)" by (simp add: assms(2) regions_ok_def)
  note r = parse_memory_regions_ok [OF f(3) this]
  have "engine_settled c'" using i f(4) by blast
  then have e: "engine_type_supports_stream_type (cc_engine_type c') (cc_stream_type c')"
    "cc_stream_type c' = StreamType.SOCKET \<longrightarrow> engine_type_supports_socket_protocol (cc_engine_type c') (cc_protocol c')"
    by (simp_all add: engine_settled_def engine_fits_def)
  have ifs: "nc_ifs nc = ifs" using f(9) assms(3) by simp
  have "mrs \<noteq> []" using r f(2) by auto
  moreover have "\<forall>i\<in>set ifs. \<forall>name\<in>set (queue_regions i). \<forall>mr. map_of mrs name = Some mr \<longrightarrow> mr_kind mr \<noteq> DEVICE"
    if "cc_stream_type c' = StreamType.SOCKET" "cc_protocol c' \<in> {TCP, UDP}"
  proof -
    have "gpu_mrs mrs ifs = []" using f(6) that assms(3) by auto
    then show ?thesis using gpu_mrs_empty by blast
  qed
  ultimately show ?thesis
    using e i f(4,7,8,10,11) r ifs unfolding config_ok_def Let_def by simp
qed

theorem decoded_config_ok_witness:
  "\<exists>nc. decode doc_yaml example_build (\<lambda>_. None) 0 example_config empty_config = Some nc \<and> config_ok nc"
proof -
  have e: "nc_mrs empty_config = []" "nc_ifs empty_config = []" by (simp_all add: empty_config_def)
  obtain nc where nc: "decode doc_yaml example_build (\<lambda>_. None) 0 example_config empty_config = Some nc"
    using example_config_read [OF e(1), of "\<lambda>_. None" 0] by (elim exE)
  show ?thesis by (intro exI [of _ nc] conjI nc decoded_config_ok [OF nc e])
qed

end
