(* ===== verification/Flow_Ids.thy ===== *)
theory Flow_Ids
  imports Daqiri_Types
begin

text \<open>
  Identifiers of dynamic receive flows, \<^verbatim>\<open>reserve_static_flow_ids\<close>,
  \<^verbatim>\<open>has_dynamic_flow_id_capacity_locked\<close>, \<^verbatim>\<open>allocate_dynamic_flow_id_locked\<close>,
  \<^verbatim>\<open>release_dynamic_flow_id_locked\<close> and \<^verbatim>\<open>allocate_flow_op_id_locked\<close> of
  \<^verbatim>\<open>src/src/engines/ibverbs/daqiri_ibverbs_engine.cpp\<close>. An identifier doubles as a 24-bit
  hardware tag, so it is never 0 and at most \<^verbatim>\<open>kMaxIbverbsFlowTag\<close>. The locale
  \<open>id_allocator\<close> is what the asynchronous flow operations rely on; the engine's allocator is
  interpreted in it.
\<close>

section \<open>Model\<close>

definition kMaxIbverbsFlowTag :: u32 where "kMaxIbverbsFlowTag = 0x00ffffff"

record FlowIds =
  fi_static :: "u32 list"     \<comment> \<open>\<^verbatim>\<open>static_flow_ids_\<close>\<close>
  fi_free :: "u32 list"       \<comment> \<open>\<^verbatim>\<open>free_dynamic_flow_ids_\<close>, front first\<close>
  fi_next :: u32              \<comment> \<open>\<^verbatim>\<open>next_dynamic_flow_id_\<close>\<close>

text \<open>The static identifiers of the configuration; a repeated one makes the engine refuse it.\<close>

primrec reserve_flows :: "FlowConfig list \<Rightarrow> u32 list \<Rightarrow> u32 list option" where
  "reserve_flows [] ids = Some ids"
| "reserve_flows (flow # flows) ids =
     (if fc_id flow = 0 then reserve_flows flows ids
      else if fc_id flow \<in> set ids then None
      else reserve_flows flows (fc_id flow # ids))"

primrec reserve_interfaces :: "InterfaceConfig list \<Rightarrow> u32 list \<Rightarrow> u32 list option" where
  "reserve_interfaces [] ids = Some ids"
| "reserve_interfaces (intf # ifs) ids =
     (case reserve_flows (rx_flows (if_rx intf)) ids of
        None \<Rightarrow> None | Some ids' \<Rightarrow> reserve_interfaces ifs ids')"

definition reserve_static_flow_ids :: "NetworkConfig \<Rightarrow> FlowIds option" where
  "reserve_static_flow_ids cfg =
     (case reserve_interfaces (nc_ifs cfg) [] of
        None \<Rightarrow> None
      | Some ids \<Rightarrow> Some \<lparr>fi_static = ids, fi_free = [], fi_next = 1\<rparr>)"

text \<open>\<open>dyn\<close> lists the keys of \<^verbatim>\<open>dynamic_flows_\<close>.\<close>

definition flow_id_taken :: "u32 list \<Rightarrow> u32 list \<Rightarrow> u32 \<Rightarrow> bool" where
  "flow_id_taken static_ids dyn i \<longleftrightarrow> i \<in> set static_ids \<or> i \<in> set dyn"

primrec alloc_recycled :: "(u32 \<Rightarrow> bool) \<Rightarrow> u32 list \<Rightarrow> u32 option \<times> u32 list" where
  "alloc_recycled taken [] = (None, [])"
| "alloc_recycled taken (candidate # rest) =
     (if candidate = 0 \<or> candidate > kMaxIbverbsFlowTag then alloc_recycled taken rest
      else if taken candidate then alloc_recycled taken rest
      else (Some candidate, rest))"

function alloc_fresh :: "(u32 \<Rightarrow> bool) \<Rightarrow> u32 \<Rightarrow> u32 \<times> u32" where
  "alloc_fresh taken n =
     (if n \<noteq> 0 \<and> n \<le> kMaxIbverbsFlowTag
      then (if taken n then alloc_fresh taken (n + 1) else (n, n + 1))
      else (0, n))"
  by auto

lemma tag_inc: "n \<le> kMaxIbverbsFlowTag \<Longrightarrow> unat (n + 1) = Suc (unat n)"
  by (rule unat_inc [of _ "kMaxIbverbsFlowTag + 1"]) (simp add: kMaxIbverbsFlowTag_def word_less_nat_alt word_le_nat_alt)

lemma tag_measure: "n \<le> kMaxIbverbsFlowTag \<Longrightarrow> 16777216 - unat (n + 1) < 16777216 - unat n"
  using tag_inc [of n] by (simp add: kMaxIbverbsFlowTag_def word_le_nat_alt)

termination alloc_fresh
  by (relation "measure (\<lambda>(taken, n). 16777216 - unat n)") (auto simp del: unsigned_0 unsigned_1 intro: tag_measure)

declare alloc_fresh.simps [simp del]

definition allocate_dynamic_flow_id_locked :: "u32 list \<Rightarrow> FlowIds \<Rightarrow> u32 \<times> FlowIds" where
  "allocate_dynamic_flow_id_locked dyn ids =
     (let taken = flow_id_taken (fi_static ids) dyn;
          (recycled, free) = alloc_recycled taken (fi_free ids)
      in case recycled of
           Some i \<Rightarrow> (i, ids\<lparr>fi_free := free\<rparr>)
         | None \<Rightarrow> (let (i, next_id) = alloc_fresh taken (fi_next ids)
                    in (i, ids\<lparr>fi_free := free, fi_next := next_id\<rparr>)))"

definition release_dynamic_flow_id_locked :: "u32 list \<Rightarrow> u32 \<Rightarrow> FlowIds \<Rightarrow> FlowIds" where
  "release_dynamic_flow_id_locked dyn flow_id ids =
     (if flow_id = 0 \<or> flow_id > kMaxIbverbsFlowTag then ids
      else if flow_id \<in> set (fi_static ids) then ids
      else if flow_id \<in> set dyn then ids
      else ids\<lparr>fi_free := fi_free ids @ [flow_id]\<rparr>)"

function capacity_loop :: "(u32 \<Rightarrow> bool) \<Rightarrow> nat \<Rightarrow> u32 \<Rightarrow> nat" where
  "capacity_loop taken count candidate =
     (if count > 0 \<and> candidate \<noteq> 0 \<and> candidate \<le> kMaxIbverbsFlowTag
      then (if taken candidate then capacity_loop taken count (candidate + 1)
            else capacity_loop taken (count - 1) (candidate + 1))
      else count)"
  by auto

termination capacity_loop
  by (relation "measure (\<lambda>(taken, count, n). 16777216 - unat n)") (auto simp del: unsigned_0 unsigned_1 intro: tag_measure)

declare capacity_loop.simps [simp del]

definition has_dynamic_flow_id_capacity_locked :: "u32 list \<Rightarrow> FlowIds \<Rightarrow> nat \<Rightarrow> bool" where
  "has_dynamic_flow_id_capacity_locked dyn ids count \<longleftrightarrow>
     length (fi_free ids) \<ge> count
     \<or> capacity_loop (flow_id_taken (fi_static ids) dyn) (count - length (fi_free ids)) (fi_next ids) = 0"

text \<open>Operation identifiers skip 0; the counter is the second component.\<close>

definition allocate_flow_op_id_locked :: "u64 \<Rightarrow> u64 \<times> u64" where
  "allocate_flow_op_id_locked n = (let n1 = (if n = 0 then 1 else n) in (n1, n1 + 1))"

text \<open>The allocation loop of \<^verbatim>\<open>add_rx_flows_async\<close>, over any allocator: \<open>None\<close> when it runs dry,
  with what it had taken.\<close>

primrec take_ids :: "('s \<Rightarrow> u32 \<times> 's) \<Rightarrow> nat \<Rightarrow> u32 list \<Rightarrow> 's \<Rightarrow> bool \<times> u32 list \<times> 's" where
  "take_ids alloc 0 acc s = (True, acc, s)"
| "take_ids alloc (Suc n) acc s =
     (let (i, s1) = alloc s
      in if i = 0 then (False, acc, s1) else take_ids alloc n (acc @ [i]) s1)"

section \<open>What the flow operations rely on\<close>

text \<open>\<open>ok D P s\<close>: the flows in \<open>D\<close> are installed, the identifiers in \<open>P\<close> are handed out and not
  yet installed. \<open>avail D s\<close> counts what can still be handed out.\<close>

locale id_allocator =
  fixes ok :: "u32 list \<Rightarrow> u32 set \<Rightarrow> 's \<Rightarrow> bool"
    and valid :: "'s \<Rightarrow> u32 \<Rightarrow> bool"
    and avail :: "u32 list \<Rightarrow> 's \<Rightarrow> nat"
    and alloc :: "u32 list \<Rightarrow> 's \<Rightarrow> u32 \<times> 's"
    and release :: "u32 list \<Rightarrow> u32 \<Rightarrow> 's \<Rightarrow> 's"
    and capacity :: "u32 list \<Rightarrow> 's \<Rightarrow> nat \<Rightarrow> bool"
  assumes alloc_some: "ok D P s \<Longrightarrow> alloc D s = (i, s') \<Longrightarrow> i \<noteq> 0 \<Longrightarrow>
      i \<notin> set D \<and> i \<notin> P \<and> valid s i \<and> ok D (insert i P) s' \<and> avail D s = Suc (avail D s') \<and> valid s' = valid s"
    and alloc_none: "ok D P s \<Longrightarrow> alloc D s = (0, s') \<Longrightarrow>
      avail D s = 0 \<and> avail D s' = 0 \<and> ok D P s' \<and> valid s' = valid s"
    and release_ok: "ok D P s \<Longrightarrow> i \<in> P \<Longrightarrow> i \<notin> set D \<Longrightarrow>
      ok D (P - {i}) (release D i s) \<and> avail D (release D i s) = Suc (avail D s) \<and> valid (release D i s) = valid s"
    and capacity_exact: "ok D P s \<Longrightarrow> capacity D s n \<longleftrightarrow> n \<le> avail D s"
begin

lemma take_ids_spec:
  assumes "ok D P s" "take_ids (alloc D) n acc s = (b, ids, s')"
  shows "\<exists>new. ids = acc @ new \<and> distinct new \<and> set new \<inter> (set D \<union> P) = {} \<and> (\<forall>i\<in>set new. i \<noteq> 0 \<and> valid s i)
    \<and> ok D (P \<union> set new) s' \<and> valid s' = valid s \<and> (b \<longleftrightarrow> n \<le> avail D s) \<and> (b \<longrightarrow> length new = n)
    \<and> avail D s = length new + avail D s'"
  using assms
proof (induction n arbitrary: P acc s)
  case 0
  then show ?case by auto
next
  case (Suc n)
  obtain i s1 where a: "alloc D s = (i, s1)" by fastforce
  show ?case
  proof (cases "i = 0")
    case True
    then show ?thesis using Suc.prems a alloc_none [OF Suc.prems(1), of s1] by auto
  next
    case False
    note step = alloc_some [OF Suc.prems(1) a False]
    have "take_ids (alloc D) n (acc @ [i]) s1 = (b, ids, s')" using Suc.prems(2) a False by simp
    from Suc.IH [OF _ this, of "insert i P"] step
    obtain new where new: "ids = (acc @ [i]) @ new" "distinct new" "set new \<inter> (set D \<union> insert i P) = {}"
      "\<forall>j\<in>set new. j \<noteq> 0 \<and> valid s1 j" "ok D (insert i P \<union> set new) s'" "valid s' = valid s1"
      "b \<longleftrightarrow> n \<le> avail D s1" "b \<longrightarrow> length new = n" "avail D s1 = length new + avail D s'" by blast
    have "ok D (P \<union> set (i # new)) s'" using new(5) by (simp add: Un_commute)
    then show ?thesis using new step False by (intro exI [of _ "i # new"]) auto
  qed
qed

lemma capacity_suffices:
  assumes "ok D P s" "capacity D s n"
  shows "\<exists>ids s'. take_ids (alloc D) n [] s = (True, ids, s') \<and> length ids = n \<and> distinct ids
    \<and> set ids \<inter> (set D \<union> P) = {} \<and> (\<forall>i\<in>set ids. i \<noteq> 0 \<and> valid s i) \<and> ok D (P \<union> set ids) s'"
proof -
  obtain b ids s' where t: "take_ids (alloc D) n [] s = (b, ids, s')" by (metis prod_cases3)
  then show ?thesis using take_ids_spec [OF assms(1) t] capacity_exact [OF assms(1)] assms(2) by auto
qed

end

section \<open>The engine's allocator\<close>

definition flow_id_valid :: "FlowIds \<Rightarrow> u32 \<Rightarrow> bool" where
  "flow_id_valid ids i \<longleftrightarrow> i \<noteq> 0 \<and> i \<le> kMaxIbverbsFlowTag \<and> i \<notin> set (fi_static ids)"

definition flow_ids_ok :: "u32 list \<Rightarrow> u32 set \<Rightarrow> FlowIds \<Rightarrow> bool" where
  "flow_ids_ok D P ids \<longleftrightarrow> fi_next ids \<noteq> 0 \<and> fi_next ids \<le> kMaxIbverbsFlowTag + 1
     \<and> distinct (fi_free ids) \<and> set (fi_free ids) \<inter> (set D \<union> P) = {}
     \<and> (\<forall>i\<in>set (fi_free ids) \<union> set D \<union> P. flow_id_valid ids i \<and> i < fi_next ids)"

definition flow_ids_avail :: "u32 list \<Rightarrow> FlowIds \<Rightarrow> nat" where
  "flow_ids_avail D ids = length (fi_free ids)
     + card {i. fi_next ids \<le> i \<and> i \<le> kMaxIbverbsFlowTag \<and> \<not> flow_id_taken (fi_static ids) D i}"

text \<open>The identifiers from \<open>n\<close> on that are free to be handed out.\<close>

definition fresh_set :: "(u32 \<Rightarrow> bool) \<Rightarrow> u32 \<Rightarrow> u32 set" where
  "fresh_set taken n = {i. n \<le> i \<and> i \<le> kMaxIbverbsFlowTag \<and> \<not> taken i}"

lemma finite_fresh [simp]: "finite (fresh_set taken n)"
  by (rule finite_subset [of _ UNIV]) auto

lemma fresh_set_step:
  assumes "n \<le> kMaxIbverbsFlowTag"
  shows "fresh_set taken n = (if taken n then fresh_set taken (n + 1) else insert n (fresh_set taken (n + 1)))"
    "n \<notin> fresh_set taken (n + 1)"
proof -
  have *: "n \<le> i \<longleftrightarrow> i = n \<or> n + 1 \<le> i" and **: "\<not> n + 1 \<le> n" for i
    using tag_inc [OF assms] by (auto simp: word_le_nat_alt word_unat_eq_iff)
  show "fresh_set taken n = (if taken n then fresh_set taken (n + 1) else insert n (fresh_set taken (n + 1)))"
    using assms unfolding fresh_set_def * using ** by auto
  show "n \<notin> fresh_set taken (n + 1)" using ** by (simp add: fresh_set_def)
qed

lemma fresh_set_end: "\<not> n \<le> kMaxIbverbsFlowTag \<Longrightarrow> fresh_set taken n = {}"
  by (auto simp: fresh_set_def)

lemma fresh_card_step:
  "n \<le> kMaxIbverbsFlowTag \<Longrightarrow>
   card (fresh_set taken n) = (if taken n then 0 else 1) + card (fresh_set taken (n + 1))"
  using fresh_set_step(2) [of n taken] by (simp add: fresh_set_step(1) [of n])

lemma tag_inc_bound:
  "n \<le> kMaxIbverbsFlowTag \<Longrightarrow> n + 1 \<noteq> 0 \<and> n + 1 \<le> kMaxIbverbsFlowTag + 1 \<and> n < n + 1"
  using tag_inc [of n] by (auto simp: word_le_nat_alt word_less_nat_alt kMaxIbverbsFlowTag_def)

lemma alloc_fresh_some:
  assumes "alloc_fresh taken n = (i, n')" "i \<noteq> 0"
  shows "n \<le> i \<and> i < n' \<and> i \<le> kMaxIbverbsFlowTag \<and> \<not> taken i \<and> n' \<noteq> 0 \<and> n' \<le> kMaxIbverbsFlowTag + 1
    \<and> card (fresh_set taken n) = Suc (card (fresh_set taken n'))"
  using assms
proof (induction taken n arbitrary: i n' rule: alloc_fresh.induct)
  case (1 taken n)
  have n: "n \<noteq> 0" "n \<le> kMaxIbverbsFlowTag"
    using "1.prems" by (auto simp: alloc_fresh.simps [of taken n] split: if_splits)
  note inc = tag_inc_bound [OF n(2)] and card = fresh_card_step [OF n(2), of taken]
  show ?case
  proof (cases "taken n")
    case True
    then have "alloc_fresh taken (n + 1) = (i, n')" using "1.prems" n by (simp add: alloc_fresh.simps [of taken n])
    from "1.IH" [OF _ True this "1.prems"(2)] n True card inc show ?thesis by auto
  next
    case False
    then have "alloc_fresh taken n = (n, n + 1)" using n by (subst alloc_fresh.simps) simp
    then have "i = n" "n' = n + 1" using "1.prems"(1) by auto
    then show ?thesis using n False card inc by auto
  qed
qed

lemma alloc_fresh_none:
  assumes "alloc_fresh taken n = (0, n')" "n \<noteq> 0" "n \<le> kMaxIbverbsFlowTag + 1"
  shows "fresh_set taken n = {} \<and> fresh_set taken n' = {} \<and> n' \<noteq> 0 \<and> n' \<le> kMaxIbverbsFlowTag + 1 \<and> n \<le> n'"
  using assms
proof (induction taken n arbitrary: n' rule: alloc_fresh.induct)
  case (1 taken n)
  show ?case
  proof (cases "n \<le> kMaxIbverbsFlowTag")
    case True
    note inc = tag_inc_bound [OF True]
    have t: "taken n" "alloc_fresh taken (n + 1) = (0, n')"
      using "1.prems" True by (auto simp: alloc_fresh.simps [of taken n] split: if_splits)
    from "1.IH" [OF _ t(1) t(2)] "1.prems"(2) True inc t(1) show ?thesis
      by (auto simp: fresh_set_step(1) [OF True])
  next
    case False
    then show ?thesis using "1.prems" by (auto simp: alloc_fresh.simps [of taken n] fresh_set_end)
  qed
qed

lemma capacity_loop_spec:
  assumes "n \<noteq> 0" "n \<le> kMaxIbverbsFlowTag + 1"
  shows "capacity_loop taken count n = count - card (fresh_set taken n)"
  using assms
proof (induction taken count n rule: capacity_loop.induct)
  case (1 taken count n)
  show ?case
  proof (cases "count > 0 \<and> n \<le> kMaxIbverbsFlowTag")
    case True
    then show ?thesis
      using "1.IH" "1.prems"(1) tag_inc_bound [of n] fresh_card_step [of n taken]
      by (simp add: capacity_loop.simps [of taken count n])
  next
    case False
    then show ?thesis by (auto simp: capacity_loop.simps [of taken count n] fresh_set_end)
  qed
qed

lemma alloc_recycled_ok:
  assumes "\<forall>i\<in>set free. i \<noteq> 0 \<and> i \<le> kMaxIbverbsFlowTag \<and> \<not> taken i"
  shows "alloc_recycled taken free = (case free of [] \<Rightarrow> (None, []) | c # rest \<Rightarrow> (Some c, rest))"
  using assms by (cases free) auto

lemma flow_ids_avail_alt:
  "flow_ids_avail D ids = length (fi_free ids) + card (fresh_set (flow_id_taken (fi_static ids) D) (fi_next ids))"
  by (simp add: flow_ids_avail_def fresh_set_def)

lemma flow_ids_free:
  "flow_ids_ok D P ids \<Longrightarrow>
   \<forall>i\<in>set (fi_free ids). i \<noteq> 0 \<and> i \<le> kMaxIbverbsFlowTag \<and> \<not> flow_id_taken (fi_static ids) D i"
  by (auto simp: flow_ids_ok_def flow_id_taken_def flow_id_valid_def)

lemma allocate_cases:
  assumes "flow_ids_ok D P ids" "allocate_dynamic_flow_id_locked D ids = (i, ids')"
  obtains (recycled) rest where "fi_free ids = i # rest" "ids' = ids\<lparr>fi_free := rest\<rparr>"
  | (fresh) n' where "fi_free ids = []" "alloc_fresh (flow_id_taken (fi_static ids) D) (fi_next ids) = (i, n')"
      "ids' = ids\<lparr>fi_next := n'\<rparr>"
  using assms(2) alloc_recycled_ok [OF flow_ids_free [OF assms(1)]]
  by (cases "fi_free ids") (auto simp: allocate_dynamic_flow_id_locked_def split: prod.splits)

lemma allocate_some:
  assumes ok: "flow_ids_ok D P ids" and a: "allocate_dynamic_flow_id_locked D ids = (i, ids')" and i: "i \<noteq> 0"
  shows "i \<notin> set D \<and> i \<notin> P \<and> flow_id_valid ids i \<and> flow_ids_ok D (insert i P) ids'
    \<and> flow_ids_avail D ids = Suc (flow_ids_avail D ids') \<and> flow_id_valid ids' = flow_id_valid ids"
  using ok a
proof (cases rule: allocate_cases)
  case (recycled rest)
  then show ?thesis using ok by (auto simp: flow_ids_ok_def flow_ids_avail_alt flow_id_valid_def fun_eq_iff)
next
  case (fresh n')
  note f = alloc_fresh_some [OF fresh(2) i]
  have "flow_ids_ok D (insert i P) ids'"
    using ok fresh f i by (auto simp: flow_ids_ok_def flow_id_valid_def flow_id_taken_def intro: less_trans less_le_trans)
  moreover have "i \<notin> P" using ok f by (auto simp: flow_ids_ok_def dest: leD)
  ultimately show ?thesis
    using ok fresh f i by (auto simp: flow_ids_ok_def flow_ids_avail_alt flow_id_valid_def flow_id_taken_def fun_eq_iff)
qed

lemma allocate_none:
  assumes ok: "flow_ids_ok D P ids" and a: "allocate_dynamic_flow_id_locked D ids = (0, ids')"
  shows "flow_ids_avail D ids = 0 \<and> flow_ids_avail D ids' = 0 \<and> flow_ids_ok D P ids' \<and> flow_id_valid ids' = flow_id_valid ids"
  using ok a
proof (cases rule: allocate_cases)
  case (recycled rest)
  then show ?thesis using ok by (auto simp: flow_ids_ok_def flow_id_valid_def)
next
  case (fresh n')
  have "fi_next ids \<noteq> 0" "fi_next ids \<le> kMaxIbverbsFlowTag + 1" using ok by (auto simp: flow_ids_ok_def)
  note f = alloc_fresh_none [OF fresh(2) this]
  then show ?thesis
    using ok fresh by (auto simp: flow_ids_ok_def flow_ids_avail_alt flow_id_valid_def fun_eq_iff intro: less_le_trans)
qed

lemma release_spec:
  assumes "flow_ids_ok D P ids" "i \<in> P" "i \<notin> set D"
  shows "flow_ids_ok D (P - {i}) (release_dynamic_flow_id_locked D i ids)
    \<and> flow_ids_avail D (release_dynamic_flow_id_locked D i ids) = Suc (flow_ids_avail D ids)
    \<and> flow_id_valid (release_dynamic_flow_id_locked D i ids) = flow_id_valid ids"
proof -
  have "flow_id_valid ids i" using assms by (auto simp: flow_ids_ok_def)
  then have "release_dynamic_flow_id_locked D i ids = ids\<lparr>fi_free := fi_free ids @ [i]\<rparr>"
    using assms(3) by (auto simp: release_dynamic_flow_id_locked_def flow_id_valid_def)
  then show ?thesis
    using assms by (auto simp: flow_ids_ok_def flow_id_valid_def flow_ids_avail_alt fun_eq_iff)
qed

interpretation flow_ids: id_allocator flow_ids_ok flow_id_valid flow_ids_avail allocate_dynamic_flow_id_locked
  release_dynamic_flow_id_locked has_dynamic_flow_id_capacity_locked
proof unfold_locales
  fix D P ids n assume "flow_ids_ok D P ids"
  then have "fi_next ids \<noteq> 0" "fi_next ids \<le> kMaxIbverbsFlowTag + 1" by (auto simp: flow_ids_ok_def)
  from capacity_loop_spec [OF this]
  show "has_dynamic_flow_id_capacity_locked D ids n = (n \<le> flow_ids_avail D ids)"
    by (auto simp: has_dynamic_flow_id_capacity_locked_def flow_ids_avail_alt)
qed (use allocate_some allocate_none release_spec in blast)+

end
