(* ===== verification/Flow_Steering.thy ===== *)
theory Flow_Steering
  imports Flow_Ids Endpoint_Addr Ring_Buffer "HOL-Library.Multiset"
begin

text \<open>
  Receive flow steering of the ibverbs engine: the encapsulation headers of transform actions
  (\<^verbatim>\<open>build_reformat_buffer\<close>), the match parameters of a rule, and the creation of a rule with
  all the device objects it needs (\<^verbatim>\<open>resolve_rx_destination\<close>, \<^verbatim>\<open>create_dr_rule_locked\<close>,
  \<^verbatim>\<open>install_flow_rule_locked\<close> in \<^verbatim>\<open>src/src/engines/ibverbs/daqiri_ibverbs_engine.cpp\<close>).
  The mlx5 library is a parameter: which of its create calls succeed, and which sample register
  the device assigns. The objects it holds are counted, so that what a call leaves behind can
  be stated.
\<close>

unbundle bit_operations_syntax

section \<open>Encapsulation headers\<close>

definition be16 :: "u16 \<Rightarrow> u8 list" where
  "be16 v = [ucast (drop_bit 8 v), ucast v]"

definition be32 :: "u32 \<Rightarrow> u8 list" where
  "be32 v = [ucast (drop_bit 24 v), ucast (drop_bit 16 v), ucast (drop_bit 8 v), ucast v]"

text \<open>An \<^verbatim>\<open>in_addr_t\<close> is in network order: its bytes in memory are the low one first.\<close>

definition le32 :: "u32 \<Rightarrow> u8 list" where
  "le32 v = [ucast v, ucast (drop_bit 8 v), ucast (drop_bit 16 v), ucast (drop_bit 24 v)]"

definition set_u24_be :: "u32 \<Rightarrow> u8 list" where
  "set_u24_be v = [ucast (drop_bit 16 v AND 0xff), ucast (drop_bit 8 v AND 0xff), ucast (v AND 0xff)]"

definition IPPROTO_UDP :: u8 where "IPPROTO_UDP = 17"
definition IPPROTO_GRE :: u8 where "IPPROTO_GRE = 47"
definition ETH_P_IP :: u16 where "ETH_P_IP = 0x0800"
definition ETH_P_TEB :: u16 where "ETH_P_TEB = 0x6558"

definition fill_tunnel_l2_l3 :: "pton \<Rightarrow> u8 list \<Rightarrow> TunnelConfig \<Rightarrow> u8 \<Rightarrow> u8 list option" where
  "fill_tunnel_l2_l3 inet_pton data tunnel ip_proto =
     (let eth = the (format_eth_addr True (tn_outer_eth_dst tunnel)) @ the (format_eth_addr True (tn_outer_eth_src tunnel))
            @ be16 ETH_P_IP
      in case (inet_pton (tn_outer_ipv4_src tunnel), inet_pton (tn_outer_ipv4_dst tunnel)) of
           (Some saddr, Some daddr) \<Rightarrow>
             Some (data @ eth @ [0x45, tn_outer_ipv4_tos tunnel, 0, 0, 0, 0, 0, 0, tn_outer_ipv4_ttl tunnel, ip_proto, 0, 0]
               @ le32 saddr @ le32 daddr)
         | _ \<Rightarrow> None)"

datatype ReformatType = L2_TO_L2_TUNNEL | L2_TUNNEL_TO_L2

definition build_reformat_buffer :: "pton \<Rightarrow> FlowAction \<Rightarrow> (u8 list \<times> ReformatType) option" where
  "build_reformat_buffer inet_pton action =
     (let push = (if fa_type action = VLAN_PUSH \<or> fa_type action = TUNNEL_ENCAP then L2_TO_L2_TUNNEL else L2_TUNNEL_TO_L2)
      in if fa_type action = VLAN_PUSH \<or> fa_type action = VLAN_POP
         then (let v = fa_vlan action;
                   tci = push_bit 13 (ucast (vl_pcp v AND 0x7)) OR push_bit 12 (ucast (vl_dei v AND 0x1))
                     OR (vl_vlan_id v AND 0x0fff) :: u16
               in Some (be16 (vl_ethertype v) @ be16 tci, push))
         else if fa_type action \<noteq> TUNNEL_ENCAP \<and> fa_type action \<noteq> TUNNEL_DECAP then None
         else (let t = fa_tunnel action
               in map_option (\<lambda>data. (data, push))
                   (case tn_type t of
                      VXLAN \<Rightarrow> map_option (\<lambda>data. data @ be16 (tn_outer_udp_src t) @ be16 (tn_outer_udp_dst t) @ [0, 0, 0, 0]
                                 @ be32 0x08000000 @ be32 (push_bit 8 (tn_vni t)))
                               (fill_tunnel_l2_l3 inet_pton [] t IPPROTO_UDP)
                    | GRE \<Rightarrow> map_option (\<lambda>data. data @ [0, 0] @ be16 (tn_gre_protocol t))
                               (fill_tunnel_l2_l3 inet_pton [] t IPPROTO_GRE)
                    | NVGRE \<Rightarrow> map_option (\<lambda>data. data @ be16 0x2000 @ be16 ETH_P_TEB @ set_u24_be (tn_tni t) @ [tn_flow_id t])
                               (fill_tunnel_l2_l3 inet_pton [] t IPPROTO_GRE)
                    | NONE \<Rightarrow> None)))"

section \<open>Match parameters\<close>

text \<open>The fields of \<^verbatim>\<open>fte_match_param\<close> the engine sets. Mask and value are zero-initialised.\<close>

datatype MatchField =
    Ethertype | IpProtocol | UdpSport | UdpDport | SrcIpv4 | DstIpv4
  | Dmac_47_16 | Dmac_15_0 | Smac_47_16 | Smac_15_0
  | SampleId0 | SampleValue0 | SampleId1 | SampleValue1

record MatchParam =
  mp_mask :: "MatchField \<Rightarrow> u32"
  mp_value :: "MatchField \<Rightarrow> u32"
  mp_outer :: bool     \<comment> \<open>\<^verbatim>\<open>MLX5_DR_MATCH_CRITERIA_OUTER\<close>\<close>
  mp_misc4 :: bool     \<comment> \<open>\<^verbatim>\<open>MLX5_DR_MATCH_CRITERIA_MISC4\<close>\<close>

definition no_match :: MatchParam where
  "no_match = \<lparr>mp_mask = \<lambda>_. 0, mp_value = \<lambda>_. 0, mp_outer = False, mp_misc4 = False\<rparr>"

definition match_set :: "MatchField \<Rightarrow> u32 \<Rightarrow> u32 \<Rightarrow> MatchParam \<Rightarrow> MatchParam" where
  "match_set f msk val mp = mp\<lparr>mp_mask := (mp_mask mp)(f := msk), mp_value := (mp_value mp)(f := val)\<rparr>"

definition split_mac_address :: "u8 list \<Rightarrow> u32 \<times> u16" where
  "split_mac_address mac =
     (push_bit 24 (ucast (mac ! 0)) OR push_bit 16 (ucast (mac ! 1)) OR push_bit 8 (ucast (mac ! 2)) OR ucast (mac ! 3),
      push_bit 8 (ucast (mac ! 4)) OR ucast (mac ! 5))"

definition MLX5_ETHERTYPE_IPV4 :: u32 where "MLX5_ETHERTYPE_IPV4 = 0x0800"
definition MLX5_ETHERTYPE_ECPRI :: u32 where "MLX5_ETHERTYPE_ECPRI = 0xaefe"
definition MLX5_IP_PROTOCOL_UDP :: u32 where "MLX5_IP_PROTOCOL_UDP = 17"

definition pin_ipv4 :: "MatchParam \<Rightarrow> MatchParam" where
  "pin_ipv4 mp = (match_set Ethertype 0xffff MLX5_ETHERTYPE_IPV4 mp)\<lparr>mp_outer := True\<rparr>"

definition pin_ipv4_udp :: "MatchParam \<Rightarrow> MatchParam" where
  "pin_ipv4_udp mp = match_set IpProtocol 0xff MLX5_IP_PROTOCOL_UDP (pin_ipv4 mp)"

definition ntohl :: "u32 \<Rightarrow> u32" where
  "ntohl v = push_bit 24 (v AND 0xff) OR push_bit 8 (v AND 0xff00) OR (drop_bit 8 v AND 0xff00) OR drop_bit 24 v"

definition match_ethernet :: "EthernetMatch \<Rightarrow> MatchParam \<Rightarrow> MatchParam" where
  "match_ethernet em mp =
     (let mp1 = (if em_match_dst em
                 then (let (high, low) = split_mac_address (em_dst em)
                       in match_set Dmac_15_0 0xffff (ucast low) (match_set Dmac_47_16 0xffffffff high mp)) else mp);
          mp2 = (if em_match_src em
                 then (let (high, low) = split_mac_address (em_src em)
                       in match_set Smac_15_0 0xffff (ucast low) (match_set Smac_47_16 0xffffffff high mp1)) else mp1)
      in if em_match_src em \<or> em_match_dst em then mp2\<lparr>mp_outer := True\<rparr> else mp2)"

text \<open>The IPv4/UDP part of the standard match, and whether any field was set; \<open>len_sample\<close> is the
  sample register of the parse-graph node for the total length.\<close>

definition match_ipv4_udp :: "FlowMatch \<Rightarrow> u32 \<Rightarrow> MatchParam \<Rightarrow> MatchParam" where
  "match_ipv4_udp mt len_sample mp0 =
     (let mp1 = (if fm_udp_src mt > 0 then match_set UdpSport 0xffff (ucast (fm_udp_src mt)) (pin_ipv4_udp mp0) else mp0);
          mp2 = (if fm_udp_dst mt > 0 then match_set UdpDport 0xffff (ucast (fm_udp_dst mt)) (pin_ipv4_udp mp1) else mp1);
          mp3 = (if fm_ipv4_src mt \<noteq> 0 then match_set SrcIpv4 0xffffffff (ntohl (fm_ipv4_src mt)) (pin_ipv4 mp2) else mp2);
          mp4 = (if fm_ipv4_dst mt \<noteq> 0 then match_set DstIpv4 0xffffffff (ntohl (fm_ipv4_dst mt)) (pin_ipv4 mp3) else mp3)
      in if fm_ipv4_len mt > 0
         then (match_set SampleValue0 0xffff (ucast (fm_ipv4_len mt))
                (match_set SampleId0 len_sample len_sample (pin_ipv4 mp4)))\<lparr>mp_misc4 := True\<rparr>
         else mp4)"

definition any_field :: "FlowMatch \<Rightarrow> bool" where
  "any_field mt \<longleftrightarrow> em_match_dst (fm_ethernet_match mt) \<or> em_match_src (fm_ethernet_match mt)
     \<or> fm_udp_src mt > 0 \<or> fm_udp_dst mt > 0 \<or> fm_ipv4_src mt \<noteq> 0 \<or> fm_ipv4_dst mt \<noteq> 0 \<or> fm_ipv4_len mt > 0"

definition match_standard :: "FlowMatch \<Rightarrow> bool \<Rightarrow> u32 \<Rightarrow> MatchParam" where
  "match_standard mt rss len_sample =
     (let mp1 = match_ethernet (fm_ethernet_match mt) no_match;
          mp2 = (if rss \<and> fm_type mt \<noteq> ETHERNET then pin_ipv4_udp mp1 else mp1)
      in match_ipv4_udp mt len_sample mp2)"

definition match_flex :: "u16 \<Rightarrow> u32 \<Rightarrow> FlexItemMatch \<Rightarrow> MatchParam" where
  "match_flex udp_dst_port sample_field_id fx =
     (match_set SampleValue0 (fx_mask fx) (fx_val fx AND fx_mask fx)
       (match_set SampleId0 sample_field_id sample_field_id
         (match_set UdpDport 0xffff (ucast udp_dst_port)
           (match_set IpProtocol 0xff MLX5_IP_PROTOCOL_UDP
             (match_set Ethertype 0xffff MLX5_ETHERTYPE_IPV4 no_match)))))\<lparr>mp_outer := True, mp_misc4 := True\<rparr>"

text \<open>\<^verbatim>\<open>set_sample\<close> fills the first slot, then the second.\<close>

definition match_ecpri :: "EcpriMatch \<Rightarrow> u32 \<Rightarrow> u32 \<Rightarrow> MatchParam" where
  "match_ecpri em type_sample_id id_sample_id =
     (let mp0 = (match_set Ethertype 0xffff MLX5_ETHERTYPE_ECPRI no_match)\<lparr>mp_outer := True\<rparr>;
          type_v = push_bit 16 (ucast (ec_msg_type em)) :: u32; type_m = 0x00ff0000;
          id_v = push_bit 16 (ucast (ec_id em)) :: u32; id_m = 0xffff0000
      in if \<not> ec_match_msg_type em \<and> \<not> ec_match_id em then mp0
         else (let mp1 = (if ec_match_msg_type em
                          then match_set SampleValue0 type_m (type_v AND type_m) (match_set SampleId0 type_sample_id type_sample_id mp0)
                          else mp0);
                   mp2 = (if ec_match_id em
                          then (if ec_match_msg_type em
                                then match_set SampleValue1 id_m (id_v AND id_m) (match_set SampleId1 id_sample_id id_sample_id mp1)
                                else match_set SampleValue0 id_m (id_v AND id_m) (match_set SampleId0 id_sample_id id_sample_id mp1))
                          else mp1)
               in mp2\<lparr>mp_misc4 := True\<rparr>))"

section \<open>The mlx5 library\<close>

datatype DrObj =
    DrMatcher int MatchParam
  | DrTag u32
  | DrReformat ReformatType "u8 list"
  | DrRule nat MatchParam "nat list"
  | DrRqt "u32 list"
  | DrTir nat bool bool
  | DrDest nat
  | DrNode u16 u16 "nat list"     \<comment> \<open>parse-graph node: anchor, compared value, sample offsets\<close>

text \<open>\<open>dl_ok n\<close>: does the n-th call succeed; \<open>dl_sample n i\<close>: the register of sample i of object n.\<close>

record DrLib =
  dl_ok :: "nat \<Rightarrow> bool"
  dl_sample :: "nat \<Rightarrow> nat \<Rightarrow> u32"

record Dr =
  dr_calls :: nat
  dr_objs :: "nat \<rightharpoonup> DrObj"

definition dr_create :: "DrLib \<Rightarrow> DrObj \<Rightarrow> Dr \<Rightarrow> nat option \<times> Dr" where
  "dr_create lib obj dr =
     (let n = dr_calls dr
      in if dl_ok lib n then (Some n, dr\<lparr>dr_calls := Suc n, dr_objs := (dr_objs dr)(n \<mapsto> obj)\<rparr>)
         else (None, dr\<lparr>dr_calls := Suc n\<rparr>))"

definition dr_query :: "DrLib \<Rightarrow> Dr \<Rightarrow> bool \<times> Dr" where
  "dr_query lib dr = (dl_ok lib (dr_calls dr), dr\<lparr>dr_calls := Suc (dr_calls dr)\<rparr>)"

definition dr_destroy :: "nat \<Rightarrow> Dr \<Rightarrow> Dr" where
  "dr_destroy h dr = dr\<lparr>dr_objs := (dr_objs dr)(h := None)\<rparr>"

definition dr_destroy_all :: "nat list \<Rightarrow> Dr \<Rightarrow> Dr" where
  "dr_destroy_all hs dr = fold dr_destroy hs dr"

definition option_list :: "'a option \<Rightarrow> 'a list" where
  "option_list x = (case x of None \<Rightarrow> [] | Some y \<Rightarrow> [y])"

text \<open>\<^verbatim>\<open>create_flex_parser_node\<close> and \<^verbatim>\<open>create_ecpri_parser_node\<close>: create, then query the sample
  registers back; a failed query destroys the object.\<close>

definition create_parser_node :: "DrLib \<Rightarrow> u16 \<Rightarrow> u16 \<Rightarrow> nat list \<Rightarrow> Dr \<Rightarrow> nat option \<times> Dr" where
  "create_parser_node lib arc_node compare_value offsets dr =
     (case dr_create lib (DrNode arc_node compare_value offsets) dr of
        (None, dr1) \<Rightarrow> (None, dr1)
      | (Some obj, dr1) \<Rightarrow>
          (let (queried, dr2) = dr_query lib dr1
           in if queried then (Some obj, dr2) else (None, dr_destroy obj dr2)))"

definition MLX5_GRAPH_ARC_NODE_MAC :: u16 where "MLX5_GRAPH_ARC_NODE_MAC = 2"

section \<open>Steering state\<close>

record IbvRxQueue =
  rq_port_id :: int
  rq_queue_id :: int
  rq_state :: ResourceState
  rq_dr_action :: "nat option"
  rq_rqn :: u32

definition find_rx_queue :: "IbvRxQueue list \<Rightarrow> int \<Rightarrow> int \<Rightarrow> IbvRxQueue option" where
  "find_rx_queue queues port q =
     find (\<lambda>rq. rq_port_id rq = port \<and> rq_queue_id rq = q \<and> rq_state rq = ACTIVE) queues"

definition find_rx_queue_any :: "IbvRxQueue list \<Rightarrow> int \<Rightarrow> int \<Rightarrow> IbvRxQueue option" where
  "find_rx_queue_any queues port q =
     find (\<lambda>rq. rq_port_id rq = port \<and> rq_queue_id rq = q \<and> rq_state rq \<noteq> REMOVED) queues"

text \<open>An RSS destination is named by its indirection table; it lives as long as an entry or a rule
  specification holds it.\<close>

record RssDestination =
  rd_queue_ids :: "u16 list"
  rd_inner :: bool
  rd_rqt :: nat
  rd_tir :: nat
  rd_action :: nat

record FlexNode =
  fn_obj :: nat
  fn_sample_field_id :: u32

record EcpriNode =
  en_obj :: nat
  en_type_sample_id :: u32
  en_id_sample_id :: u32

record RuleSpec =
  sp_matcher :: nat
  sp_action :: nat
  sp_tag :: "nat option"
  sp_reformats :: "nat list"
  sp_rss_destination :: "nat option"
  sp_value :: MatchParam

text \<open>The cache key printed by the code, \<^verbatim>\<open>inner:\<close> or \<^verbatim>\<open>outer:\<close> and the comma-separated queue
  identifiers, determines the pair used here, and the pair the key.\<close>

record PortSteering =
  ps_table :: bool
  ps_matchers :: "nat list"
  ps_rules :: "nat list"
  ps_tag_actions :: "nat list"
  ps_reformat_actions :: "nat list"
  ps_reformat_buffers :: "u8 list list"
  ps_rule_specs :: "RuleSpec list"
  ps_rss_destinations :: "((bool \<times> u16 list) \<times> nat) list"
  ps_flex_nodes :: "(u16 \<times> FlexNode) list"
  ps_ipv4_len_node :: "FlexNode option"
  ps_ecpri_node :: "EcpriNode option"
  ps_dropped :: bool
  ps_dynamic_priority :: int

datatype DynamicFlowState = FLOW_ACTIVE | FLOW_DELETING

record DynamicFlowEntry =
  df_flow_id :: u32
  df_port :: int
  df_queue :: u16
  df_matcher :: "nat option"
  df_rule :: "nat option"
  df_tag_action :: "nat option"
  df_rss_destination :: "nat option"
  df_reformat_actions :: "nat list"
  df_reformat_buffers :: "u8 list list"
  df_state :: DynamicFlowState

definition new_entry :: "u32 \<Rightarrow> DynamicFlowEntry" where
  "new_entry flow_id =
     \<lparr>df_flow_id = flow_id, df_port = 0, df_queue = 0, df_matcher = None, df_rule = None, df_tag_action = None,
      df_rss_destination = None, df_reformat_actions = [], df_reformat_buffers = [], df_state = FLOW_ACTIVE\<rparr>"

section \<open>Destinations\<close>

definition rss_entries :: "u32 list \<Rightarrow> u32 list" where
  "rss_entries rqns =
     (let table_size = (case rss_table_size (of_nat (length rqns)) of None \<Rightarrow> 0 | Some t \<Rightarrow> unat t)
      in map (\<lambda>i. (rqns ! (i mod length rqns)) AND 0x00ffffff) [0..<table_size])"

definition find_destination :: "PortSteering \<Rightarrow> (nat \<times> RssDestination) list \<Rightarrow> bool \<times> u16 list \<Rightarrow> (nat \<times> RssDestination) option" where
  "find_destination st dests key =
     (case map_of (ps_rss_destinations st) key of
        None \<Rightarrow> None
      | Some d \<Rightarrow> map_option (Pair d) (map_of dests d))"

definition create_rss_destination ::
  "DrLib \<Rightarrow> bool \<Rightarrow> bool \<Rightarrow> u16 list \<Rightarrow> u32 list \<Rightarrow> Dr \<Rightarrow> RssDestination option \<times> Dr" where
  "create_rss_destination lib loopback inner queue_ids rqns dr =
     (case dr_create lib (DrRqt (rss_entries rqns)) dr of
        (None, dr1) \<Rightarrow> (None, dr1)
      | (Some rqt, dr1) \<Rightarrow>
          (case dr_create lib (DrTir rqt inner loopback) dr1 of
             (None, dr2) \<Rightarrow> (None, dr_destroy rqt dr2)
           | (Some tir, dr2) \<Rightarrow>
               (case dr_create lib (DrDest tir) dr2 of
                  (None, dr3) \<Rightarrow> (None, dr_destroy rqt (dr_destroy tir dr3))
                | (Some action, dr3) \<Rightarrow>
                    (Some \<lparr>rd_queue_ids = queue_ids, rd_inner = inner, rd_rqt = rqt, rd_tir = tir, rd_action = action\<rparr>, dr3))))"

definition resolve_rx_destination ::
  "DrLib \<Rightarrow> bool \<Rightarrow> IbvRxQueue list \<Rightarrow> int \<Rightarrow> FlowAction \<Rightarrow> bool \<Rightarrow> PortSteering \<Rightarrow> (nat \<times> RssDestination) list \<Rightarrow> Dr \<Rightarrow>
   (Status + nat option \<times> u16 \<times> nat option) \<times> PortSteering \<times> (nat \<times> RssDestination) list \<times> Dr" where
  "resolve_rx_destination lib loopback queues port queue_action inner st dests dr =
     (let queue_ids = flow_queue_ids queue_action;
          found = map (\<lambda>q. find_rx_queue queues port (uint q)) queue_ids
      in if list_ex (\<lambda>q. case q of None \<Rightarrow> True | Some rq \<Rightarrow> rq_dr_action rq = None) found
         then (Inl INVALID_PARAMETER, st, dests, dr)
         else (let qs = map the found; primary_queue = hd queue_ids
               in if length qs = 1 then (Inr (rq_dr_action (hd qs), primary_queue, None), st, dests, dr)
                  else (case find_destination st dests (inner, queue_ids) of
                          Some (d, destination) \<Rightarrow> (Inr (Some (rd_action destination), primary_queue, Some d), st, dests, dr)
                        | None \<Rightarrow>
                            (case create_rss_destination lib loopback inner queue_ids (map rq_rqn qs) dr of
                               (None, dr1) \<Rightarrow> (Inl GENERIC_FAILURE, st, dests, dr1)
                             | (Some destination, dr1) \<Rightarrow>
                                 (Inr (Some (rd_action destination), primary_queue, Some (rd_rqt destination)),
                                  st\<lparr>ps_rss_destinations := ((inner, queue_ids), rd_rqt destination) # ps_rss_destinations st\<rparr>,
                                  (rd_rqt destination, destination) # dests, dr1)))))"

text \<open>The last holder of a destination is gone: the deleter runs.\<close>

definition drop_destination ::
  "(nat \<Rightarrow> bool) \<Rightarrow> nat option \<Rightarrow> (nat \<times> RssDestination) list \<Rightarrow> Dr \<Rightarrow> (nat \<times> RssDestination) list \<times> Dr" where
  "drop_destination held rss dests dr =
     (case rss of
        None \<Rightarrow> (dests, dr)
      | Some d \<Rightarrow>
          (case map_of dests d of
             None \<Rightarrow> (dests, dr)
           | Some r \<Rightarrow> if held d then (dests, dr)
                       else (filter (\<lambda>p. fst p \<noteq> d) dests, dr_destroy_all [rd_action r, rd_tir r, rd_rqt r] dr)))"

section \<open>Rules\<close>

text \<open>The array of actions has room for eight; the last place is kept for the terminal action.\<close>

definition create_dr_rule_locked ::
  "DrLib \<Rightarrow> MatchParam \<Rightarrow> nat option \<Rightarrow> int \<Rightarrow> u32 \<Rightarrow> nat list \<Rightarrow> nat option \<Rightarrow> Dr \<Rightarrow>
   (nat \<times> nat option \<times> nat \<times> nat) option \<times> Dr" where
  "create_dr_rule_locked lib mp destination_action priority flow_id reformats terminal_action dr =
     (case dr_create lib (DrMatcher priority mp) dr of
        (None, dr1) \<Rightarrow> (None, dr1)
      | (Some matcher, dr1) \<Rightarrow>
          (let (tagged, tag_action, dr2) =
                 (if flow_id \<noteq> 0
                  then (let (t, d) = dr_create lib (DrTag flow_id) dr1 in (t \<noteq> None, t, d))
                  else (True, None, dr1))
           in if \<not> tagged then (None, dr_destroy matcher dr2)
              else (let tags = option_list tag_action;
                        undo = dr_destroy_all (tags @ [matcher]);
                        terminal = (if terminal_action \<noteq> None then terminal_action else destination_action)
                    in if length tags + length reformats > 7 then (None, undo dr2)
                       else (case terminal of
                               None \<Rightarrow> (None, undo dr2)
                             | Some t \<Rightarrow>
                                 (case dr_create lib (DrRule matcher mp (tags @ reformats @ [t])) dr2 of
                                    (None, dr3) \<Rightarrow> (None, undo dr3)
                                  | (Some rule, dr3) \<Rightarrow> (Some (matcher, tag_action, rule, t), dr3))))))"

text \<open>The reformat actions, in order; the flag is false when one could not be made.\<close>

primrec make_reformats :: "DrLib \<Rightarrow> pton \<Rightarrow> FlowAction list \<Rightarrow> nat list \<times> u8 list list \<Rightarrow> Dr \<Rightarrow>
   bool \<times> (nat list \<times> u8 list list) \<times> Dr" where
  "make_reformats lib inet_pton [] acc dr = (True, acc, dr)"
| "make_reformats lib inet_pton (action # actions) acc dr =
     (if \<not> flow_action_is_transform action then make_reformats lib inet_pton actions acc dr
      else (case build_reformat_buffer inet_pton action of
              None \<Rightarrow> (False, (fst acc, snd acc @ [[]]), dr)
            | Some (buffer, reformat_type) \<Rightarrow>
                (case dr_create lib (DrReformat reformat_type buffer) dr of
                   (None, dr1) \<Rightarrow> (False, (fst acc, snd acc @ [buffer]), dr1)
                 | (Some reformat, dr1) \<Rightarrow>
                     make_reformats lib inet_pton actions (fst acc @ [reformat], snd acc @ [buffer]) dr1)))"

text \<open>The three ways a match is built. A failure carries whether the code then releases the
  reformat actions; a success whether the rule gets them (and a failed rule releases them).\<close>

datatype match_result = MatchFail Status bool | MatchOk MatchParam bool

definition build_ecpri_match_locked :: "DrLib \<Rightarrow> EcpriMatch \<Rightarrow> PortSteering \<Rightarrow> Dr \<Rightarrow> MatchParam option \<times> PortSteering \<times> Dr" where
  "build_ecpri_match_locked lib em st dr =
     (if \<not> ec_match_msg_type em \<and> \<not> ec_match_id em then (Some (match_ecpri em 0 0), st, dr)
      else (case ps_ecpri_node st of
              Some node \<Rightarrow> (Some (match_ecpri em (en_type_sample_id node) (en_id_sample_id node)), st, dr)
            | None \<Rightarrow>
                (case create_parser_node lib MLX5_GRAPH_ARC_NODE_MAC 0xaefe [0, 4] dr of
                   (None, dr1) \<Rightarrow> (None, st, dr1)
                 | (Some obj, dr1) \<Rightarrow>
                     (let node = \<lparr>en_obj = obj, en_type_sample_id = dl_sample lib obj 0, en_id_sample_id = dl_sample lib obj 1\<rparr>
                      in (Some (match_ecpri em (en_type_sample_id node) (en_id_sample_id node)),
                          st\<lparr>ps_ecpri_node := Some node\<rparr>, dr1)))))"

definition build_match ::
  "DrLib \<Rightarrow> InterfaceConfig \<Rightarrow> FlowMatch \<Rightarrow> bool \<Rightarrow> PortSteering \<Rightarrow> Dr \<Rightarrow> match_result \<times> PortSteering \<times> Dr" where
  "build_match lib intf mt rss st dr =
     (if fm_type mt = FLEX_ITEM
      then (let flex_item_id = fx_flex_item_id (fm_flex_item_match mt)
            in case (map_of (ps_flex_nodes st) flex_item_id, find (\<lambda>c. fi_id c = flex_item_id) (rx_flex_items (if_rx intf))) of
                 (Some node, Some cfg) \<Rightarrow>
                   (MatchOk (match_flex (fi_udp_dst_port cfg) (fn_sample_field_id node) (fm_flex_item_match mt)) True, st, dr)
               | _ \<Rightarrow> (MatchFail INVALID_PARAMETER True, st, dr))
      else if fm_type mt = ECPRI
      then (case build_ecpri_match_locked lib (fm_ecpri_match mt) st dr of
              (None, st1, dr1) \<Rightarrow> (MatchFail GENERIC_FAILURE False, st1, dr1)
            | (Some mp, st1, dr1) \<Rightarrow> (MatchOk mp False, st1, dr1))
      else if fm_ipv4_len mt > 0
      then (case ps_ipv4_len_node st of
              Some node \<Rightarrow> (MatchOk (match_standard mt rss (fn_sample_field_id node)) True, st, dr)
            | None \<Rightarrow>
                (case create_parser_node lib MLX5_GRAPH_ARC_NODE_MAC 0x0800 [0] dr of
                   (None, dr1) \<Rightarrow> (MatchFail GENERIC_FAILURE False, st, dr1)
                 | (Some obj, dr1) \<Rightarrow>
                     (let node = \<lparr>fn_obj = obj, fn_sample_field_id = dl_sample lib obj 0\<rparr>
                      in (MatchOk (match_standard mt rss (fn_sample_field_id node)) True,
                          st\<lparr>ps_ipv4_len_node := Some node\<rparr>, dr1))))
      else if \<not> any_field mt then (MatchFail INVALID_PARAMETER True, st, dr)
      else (MatchOk (match_standard mt rss 0) True, st, dr))"


text \<open>The exit of a failed installation: the local reference to the destination goes away.\<close>

definition install_fail ::
  "(nat \<Rightarrow> bool) \<Rightarrow> nat option \<Rightarrow> u32 \<Rightarrow> Status \<Rightarrow> PortSteering \<Rightarrow> (nat \<times> RssDestination) list \<Rightarrow> Dr \<Rightarrow>
   Status \<times> DynamicFlowEntry \<times> PortSteering \<times> (nat \<times> RssDestination) list \<times> Dr" where
  "install_fail held rss flow_id status st dests dr =
     (let (dests', dr') = drop_destination held rss dests dr in (status, new_entry flow_id, st, dests', dr'))"

text \<open>The match and the rule, once the reformat actions \<open>acts\<close> are made.\<close>

definition install_match ::
  "DrLib \<Rightarrow> (nat \<Rightarrow> bool) \<Rightarrow> int \<Rightarrow> InterfaceConfig \<Rightarrow> FlowMatch \<Rightarrow> u32 \<Rightarrow> int \<Rightarrow> bool \<Rightarrow>
   nat option \<Rightarrow> nat option \<times> u16 \<times> nat option \<Rightarrow> nat list \<times> u8 list list \<Rightarrow> PortSteering \<Rightarrow> (nat \<times> RssDestination) list \<Rightarrow> Dr \<Rightarrow>
   Status \<times> DynamicFlowEntry \<times> PortSteering \<times> (nat \<times> RssDestination) list \<times> Dr" where
  "install_match lib held port intf mt flow_id priority dynamic terminal_action dest reformat st dests dr =
     (let (destination_action, primary_queue, rss) = dest;
          (acts, bufs) = reformat;
          cleanup_dynamic_reformats = (if dynamic then dr_destroy_all acts else id)
      in case build_match lib intf mt (rss \<noteq> None) st dr of
           (MatchFail status release, st1, dr1) \<Rightarrow>
             install_fail held rss flow_id status st1 dests (if release then cleanup_dynamic_reformats dr1 else dr1)
         | (MatchOk mp attach, st1, dr1) \<Rightarrow>
             (let reformats = (if attach then acts else [])
              in case create_dr_rule_locked lib mp destination_action priority flow_id reformats terminal_action dr1 of
                   (None, dr2) \<Rightarrow>
                     install_fail held rss flow_id GENERIC_FAILURE st1 dests (if attach then cleanup_dynamic_reformats dr2 else dr2)
                 | (Some (matcher, tag_action, rule, terminal), dr2) \<Rightarrow>
                     if dynamic
                     then (SUCCESS,
                           (new_entry flow_id)\<lparr>df_port := port, df_queue := primary_queue, df_matcher := Some matcher,
                             df_rule := Some rule, df_tag_action := tag_action, df_rss_destination := rss,
                             df_reformat_actions := acts, df_reformat_buffers := bufs\<rparr>,
                           st1, dests, dr2)
                     else (SUCCESS, new_entry flow_id,
                           st1\<lparr>ps_matchers := ps_matchers st1 @ [matcher], ps_rules := ps_rules st1 @ [rule],
                               ps_tag_actions := ps_tag_actions st1 @ option_list tag_action,
                               ps_rule_specs := ps_rule_specs st1 @
                                 [\<lparr>sp_matcher = matcher, sp_action = terminal, sp_tag = tag_action,
                                   sp_reformats = reformats, sp_rss_destination = rss, sp_value = mp\<rparr>]\<rparr>,
                           dests, dr2)))"

definition install_at ::
  "DrLib \<Rightarrow> pton \<Rightarrow> IbvRxQueue list \<Rightarrow> (nat \<Rightarrow> bool) \<Rightarrow> int \<Rightarrow> InterfaceConfig \<Rightarrow> FlowRuleConfig \<Rightarrow> u32 \<Rightarrow> int \<Rightarrow> bool \<Rightarrow>
   nat option \<Rightarrow> nat option \<times> u16 \<times> nat option \<Rightarrow> PortSteering \<Rightarrow> (nat \<times> RssDestination) list \<Rightarrow> Dr \<Rightarrow>
   Status \<times> DynamicFlowEntry \<times> PortSteering \<times> (nat \<times> RssDestination) list \<times> Dr" where
  "install_at lib inet_pton queues held port intf flow flow_id priority dynamic terminal_action dest st dests dr =
     (let (destination_action, primary_queue, rss) = dest
      in case find_rx_queue queues port (uint primary_queue) of
           None \<Rightarrow> install_fail held rss flow_id INVALID_PARAMETER st dests dr
         | Some primary \<Rightarrow>
             (let (made, (acts, bufs), dr1) = make_reformats lib inet_pton (flow_rule_actions flow) ([], []) dr;
                  st1 = (if dynamic then st
                         else st\<lparr>ps_reformat_actions := ps_reformat_actions st @ acts,
                                 ps_reformat_buffers := ps_reformat_buffers st @ bufs\<rparr>)
              in if \<not> made then install_fail held rss flow_id GENERIC_FAILURE st1 dests (if dynamic then dr_destroy_all acts dr1 else dr1)
                 else install_match lib held port intf (fr_match flow) flow_id priority dynamic terminal_action dest (acts, bufs)
                        st1 dests dr1))"

definition install_flow_rule_locked ::
  "DrLib \<Rightarrow> pton \<Rightarrow> bool \<Rightarrow> IbvRxQueue list \<Rightarrow> (nat \<Rightarrow> bool) \<Rightarrow> int \<Rightarrow> InterfaceConfig \<Rightarrow> FlowRuleConfig \<Rightarrow> u32 \<Rightarrow> int \<Rightarrow> bool \<Rightarrow>
   nat option \<Rightarrow> PortSteering \<Rightarrow> (nat \<times> RssDestination) list \<Rightarrow> Dr \<Rightarrow>
   Status \<times> DynamicFlowEntry \<times> PortSteering \<times> (nat \<times> RssDestination) list \<times> Dr" where
  "install_flow_rule_locked lib inet_pton loopback queues held port intf flow flow_id priority dynamic terminal_action st dests dr =
     (if ps_dropped st then (INVALID_PARAMETER, new_entry flow_id, st, dests, dr)
      else if \<not> ps_table st then (NOT_READY, new_entry flow_id, st, dests, dr)
      else
        (let actions = flow_rule_actions flow;
             queue_action = flow_queue_action actions;
             inner = list_ex (\<lambda>action. fa_type action = TUNNEL_DECAP) actions;
             (dest, st1, dests1, dr1) =
               (if terminal_action \<noteq> None
                then (if length (flow_queue_ids queue_action) \<noteq> 1 then (Inl INVALID_PARAMETER, st, dests, dr)
                      else (Inr (terminal_action, hd (flow_queue_ids queue_action), None), st, dests, dr))
                else resolve_rx_destination lib loopback queues port queue_action inner st dests dr)
         in case dest of
              Inl status \<Rightarrow> (status, new_entry flow_id, st1, dests1, dr1)
            | Inr d \<Rightarrow> install_at lib inet_pton queues held port intf flow flow_id priority dynamic terminal_action d st1 dests1 dr1))"

text \<open>\<^verbatim>\<open>destroy_dynamic_flow_entry_locked\<close>: the rule first, then the actions, the matcher last.\<close>

definition entry_handles :: "DynamicFlowEntry \<Rightarrow> nat list" where
  "entry_handles e = option_list (df_rule e) @ option_list (df_tag_action e) @ df_reformat_actions e @ option_list (df_matcher e)"

definition destroy_dynamic_flow_entry_locked :: "DynamicFlowEntry \<Rightarrow> Dr \<Rightarrow> DynamicFlowEntry \<times> Dr" where
  "destroy_dynamic_flow_entry_locked e dr =
     (e\<lparr>df_rule := None, df_tag_action := None, df_reformat_actions := [], df_reformat_buffers := [], df_matcher := None\<rparr>,
      dr_destroy_all (entry_handles e) dr)"

end
