(* ===== verification/Flow_Objects.thy ===== *)
theory Flow_Objects
  imports Flow_Steering
begin

text \<open>
  Accounting of the device objects behind receive flows: what every step of the installation of a
  rule creates and destroys, as multisets of handles, so that the asynchronous operations can be
  shown to leave nothing behind.
\<close>

section \<open>Objects held by the device\<close>

definition dr_wf :: "Dr \<Rightarrow> bool" where
  "dr_wf dr \<longleftrightarrow> finite (dom (dr_objs dr)) \<and> (\<forall>h\<in>dom (dr_objs dr). h < dr_calls dr)"

definition live :: "Dr \<Rightarrow> nat multiset" where
  "live dr = mset_set (dom (dr_objs dr))"

definition node_objs :: "PortSteering \<Rightarrow> nat multiset" where
  "node_objs st = mset (map (fn_obj \<circ> snd) (ps_flex_nodes st)) + mset (option_list (map_option fn_obj (ps_ipv4_len_node st)))
     + mset (option_list (map_option en_obj (ps_ecpri_node st)))"

definition port_objs :: "PortSteering \<Rightarrow> nat multiset" where
  "port_objs st = node_objs st + mset (ps_matchers st) + mset (ps_rules st) + mset (ps_tag_actions st) + mset (ps_reformat_actions st)"

definition dest_objs :: "(nat \<times> RssDestination) list \<Rightarrow> nat multiset" where
  "dest_objs dests = sum_list (map (\<lambda>(d, r). {#rd_rqt r, rd_tir r, rd_action r#}) dests)"

definition entry_objs :: "DynamicFlowEntry \<Rightarrow> nat multiset" where
  "entry_objs e = mset (entry_handles e)"

text \<open>A flow for which the code releases its reformat actions on every failing path: one without
  transforms, or neither an eCPRI flow nor a standard one that matches the total length.\<close>

definition tidy_flow :: "FlowRuleConfig \<Rightarrow> bool" where
  "tidy_flow flow \<longleftrightarrow> \<not> flow_rule_has_transform_actions flow
     \<or> (fm_type (fr_match flow) \<noteq> ECPRI \<and> fm_ipv4_len (fr_match flow) = 0)
     \<or> fm_type (fr_match flow) = FLEX_ITEM"

abbreviation transforms :: "FlowRuleConfig \<Rightarrow> FlowAction list" where
  "transforms flow \<equiv> filter flow_action_is_transform (flow_rule_actions flow)"

text \<open>What a failed installation may leave on the device without an owner: nothing when it succeeds or the
  flow is tidy, in any case no more than one reformat action per transform, and for an eCPRI flow with one queue all the
  reformat actions it had made.\<close>

definition lost_by :: "DrLib \<Rightarrow> pton \<Rightarrow> FlowRuleConfig \<Rightarrow> Dr \<Rightarrow> Status \<Rightarrow> nat multiset \<Rightarrow> bool" where
  "lost_by lib inet_pton flow dr status lost \<longleftrightarrow>
     (status = SUCCESS \<or> tidy_flow flow \<longrightarrow> lost = {#}) \<and> size lost \<le> length (transforms flow)
     \<and> (fm_type (fr_match flow) = ECPRI \<and> status = GENERIC_FAILURE
          \<and> length (flow_queue_ids (flow_queue_action (flow_rule_actions flow))) = 1
        \<longrightarrow> (\<forall>acts bufs dr1. make_reformats lib inet_pton (flow_rule_actions flow) ([], []) dr = (True, (acts, bufs), dr1)
              \<longrightarrow> lost = mset acts))"

definition may_lose :: "FlowRuleConfig \<Rightarrow> nat" where
  "may_lose flow = (if tidy_flow flow then 0 else length (transforms flow))"

lemma lost_by_size: "lost_by lib p flow dr s lost \<Longrightarrow> size lost \<le> may_lose flow"
  by (auto simp: lost_by_def may_lose_def)

lemma option_list_simps [simp]: "option_list None = []" "option_list (Some x) = [x]"
  by (simp_all add: option_list_def)

lemma dr_create_some:
  assumes "dr_wf dr" "dr_create lib obj dr = (Some h, dr')"
  shows "dr_wf dr' \<and> live dr' = add_mset h (live dr) \<and> h \<notin># live dr \<and> h = dr_calls dr \<and> dr_calls dr \<le> dr_calls dr'"
proof -
  have h: "h = dr_calls dr" "dr' = dr\<lparr>dr_calls := Suc h, dr_objs := (dr_objs dr)(h \<mapsto> obj)\<rparr>"
    using assms(2) by (auto simp: dr_create_def Let_def split: if_splits)
  have "h \<notin> dom (dr_objs dr)" using assms(1) h(1) unfolding dr_wf_def by (metis less_irrefl)
  then show ?thesis using assms(1) h by (auto simp: dr_wf_def live_def less_SucI)
qed

lemma dr_create_none:
  "dr_wf dr \<Longrightarrow> dr_create lib obj dr = (None, dr') \<Longrightarrow> dr_wf dr' \<and> live dr' = live dr \<and> dr_calls dr \<le> dr_calls dr'"
  by (auto simp: dr_create_def Let_def dr_wf_def live_def split: if_splits) (meson domI less_SucI)

lemma dr_destroy_live [simp]:
  assumes "dr_wf dr"
  shows "dr_wf (dr_destroy h dr)" "live (dr_destroy h dr) = live dr - {#h#}"
proof -
  have "mset_set (A - {h}) = mset_set A - {#h#}" if "finite A" for A :: "nat set"
    using that by (cases "h \<in> A") (simp_all add: mset_set_Diff diff_single_trivial)
  then show "live (dr_destroy h dr) = live dr - {#h#}"
    using assms by (simp add: dr_destroy_def dr_wf_def live_def)
qed (use assms in \<open>auto simp: dr_destroy_def dr_wf_def\<close>)

lemma dr_destroy_all_live [simp]:
  assumes "dr_wf dr"
  shows "dr_wf (dr_destroy_all hs dr)" "live (dr_destroy_all hs dr) = live dr - mset hs"
  using assms
proof (induction hs arbitrary: dr)
  case (Cons h hs)
  { case 1 then show ?case using Cons.IH(1) [of "dr_destroy h dr"] by (simp add: dr_destroy_all_def) }
  { case 2 then show ?case using Cons.IH(2) [of "dr_destroy h dr"] by (simp add: dr_destroy_all_def) }
qed (simp_all add: dr_destroy_all_def)


section \<open>What each step leaves on the device\<close>

lemmas mset_balance = add.assoc add.commute add.left_commute

lemma create_parser_node_spec:
  assumes "dr_wf dr" "create_parser_node lib a c os dr = (r, dr')"
  shows "dr_wf dr' \<and> live dr' = live dr + mset (option_list r)"
proof (cases "dr_create lib (DrNode a c os) dr")
  case (Pair x dr1)
  have wf: "dr_wf (d\<lparr>dr_calls := Suc (dr_calls d)\<rparr>)" "live (d\<lparr>dr_calls := n\<rparr>) = live d" if "dr_wf d" for d n
    using that by (auto simp: dr_wf_def live_def intro: less_SucI)
  show ?thesis
    using assms(2) Pair dr_create_none [OF assms(1)] dr_create_some [OF assms(1)]
    by (cases x) (auto simp: create_parser_node_def dr_query_def wf split: if_splits)
qed

lemma make_reformats_spec:
  assumes "dr_wf dr" "make_reformats lib p actions acc dr = (ok, acc', dr')"
  shows "\<exists>new. fst acc' = fst acc @ new \<and> dr_wf dr' \<and> live dr' = live dr + mset new
    \<and> length new \<le> length (filter flow_action_is_transform actions)"
  using assms
proof (induction actions arbitrary: acc dr)
  case Nil
  then show ?case by auto
next
  case (Cons action actions)
  show ?case
  proof (cases "flow_action_is_transform action")
    case False
    with Cons show ?thesis by simp
  next
    case True
    show ?thesis
    proof (cases "build_reformat_buffer p action")
      case None
      then show ?thesis using Cons.prems True by auto
    next
      case (Some br)
      obtain buffer t where br: "br = (buffer, t)" by fastforce
      obtain x dr1 where c: "dr_create lib (DrReformat t buffer) dr = (x, dr1)" by fastforce
      show ?thesis
      proof (cases x)
        case None
        then show ?thesis
          using Cons.prems True Some br c dr_create_none [OF Cons.prems(1)] by auto
      next
        case (Some h)
        note mk = dr_create_some [OF Cons.prems(1) c [unfolded Some]]
        have "make_reformats lib p actions (fst acc @ [h], snd acc @ [buffer]) dr1 = (ok, acc', dr')"
          using Cons.prems(2) True \<open>build_reformat_buffer p action = Some br\<close> br c Some by simp
        from Cons.IH [OF _ this] mk obtain new where "fst acc' = (fst acc @ [h]) @ new" "dr_wf dr'"
          "live dr' = live dr1 + mset new" "length new \<le> length (filter flow_action_is_transform actions)" by auto
        then show ?thesis using mk True by (intro exI [of _ "h # new"]) simp
      qed
    qed
  qed
qed

lemma create_dr_rule_spec:
  assumes wf: "dr_wf dr" and c: "create_dr_rule_locked lib mp dst prio fid refs jump dr = (r, dr')"
  shows "dr_wf dr' \<and> live dr' = live dr
    + (case r of None \<Rightarrow> {#} | Some (m, t, ru, _) \<Rightarrow> {#m, ru#} + mset (option_list t))"
proof -
  obtain x1 dr1 where c1: "dr_create lib (DrMatcher prio mp) dr = (x1, dr1)" by fastforce
  show ?thesis
  proof (cases x1)
    case None
    then show ?thesis using c c1 dr_create_none [OF wf] by (auto simp: create_dr_rule_locked_def)
  next
    case (Some m)
    note s1 = dr_create_some [OF wf c1 [unfolded Some]]
    let ?tag = "if fid \<noteq> 0 then (let (t, d) = dr_create lib (DrTag fid) dr1 in (t \<noteq> None, t, d)) else (True, None, dr1)"
    obtain tagged tag dr2 where t: "?tag = (tagged, tag, dr2)" by (rule prod_cases3)
    have s2: "dr_wf dr2 \<and> live dr2 = live dr1 + mset (option_list tag)"
    proof (cases "fid = 0")
      case True
      then show ?thesis using t s1 by simp
    next
      case False
      obtain x2 d2 where c2: "dr_create lib (DrTag fid) dr1 = (x2, d2)" by fastforce
      have "tag = x2" "dr2 = d2" using t c2 False by simp_all
      moreover have "dr_wf d2 \<and> live d2 = live dr1 + mset (option_list x2)"
        using dr_create_none [of dr1 lib "DrTag fid" d2] dr_create_some [of dr1 lib "DrTag fid" _ d2] c2 s1
        by (cases x2) simp_all
      ultimately show ?thesis by simp
    qed
    have untagged: "tag = None" if "\<not> tagged"
      using t that by (cases "fid = 0") (simp_all split: prod.splits)
    have undo: "live (dr_destroy_all (option_list tag @ [m]) d) = live dr" "dr_wf (dr_destroy_all (option_list tag @ [m]) d)"
      if "dr_wf d" "live d = live dr2" for d
      using that s1 s2 by (cases tag; simp)+
    show ?thesis
    proof (cases "\<not> tagged \<or> length (option_list tag) + length refs > 7 \<or> (jump = None \<and> dst = None)")
      case True
      then show ?thesis
        using c c1 Some t s1 s2 untagged undo [of dr2]
        by (auto simp: create_dr_rule_locked_def Let_def split: if_splits option.splits)
    next
      case False
      then obtain tm where tm: "(if jump \<noteq> None then jump else dst) = Some tm" by (cases "jump") auto
      obtain x3 dr3 where c3: "dr_create lib (DrRule m mp (option_list tag @ refs @ [tm])) dr2 = (x3, dr3)" by fastforce
      have res: "(r, dr') = (case x3 of None \<Rightarrow> (None, dr_destroy_all (option_list tag @ [m]) dr3) | Some ru \<Rightarrow> (Some (m, tag, ru, tm), dr3))"
        using c c1 Some t False tm c3 by (auto simp: create_dr_rule_locked_def Let_def split: option.splits)
      show ?thesis
        using res c3 s1 s2 undo [of dr3] dr_create_none [OF s2 [THEN conjunct1]] dr_create_some [OF s2 [THEN conjunct1]]
        by (cases x3) auto
    qed
  qed
qed

lemma build_ecpri_spec:
  assumes "dr_wf dr" "build_ecpri_match_locked lib em st dr = (r, st', dr')"
  shows "dr_wf dr' \<and> (\<exists>new. live dr' = live dr + new \<and> port_objs st' = port_objs st + new) \<and> ps_rule_specs st' = ps_rule_specs st
    \<and> ps_rss_destinations st' = ps_rss_destinations st"
proof -
  obtain x d where n: "create_parser_node lib MLX5_GRAPH_ARC_NODE_MAC 0xaefe [0, 4] dr = (x, d)" by fastforce
  from create_parser_node_spec [OF assms(1) n] assms show ?thesis
    by (cases x) (auto simp: build_ecpri_match_locked_def n Let_def port_objs_def node_objs_def
        split: if_splits option.splits intro: exI [of _ "{#}"] exI [of _ "{#the x#}"])
qed

lemma build_match_spec:
  assumes "dr_wf dr" "build_match lib intf mt rss st dr = (r, st', dr')"
  shows "dr_wf dr' \<and> (\<exists>new. live dr' = live dr + new \<and> port_objs st' = port_objs st + new) \<and> ps_rule_specs st' = ps_rule_specs st
    \<and> ps_rss_destinations st' = ps_rss_destinations st
    \<and> (case r of MatchFail s b \<Rightarrow> s \<noteq> SUCCESS \<and> (b \<or> fm_type mt \<noteq> FLEX_ITEM \<and> (fm_type mt = ECPRI \<or> fm_ipv4_len mt \<noteq> 0))
        | MatchOk mp b \<Rightarrow> b \<or> fm_type mt = ECPRI)"
proof -
  obtain x d where n: "create_parser_node lib MLX5_GRAPH_ARC_NODE_MAC 0x0800 [0] dr = (x, d)" by fastforce
  note pn = create_parser_node_spec [OF assms(1) n]
  obtain e st1 d1 where ec: "build_ecpri_match_locked lib (fm_ecpri_match mt) st dr = (e, st1, d1)" by (metis prod_cases3)
  note es = build_ecpri_spec [OF assms(1) ec]
  consider (flex) "fm_type mt = FLEX_ITEM" | (ecpri) "fm_type mt = ECPRI"
    | (len) "fm_type mt \<noteq> FLEX_ITEM" "fm_type mt \<noteq> ECPRI" "fm_ipv4_len mt > 0"
    | (std) "fm_type mt \<noteq> FLEX_ITEM" "fm_type mt \<noteq> ECPRI" "\<not> fm_ipv4_len mt > 0" by blast
  then show ?thesis
  proof cases
    case flex
    then show ?thesis using assms by (auto simp: build_match_def Let_def split: option.splits)
  next
    case ecpri
    then show ?thesis using assms ec es by (cases e) (auto simp: build_match_def)
  next
    case len
    then have "fm_ipv4_len mt \<noteq> 0" by auto
    with len show ?thesis
      using assms n pn
      by (cases x) (auto simp: build_match_def Let_def port_objs_def node_objs_def split: option.splits)
  next
    case std
    then show ?thesis using assms by (auto simp: build_match_def split: if_splits)
  qed
qed


section \<open>Destinations\<close>

definition dests_wf :: "(nat \<times> RssDestination) list \<Rightarrow> Dr \<Rightarrow> bool" where
  "dests_wf dests dr \<longleftrightarrow> distinct (map fst dests) \<and> (\<forall>(d, r)\<in>set dests. d = rd_rqt r) \<and> dest_objs dests \<subseteq># live dr"

lemma dest_objs_simps [simp]:
  "dest_objs [] = {#}" "dest_objs ((d, r) # ds) = {#rd_rqt r, rd_tir r, rd_action r#} + dest_objs ds"
  by (simp_all add: dest_objs_def)

lemma dest_objs_member: "(d, r) \<in> set dests \<Longrightarrow> rd_rqt r \<in># dest_objs dests"
  by (induction dests) auto

lemma dest_objs_remove:
  assumes "distinct (map fst dests)" "map_of dests d = Some r"
  shows "dest_objs dests = {#rd_rqt r, rd_tir r, rd_action r#} + dest_objs (filter (\<lambda>p. fst p \<noteq> d) dests)"
  using assms
proof (induction dests)
  case Nil
  then show ?case by simp
next
  case (Cons p dests)
  obtain d' r' where p: "p = (d', r')" by fastforce
  show ?case
  proof (cases "d' = d")
    case True
    then have "filter (\<lambda>p. fst p \<noteq> d) dests = dests" using Cons.prems(1) p by (force intro: filter_True)
    then show ?thesis using True Cons.prems p by simp
  next
    case False
    then show ?thesis using Cons p by simp
  qed
qed

lemma drop_destination_spec:
  assumes wf: "dr_wf dr" "dests_wf dests dr" and d: "drop_destination held rss dests dr = (dests', dr')"
  shows "dr_wf dr' \<and> dests_wf dests' dr' \<and> live dr' + dest_objs dests = live dr + dest_objs dests'
    \<and> fst ` set dests' = fst ` set dests - {x. rss = Some x \<and> \<not> held x}"
proof -
  show ?thesis
  proof (cases "\<exists>x r. rss = Some x \<and> map_of dests x = Some r \<and> \<not> held x")
    case False
    then have same: "dests' = dests" "dr' = dr" using d by (auto simp: drop_destination_def split: option.splits if_splits)
    have "x \<notin> fst ` set dests" if "rss = Some x" "\<not> held x" for x
      using False that by (metis map_of_eq_None_iff not_None_eq)
    then have "fst ` set dests - {x. rss = Some x \<and> \<not> held x} = fst ` set dests" by blast
    with same wf show ?thesis by simp
  next
    case True
    then obtain x r where x: "rss = Some x" "map_of dests x = Some r" "\<not> held x" by blast
    then have dd: "dests' = filter (\<lambda>p. fst p \<noteq> x) dests" "dr' = dr_destroy_all [rd_action r, rd_tir r, rd_rqt r] dr"
      using d by (simp_all add: drop_destination_def)
    have eq: "dest_objs dests = {#rd_rqt r, rd_tir r, rd_action r#} + dest_objs dests'"
      using dest_objs_remove [of dests x r] wf(2) x dd(1) by (simp add: dests_wf_def)
    obtain rest where rest: "live dr = dest_objs dests + rest"
      using wf(2) by (auto simp: dests_wf_def mset_subset_eq_exists_conv)
    have lv: "live dr' = dest_objs dests' + rest" using dd(2) wf(1) rest eq by simp
    have "distinct (map fst dests')" using wf(2) dd(1) by (simp add: dests_wf_def distinct_map_filter)
    then have "dests_wf dests' dr'" using lv wf(2) dd(1) by (auto simp: dests_wf_def)
    moreover have "fst ` set dests' = fst ` set dests - {y. rss = Some y \<and> \<not> held y}"
      using dd(1) x by (auto simp: image_iff)
    moreover have "dr_wf dr'" using dd(2) wf(1) by simp
    ultimately show ?thesis using lv rest by (simp add: mset_balance)
  qed
qed

lemma create_rss_spec:
  assumes wf: "dr_wf dr" and r: "create_rss_destination lib lb inner ids rqns dr = (x, dr')"
  shows "dr_wf dr' \<and> (case x of None \<Rightarrow> live dr' = live dr
    | Some ds \<Rightarrow> live dr' = live dr + {#rd_rqt ds, rd_tir ds, rd_action ds#} \<and> rd_rqt ds \<notin># live dr)"
proof -
  obtain x1 d1 where c1: "dr_create lib (DrRqt (rss_entries rqns)) dr = (x1, d1)" by fastforce
  show ?thesis
  proof (cases x1)
    case None
    then show ?thesis using r wf c1 dr_create_none [OF wf] by (auto simp: create_rss_destination_def)
  next
    case (Some rqt)
    note s1 = dr_create_some [OF wf c1 [unfolded Some]]
    obtain x2 d2 where c2: "dr_create lib (DrTir rqt inner lb) d1 = (x2, d2)" by fastforce
    show ?thesis
    proof (cases x2)
      case None
      then show ?thesis using r c1 Some c2 s1 dr_create_none [of d1 lib _ d2] by (auto simp: create_rss_destination_def)
    next
      case (Some tir)
      have wf1: "dr_wf d1" using s1 by blast
      note s2 = dr_create_some [OF wf1 c2 [unfolded Some]]
      obtain x3 d3 where c3: "dr_create lib (DrDest tir) d2 = (x3, d3)" by fastforce
      have wf2: "dr_wf d2" using s2 by blast
      show ?thesis
        using r c1 \<open>x1 = Some rqt\<close> c2 Some c3 s1 s2 dr_create_none [OF wf2, of lib _ d3] dr_create_some [OF wf2, of lib _ _ d3]
        by (cases x3) (auto simp: create_rss_destination_def)
    qed
  qed
qed

lemma resolve_spec:
  assumes wf: "dr_wf dr" "dests_wf dests dr"
    and r: "resolve_rx_destination lib lb queues port qa inner st dests dr = (res, st', dests', dr')"
  shows "dr_wf dr' \<and> dests_wf dests' dr' \<and> live dr' + dest_objs dests = live dr + dest_objs dests'
    \<and> port_objs st' = port_objs st \<and> ps_rule_specs st' = ps_rule_specs st
    \<and> (case res of Inl s \<Rightarrow> s \<noteq> SUCCESS \<and> dests' = dests
        | Inr (_, _, rss) \<Rightarrow> fst ` set dests' = fst ` set dests \<union> set (option_list rss))"
proof -
  let ?ids = "flow_queue_ids qa"
  let ?found = "map (\<lambda>q. find_rx_queue queues port (uint q)) ?ids"
  let ?qs = "map the ?found"
  let ?bad = "list_ex (\<lambda>q. case q of None \<Rightarrow> True | Some rq \<Rightarrow> rq_dr_action rq = None) ?found"
  consider (easy) "?bad \<or> length ?qs = 1"
    | (cached) y where "\<not> ?bad" "length ?qs \<noteq> 1" "find_destination st dests (inner, ?ids) = Some y"
    | (new) "\<not> ?bad" "length ?qs \<noteq> 1" "find_destination st dests (inner, ?ids) = None" by blast
  then show ?thesis
  proof cases
    case easy
    then show ?thesis using wf r by (auto simp: resolve_rx_destination_def Let_def split: if_splits)
  next
    case (cached y)
    obtain d ds where y: "y = (d, ds)" by fastforce
    have "map_of dests d = Some ds"
      using cached(3) y by (auto simp: find_destination_def split: option.splits)
    then have "fst ` set dests \<union> {d} = fst ` set dests" by (force dest: map_of_SomeD)
    moreover have "res = Inr (Some (rd_action ds), hd ?ids, Some d)" "st' = st" "dests' = dests" "dr' = dr"
      using r cached y by (simp_all add: resolve_rx_destination_def Let_def)
    ultimately show ?thesis using wf by simp
  next
    case new
    obtain x d1 where c: "create_rss_destination lib lb inner ?ids (map rq_rqn ?qs) dr = (x, d1)" by fastforce
    note cs = create_rss_spec [OF wf(1) c]
    show ?thesis
    proof (cases x)
      case None
      then show ?thesis using new r wf c cs by (auto simp: resolve_rx_destination_def Let_def dests_wf_def)
    next
      case (Some ds)
      then have st: "res = Inr (Some (rd_action ds), hd ?ids, Some (rd_rqt ds))" "dr' = d1"
        "st' = st\<lparr>ps_rss_destinations := ((inner, ?ids), rd_rqt ds) # ps_rss_destinations st\<rparr>"
        "dests' = (rd_rqt ds, ds) # dests"
        using new r c by (simp_all add: resolve_rx_destination_def Let_def)
      have "rd_rqt ds \<notin> fst ` set dests"
      proof
        assume "rd_rqt ds \<in> fst ` set dests"
        then obtain ds' where ds': "(rd_rqt ds, ds') \<in> set dests" by auto
        then have "rd_rqt ds \<in># dest_objs dests" using dest_objs_member [OF ds'] wf(2) by (auto simp: dests_wf_def)
        then show False using cs Some wf(2) by (auto simp: dests_wf_def dest: mset_subset_eqD)
      qed
      then show ?thesis using wf st cs Some by (auto simp: dests_wf_def port_objs_def node_objs_def)
    qed
  qed
qed

section \<open>Installing a rule\<close>

text \<open>The outcome of an installation that had to account for \<open>objs\<close> objects of its own: all of them
  belong to the entry when it succeeds and none is left when it fails.\<close>

definition installed ::
  "(nat \<Rightarrow> bool) \<Rightarrow> int \<Rightarrow> u32 \<Rightarrow> nat option \<Rightarrow> PortSteering \<Rightarrow> (nat \<times> RssDestination) list \<Rightarrow> nat multiset \<Rightarrow>
   Status \<times> DynamicFlowEntry \<times> PortSteering \<times> (nat \<times> RssDestination) list \<times> Dr \<Rightarrow> bool" where
  "installed held port fid rss st dests before out \<longleftrightarrow>
     (case out of (s, e, st', dests', dr') \<Rightarrow>
        dr_wf dr' \<and> dests_wf dests' dr'
        \<and> live dr' + port_objs st + dest_objs dests =
            before + port_objs st' + dest_objs dests' + (if s = SUCCESS then entry_objs e else {#})
        \<and> ps_rule_specs st' = ps_rule_specs st \<and> df_flow_id e = fid
        \<and> (if s = SUCCESS then dests' = dests \<and> df_rss_destination e = rss \<and> df_state e = FLOW_ACTIVE \<and> df_port e = port
           else fst ` set dests' = fst ` set dests - {x. rss = Some x \<and> \<not> held x}))"

lemma install_fail_spec:
  assumes "dr_wf dr" "live dr = before + new" "dests_wf dests dr"
    "port_objs st0 = port_objs st + new" "ps_rule_specs st0 = ps_rule_specs st" "stat \<noteq> SUCCESS"
  shows "installed held port fid rss st dests before (install_fail held rss fid stat st0 dests dr)"
proof -
  obtain ds d where dd: "drop_destination held rss dests dr = (ds, d)" by fastforce
  from drop_destination_spec [OF assms(1,3) dd]
  have dr: "dr_wf d" "dests_wf ds d" "live d + dest_objs dests = live dr + dest_objs ds"
    "fst ` set ds = fst ` set dests - {x. rss = Some x \<and> \<not> held x}" by auto
  have "live d + port_objs st + dest_objs dests = before + port_objs st0 + dest_objs ds"
    using dr(3) assms by (simp add: mset_balance)
  then show ?thesis using dr assms dd by (simp add: installed_def install_fail_def new_entry_def)
qed

lemma dests_wf_mono: "dests_wf dests dr \<Longrightarrow> live dr \<subseteq># live dr' \<Longrightarrow> dests_wf dests dr'"
  by (auto simp: dests_wf_def intro: subset_mset.order_trans)

text \<open>Failing after the reformat actions \<open>acts\<close> were made loses all of them or none.\<close>

lemma install_match_spec:
  assumes wf: "dr_wf dr" "dest_objs dests \<subseteq># before" "dests_wf dests dr" "live dr = before + mset acts"
    and out: "install_match lib held port intf mt fid prio True jump dest (acts, bufs) st dests dr = out"
  shows "\<exists>lost. installed held port fid (snd (snd dest)) st dests (before + lost) out \<and> (lost = {#} \<or> lost = mset acts)
    \<and> (fst out = SUCCESS \<or> (fm_type mt = FLEX_ITEM \<or> fm_type mt \<noteq> ECPRI \<and> fm_ipv4_len mt = 0) \<longrightarrow> lost = {#})
    \<and> (fm_type mt = ECPRI \<and> fst out \<noteq> SUCCESS \<longrightarrow> lost = mset acts)"
proof -
  obtain da pq rss where dest: "dest = (da, pq, rss)" by (rule prod_cases3)
  obtain r st2 d2 where bm: "build_match lib intf mt (rss \<noteq> None) st dr = (r, st2, d2)" by (rule prod_cases3)
  from build_match_spec [OF wf(1) bm] obtain new where b: "dr_wf d2" "live d2 = live dr + new" "port_objs st2 = port_objs st + new"
    "ps_rule_specs st2 = ps_rule_specs st"
    and br: "case r of MatchFail s b \<Rightarrow> s \<noteq> SUCCESS \<and> (b \<or> fm_type mt \<noteq> FLEX_ITEM \<and> (fm_type mt = ECPRI \<or> fm_ipv4_len mt \<noteq> 0))
      | MatchOk mp b \<Rightarrow> b \<or> fm_type mt = ECPRI" by auto
  have ec: "fm_type mt = ECPRI \<Longrightarrow> case r of MatchFail s b \<Rightarrow> \<not> b | MatchOk mp b \<Rightarrow> \<not> b"
    using bm by (auto simp: build_match_def split: prod.splits option.splits)
  have undo: "installed held port fid rss st dests (before + (if c then {#} else mset acts))
      (install_fail held rss fid stat st2 dests (if c then dr_destroy_all acts d else d))"
    if "dr_wf d" "live d = live d2" "stat \<noteq> SUCCESS" for c d stat
  proof (rule install_fail_spec [OF _ _ _ b(3,4) that(3)])
    show lv: "live (if c then dr_destroy_all acts d else d) = before + (if c then {#} else mset acts) + new"
      using that b(2) wf(4) by (simp add: mset_balance)
    show "dests_wf dests (if c then dr_destroy_all acts d else d)"
      using wf(2,3) lv by (auto simp: dests_wf_def intro: subset_mset.order_trans)
  qed (use that in simp)
  have fail: "fst (install_fail held rss fid stat st0 ds d) = stat" for stat st0 ds d by (simp add: install_fail_def split: prod.splits)
  show ?thesis
  proof (cases r)
    case (MatchFail stat rel)
    then have s: "stat \<noteq> SUCCESS" and o: "out = install_fail held rss fid stat st2 dests (if rel then dr_destroy_all acts d2 else d2)"
      using br out dest bm by (simp_all add: install_match_def)
    show ?thesis using undo [OF b(1) refl s, of rel] s o fail dest br ec MatchFail
      by (intro exI [of _ "if rel then {#} else mset acts"]) auto
  next
    case (MatchOk mp att)
    obtain x d3 where cr: "create_dr_rule_locked lib mp da prio fid (if att then acts else []) jump d2 = (x, d3)" by fastforce
    note c = create_dr_rule_spec [OF b(1) cr]
    show ?thesis
    proof (cases x)
      case None
      then have d3: "dr_wf d3" "live d3 = live d2"
        and o: "out = install_fail held rss fid GENERIC_FAILURE st2 dests (if att then dr_destroy_all acts d3 else d3)"
        using c out dest bm MatchOk cr by (simp_all add: install_match_def)
      show ?thesis using undo [OF d3, of GENERIC_FAILURE att] o fail dest br ec MatchOk
        by (intro exI [of _ "if att then {#} else mset acts"]) auto
    next
      case (Some y)
      obtain m tg ru tm where y: "y = (m, tg, ru, tm)" by (rule prod_cases4)
      have "live d3 = before + new + (mset (option_list (Some ru)) + mset (option_list tg) + mset acts + {#m#})"
        using c Some y b(2) wf(4) by (simp add: mset_balance)
      moreover have "dests_wf dests d3" using dests_wf_mono [OF wf(3)] c Some y b(2) by auto
      moreover have o: "out = (SUCCESS, (new_entry fid)\<lparr>df_port := port, df_queue := pq, df_matcher := Some m, df_rule := Some ru,
          df_tag_action := tg, df_rss_destination := rss, df_reformat_actions := acts, df_reformat_buffers := bufs\<rparr>, st2, dests, d3)"
        using out dest bm MatchOk cr Some y by (simp add: install_match_def)
      ultimately have "installed held port fid rss st dests before out"
        using c b(3,4) by (simp add: installed_def entry_objs_def entry_handles_def new_entry_def mset_balance)
      then show ?thesis using dest o by (intro exI [of _ "{#}"]) simp
    qed
  qed
qed

lemma install_at_spec:
  assumes wf: "dr_wf dr" "dests_wf dests dr"
    and out: "install_at lib p queues held port intf flow fid prio True jump dest st dests dr = out"
  shows "\<exists>lost. installed held port fid (snd (snd dest)) st dests (live dr + lost) out \<and> lost_by lib p flow dr (fst out) lost"
proof -
  obtain da pq rss where dest: "dest = (da, pq, rss)" by (rule prod_cases3)
  have fail: "fst (install_fail held rss fid stat st0 ds d) = stat" for stat st0 ds d by (simp add: install_fail_def split: prod.splits)
  show ?thesis
  proof (cases "find_rx_queue queues port (uint pq)")
    case None
    then have "out = install_fail held rss fid INVALID_PARAMETER st dests dr" using out dest by (simp add: install_at_def)
    then show ?thesis using install_fail_spec [OF wf(1) _ wf(2), of _ "{#}" st st INVALID_PARAMETER] dest fail
      by (intro exI [of _ "{#}"]) (simp add: lost_by_def)
  next
    case (Some primary)
    obtain ok ab d1 where mk0: "make_reformats lib p (flow_rule_actions flow) ([], []) dr = (ok, ab, d1)"
      by (rule prod_cases3)
    obtain acts bufs where ab: "ab = (acts, bufs)" by fastforce
    note mk = mk0 [unfolded ab]
    have m: "dr_wf d1" "live d1 = live dr + mset acts" "length acts \<le> length (transforms flow)"
      using make_reformats_spec [OF wf(1) mk] by auto
    have sub: "dest_objs dests \<subseteq># live dr" using wf(2) by (simp add: dests_wf_def)
    show ?thesis
    proof (cases ok)
      case False
      have "dests_wf dests (dr_destroy_all acts d1)" using m wf(2) by (simp add: dests_wf_def)
      from install_fail_spec [OF _ _ this, of "live dr" "{#}" st st GENERIC_FAILURE] m
      show ?thesis using False dest Some mk out fail by (intro exI [of _ "{#}"]) (auto simp: install_at_def lost_by_def)
    next
      case True
      have "dests_wf dests d1" using dests_wf_mono [OF wf(2)] m(2) by simp
      moreover have im: "install_match lib held port intf (fr_match flow) fid prio True jump (da, pq, rss) (acts, bufs) st dests d1 = out"
        using True dest Some mk out by (simp add: install_at_def)
      ultimately obtain lost where l: "installed held port fid rss st dests (live dr + lost) out" "lost = {#} \<or> lost = mset acts"
        "fst out = SUCCESS \<or> (fm_type (fr_match flow) = FLEX_ITEM \<or> fm_type (fr_match flow) \<noteq> ECPRI \<and> fm_ipv4_len (fr_match flow) = 0) \<longrightarrow> lost = {#}"
        "fm_type (fr_match flow) = ECPRI \<and> fst out \<noteq> SUCCESS \<longrightarrow> lost = mset acts"
        using install_match_spec [OF m(1) sub _ m(2) im] by auto
      have "acts = []" if "\<not> flow_rule_has_transform_actions flow"
        using m(3) that by (auto simp: flow_rule_has_transform_actions_def flow_actions_have_transform_def filter_empty_conv list_ex_iff)
      then have "lost_by lib p flow dr (fst out) lost"
        using l(2-4) m(3) mk True by (auto simp: lost_by_def tidy_flow_def)
      then show ?thesis using l(1) dest by auto
    qed
  qed
qed


lemma install_flow_rule_spec:
  assumes wf: "dr_wf dr" "dests_wf dests dr" and held: "\<forall>d. held d \<longleftrightarrow> d \<in> fst ` set dests"
    and i: "install_flow_rule_locked lib p lb queues held port intf flow fid prio True None st dests dr = (s, e, st', dests', dr')"
  shows "\<exists>lost. dr_wf dr' \<and> dests_wf dests' dr'
    \<and> live dr' + port_objs st + dest_objs dests =
        live dr + lost + port_objs st' + dest_objs dests' + (if s = SUCCESS then entry_objs e else {#})
    \<and> ps_rule_specs st' = ps_rule_specs st \<and> df_flow_id e = fid
    \<and> fst ` set dests' = fst ` set dests \<union> (if s = SUCCESS then set (option_list (df_rss_destination e)) else {})
    \<and> (s = SUCCESS \<longrightarrow> df_state e = FLOW_ACTIVE \<and> df_port e = port) \<and> lost_by lib p flow dr s lost"
proof (cases "ps_dropped st \<or> \<not> ps_table st")
  case True
  then show ?thesis using wf i
    by (intro exI [of _ "{#}"]) (auto simp: install_flow_rule_locked_def new_entry_def lost_by_def split: if_splits)
next
  case False
  let ?acts = "flow_rule_actions flow"
  obtain res st1 ds1 d1 where r: "resolve_rx_destination lib lb queues port (flow_queue_action ?acts)
      (list_ex (\<lambda>action. fa_type action = TUNNEL_DECAP) ?acts) st dests dr = (res, st1, ds1, d1)" by (rule prod_cases4)
  note rs = resolve_spec [OF wf r]
  have one: "d1 = dr \<and> res \<noteq> Inl GENERIC_FAILURE" if "length (flow_queue_ids (flow_queue_action ?acts)) = 1"
    using r that by (auto simp: resolve_rx_destination_def Let_def split: if_splits)
  show ?thesis
  proof (cases res)
    case (Inl stat)
    then have "lost_by lib p flow dr stat {#}" using one by (auto simp: lost_by_def)
    then show ?thesis using i False r rs Inl by (intro exI [of _ "{#}"]) (auto simp: install_flow_rule_locked_def new_entry_def)
  next
    case (Inr dest)
    obtain da pq rss where dest: "dest = (da, pq, rss)" by (rule prod_cases3)
    have at: "install_at lib p queues held port intf flow fid prio True None dest st1 ds1 d1 = (s, e, st', dests', dr')"
      using i False r Inr by (simp add: install_flow_rule_locked_def)
    obtain lost where ins: "installed held port fid rss st1 ds1 (live d1 + lost) (s, e, st', dests', dr')"
      and lost1: "lost_by lib p flow d1 s lost"
      using install_at_spec [OF _ _ at] rs dest by auto
    then have a: "dr_wf dr'" "dests_wf dests' dr'" "ps_rule_specs st' = ps_rule_specs st1" "df_flow_id e = fid"
      "live dr' + port_objs st1 + dest_objs ds1 =
         live d1 + lost + port_objs st' + dest_objs dests' + (if s = SUCCESS then entry_objs e else {#})"
      "s = SUCCESS \<Longrightarrow> dests' = ds1 \<and> df_rss_destination e = rss \<and> df_state e = FLOW_ACTIVE \<and> df_port e = port"
      "s \<noteq> SUCCESS \<Longrightarrow> fst ` set dests' = fst ` set ds1 - {x. rss = Some x \<and> \<not> held x}"
      by (auto simp: installed_def)
    have lost: "lost_by lib p flow dr s lost" using lost1 one by (auto simp: lost_by_def)
    have keys: "fst ` set ds1 = fst ` set dests \<union> set (option_list rss)" using rs Inr dest by simp
    have "fst ` set dests' = fst ` set dests" if "s \<noteq> SUCCESS"
      using a(7) [OF that] keys held by (cases rss) auto
    moreover have "live dr' + port_objs st + dest_objs dests =
        live dr + lost + port_objs st' + dest_objs dests' + (if s = SUCCESS then entry_objs e else {#})"
    proof -
      let ?E = "if s = SUCCESS then entry_objs e else {#}"
      have d: "live d1 + dest_objs dests = live dr + dest_objs ds1" and st1: "port_objs st1 = port_objs st" using rs by auto
      have "live dr' + port_objs st + dest_objs dests + (live d1 + dest_objs ds1)
          = (live dr' + port_objs st + dest_objs ds1) + (live d1 + dest_objs dests)" by (simp only: mset_balance)
      also have "\<dots> = (live d1 + lost + port_objs st' + dest_objs dests' + ?E) + (live dr + dest_objs ds1)"
        unfolding d using a(5) st1 by simp
      also have "\<dots> = live dr + lost + port_objs st' + dest_objs dests' + ?E + (live d1 + dest_objs ds1)" by (simp only: mset_balance)
      finally have "live dr' + port_objs st + dest_objs dests + (live d1 + dest_objs ds1)
          = live dr + lost + port_objs st' + dest_objs dests' + ?E + (live d1 + dest_objs ds1)" .
      then show ?thesis by (rule add_right_imp_eq)
    qed
    ultimately show ?thesis using a rs keys lost by (intro exI [of _ lost]) auto
  qed
qed

end
