(* ===== verification/Flow_Ops.thy ===== *)
theory Flow_Ops
  imports Flow_Objects
begin

text \<open>
  The asynchronous flow operations of the ibverbs engine, \<^verbatim>\<open>add_rx_flow_async\<close>,
  \<^verbatim>\<open>add_rx_flows_async\<close>, \<^verbatim>\<open>delete_flow_async\<close> and \<^verbatim>\<open>poll_flow_op\<close>, over the state they share.
  Every operation runs under \<^verbatim>\<open>flow_lock_\<close>, so a history is a sequence of calls. Identifiers come
  from an allocator used through the locale of \<open>Flow_Ids\<close>; rules are installed by \<open>Flow_Steering\<close>.
\<close>

section \<open>Model\<close>

record FlowSys =
  fy_cfg :: NetworkConfig
  fy_initialized :: bool
  fy_queues :: "IbvRxQueue list"
  fy_steering :: "(int \<times> PortSteering) list"
  fy_dests :: "(nat \<times> RssDestination) list"
  fy_ids :: FlowIds
  fy_next_op :: u64
  fy_dyn :: "(u32 \<times> DynamicFlowEntry) list"
  fy_ready :: "FlowOpResult list"
  fy_dr :: Dr

definition find_interface_config :: "NetworkConfig \<Rightarrow> int \<Rightarrow> InterfaceConfig option" where
  "find_interface_config cfg port = find (\<lambda>intf. uint (if_port_id intf) = port) (nc_ifs cfg)"

definition validate_dynamic_rx_flow_locked :: "FlowSys \<Rightarrow> int \<Rightarrow> FlowRuleConfig \<Rightarrow> bool" where
  "validate_dynamic_rx_flow_locked sys port flow \<longleftrightarrow>
     fy_initialized sys \<and>
     (case find_interface_config (fy_cfg sys) port of
        None \<Rightarrow> False
      | Some intf \<Rightarrow>
          (let actions = flow_rule_actions flow; mt = fr_match flow;
               queue_ids = flow_queue_ids (flow_queue_action actions)
           in actions \<noteq> [] \<and> fa_type (last actions) = QUEUE \<and> length actions \<le> 7
              \<and> distinct queue_ids \<and> list_all (\<lambda>q. find_rx_queue (fy_queues sys) port (uint q) \<noteq> None) queue_ids
              \<and> \<not> (length queue_ids > 1 \<and> fm_type mt = ECPRI)
              \<and> \<not> list_ex (\<lambda>action. fa_type action = VLAN_PUSH \<or> fa_type action = TUNNEL_ENCAP) actions
              \<and> (if fm_type mt = FLEX_ITEM
                 then \<not> flow_actions_have_transform actions
                   \<and> find (\<lambda>c. fi_id c = fx_flex_item_id (fm_flex_item_match mt)) (rx_flex_items (if_rx intf)) \<noteq> None
                 else if fm_type mt = ECPRI
                 then \<not> (ec_match_id (fm_ecpri_match mt) \<and> \<not> ec_match_msg_type (fm_ecpri_match mt))
                 else fm_type mt = IPV4_UDP
                   \<and> (fm_udp_src mt > 0 \<or> fm_udp_dst mt > 0 \<or> fm_ipv4_src mt \<noteq> 0 \<or> fm_ipv4_dst mt \<noteq> 0 \<or> fm_ipv4_len mt > 0))))"

text \<open>Who holds an RSS destination: entries of dynamic flows and specifications of static rules.\<close>

definition rss_held :: "FlowSys \<Rightarrow> nat \<Rightarrow> bool" where
  "rss_held sys d \<longleftrightarrow> list_ex (\<lambda>(i, e). df_rss_destination e = Some d) (fy_dyn sys)
     \<or> list_ex (\<lambda>(port, st). list_ex (\<lambda>sp. sp_rss_destination sp = Some d) (ps_rule_specs st)) (fy_steering sys)"

definition put_steering :: "int \<Rightarrow> PortSteering \<Rightarrow> (int \<times> PortSteering) list \<Rightarrow> (int \<times> PortSteering) list" where
  "put_steering port st ports = map (\<lambda>(p, s). if p = port then (p, st) else (p, s)) ports"

definition create_dynamic_flow_locked :: "DrLib \<Rightarrow> pton \<Rightarrow> int \<Rightarrow> FlowRuleConfig \<Rightarrow> u32 \<Rightarrow> FlowSys \<Rightarrow> Status \<times> FlowSys" where
  "create_dynamic_flow_locked lib inet_pton port flow flow_id sys =
     (case find_interface_config (fy_cfg sys) port of
        None \<Rightarrow> (INVALID_PARAMETER, sys)
      | Some intf \<Rightarrow>
          (case map_of (fy_steering sys) port of
             None \<Rightarrow> (NOT_READY, sys)
           | Some steering \<Rightarrow>
               (let (status, entry, st, dests, dr) =
                      install_flow_rule_locked lib inet_pton (cc_loopback (nc_common (fy_cfg sys)) = LOOPBACK_TYPE_HW)
                        (fy_queues sys) (rss_held sys) port intf flow flow_id (ps_dynamic_priority steering) True None
                        steering (fy_dests sys) (fy_dr sys);
                    sys1 = sys\<lparr>fy_steering := put_steering port st (fy_steering sys), fy_dests := dests, fy_dr := dr\<rparr>
                in if status \<noteq> SUCCESS then (status, sys1)
                   else (SUCCESS, sys1\<lparr>fy_dyn := (flow_id, entry) # filter (\<lambda>p. fst p \<noteq> flow_id) (fy_dyn sys1)\<rparr>))))"

abbreviation dyn_ids :: "FlowSys \<Rightarrow> u32 list" where
  "dyn_ids sys \<equiv> map fst (fy_dyn sys)"

definition release_id :: "u32 \<Rightarrow> FlowSys \<Rightarrow> FlowSys" where
  "release_id flow_id sys = sys\<lparr>fy_ids := release_dynamic_flow_id_locked (dyn_ids sys) flow_id (fy_ids sys)\<rparr>"

definition enqueue_flow_completion_locked :: "FlowOpResult \<Rightarrow> FlowSys \<Rightarrow> FlowSys" where
  "enqueue_flow_completion_locked result sys = sys\<lparr>fy_ready := fy_ready sys @ [result]\<rparr>"

text \<open>The result of an operation is its status, the operation identifier written through the
  pointer (0 unless it was started), and the new state; \<open>ptr\<close> is false for a null pointer.\<close>

definition add_rx_flow_async :: "DrLib \<Rightarrow> pton \<Rightarrow> bool \<Rightarrow> int \<Rightarrow> FlowRuleConfig \<Rightarrow> FlowSys \<Rightarrow> Status \<times> u64 \<times> FlowSys" where
  "add_rx_flow_async lib inet_pton ptr port flow sys =
     (if \<not> ptr then (NULL_PTR, 0, sys)
      else if \<not> validate_dynamic_rx_flow_locked sys port flow then (INVALID_PARAMETER, 0, sys)
      else
        (let (flow_id, ids) = allocate_dynamic_flow_id_locked (dyn_ids sys) (fy_ids sys);
             sys1 = sys\<lparr>fy_ids := ids\<rparr>
         in if flow_id = 0 then (NO_SPACE_AVAILABLE, 0, sys1)
            else
              (let (op_id, next_op) = allocate_flow_op_id_locked (fy_next_op sys1);
                   (status, sys2) = create_dynamic_flow_locked lib inet_pton port flow flow_id (sys1\<lparr>fy_next_op := next_op\<rparr>);
                   (reported, sys3) = (if status \<noteq> SUCCESS then (0, release_id flow_id sys2) else (flow_id, sys2))
               in (SUCCESS, op_id,
                   enqueue_flow_completion_locked
                     \<lparr>fo_op_id = op_id, fo_type = ADD_RX, fo_status = status, fo_flow_id = reported, fo_flow_ids = [reported]\<rparr> sys3))))"

primrec create_batch :: "DrLib \<Rightarrow> pton \<Rightarrow> int \<Rightarrow> (FlowRuleConfig \<times> u32) list \<Rightarrow> Status \<Rightarrow> FlowSys \<Rightarrow> Status \<times> u32 list \<times> FlowSys" where
  "create_batch lib inet_pton port [] result sys = (result, [], sys)"
| "create_batch lib inet_pton port (fi # rest) result sys =
     (let (status, sys1) = create_dynamic_flow_locked lib inet_pton port (fst fi) (snd fi) sys
      in if status \<noteq> SUCCESS
         then (let (final, ids, sys2) = create_batch lib inet_pton port rest status (release_id (snd fi) sys1)
               in (final, 0 # ids, sys2))
         else (let (final, ids, sys2) = create_batch lib inet_pton port rest result sys1
               in (final, snd fi # ids, sys2)))"

definition add_rx_flows_async :: "DrLib \<Rightarrow> pton \<Rightarrow> bool \<Rightarrow> int \<Rightarrow> FlowRuleConfig list \<Rightarrow> FlowSys \<Rightarrow> Status \<times> u64 \<times> FlowSys" where
  "add_rx_flows_async lib inet_pton ptr port flows sys =
     (if \<not> ptr then (NULL_PTR, 0, sys)
      else if flows = [] then (INVALID_PARAMETER, 0, sys)
      else if \<not> list_all (validate_dynamic_rx_flow_locked sys port) flows then (INVALID_PARAMETER, 0, sys)
      else if \<not> has_dynamic_flow_id_capacity_locked (dyn_ids sys) (fy_ids sys) (length flows) then (NO_SPACE_AVAILABLE, 0, sys)
      else
        (let (enough, flow_ids, ids) = take_ids (allocate_dynamic_flow_id_locked (dyn_ids sys)) (length flows) [] (fy_ids sys);
             sys1 = sys\<lparr>fy_ids := ids\<rparr>
         in if \<not> enough then (NO_SPACE_AVAILABLE, 0, fold release_id flow_ids sys1)
            else
              (let (op_id, next_op) = allocate_flow_op_id_locked (fy_next_op sys1);
                   (status, reported, sys2) =
                     create_batch lib inet_pton port (zip flows flow_ids) SUCCESS (sys1\<lparr>fy_next_op := next_op\<rparr>)
               in (SUCCESS, op_id,
                   enqueue_flow_completion_locked
                     \<lparr>fo_op_id = op_id, fo_type = ADD_RX_BATCH, fo_status = status, fo_flow_id = 0, fo_flow_ids = reported\<rparr> sys2))))"

text \<open>Erasing the entry drops its reference to an RSS destination.\<close>

definition erase_flow :: "u32 \<Rightarrow> DynamicFlowEntry \<Rightarrow> FlowSys \<Rightarrow> FlowSys" where
  "erase_flow flow_id entry sys =
     (let (entry', dr1) = destroy_dynamic_flow_entry_locked (entry\<lparr>df_state := FLOW_DELETING\<rparr>) (fy_dr sys);
          sys1 = sys\<lparr>fy_dyn := filter (\<lambda>p. fst p \<noteq> flow_id) (fy_dyn sys)\<rparr>;
          (dests, dr2) = drop_destination (rss_held sys1) (df_rss_destination entry') (fy_dests sys1) dr1
      in sys1\<lparr>fy_dests := dests, fy_dr := dr2\<rparr>)"

definition delete_flow_async :: "bool \<Rightarrow> u32 \<Rightarrow> FlowSys \<Rightarrow> Status \<times> u64 \<times> FlowSys" where
  "delete_flow_async ptr flow_id sys =
     (if \<not> ptr then (NULL_PTR, 0, sys)
      else if \<not> fy_initialized sys then (NOT_READY, 0, sys)
      else if flow_id = 0 \<or> flow_id \<in> set (fi_static (fy_ids sys)) then (INVALID_PARAMETER, 0, sys)
      else
        (case map_of (fy_dyn sys) flow_id of
           None \<Rightarrow> (INVALID_PARAMETER, 0, sys)
         | Some entry \<Rightarrow>
             if df_state entry \<noteq> FLOW_ACTIVE then (INVALID_PARAMETER, 0, sys)
             else
               (let (op_id, next_op) = allocate_flow_op_id_locked (fy_next_op sys);
                    sys1 = release_id flow_id (erase_flow flow_id entry (sys\<lparr>fy_next_op := next_op\<rparr>))
                in (SUCCESS, op_id,
                    enqueue_flow_completion_locked
                      \<lparr>fo_op_id = op_id, fo_type = DELETE, fo_status = SUCCESS, fo_flow_id = flow_id, fo_flow_ids = [flow_id]\<rparr>
                      sys1))))"

definition poll_flow_op :: "bool \<Rightarrow> FlowSys \<Rightarrow> Status \<times> FlowOpResult option \<times> FlowSys" where
  "poll_flow_op ptr sys =
     (if \<not> ptr then (NULL_PTR, None, sys)
      else (case fy_ready sys of
              [] \<Rightarrow> (NOT_READY, None, sys)
            | result # rest \<Rightarrow> (SUCCESS, Some result, sys\<lparr>fy_ready := rest\<rparr>)))"

primrec destroy_entries :: "(u32 \<times> DynamicFlowEntry) list \<Rightarrow> Dr \<Rightarrow> Dr" where
  "destroy_entries [] dr = dr"
| "destroy_entries (p # ps) dr = destroy_entries ps (snd (destroy_dynamic_flow_entry_locked (snd p) dr))"

primrec drop_destinations ::
  "(nat \<Rightarrow> bool) \<Rightarrow> (u32 \<times> DynamicFlowEntry) list \<Rightarrow> (nat \<times> RssDestination) list \<Rightarrow> Dr \<Rightarrow> (nat \<times> RssDestination) list \<times> Dr" where
  "drop_destinations held [] dests dr = (dests, dr)"
| "drop_destinations held (p # ps) dests dr =
     (let (dests1, dr1) = drop_destination (\<lambda>d. held d \<or> list_ex (\<lambda>(i, e). df_rss_destination e = Some d) ps)
            (df_rss_destination (snd p)) dests dr
      in drop_destinations held ps dests1 dr1)"

definition cleanup_dynamic_flows_locked :: "FlowSys \<Rightarrow> FlowSys" where
  "cleanup_dynamic_flows_locked sys =
     (let dr1 = destroy_entries (fy_dyn sys) (fy_dr sys);
          (dests, dr2) = drop_destinations (rss_held (sys\<lparr>fy_dyn := []\<rparr>)) (fy_dyn sys) (fy_dests sys) dr1
      in sys\<lparr>fy_dyn := [], fy_dests := dests, fy_dr := dr2, fy_ready := []\<rparr>)"

definition rx_queue_has_flow_dependency :: "FlowSys \<Rightarrow> int \<Rightarrow> int \<Rightarrow> bool" where
  "rx_queue_has_flow_dependency sys port queue_id \<longleftrightarrow>
     0 \<le> port \<and> nat port < length (nc_ifs (fy_cfg sys)) \<and>
     (let q = word_of_int queue_id :: u16;
          in_rss = (\<lambda>rss. case rss of None \<Rightarrow> False
             | Some d \<Rightarrow> (case map_of (fy_dests sys) d of None \<Rightarrow> False | Some r \<Rightarrow> q \<in> set (rd_queue_ids r)))
      in list_ex (\<lambda>flow. q \<in> set (flow_queue_ids (flow_queue_action (flow_config_actions flow))))
           (rx_flows (if_rx (nc_ifs (fy_cfg sys) ! nat port)))
         \<or> list_ex (\<lambda>(i, e). df_port e = port \<and> df_state e = FLOW_ACTIVE \<and> (df_queue e = q \<or> in_rss (df_rss_destination e))) (fy_dyn sys)
         \<or> (case map_of (fy_steering sys) port of
              None \<Rightarrow> False
            | Some st \<Rightarrow>
                (let target = (case find (\<lambda>rq. rq_port_id rq = port \<and> rq_queue_id rq = queue_id) (fy_queues sys) of
                                 None \<Rightarrow> None | Some rq \<Rightarrow> rq_dr_action rq)
                 in list_ex (\<lambda>sp. (target \<noteq> None \<and> Some (sp_action sp) = target) \<or> in_rss (sp_rss_destination sp)) (ps_rule_specs st))))"


section \<open>Invariant\<close>

definition ports_objs :: "(int \<times> PortSteering) list \<Rightarrow> nat multiset" where
  "ports_objs ports = sum_list (map (port_objs \<circ> snd) ports)"

definition dyn_objs :: "(u32 \<times> DynamicFlowEntry) list \<Rightarrow> nat multiset" where
  "dyn_objs dyn = sum_list (map (entry_objs \<circ> snd) dyn)"

definition flow_objs :: "FlowSys \<Rightarrow> nat multiset" where
  "flow_objs sys = ports_objs (fy_steering sys) + dest_objs (fy_dests sys) + dyn_objs (fy_dyn sys)"

text \<open>\<open>base\<close> are the device objects that belong to queues; \<open>P\<close> the identifiers handed out and not yet
  installed. The destinations alive are those somebody holds.\<close>

definition flow_inv :: "nat multiset \<Rightarrow> u32 set \<Rightarrow> FlowSys \<Rightarrow> bool" where
  "flow_inv base P sys \<longleftrightarrow> dr_wf (fy_dr sys) \<and> dests_wf (fy_dests sys) (fy_dr sys)
     \<and> distinct (map fst (fy_steering sys)) \<and> distinct (dyn_ids sys)
     \<and> (\<forall>(i, e)\<in>set (fy_dyn sys). df_flow_id e = i \<and> df_state e = FLOW_ACTIVE)
     \<and> (\<forall>d. rss_held sys d \<longleftrightarrow> d \<in> fst ` set (fy_dests sys))
     \<and> flow_ids_ok (dyn_ids sys) P (fy_ids sys)
     \<and> live (fy_dr sys) = base + flow_objs sys"

lemma flow_invD:
  assumes "flow_inv base P sys"
  shows "dr_wf (fy_dr sys)" "dests_wf (fy_dests sys) (fy_dr sys)" "distinct (map fst (fy_steering sys))" "distinct (dyn_ids sys)"
    "\<And>i e. (i, e) \<in> set (fy_dyn sys) \<Longrightarrow> df_flow_id e = i \<and> df_state e = FLOW_ACTIVE"
    "\<And>d. rss_held sys d \<longleftrightarrow> d \<in> fst ` set (fy_dests sys)" "flow_ids_ok (dyn_ids sys) P (fy_ids sys)"
    "live (fy_dr sys) = base + flow_objs sys"
  using assms by (auto simp: flow_inv_def)

lemma put_steering_objs:
  assumes "distinct (map fst ports)" "map_of ports port = Some st"
  shows "ports_objs (put_steering port st' ports) + port_objs st = ports_objs ports + port_objs st'"
  using assms
proof (induction ports)
  case (Cons p ports)
  obtain q s where p: "p = (q, s)" by fastforce
  show ?case
  proof (cases "q = port")
    case True
    then have "port \<notin> fst ` set ports" using Cons.prems(1) p by simp
    then have "map (\<lambda>(p, s). if p = port then (p, st') else (p, s)) ports = ports" by (force intro: map_idI)
    then have "put_steering port st' ports = ports" by (simp add: put_steering_def)
    then show ?thesis using True Cons.prems p by (simp add: put_steering_def ports_objs_def mset_balance)
  next
    case False
    then show ?thesis using Cons p by (simp add: put_steering_def ports_objs_def mset_balance)
  qed
qed simp

lemma put_steering_keys [simp]: "map fst (put_steering port st ports) = map fst ports"
  by (simp add: put_steering_def o_def case_prod_unfold if_distrib cong: if_cong)

lemma put_steering_held:
  assumes "distinct (map fst ports)" "map_of ports port = Some st" "ps_rule_specs st' = ps_rule_specs st"
  shows "list_ex (\<lambda>(port, st). list_ex P (ps_rule_specs st)) (put_steering port st' ports)
    = list_ex (\<lambda>(port, st). list_ex P (ps_rule_specs st)) ports"
  using assms
proof (induction ports)
  case (Cons p ports)
  obtain q s where p: "p = (q, s)" by fastforce
  show ?case
  proof (cases "q = port")
    case True
    then have "port \<notin> fst ` set ports" using Cons.prems(1) p by simp
    then have "map (\<lambda>(p, s). if p = port then (p, st') else (p, s)) ports = ports" by (force intro: map_idI)
    then show ?thesis using True Cons.prems p by (simp add: put_steering_def)
  next
    case False
    then show ?thesis using Cons p by (simp add: put_steering_def)
  qed
qed simp

lemma dyn_objs_simps [simp]: "dyn_objs [] = {#}" "dyn_objs (p # ps) = entry_objs (snd p) + dyn_objs ps"
  by (simp_all add: dyn_objs_def)

lemma dyn_objs_remove:
  assumes "distinct (map fst dyn)" "map_of dyn i = Some e"
  shows "dyn_objs dyn = entry_objs e + dyn_objs (filter (\<lambda>p. fst p \<noteq> i) dyn)"
  using assms
proof (induction dyn)
  case (Cons p dyn)
  obtain j f where p: "p = (j, f)" by fastforce
  show ?case
  proof (cases "j = i")
    case True
    then have "filter (\<lambda>p. fst p \<noteq> i) dyn = dyn" using Cons.prems(1) p by (force intro: filter_True)
    then show ?thesis using True Cons.prems p by simp
  next
    case False
    then show ?thesis using Cons p by (simp add: mset_balance)
  qed
qed simp

section \<open>The operations keep the invariant\<close>

lemma flow_ids_install:
  "flow_ids_ok D P ids \<Longrightarrow> i \<in> P \<Longrightarrow> i \<notin> set D \<Longrightarrow> flow_ids_ok (i # D) (P - {i}) ids"
  by (auto simp: flow_ids_ok_def)

lemma flow_ids_cong: "set D = set D' \<Longrightarrow> flow_ids_ok D P ids = flow_ids_ok D' P ids"
  by (simp add: flow_ids_ok_def)

text \<open>What creating one flow does, for an identifier that was handed out for it.\<close>

definition created :: "nat multiset \<Rightarrow> u32 set \<Rightarrow> u32 \<Rightarrow> FlowSys \<Rightarrow> nat multiset \<Rightarrow> Status \<times> FlowSys \<Rightarrow> bool" where
  "created base P i sys lost out \<longleftrightarrow>
     (case out of (s, sys') \<Rightarrow>
        fy_ids sys' = fy_ids sys \<and> fy_ready sys' = fy_ready sys \<and> fy_cfg sys' = fy_cfg sys \<and> fy_initialized sys' = fy_initialized sys
        \<and> fy_queues sys' = fy_queues sys
        \<and> (if s = SUCCESS then flow_inv base (P - {i}) sys' \<and> (\<exists>e. fy_dyn sys' = (i, e) # fy_dyn sys)
           else flow_inv (base + lost) P sys' \<and> fy_dyn sys' = fy_dyn sys))"

lemma create_dynamic_flow_created:
  assumes inv: "flow_inv base P sys" and i: "i \<in> P" "i \<notin> set (dyn_ids sys)"
  shows "\<exists>lost. created base P i sys lost (create_dynamic_flow_locked lib p port flow i sys)
    \<and> lost_by lib p flow (fy_dr sys) (fst (create_dynamic_flow_locked lib p port flow i sys)) lost"
proof -
  note I = flow_invD [OF inv]
  show ?thesis
  proof (cases "find_interface_config (fy_cfg sys) port = None \<or> map_of (fy_steering sys) port = None")
    case True
    then show ?thesis using inv
      by (intro exI [of _ "{#}"]) (auto simp: created_def lost_by_def create_dynamic_flow_locked_def split: option.splits)
  next
    case False
    then obtain intf st where f: "find_interface_config (fy_cfg sys) port = Some intf" "map_of (fy_steering sys) port = Some st" by auto
    let ?out = "install_flow_rule_locked lib p (cc_loopback (nc_common (fy_cfg sys)) = LOOPBACK_TYPE_HW)
        (fy_queues sys) (rss_held sys) port intf flow i (ps_dynamic_priority st) True None st (fy_dests sys) (fy_dr sys)"
    obtain s e st' ds dr where out: "?out = (s, e, st', ds, dr)" by (rule prod_cases5)
    have "\<forall>d. rss_held sys d \<longleftrightarrow> d \<in> fst ` set (fy_dests sys)" using I(6) by blast
    from install_flow_rule_spec [OF I(1,2) this out] obtain lost where
      spec: "dr_wf dr" "dests_wf ds dr" "live dr + port_objs st + dest_objs (fy_dests sys) =
          live (fy_dr sys) + lost + port_objs st' + dest_objs ds + (if s = SUCCESS then entry_objs e else {#})"
        "ps_rule_specs st' = ps_rule_specs st" "df_flow_id e = i"
        "fst ` set ds = fst ` set (fy_dests sys) \<union> (if s = SUCCESS then set (option_list (df_rss_destination e)) else {})"
        "s = SUCCESS \<longrightarrow> df_state e = FLOW_ACTIVE \<and> df_port e = port"
      and lost: "lost_by lib p flow (fy_dr sys) s lost" by auto
    let ?sys1 = "sys\<lparr>fy_steering := put_steering port st' (fy_steering sys), fy_dests := ds, fy_dr := dr\<rparr>"
    have held: "rss_held ?sys1 = rss_held sys"
      using put_steering_held [OF I(3) f(2)] spec by (simp add: rss_held_def fun_eq_iff)
    have bal: "live dr = base + lost + (ports_objs (put_steering port st' (fy_steering sys)) + dest_objs ds + dyn_objs (fy_dyn sys))
        + (if s = SUCCESS then entry_objs e else {#})"
    proof -
      let ?P = "ports_objs (fy_steering sys)" and ?D = "dest_objs (fy_dests sys)" and ?E = "if s = SUCCESS then entry_objs e else {#}"
      have "live dr + port_objs st + ?D = base + (?P + ?D + dyn_objs (fy_dyn sys)) + lost + port_objs st' + dest_objs ds + ?E"
        using spec(3) I(8) by (simp add: flow_objs_def)
      then have "live dr + (port_objs st + ?D) = base + lost + ((?P + port_objs st') + dest_objs ds + dyn_objs (fy_dyn sys)) + ?E + ?D"
        by (simp only: mset_balance)
      also have "?P + port_objs st' = ports_objs (put_steering port st' (fy_steering sys)) + port_objs st"
        using put_steering_objs [OF I(3) f(2), of st'] by simp
      finally have "live dr + (port_objs st + ?D) = (base + lost + (ports_objs (put_steering port st' (fy_steering sys)) + dest_objs ds + dyn_objs (fy_dyn sys)) + ?E)
          + (port_objs st + ?D)" by (simp only: mset_balance)
      then show ?thesis by (rule add_right_imp_eq)
    qed
    show ?thesis
    proof (cases "s = SUCCESS")
      case False
      then have "flow_inv (base + lost) P ?sys1" using spec I bal held by (auto simp: flow_inv_def flow_objs_def)
      then show ?thesis using False f out lost by (intro exI [of _ lost]) (simp add: created_def create_dynamic_flow_locked_def Let_def)
    next
      case True
      let ?sys2 = "?sys1\<lparr>fy_dyn := (i, e) # fy_dyn sys\<rparr>"
      have "filter (\<lambda>p. fst p \<noteq> i) (fy_dyn sys) = fy_dyn sys" using i(2) by (force intro: filter_True)
      then have res: "create_dynamic_flow_locked lib p port flow i sys = (SUCCESS, ?sys2)"
        using True f out by (simp add: create_dynamic_flow_locked_def Let_def)
      have "rss_held ?sys2 d \<longleftrightarrow> rss_held sys d \<or> df_rss_destination e = Some d" for d
        using fun_cong [OF held, of d] by (auto simp: rss_held_def)
      then have "\<forall>d. rss_held ?sys2 d \<longleftrightarrow> d \<in> fst ` set ds" using spec True I(6) by (cases "df_rss_destination e") auto
      moreover have "flow_ids_ok (i # dyn_ids sys) (P - {i}) (fy_ids sys)" using flow_ids_install [OF I(7) i] .
      moreover have "lost = {#}" using lost True by (simp add: lost_by_def)
      ultimately have "flow_inv base (P - {i}) ?sys2"
        using spec I bal i True unfolding flow_inv_def by (auto simp: flow_objs_def mset_balance)
      then show ?thesis using res lost True by (intro exI [of _ lost]) (simp add: created_def)
    qed
  qed
qed


lemma release_id_inv:
  assumes "flow_inv base P sys" "i \<in> P" "i \<notin> set (dyn_ids sys)"
  shows "flow_inv base (P - {i}) (release_id i sys)"
proof -
  have "flow_ids_ok (dyn_ids sys) (P - {i}) (release_dynamic_flow_id_locked (dyn_ids sys) i (fy_ids sys))"
    using flow_ids.release_ok [OF flow_invD(7) [OF assms(1)] assms(2,3)] by blast
  then show ?thesis using assms(1) by (simp add: flow_inv_def release_id_def rss_held_def flow_objs_def)
qed

lemma release_id_keeps [simp]:
  "fy_dyn (release_id i sys) = fy_dyn sys" "fy_ready (release_id i sys) = fy_ready sys"
  "fi_static (fy_ids (release_id i sys)) = fi_static (fy_ids sys)"
  by (auto simp: release_id_def release_dynamic_flow_id_locked_def)

lemma flow_inv_other:
  "flow_inv base P (sys\<lparr>fy_next_op := n\<rparr>) = flow_inv base P sys" "flow_inv base P (sys\<lparr>fy_ready := r\<rparr>) = flow_inv base P sys"
  "flow_inv base P (enqueue_flow_completion_locked c sys) = flow_inv base P sys"
  by (simp_all add: flow_inv_def rss_held_def flow_objs_def enqueue_flow_completion_locked_def)

lemma flow_inv_ids:
  "flow_inv base P sys \<Longrightarrow> flow_ids_ok (dyn_ids sys) Q ids \<Longrightarrow> flow_inv base Q (sys\<lparr>fy_ids := ids\<rparr>)"
  by (simp add: flow_inv_def rss_held_def flow_objs_def)

lemma create_batch_spec:
  assumes "flow_inv base P sys" "distinct (map snd fis)" "set (map snd fis) \<subseteq> P" "set (map snd fis) \<inter> set (dyn_ids sys) = {}"
    "0 \<notin> P" "create_batch lib p port fis result sys = (final, reported, sys')"
  shows "\<exists>lost. flow_inv (base + lost) (P - set (map snd fis)) sys' \<and> size lost \<le> sum_list (map (\<lambda>fi. may_lose (fst fi)) fis)
    \<and> fy_ready sys' = fy_ready sys
    \<and> list_all2 (\<lambda>fi r. r = snd fi \<or> r = 0) fis reported
    \<and> (\<exists>new. fy_dyn sys' = new @ fy_dyn sys \<and> fst ` set new = set reported - {0})
    \<and> (final = SUCCESS \<longleftrightarrow> result = SUCCESS \<and> 0 \<notin> set reported)"
  using assms
proof (induction fis arbitrary: base P result sys final reported)
  case Nil
  then show ?case by (intro exI [of _ "{#}"]) simp
next
  case (Cons fi fis)
  obtain s sys1 where c: "create_dynamic_flow_locked lib p port (fst fi) (snd fi) sys = (s, sys1)" by fastforce
  have i: "snd fi \<in> P" "snd fi \<notin> set (dyn_ids sys)" "snd fi \<noteq> 0" using Cons.prems by auto
  have H: "distinct (map snd fis)" "set (map snd fis) \<subseteq> P - {snd fi}" "0 \<notin> P - {snd fi}"
    "set (map snd fis) \<inter> set (dyn_ids sys) = {}" "snd fi \<notin> snd ` set fis"
    using Cons.prems(2-5) by (simp_all add: subset_Diff_insert)
  obtain lost1 where cr: "created base P (snd fi) sys lost1 (s, sys1)" and l1: "size lost1 \<le> may_lose (fst fi)"
    using create_dynamic_flow_created [OF Cons.prems(1) i(1,2), of lib p port "fst fi"] c lost_by_size by fastforce
  have ready: "fy_ready sys1 = fy_ready sys" using cr by (simp add: created_def)
  have P: "P - set (map snd (fi # fis)) = P - {snd fi} - set (map snd fis)" by auto
  show ?case
  proof (cases "s = SUCCESS")
    case True
    obtain e where e: "fy_dyn sys1 = (snd fi, e) # fy_dyn sys" using cr True by (auto simp: created_def)
    obtain ids where r: "create_batch lib p port fis result sys1 = (final, ids, sys')" "reported = snd fi # ids"
      using Cons.prems(6) c True by (auto split: prod.splits)
    have inv1: "flow_inv base (P - {snd fi}) sys1" using cr True by (simp add: created_def)
    have di: "set (map snd fis) \<inter> set (dyn_ids sys1) = {}" using H(4,5) e by simp
    from Cons.IH [OF inv1 H(1,2) di H(3) r(1)] obtain lost new where
      IH: "flow_inv (base + lost) (P - {snd fi} - set (map snd fis)) sys'" "size lost \<le> sum_list (map (\<lambda>fi. may_lose (fst fi)) fis)"
        "fy_ready sys' = fy_ready sys1" "list_all2 (\<lambda>fi r. r = snd fi \<or> r = 0) fis ids"
        "final = SUCCESS \<longleftrightarrow> result = SUCCESS \<and> 0 \<notin> set ids"
      and new: "fy_dyn sys' = new @ fy_dyn sys1" "fst ` set new = set ids - {0}" by (elim exE conjE)
    have "fy_dyn sys' = (new @ [(snd fi, e)]) @ fy_dyn sys \<and> fst ` set (new @ [(snd fi, e)]) = set reported - {0}"
      using new e r(2) i(3) by auto
    then have "\<exists>new. fy_dyn sys' = new @ fy_dyn sys \<and> fst ` set new = set reported - {0}" by (rule exI)
    then show ?thesis using IH P ready r(2) i(3) by (intro exI [of _ lost]) simp
  next
    case False
    obtain ids where r: "create_batch lib p port fis s (release_id (snd fi) sys1) = (final, ids, sys')" "reported = 0 # ids"
      using Cons.prems(6) c False by (auto split: prod.splits)
    have e: "fy_dyn sys1 = fy_dyn sys" "flow_inv (base + lost1) P sys1" using cr False by (simp_all add: created_def)
    have inv1: "flow_inv (base + lost1) (P - {snd fi}) (release_id (snd fi) sys1)" using release_id_inv [OF e(2) i(1)] i(2) e(1) by simp
    have di: "set (map snd fis) \<inter> set (dyn_ids (release_id (snd fi) sys1)) = {}" using H(4) e(1) by simp
    from Cons.IH [OF inv1 H(1,2) di H(3) r(1)] obtain lost new where
      IH: "flow_inv (base + lost1 + lost) (P - {snd fi} - set (map snd fis)) sys'" "size lost \<le> sum_list (map (\<lambda>fi. may_lose (fst fi)) fis)"
        "fy_ready sys' = fy_ready (release_id (snd fi) sys1)" "list_all2 (\<lambda>fi r. r = snd fi \<or> r = 0) fis ids"
        "final = SUCCESS \<longleftrightarrow> s = SUCCESS \<and> 0 \<notin> set ids"
      and new: "fy_dyn sys' = new @ fy_dyn (release_id (snd fi) sys1)" "fst ` set new = set ids - {0}" by (elim exE conjE)
    have "\<exists>new. fy_dyn sys' = new @ fy_dyn sys \<and> fst ` set new = set reported - {0}"
      using new e(1) r(2) by (intro exI [of _ new]) simp
    then show ?thesis using IH P ready r(2) e(1) l1 False by (intro exI [of _ "lost1 + lost"]) (simp add: add.assoc)
  qed
qed

lemma add_rx_flow_cases:
  assumes inv: "flow_inv base {} sys" and v: "validate_dynamic_rx_flow_locked sys port flow"
    and a: "allocate_dynamic_flow_id_locked (dyn_ids sys) (fy_ids sys) = (i, ids)" "i \<noteq> 0"
    and out: "add_rx_flow_async lib p True port flow sys = (r, op, sys')"
  obtains status lost reported where "r = SUCCESS" "flow_inv (base + lost) {} sys'" "lost_by lib p flow (fy_dr sys) status lost"
    "reported = (if status = SUCCESS then i else 0)"
    "fy_ready sys' = fy_ready sys @ [\<lparr>fo_op_id = op, fo_type = ADD_RX, fo_status = status, fo_flow_id = reported, fo_flow_ids = [reported]\<rparr>]"
proof -
  have i: "i \<notin> set (dyn_ids sys)" "flow_ids_ok (dyn_ids sys) {i} ids" using flow_ids.alloc_some [OF flow_invD(7) [OF inv] a] by auto
  obtain op' n where o: "allocate_flow_op_id_locked (fy_next_op sys) = (op', n)" by fastforce
  let ?sys1 = "sys\<lparr>fy_ids := ids, fy_next_op := n\<rparr>"
  have inv1: "flow_inv base {i} ?sys1" using flow_inv_ids [OF inv i(2)] by (simp add: flow_inv_other)
  obtain s sys2 where c: "create_dynamic_flow_locked lib p port flow i ?sys1 = (s, sys2)" by fastforce
  obtain lost where cr: "created base {i} i ?sys1 lost (s, sys2)" and l: "lost_by lib p flow (fy_dr sys) s lost"
    using create_dynamic_flow_created [OF inv1, of i lib p port flow] i(1) c by auto
  let ?sys3 = "if s \<noteq> SUCCESS then release_id i sys2 else sys2"
  have inv3: "flow_inv (base + lost) {} ?sys3"
    using cr l release_id_inv [of "base + lost" "{i}" sys2 i] i(1) by (auto simp: created_def lost_by_def)
  have res: "r = SUCCESS" "op = op'" "sys' = enqueue_flow_completion_locked \<lparr>fo_op_id = op', fo_type = ADD_RX, fo_status = s,
        fo_flow_id = (if s \<noteq> SUCCESS then 0 else i), fo_flow_ids = [if s \<noteq> SUCCESS then 0 else i]\<rparr> ?sys3"
    using out v a o c by (auto simp: add_rx_flow_async_def split: if_splits)
  have "fy_ready ?sys3 = fy_ready sys" using cr by (simp add: created_def)
  then have "fy_ready sys' = fy_ready sys @ [\<lparr>fo_op_id = op, fo_type = ADD_RX, fo_status = s,
      fo_flow_id = if s = SUCCESS then i else 0, fo_flow_ids = [if s = SUCCESS then i else 0]\<rparr>]"
    using res by (simp add: enqueue_flow_completion_locked_def)
  then show thesis using that [of lost s "if s = SUCCESS then i else 0"] res inv3 l by (simp add: flow_inv_other)
qed

lemma add_rx_flow_inv:
  assumes inv: "flow_inv base {} sys"
  shows "\<exists>lost. flow_inv (base + lost) {} (snd (snd (add_rx_flow_async lib p ptr port flow sys))) \<and> size lost \<le> may_lose flow"
proof (cases "ptr \<and> validate_dynamic_rx_flow_locked sys port flow")
  case False
  then show ?thesis using inv by (intro exI [of _ "{#}"]) (auto simp: add_rx_flow_async_def)
next
  case True
  obtain i ids where a: "allocate_dynamic_flow_id_locked (dyn_ids sys) (fy_ids sys) = (i, ids)" by fastforce
  obtain r op sys' where out: "add_rx_flow_async lib p ptr port flow sys = (r, op, sys')" by (rule prod_cases3)
  show ?thesis
  proof (cases "i = 0")
    case i0: True
    then have "flow_ids_ok (dyn_ids sys) {} ids" using flow_ids.alloc_none [OF flow_invD(7) [OF inv]] a by blast
    then show ?thesis using i0 True a flow_inv_ids [OF inv] by (intro exI [of _ "{#}"]) (simp add: add_rx_flow_async_def)
  next
    case False
    have out': "add_rx_flow_async lib p True port flow sys = (r, op, sys')" using out True by simp
    from add_rx_flow_cases [OF inv _ a False out'] True obtain lost status where
      "flow_inv (base + lost) {} sys'" "lost_by lib p flow (fy_dr sys) status lost" by blast
    then show ?thesis using out lost_by_size by (intro exI [of _ lost]) auto
  qed
qed


text \<open>The capacity check makes the allocation loop of a batch succeed.\<close>

lemma add_rx_flows_cases:
  assumes inv: "flow_inv base {} sys" and v: "ptr" "flows \<noteq> []" "list_all (validate_dynamic_rx_flow_locked sys port) flows"
    and room: "length flows \<le> flow_ids_avail (dyn_ids sys) (fy_ids sys)"
    and out: "add_rx_flows_async lib p ptr port flows sys = (s, op, sys')"
  obtains ids status reported new lost where "s = SUCCESS" "op \<noteq> 0" "length ids = length flows" "distinct ids"
    "set ids \<inter> set (dyn_ids sys) = {}" "\<forall>i\<in>set ids. flow_id_valid (fy_ids sys) i" "flow_inv (base + lost) {} sys'"
    "size lost \<le> sum_list (map may_lose flows)"
    "fy_ready sys' = fy_ready sys @ [\<lparr>fo_op_id = op, fo_type = ADD_RX_BATCH, fo_status = status, fo_flow_id = 0, fo_flow_ids = reported\<rparr>]"
    "list_all2 (\<lambda>i r. r = i \<or> r = 0) ids reported" "fy_dyn sys' = new @ fy_dyn sys" "fst ` set new = set reported - {0}"
    "status = SUCCESS \<longleftrightarrow> 0 \<notin> set reported"
proof -
  note ok = flow_invD(7) [OF inv]
  have cap: "has_dynamic_flow_id_capacity_locked (dyn_ids sys) (fy_ids sys) (length flows)"
    using flow_ids.capacity_exact [OF ok] room by blast
  from flow_ids.capacity_suffices [OF ok cap] obtain ids st where
    t: "take_ids (allocate_dynamic_flow_id_locked (dyn_ids sys)) (length flows) [] (fy_ids sys) = (True, ids, st)"
    and ids: "length ids = length flows" "distinct ids" "set ids \<inter> set (dyn_ids sys) = {}"
      "\<forall>i\<in>set ids. i \<noteq> 0 \<and> flow_id_valid (fy_ids sys) i" "flow_ids_ok (dyn_ids sys) (set ids) st" by auto
  obtain op' n where o: "allocate_flow_op_id_locked (fy_next_op sys) = (op', n)" by fastforce
  let ?sys1 = "sys\<lparr>fy_ids := st, fy_next_op := n\<rparr>"
  obtain status reported sys2 where cb: "create_batch lib p port (zip flows ids) SUCCESS ?sys1 = (status, reported, sys2)"
    by (rule prod_cases3)
  have inv1: "flow_inv base (set ids) ?sys1" using flow_inv_ids [OF inv ids(5)] by (simp add: flow_inv_other)
  have snds: "map snd (zip flows ids) = ids" and fsts: "map (\<lambda>fi. may_lose (fst fi)) (zip flows ids) = map may_lose flows"
    using ids(1) map_map [of may_lose fst "zip flows ids"] by (simp_all add: comp_def)
  have "0 \<notin> set ids" using ids(4) by blast
  then obtain lost new where b: "flow_inv (base + lost) {} sys2" "size lost \<le> sum_list (map may_lose flows)" "fy_ready sys2 = fy_ready sys"
    "list_all2 (\<lambda>fi r. r = snd fi \<or> r = 0) (zip flows ids) reported"
    "fy_dyn sys2 = new @ fy_dyn sys" "fst ` set new = set reported - {0}"
    "status = SUCCESS \<longleftrightarrow> 0 \<notin> set reported"
    using create_batch_spec [OF inv1 _ _ _ _ cb] ids(2,3) unfolding snds fsts by auto
  have res: "s = SUCCESS" "op = op'" "sys' = enqueue_flow_completion_locked
      \<lparr>fo_op_id = op', fo_type = ADD_RX_BATCH, fo_status = status, fo_flow_id = 0, fo_flow_ids = reported\<rparr> sys2"
    using out v cap t o cb by (auto simp: add_rx_flows_async_def)
  have "list_all2 (\<lambda>i r. r = i \<or> r = 0) (map snd (zip flows ids)) reported" using b(4) by (simp add: list_all2_map1)
  moreover have "op' \<noteq> 0" using o by (auto simp: allocate_flow_op_id_locked_def Let_def split: if_splits)
  ultimately show ?thesis
    using that [of ids lost status reported new] ids b res snds
    by (simp add: flow_inv_other) (simp add: enqueue_flow_completion_locked_def)
qed

lemma add_rx_flows_inv:
  assumes inv: "flow_inv base {} sys"
  shows "\<exists>lost. flow_inv (base + lost) {} (snd (snd (add_rx_flows_async lib p ptr port flows sys)))
    \<and> size lost \<le> sum_list (map may_lose flows)"
proof (cases "ptr \<and> flows \<noteq> [] \<and> list_all (validate_dynamic_rx_flow_locked sys port) flows
    \<and> has_dynamic_flow_id_capacity_locked (dyn_ids sys) (fy_ids sys) (length flows)")
  case True
  then have room: "length flows \<le> flow_ids_avail (dyn_ids sys) (fy_ids sys)"
    using flow_ids.capacity_exact [OF flow_invD(7) [OF inv]] by blast
  obtain s op sys' where "add_rx_flows_async lib p ptr port flows sys = (s, op, sys')" by (rule prod_cases3)
  with True show ?thesis using add_rx_flows_cases [OF inv _ _ _ room] by (metis snd_conv)
next
  case False
  then show ?thesis using inv by (intro exI [of _ "{#}"]) (auto simp: add_rx_flows_async_def)
qed

lemma erase_flow_inv:
  assumes inv: "flow_inv base {} sys" and e: "map_of (fy_dyn sys) i = Some e"
  shows "flow_inv base {i} (erase_flow i e sys) \<and> fy_dyn (erase_flow i e sys) = filter (\<lambda>p. fst p \<noteq> i) (fy_dyn sys)"
proof -
  note I = flow_invD [OF inv]
  let ?dyn = "filter (\<lambda>p. fst p \<noteq> i) (fy_dyn sys)"
  let ?sys1 = "sys\<lparr>fy_dyn := ?dyn\<rparr>"
  let ?dr1 = "dr_destroy_all (entry_handles e) (fy_dr sys)"
  obtain ds dr where d: "drop_destination (rss_held ?sys1) (df_rss_destination e) (fy_dests sys) ?dr1 = (ds, dr)" by fastforce
  have out: "erase_flow i e sys = ?sys1\<lparr>fy_dests := ds, fy_dr := dr\<rparr>"
    using d by (simp add: erase_flow_def destroy_dynamic_flow_entry_locked_def entry_handles_def)
  have dyn: "dyn_objs (fy_dyn sys) = entry_objs e + dyn_objs ?dyn" using dyn_objs_remove [OF I(4) e] .
  have l1: "live ?dr1 = base + (ports_objs (fy_steering sys) + dest_objs (fy_dests sys) + dyn_objs ?dyn)"
    using I(1,8) dyn by (simp add: flow_objs_def entry_objs_def)
  have "dest_objs (fy_dests sys) \<subseteq># live ?dr1" unfolding l1
    by (metis (no_types, lifting) add.assoc add.commute mset_subset_eq_add_left)
  then have w: "dests_wf (fy_dests sys) ?dr1" using I(2) by (simp add: dests_wf_def)
  note dd = drop_destination_spec [OF _ w d]
  have ids: "(i, e) \<in> set (fy_dyn sys)" using e by (rule map_of_SomeD)
  have held: "rss_held sys x \<longleftrightarrow> rss_held ?sys1 x \<or> df_rss_destination e = Some x" for x
  proof
    assume "rss_held sys x"
    moreover have "(i, e') \<in> set (fy_dyn sys) \<Longrightarrow> e' = e" for e' using I(4) e by (metis map_of_is_SomeI option.inject)
    ultimately show "rss_held ?sys1 x \<or> df_rss_destination e = Some x"
      by (auto simp: rss_held_def list_ex_iff) blast
  next
    assume "rss_held ?sys1 x \<or> df_rss_destination e = Some x"
    then show "rss_held sys x" using ids by (auto simp: rss_held_def list_ex_iff)
  qed
  have "rss_held ?sys1 x \<longleftrightarrow> x \<in> fst ` set ds" for x
    using dd I(1) I(6) [of x] held [of x] by auto
  moreover have "live dr = base + (ports_objs (fy_steering sys) + dest_objs ds + dyn_objs ?dyn)"
  proof -
    have "live dr + dest_objs (fy_dests sys) = live ?dr1 + dest_objs ds" using dd I(1) by simp
    then have "live dr + dest_objs (fy_dests sys) =
        base + (ports_objs (fy_steering sys) + dest_objs ds + dyn_objs ?dyn) + dest_objs (fy_dests sys)"
      unfolding l1 by (simp only: mset_balance)
    then show ?thesis by (rule add_right_imp_eq)
  qed
  moreover have "flow_ids_ok (map fst ?dyn) {i} (fy_ids sys)"
  proof -
    have "set (map fst ?dyn) \<union> {i} = set (dyn_ids sys)" using ids by force
    then show ?thesis using I(7) by (auto simp: flow_ids_ok_def)
  qed
  moreover have "rss_held (?sys1\<lparr>fy_dests := ds, fy_dr := dr\<rparr>) = rss_held ?sys1" by (simp add: rss_held_def fun_eq_iff)
  moreover have "distinct (map fst ?dyn)" using I(4) by (simp add: distinct_map_filter)
  ultimately show ?thesis using dd I unfolding out by (auto simp: flow_inv_def flow_objs_def)
qed

lemma delete_flow_inv:
  assumes inv: "flow_inv base {} sys"
  shows "flow_inv base {} (snd (snd (delete_flow_async ptr i sys)))"
proof (cases "ptr \<and> fy_initialized sys \<and> i \<noteq> 0 \<and> i \<notin> set (fi_static (fy_ids sys))
    \<and> (\<exists>e. map_of (fy_dyn sys) i = Some e \<and> df_state e = FLOW_ACTIVE)")
  case False
  then show ?thesis using inv by (auto simp: delete_flow_async_def split: option.splits)
next
  case True
  then obtain e where e: "map_of (fy_dyn sys) i = Some e" "df_state e = FLOW_ACTIVE" by blast
  obtain op n where o: "allocate_flow_op_id_locked (fy_next_op sys) = (op, n)" by fastforce
  have inv1: "flow_inv base {} (sys\<lparr>fy_next_op := n\<rparr>)" using inv by (simp add: flow_inv_other)
  note er = erase_flow_inv [OF inv1, of i e]
  have "flow_inv base {} (release_id i (erase_flow i e (sys\<lparr>fy_next_op := n\<rparr>)))"
    using release_id_inv [of base "{i}" "erase_flow i e (sys\<lparr>fy_next_op := n\<rparr>)" i] er e by auto
  then show ?thesis using True e o by (simp add: delete_flow_async_def flow_inv_other)
qed

section \<open>Shutting down\<close>

lemma destroy_entries_live:
  "dr_wf dr \<Longrightarrow> dr_wf (destroy_entries dyn dr) \<and> live (destroy_entries dyn dr) = live dr - dyn_objs dyn"
  by (induction dyn arbitrary: dr) (simp_all add: destroy_dynamic_flow_entry_locked_def entry_objs_def)

lemma drop_destinations_spec:
  assumes "dr_wf dr" "dests_wf dests dr" "drop_destinations held dyn dests dr = (dests', dr')"
  shows "dr_wf dr' \<and> dests_wf dests' dr' \<and> live dr' + dest_objs dests = live dr + dest_objs dests'
    \<and> fst ` set dests' = fst ` set dests - {x. list_ex (\<lambda>(i, e). df_rss_destination e = Some x) dyn \<and> \<not> held x}"
  using assms
proof (induction dyn arbitrary: dests dr)
  case (Cons p dyn)
  let ?held = "\<lambda>d. held d \<or> list_ex (\<lambda>(i, e). df_rss_destination e = Some d) dyn"
  obtain ds1 dr1 where d: "drop_destination ?held (df_rss_destination (snd p)) dests dr = (ds1, dr1)" by fastforce
  note one = drop_destination_spec [OF Cons.prems(1,2) d]
  have "drop_destinations held dyn ds1 dr1 = (dests', dr')" using Cons.prems(3) d by simp
  note rest = Cons.IH [OF _ _ this]
  have "live dr' + dest_objs dests + (live dr1 + dest_objs ds1) = (live dr' + dest_objs ds1) + (live dr1 + dest_objs dests)"
    by (simp only: mset_balance)
  also have "\<dots> = (live dr1 + dest_objs dests') + (live dr + dest_objs ds1)" using one rest by simp
  also have "\<dots> = live dr + dest_objs dests' + (live dr1 + dest_objs ds1)" by (simp only: mset_balance)
  finally have "live dr' + dest_objs dests = live dr + dest_objs dests'" by (rule add_right_imp_eq)
  then show ?case using one rest by (cases p) auto
qed simp

lemma cleanup_inv:
  assumes inv: "flow_inv base {} sys"
  shows "flow_inv base {} (cleanup_dynamic_flows_locked sys)"
proof -
  note I = flow_invD [OF inv]
  let ?dr1 = "destroy_entries (fy_dyn sys) (fy_dr sys)" and ?sys0 = "sys\<lparr>fy_dyn := []\<rparr>"
  let ?P = "ports_objs (fy_steering sys)"
  obtain ds dr where d: "drop_destinations (rss_held ?sys0) (fy_dyn sys) (fy_dests sys) ?dr1 = (ds, dr)" by fastforce
  have l1: "dr_wf ?dr1" "live ?dr1 = base + (?P + dest_objs (fy_dests sys))"
    using destroy_entries_live [OF I(1)] I(8) by (auto simp: flow_objs_def add.assoc [symmetric])
  then have "dests_wf (fy_dests sys) ?dr1" using I(2) by (simp add: dests_wf_def mset_balance)
  note dd = drop_destinations_spec [OF l1(1) this d]
  have "live dr + dest_objs (fy_dests sys) = base + (?P + dest_objs ds) + dest_objs (fy_dests sys)"
    using dd l1(2) by (simp add: mset_balance)
  then have lv: "live dr = base + (?P + dest_objs ds)" by (rule add_right_imp_eq)
  have "rss_held sys x \<longleftrightarrow> rss_held ?sys0 x \<or> list_ex (\<lambda>(i, e). df_rss_destination e = Some x) (fy_dyn sys)" for x
    by (auto simp: rss_held_def)
  then have held: "rss_held ?sys0 x \<longleftrightarrow> x \<in> fst ` set ds" for x using dd I(6) [of x] by auto
  have "flow_ids_ok [] {} (fy_ids sys)" using I(7) by (auto simp: flow_ids_ok_def)
  moreover have "cleanup_dynamic_flows_locked sys = ?sys0\<lparr>fy_dests := ds, fy_dr := dr, fy_ready := []\<rparr>"
    using d by (simp add: cleanup_dynamic_flows_locked_def)
  moreover have "rss_held (?sys0\<lparr>fy_dests := ds, fy_dr := dr, fy_ready := []\<rparr>) = rss_held ?sys0" by (simp add: rss_held_def fun_eq_iff)
  ultimately show ?thesis using dd I held lv by (auto simp: flow_inv_def flow_objs_def)
qed

end
