(* ===== verification/Flow_Match.thy ===== *)
theory Flow_Match
  imports Flow_Objects
begin

text \<open>
  What an installed rule selects. A rule compares the masked header fields of a packet, and the
  masked sample registers, with its value; the criteria bits say which groups are compared. The
  reference is the meaning of the flow's match configuration.
\<close>

section \<open>Packets and rules\<close>

record Packet =
  pk_dmac :: "u8 list"
  pk_smac :: "u8 list"
  pk_ethertype :: u16
  pk_ip_proto :: u8
  pk_sport :: u16
  pk_dport :: u16
  pk_src :: u32             \<comment> \<open>addresses in host order\<close>
  pk_dst :: u32
  pk_sample :: "u32 \<Rightarrow> u32"   \<comment> \<open>the sample registers\<close>

fun hdr_field :: "Packet \<Rightarrow> MatchField \<Rightarrow> u32" where
  "hdr_field pk Ethertype = ucast (pk_ethertype pk)"
| "hdr_field pk IpProtocol = ucast (pk_ip_proto pk)"
| "hdr_field pk UdpSport = ucast (pk_sport pk)"
| "hdr_field pk UdpDport = ucast (pk_dport pk)"
| "hdr_field pk SrcIpv4 = pk_src pk"
| "hdr_field pk DstIpv4 = pk_dst pk"
| "hdr_field pk Dmac_47_16 = fst (split_mac_address (pk_dmac pk))"
| "hdr_field pk Dmac_15_0 = ucast (snd (split_mac_address (pk_dmac pk)))"
| "hdr_field pk Smac_47_16 = fst (split_mac_address (pk_smac pk))"
| "hdr_field pk Smac_15_0 = ucast (snd (split_mac_address (pk_smac pk)))"
| "hdr_field pk _ = 0"

definition outer_fields :: "MatchField list" where
  "outer_fields = [Ethertype, IpProtocol, UdpSport, UdpDport, SrcIpv4, DstIpv4, Dmac_47_16, Dmac_15_0, Smac_47_16, Smac_15_0]"

definition dr_matches :: "MatchParam \<Rightarrow> Packet \<Rightarrow> bool" where
  "dr_matches mp pk \<longleftrightarrow>
     (mp_outer mp \<longrightarrow> list_all (\<lambda>f. hdr_field pk f AND mp_mask mp f = mp_value mp f) outer_fields)
     \<and> (mp_misc4 mp \<longrightarrow>
          pk_sample pk (mp_mask mp SampleId0) AND mp_mask mp SampleValue0 = mp_value mp SampleValue0
          \<and> pk_sample pk (mp_mask mp SampleId1) AND mp_mask mp SampleValue1 = mp_value mp SampleValue1)"

text \<open>What a standard match asks for; \<open>len_sample\<close> is the register that holds the IPv4 total length.\<close>

definition flow_selects :: "FlowMatch \<Rightarrow> bool \<Rightarrow> u32 \<Rightarrow> Packet \<Rightarrow> bool" where
  "flow_selects mt rss len_sample pk \<longleftrightarrow>
     (em_match_dst (fm_ethernet_match mt) \<longrightarrow> pk_dmac pk = em_dst (fm_ethernet_match mt))
     \<and> (em_match_src (fm_ethernet_match mt) \<longrightarrow> pk_smac pk = em_src (fm_ethernet_match mt))
     \<and> (let udp = (rss \<and> fm_type mt \<noteq> ETHERNET) \<or> fm_udp_src mt \<noteq> 0 \<or> fm_udp_dst mt \<noteq> 0;
            ip = udp \<or> fm_ipv4_src mt \<noteq> 0 \<or> fm_ipv4_dst mt \<noteq> 0 \<or> fm_ipv4_len mt \<noteq> 0
        in (ip \<longrightarrow> pk_ethertype pk = 0x0800) \<and> (udp \<longrightarrow> pk_ip_proto pk = 17))
     \<and> (fm_udp_src mt \<noteq> 0 \<longrightarrow> pk_sport pk = fm_udp_src mt)
     \<and> (fm_udp_dst mt \<noteq> 0 \<longrightarrow> pk_dport pk = fm_udp_dst mt)
     \<and> (fm_ipv4_src mt \<noteq> 0 \<longrightarrow> pk_src pk = ntohl (fm_ipv4_src mt))
     \<and> (fm_ipv4_dst mt \<noteq> 0 \<longrightarrow> pk_dst pk = ntohl (fm_ipv4_dst mt))
     \<and> (fm_ipv4_len mt \<noteq> 0 \<longrightarrow> pk_sample pk len_sample AND 0xffff = ucast (fm_ipv4_len mt))"

section \<open>Masked comparison\<close>

lemma ucast_take_bit_self:
  "LENGTH('a) \<le> n \<Longrightarrow> take_bit n (ucast (x :: 'a::len word) :: 'b::len word) = ucast x"
  by (rule bit_word_eqI) (auto simp: bit_simps dest: bit_imp_le_length)

lemma ucast_mask16: "(ucast (x :: u16) :: u32) AND 0xffff = ucast x"
  using ucast_take_bit_self [of 16 x, where 'b = 32] by (simp add: take_bit_eq_mask mask_eq_exp_minus_1)

lemma ucast_mask8: "(ucast (x :: u8) :: u32) AND 0xff = ucast x"
  using ucast_take_bit_self [of 8 x, where 'b = 32] by (simp add: take_bit_eq_mask mask_eq_exp_minus_1)

lemma mask32: "(x :: u32) AND 0xffffffff = x"
  using take_bit_length_eq [of x] by (simp add: take_bit_eq_mask mask_eq_exp_minus_1)

lemma ucast_up_inj:
  fixes x y :: "'a::len word"
  assumes "LENGTH('a) \<le> LENGTH('b::len)"
  shows "(ucast x :: 'b word) = ucast y \<longleftrightarrow> x = y"
proof
  assume e: "(ucast x :: 'b word) = ucast y"
  show "x = y"
  proof (rule bit_word_eqI)
    fix n assume "n < LENGTH('a)"
    then show "bit x n = bit y n" using arg_cong [OF e, of "\<lambda>w. bit w n"] assms by (simp add: bit_simps)
  qed
qed simp

lemma ucast16_eq: "(ucast (x :: u16) :: u32) = ucast (y :: u16) \<longleftrightarrow> x = y"
  and ucast8_eq: "(ucast (v :: u8) :: u32) = ucast (w :: u8) \<longleftrightarrow> v = w"
  by (rule ucast_up_inj; simp)+

lemma byte_high_bit: "8 \<le> n \<Longrightarrow> \<not> bit (b :: u8) n"
  using bit_imp_le_length [of b n] by auto

lemma split_mac_bits:
  assumes "n < 8"
  shows "bit (mac ! 0) n = bit (fst (split_mac_address mac)) (n + 24)"
    "bit (mac ! 1) n = bit (fst (split_mac_address mac)) (n + 16)"
    "bit (mac ! 2) n = bit (fst (split_mac_address mac)) (n + 8)"
    "bit (mac ! 3) n = bit (fst (split_mac_address mac)) n"
    "bit (mac ! 4) n = bit (snd (split_mac_address mac)) (n + 8)"
    "bit (mac ! 5) n = bit (snd (split_mac_address mac)) n"
  using assms by (auto simp: split_mac_address_def bit_simps byte_high_bit)

lemma split_mac_inj:
  assumes "length a = 6" "length b = 6"
  shows "split_mac_address a = split_mac_address b \<longleftrightarrow> a = b"
proof
  assume e: "split_mac_address a = split_mac_address b"
  have eq: "a ! i = b ! i" if "i < 6" for i
  proof (rule bit_word_eqI)
    fix n assume "n < LENGTH(8)"
    then have n: "n < 8" by simp
    have "i = 0 \<or> i = 1 \<or> i = 2 \<or> i = 3 \<or> i = 4 \<or> i = 5" using that by auto
    then show "bit (a ! i) n = bit (b ! i) n" using split_mac_bits [OF n, of a] split_mac_bits [OF n, of b] e by auto
  qed
  show "a = b" by (rule nth_equalityI) (use assms eq in auto)
qed simp

lemmas match_defs =
  match_set_def pin_ipv4_def pin_ipv4_udp_def no_match_def match_ethernet_def match_ipv4_udp_def match_standard_def
  MLX5_ETHERTYPE_IPV4_def MLX5_IP_PROTOCOL_UDP_def MLX5_ETHERTYPE_ECPRI_def

text \<open>The fields of the standard match, one by one.\<close>

definition std_udp :: "FlowMatch \<Rightarrow> bool \<Rightarrow> bool" where
  "std_udp mt rss \<longleftrightarrow> (rss \<and> fm_type mt \<noteq> ETHERNET) \<or> fm_udp_src mt \<noteq> 0 \<or> fm_udp_dst mt \<noteq> 0"

definition std_ip :: "FlowMatch \<Rightarrow> bool \<Rightarrow> bool" where
  "std_ip mt rss \<longleftrightarrow> std_udp mt rss \<or> fm_ipv4_src mt \<noteq> 0 \<or> fm_ipv4_dst mt \<noteq> 0 \<or> fm_ipv4_len mt \<noteq> 0"

lemma match_standard_fields:
  fixes mt :: FlowMatch and rss :: bool and sid :: u32
  defines "em \<equiv> fm_ethernet_match mt" and "mp \<equiv> match_standard mt rss sid"
  shows "(mp_mask mp Ethertype, mp_value mp Ethertype) = (if std_ip mt rss then (0xffff, 0x0800) else (0, 0))"
    "(mp_mask mp IpProtocol, mp_value mp IpProtocol) = (if std_udp mt rss then (0xff, 17) else (0, 0))"
    "(mp_mask mp UdpSport, mp_value mp UdpSport) = (if fm_udp_src mt \<noteq> 0 then (0xffff, ucast (fm_udp_src mt)) else (0, 0))"
    "(mp_mask mp UdpDport, mp_value mp UdpDport) = (if fm_udp_dst mt \<noteq> 0 then (0xffff, ucast (fm_udp_dst mt)) else (0, 0))"
    "(mp_mask mp SrcIpv4, mp_value mp SrcIpv4) = (if fm_ipv4_src mt \<noteq> 0 then (0xffffffff, ntohl (fm_ipv4_src mt)) else (0, 0))"
    "(mp_mask mp DstIpv4, mp_value mp DstIpv4) = (if fm_ipv4_dst mt \<noteq> 0 then (0xffffffff, ntohl (fm_ipv4_dst mt)) else (0, 0))"
    "(mp_mask mp Dmac_47_16, mp_value mp Dmac_47_16) = (if em_match_dst em then (0xffffffff, fst (split_mac_address (em_dst em))) else (0, 0))"
    "(mp_mask mp Dmac_15_0, mp_value mp Dmac_15_0) = (if em_match_dst em then (0xffff, ucast (snd (split_mac_address (em_dst em)))) else (0, 0))"
    "(mp_mask mp Smac_47_16, mp_value mp Smac_47_16) = (if em_match_src em then (0xffffffff, fst (split_mac_address (em_src em))) else (0, 0))"
    "(mp_mask mp Smac_15_0, mp_value mp Smac_15_0) = (if em_match_src em then (0xffff, ucast (snd (split_mac_address (em_src em)))) else (0, 0))"
    "(mp_mask mp SampleId0, mp_mask mp SampleValue0, mp_value mp SampleValue0)
       = (if fm_ipv4_len mt \<noteq> 0 then (sid, 0xffff, ucast (fm_ipv4_len mt)) else (0, 0, 0))"
    "mp_mask mp SampleValue1 = 0" "mp_value mp SampleValue1 = 0"
    "mp_outer mp \<longleftrightarrow> std_ip mt rss \<or> em_match_dst em \<or> em_match_src em" "mp_misc4 mp \<longleftrightarrow> fm_ipv4_len mt \<noteq> 0"
  unfolding em_def mp_def
  by (auto simp: match_defs std_ip_def std_udp_def Let_def case_prod_unfold word_gt_0)


lemma masked_eq:
  "x AND m = v \<longleftrightarrow> (c \<longrightarrow> x AND k = w)" if "(m, v) = (if c then (k, w) else (0 :: u32, 0))"
  using that by (auto split: if_splits)

lemma standard_match_exact:
  assumes em: "fm_ethernet_match mt = em" and len: "length (em_dst em) = 6" "length (em_src em) = 6"
    "length (pk_dmac pk) = 6" "length (pk_smac pk) = 6"
  shows "dr_matches (match_standard mt rss sid) pk \<longleftrightarrow> flow_selects mt rss sid pk"
proof -
  note F = match_standard_fields [of mt rss sid, unfolded em]
  have mac: "split_mac_address a = split_mac_address b \<longleftrightarrow>
      fst (split_mac_address a) AND 0xffffffff = fst (split_mac_address b)
      \<and> ucast (snd (split_mac_address a)) AND 0xffff = (ucast (snd (split_mac_address b)) :: u32)" for a b
    by (simp add: mask32 ucast_mask16 ucast16_eq prod_eq_iff)
  have port: "(ucast (x :: u16) :: u32) AND 0xffff = ucast (y :: u16) \<longleftrightarrow> x = y" for x y by (simp add: ucast_mask16 ucast16_eq)
  have et: "(ucast (x :: u16) :: u32) AND 0xffff = 0x0800 \<longleftrightarrow> x = 0x0800" for x
    using port [of x "0x0800"] by simp
  have pr: "(ucast (x :: u8) :: u32) AND 0xff = 17 \<longleftrightarrow> x = 17" for x
    using ucast8_eq [of x 17] by (simp add: ucast_mask8)
  let ?mp = "match_standard mt rss sid"
  have dmac: "(c \<longrightarrow> fst (split_mac_address (pk_dmac pk)) AND 0xffffffff = fst (split_mac_address (em_dst em)))
      \<and> (c \<longrightarrow> ucast (snd (split_mac_address (pk_dmac pk))) AND 0xffff = (ucast (snd (split_mac_address (em_dst em))) :: u32))
      \<longleftrightarrow> (c \<longrightarrow> pk_dmac pk = em_dst em)" for c
    using split_mac_inj [OF len(3,1)] mac [of "pk_dmac pk" "em_dst em"] by blast
  have smac: "(c \<longrightarrow> fst (split_mac_address (pk_smac pk)) AND 0xffffffff = fst (split_mac_address (em_src em)))
      \<and> (c \<longrightarrow> ucast (snd (split_mac_address (pk_smac pk))) AND 0xffff = (ucast (snd (split_mac_address (em_src em))) :: u32))
      \<longleftrightarrow> (c \<longrightarrow> pk_smac pk = em_src em)" for c
    using split_mac_inj [OF len(4,2)] mac [of "pk_smac pk" "em_src em"] by blast
  have outer: "list_all (\<lambda>f. hdr_field pk f AND mp_mask ?mp f = mp_value ?mp f) outer_fields \<longleftrightarrow>
      (std_ip mt rss \<longrightarrow> pk_ethertype pk = 0x0800) \<and> (std_udp mt rss \<longrightarrow> pk_ip_proto pk = 17)
      \<and> (fm_udp_src mt \<noteq> 0 \<longrightarrow> pk_sport pk = fm_udp_src mt) \<and> (fm_udp_dst mt \<noteq> 0 \<longrightarrow> pk_dport pk = fm_udp_dst mt)
      \<and> (fm_ipv4_src mt \<noteq> 0 \<longrightarrow> pk_src pk = ntohl (fm_ipv4_src mt)) \<and> (fm_ipv4_dst mt \<noteq> 0 \<longrightarrow> pk_dst pk = ntohl (fm_ipv4_dst mt))
      \<and> (em_match_dst em \<longrightarrow> pk_dmac pk = em_dst em) \<and> (em_match_src em \<longrightarrow> pk_smac pk = em_src em)"
    unfolding outer_fields_def list.pred_inject hdr_field.simps
      masked_eq [OF F(1)] masked_eq [OF F(2)] masked_eq [OF F(3)] masked_eq [OF F(4)] masked_eq [OF F(5)]
      masked_eq [OF F(6)] masked_eq [OF F(7)] masked_eq [OF F(8)] masked_eq [OF F(9)] masked_eq [OF F(10)]
      port et pr mask32 simp_thms dmac [symmetric] smac [symmetric]
    by (simp only: conj_ac list.pred_inject simp_thms)
  have sample: "(mp_misc4 ?mp \<longrightarrow> pk_sample pk (mp_mask ?mp SampleId0) AND mp_mask ?mp SampleValue0 = mp_value ?mp SampleValue0
      \<and> pk_sample pk (mp_mask ?mp SampleId1) AND mp_mask ?mp SampleValue1 = mp_value ?mp SampleValue1)
      \<longleftrightarrow> (fm_ipv4_len mt \<noteq> 0 \<longrightarrow> pk_sample pk sid AND 0xffff = ucast (fm_ipv4_len mt))"
    using F(11-13,15) by (cases "fm_ipv4_len mt = 0") auto
  show ?thesis
    unfolding dr_matches_def outer sample F(14) flow_selects_def em Let_def
    by (simp only: std_ip_def std_udp_def) blast
qed


section \<open>The rule of an installed flow\<close>

lemma dr_create_obj: "dr_create lib obj dr = (Some h, dr') \<Longrightarrow> dr_objs dr' = (dr_objs dr)(h \<mapsto> obj) \<and> h = dr_calls dr \<and> dr_calls dr' = Suc h"
  by (auto simp: dr_create_def Let_def split: if_splits)

lemma create_dr_rule_object:
  assumes c: "create_dr_rule_locked lib mp dst prio fid refs jump dr = (Some (m, t, r, tm), dr')"
  shows "dr_objs dr' r = Some (DrRule m mp (option_list t @ refs @ [tm])) \<and> dr_objs dr' m = Some (DrMatcher prio mp)
    \<and> (fid \<noteq> 0 \<longrightarrow> (\<exists>h. t = Some h \<and> dr_objs dr' h = Some (DrTag fid)))"
proof -
  obtain dr1 where c1: "dr_create lib (DrMatcher prio mp) dr = (Some m, dr1)"
    using c by (auto simp: create_dr_rule_locked_def Let_def split: prod.splits option.splits if_splits)
  show ?thesis
  proof (cases "fid = 0")
    case True
    then have t: "t = None" and r: "dr_create lib (DrRule m mp (refs @ [tm])) dr1 = (Some r, dr')"
      using c c1 by (auto simp: create_dr_rule_locked_def Let_def split: prod.splits option.splits if_splits)
    show ?thesis using True t dr_create_obj [OF c1] dr_create_obj [OF r] by simp
  next
    case False
    obtain h dr2 where t: "t = Some h" "dr_create lib (DrTag fid) dr1 = (Some h, dr2)"
      and r: "dr_create lib (DrRule m mp (h # refs @ [tm])) dr2 = (Some r, dr')"
      using c c1 False by (auto simp: create_dr_rule_locked_def Let_def split: prod.splits option.splits if_splits)
    show ?thesis using t(1) dr_create_obj [OF c1] dr_create_obj [OF t(2)] dr_create_obj [OF r] by simp
  qed
qed

text \<open>Steps that create objects leave the older ones as they are.\<close>

definition dr_keeps :: "Dr \<Rightarrow> Dr \<Rightarrow> bool" where
  "dr_keeps dr dr' \<longleftrightarrow> dr_calls dr \<le> dr_calls dr' \<and> (\<forall>h<dr_calls dr. dr_objs dr' h = dr_objs dr h)"

lemma dr_keeps_refl [simp]: "dr_keeps dr dr"
  by (simp add: dr_keeps_def)

lemma dr_keeps_trans: "dr_keeps a b \<Longrightarrow> dr_keeps b c \<Longrightarrow> dr_keeps a c"
  by (auto simp: dr_keeps_def)

lemma dr_create_keeps: "dr_create lib obj dr = (x, dr') \<Longrightarrow> dr_keeps dr dr'"
  by (auto simp: dr_create_def dr_keeps_def Let_def split: if_splits)

lemma create_parser_node_keeps: "create_parser_node lib a c os dr = (x, dr') \<Longrightarrow> dr_keeps dr dr'"
  by (auto simp: create_parser_node_def dr_create_def dr_query_def dr_destroy_def dr_keeps_def Let_def split: if_splits)

lemma build_match_keeps: "build_match lib intf mt rss st dr = (r, st', dr') \<Longrightarrow> dr_keeps dr dr'"
  by (auto simp: build_match_def build_ecpri_match_locked_def Let_def dest: create_parser_node_keeps
      split: if_splits option.splits prod.splits)

lemma create_dr_rule_keeps:
  assumes "create_dr_rule_locked lib mp dst prio fid refs jump dr = (Some x, dr')"
  shows "dr_keeps dr dr'"
  using assms
  by (auto simp: create_dr_rule_locked_def Let_def split: prod.splits option.splits if_splits
      dest!: dr_create_keeps intro: dr_keeps_trans)

text \<open>The reformat action of a transform.\<close>

definition reformat_object :: "pton \<Rightarrow> FlowAction \<Rightarrow> DrObj option" where
  "reformat_object inet_pton action = map_option (\<lambda>(buffer, kind). DrReformat kind buffer) (build_reformat_buffer inet_pton action)"

lemma make_reformats_objects:
  assumes "make_reformats lib p actions acc dr = (True, acc', dr')"
  shows "\<exists>new. fst acc' = fst acc @ new \<and> dr_keeps dr dr' \<and> (\<forall>h\<in>set new. h < dr_calls dr')
    \<and> map (dr_objs dr') new = map (reformat_object p) (filter flow_action_is_transform actions)"
  using assms
proof (induction actions arbitrary: acc dr)
  case (Cons action actions)
  show ?case
  proof (cases "flow_action_is_transform action")
    case False
    with Cons show ?thesis by simp
  next
    case True
    obtain buffer kind h dr1 where b: "build_reformat_buffer p action = Some (buffer, kind)"
      and c: "dr_create lib (DrReformat kind buffer) dr = (Some h, dr1)"
      and r: "make_reformats lib p actions (fst acc @ [h], snd acc @ [buffer]) dr1 = (True, acc', dr')"
      using Cons.prems True by (auto split: option.splits prod.splits)
    obtain new where n: "fst acc' = (fst acc @ [h]) @ new" "dr_keeps dr1 dr'" "\<forall>h\<in>set new. h < dr_calls dr'"
      "map (dr_objs dr') new = map (reformat_object p) (filter flow_action_is_transform actions)"
      using Cons.IH [OF r] by auto
    have h: "dr_objs dr1 h = Some (DrReformat kind buffer)" "h < dr_calls dr1" using dr_create_obj [OF c] by simp_all
    then have "dr_objs dr' h = reformat_object p action" "h < dr_calls dr'" using n(2) b by (auto simp: dr_keeps_def reformat_object_def)
    moreover have "dr_keeps dr dr'" using dr_keeps_trans [OF dr_create_keeps [OF c] n(2)] .
    ultimately show ?thesis using n True by (intro exI [of _ "h # new"]) simp
  qed
qed simp

lemma install_fail_status: "install_fail held rss fid stat st dests dr = (s, e, st', dests', dr') \<Longrightarrow> s = stat"
  by (simp add: install_fail_def split: prod.splits)

lemma install_match_success:
  assumes wf: "dr_wf dr"
    and i: "install_match lib held port intf mt fid prio True jump dest rf st dests dr = (SUCCESS, e, st', dests', dr')"
  obtains mp att dr2 m t r tm where "build_match lib intf mt (df_rss_destination e \<noteq> None) st dr = (MatchOk mp att, st', dr2)"
    "create_dr_rule_locked lib mp (fst dest) prio fid (if att then fst rf else []) jump dr2 = (Some (m, t, r, tm), dr')"
    "df_rule e = Some r" "df_tag_action e = t" "df_matcher e = Some m" "df_reformat_actions e = fst rf"
    "snd dest = (df_queue e, df_rss_destination e)" "dests' = dests"
proof -
  obtain da pq rss where dest: "dest = (da, pq, rss)" by (rule prod_cases3)
  obtain acts bufs where rf: "rf = (acts, bufs)" by fastforce
  obtain res st2 d2 where bm: "build_match lib intf mt (rss \<noteq> None) st dr = (res, st2, d2)" by (rule prod_cases3)
  note bs = build_match_spec [OF wf bm]
  show thesis
  proof (cases res)
    case (MatchFail s b)
    then show thesis using i dest rf bm bs install_fail_status by (fastforce simp: install_match_def)
  next
    case (MatchOk mp att)
    obtain x d3 where cr: "create_dr_rule_locked lib mp da prio fid (if att then acts else []) jump d2 = (x, d3)" by fastforce
    show thesis
    proof (cases x)
      case None
      then show thesis using i dest rf bm MatchOk cr install_fail_status by (fastforce simp: install_match_def)
    next
      case (Some y)
      obtain m t r tm where y: "y = (m, t, r, tm)" by (rule prod_cases4)
      have e: "st' = st2" "dr' = d3" "df_rss_destination e = rss" "df_rule e = Some r" "df_tag_action e = t" "df_matcher e = Some m"
        "df_reformat_actions e = acts" "df_queue e = pq" "dests' = dests"
        using i dest rf bm MatchOk cr Some y by (auto simp: install_match_def)
      have "create_dr_rule_locked lib mp da prio fid (if att then fst rf else []) jump d2 = (Some (m, t, r, tm), dr')"
        unfolding rf fst_conv e(2) using cr Some y by simp
      then show thesis using that [of mp att d2 m t r tm] e bm MatchOk rf dest by auto
    qed
  qed
qed

text \<open>The action \<open>tm\<close> delivers to the entry's queue, or to its RSS destination.\<close>

definition delivers_to :: "IbvRxQueue list \<Rightarrow> int \<Rightarrow> (nat \<times> RssDestination) list \<Rightarrow> DynamicFlowEntry \<Rightarrow> nat \<Rightarrow> bool" where
  "delivers_to queues port dests e tm \<longleftrightarrow>
     (case df_rss_destination e of
        None \<Rightarrow> (\<exists>rq. find_rx_queue queues port (uint (df_queue e)) = Some rq \<and> rq_dr_action rq = Some tm)
      | Some d \<Rightarrow> (\<exists>r. map_of dests d = Some r \<and> rd_action r = tm))"

lemma resolve_target:
  assumes "resolve_rx_destination lib lb queues port qa inner st dests dr = (Inr (da, pq, rss), st', dests', dr')"
  shows "pq = hd (flow_queue_ids qa) \<and> (rss = None \<longleftrightarrow> length (flow_queue_ids qa) = 1)
    \<and> (case rss of None \<Rightarrow> \<exists>rq. find_rx_queue queues port (uint pq) = Some rq \<and> rq_dr_action rq = da
        | Some d \<Rightarrow> \<exists>r. map_of dests' d = Some r \<and> da = Some (rd_action r))"
proof (cases "length (flow_queue_ids qa) = 1")
  case True
  then obtain q where q: "flow_queue_ids qa = [q]" by (auto simp: length_Suc_conv)
  then show ?thesis using assms by (auto simp: resolve_rx_destination_def Let_def split: option.splits if_splits)
next
  case False
  then have "\<exists>d. rss = Some d \<and> pq = hd (flow_queue_ids qa) \<and> (\<exists>r. map_of dests' d = Some r \<and> da = Some (rd_action r))"
    using assms
    by (auto simp: resolve_rx_destination_def find_destination_def Let_def split: option.splits if_splits prod.splits) metis
  then show ?thesis using False by auto
qed

lemma create_dr_rule_terminal:
  "create_dr_rule_locked lib mp dst prio fid refs None dr = (Some (m, t, r, tm), dr') \<Longrightarrow> dst = Some tm"
  by (auto simp: create_dr_rule_locked_def Let_def split: prod.splits option.splits if_splits)

lemma install_success:
  assumes wf: "dr_wf dr" "dests_wf dests dr"
    and i: "install_flow_rule_locked lib p lb queues held port intf flow fid prio True None st dests dr = (SUCCESS, e, st', dests', dr')"
  obtains st1 dr0 bufs dr1 mp att dr2 da m t r tm where
    "make_reformats lib p (flow_rule_actions flow) ([], []) dr0 = (True, (df_reformat_actions e, bufs), dr1)"
    "build_match lib intf (fr_match flow) (df_rss_destination e \<noteq> None) st1 dr1 = (MatchOk mp att, st', dr2)"
    "create_dr_rule_locked lib mp da prio fid (if att then df_reformat_actions e else []) None dr2 = (Some (m, t, r, tm), dr')"
    "df_rule e = Some r" "df_tag_action e = t" "df_matcher e = Some m"
    "df_queue e = hd (flow_queue_ids (flow_queue_action (flow_rule_actions flow)))" "delivers_to queues port dests' e tm"
    "df_rss_destination e = None \<longleftrightarrow> length (flow_queue_ids (flow_queue_action (flow_rule_actions flow))) = 1"
proof -
  let ?acts = "flow_rule_actions flow"
  obtain res st1 ds1 d1 where r: "resolve_rx_destination lib lb queues port (flow_queue_action ?acts)
      (list_ex (\<lambda>action. fa_type action = TUNNEL_DECAP) ?acts) st dests dr = (res, st1, ds1, d1)" by (rule prod_cases4)
  note rs = resolve_spec [OF wf r]
  have ok: "\<not> ps_dropped st" "ps_table st" using i by (auto simp: install_flow_rule_locked_def split: if_splits)
  then obtain dest where dest: "res = Inr dest" using i r rs by (cases res) (auto simp: install_flow_rule_locked_def)
  obtain da pq rss where d: "dest = (da, pq, rss)" by (rule prod_cases3)
  have at: "install_at lib p queues held port intf flow fid prio True None dest st1 ds1 d1 = (SUCCESS, e, st', dests', dr')"
    using i r ok dest by (simp add: install_flow_rule_locked_def)
  obtain made ab d2 where mk: "make_reformats lib p ?acts ([], []) d1 = (made, ab, d2)" by (rule prod_cases3)
  obtain acts bufs where ab: "ab = (acts, bufs)" by fastforce
  have made: "find_rx_queue queues port (uint pq) \<noteq> None \<and> made"
    using at d mk ab install_fail_status by (fastforce simp: install_at_def split: option.splits if_splits)
  then have im: "install_match lib held port intf (fr_match flow) fid prio True None dest (acts, bufs) st1 ds1 d2 = (SUCCESS, e, st', dests', dr')"
    using at d mk ab by (auto simp: install_at_def)
  have "dr_wf d2" using make_reformats_spec [OF _ mk] rs by blast
  from install_match_success [OF this im] obtain mp att dr2 m t ru tm where
    s: "build_match lib intf (fr_match flow) (df_rss_destination e \<noteq> None) st1 d2 = (MatchOk mp att, st', dr2)"
    "create_dr_rule_locked lib mp da prio fid (if att then df_reformat_actions e else []) None dr2 = (Some (m, t, ru, tm), dr')"
    "df_rule e = Some ru" "df_tag_action e = t" "df_matcher e = Some m" "df_reformat_actions e = acts"
    "pq = df_queue e" "rss = df_rss_destination e" "dests' = ds1" unfolding d by (metis fst_conv snd_conv)
  note tg = resolve_target [OF r [unfolded dest d]]
  have "delivers_to queues port dests' e tm"
    using tg create_dr_rule_terminal [OF s(2)] s(7-9) by (auto simp: delivers_to_def split: option.splits)
  then show thesis using that [OF _ s(1-5)] mk ab made s(6-9) tg by auto
qed


lemma build_match_standard:
  assumes "build_match lib intf mt rss st dr = (MatchOk mp att, st', dr')" "fm_type mt \<noteq> FLEX_ITEM" "fm_type mt \<noteq> ECPRI"
  shows "att \<and> any_field mt \<and> mp = match_standard mt rss
    (if fm_ipv4_len mt > 0 then (case ps_ipv4_len_node st' of None \<Rightarrow> 0 | Some n \<Rightarrow> fn_sample_field_id n) else 0)"
  using assms by (auto simp: build_match_def any_field_def Let_def split: if_splits option.splits prod.splits)

lemma build_match_protocol:
  assumes "build_match lib intf mt rss st dr = (MatchOk mp att, st', dr')" "fm_type mt = FLEX_ITEM \<or> fm_type mt = ECPRI"
  shows "mp_mask mp Dmac_47_16 = 0" "mp_value mp Dmac_47_16 = 0" "mp_mask mp Dmac_15_0 = 0" "mp_value mp Dmac_15_0 = 0"
    "mp_mask mp Smac_47_16 = 0" "mp_value mp Smac_47_16 = 0" "mp_mask mp Smac_15_0 = 0" "mp_value mp Smac_15_0 = 0"
  using assms
  by (auto simp: build_match_def build_ecpri_match_locked_def match_flex_def match_ecpri_def match_set_def no_match_def Let_def
      split: if_splits option.splits prod.splits)

section \<open>Properties\<close>

text \<open>The register of the total length that the port's parse-graph node delivers.\<close>

definition len_sample :: "PortSteering \<Rightarrow> u32" where
  "len_sample st = (case ps_ipv4_len_node st of None \<Rightarrow> 0 | Some n \<Rightarrow> fn_sample_field_id n)"


text \<open>C36: the rule of an installed flex-item or eCPRI flow ignores the Ethernet addresses: it selects
  the same packets whatever their addresses, also when the flow asks for particular ones. The rule
  of an eCPRI flow also has none of the flow's transform actions.\<close>

theorem protocol_rule_ignores_ethernet:
  assumes "dr_wf dr" "dests_wf dests dr" "fm_type (fr_match flow) = FLEX_ITEM \<or> fm_type (fr_match flow) = ECPRI"
    "install_flow_rule_locked lib p lb queues held port intf flow fid prio True None st dests dr = (SUCCESS, e, st', dests', dr')"
  shows "\<exists>r m mp acts. df_rule e = Some r \<and> dr_objs dr' r = Some (DrRule m mp acts)
    \<and> (\<forall>pk dst src. dr_matches mp (pk\<lparr>pk_dmac := dst, pk_smac := src\<rparr>) \<longleftrightarrow> dr_matches mp pk)
    \<and> (fm_type (fr_match flow) = ECPRI \<longrightarrow> (\<exists>tm. acts = option_list (df_tag_action e) @ [tm]))"
proof -
  obtain st1 dr0 bufs dr1 mp att dr2 da m t r tm where
    b: "build_match lib intf (fr_match flow) (df_rss_destination e \<noteq> None) st1 dr1 = (MatchOk mp att, st', dr2)"
    and c: "create_dr_rule_locked lib mp da prio fid (if att then df_reformat_actions e else []) None dr2 = (Some (m, t, r, tm), dr')"
    and e: "df_rule e = Some r" "df_tag_action e = t" "df_matcher e = Some m"
    using install_success [OF assms(1,2,4)] by metis
  note z = build_match_protocol [OF b assms(3)]
  have "dr_matches mp (pk\<lparr>pk_dmac := dst, pk_smac := src\<rparr>) \<longleftrightarrow> dr_matches mp pk" for pk dst src
    by (simp add: dr_matches_def outer_fields_def z)
  moreover have "\<not> att" if "fm_type (fr_match flow) = ECPRI"
    using b that by (auto simp: build_match_def split: prod.splits option.splits)
  ultimately show ?thesis using e create_dr_rule_object [OF c]
    by (intro exI [of _ r] exI [of _ m] exI [of _ mp] exI [of _ "option_list t @ (if att then df_reformat_actions e else []) @ [tm]"]) auto
qed

text \<open>C32: the header that a transform action adds or removes is exactly as long as the overhead the
  configuration code reserves for it, and of the transform actions exactly a
  tunnel without a type or with an address that cannot be read is refused.\<close>

theorem reformat_length_is_overhead:
  "case build_reformat_buffer inet_pton action of
     None \<Rightarrow> flow_action_is_transform action =
         ((fa_type action = TUNNEL_ENCAP \<or> fa_type action = TUNNEL_DECAP)
         \<and> (tn_type (fa_tunnel action) = NONE \<or> inet_pton (tn_outer_ipv4_src (fa_tunnel action)) = None
            \<or> inet_pton (tn_outer_ipv4_dst (fa_tunnel action)) = None))
   | Some (data, kind) \<Rightarrow>
       length data = (if kind = L2_TO_L2_TUNNEL then flow_action_wire_overhead action else flow_decap_wire_overhead action)
       \<and> (kind = L2_TO_L2_TUNNEL \<longleftrightarrow> fa_type action = VLAN_PUSH \<or> fa_type action = TUNNEL_ENCAP)
       \<and> flow_action_is_transform action"
proof -
  have eth: "length (the (format_eth_addr True a)) = 6" for a
    by (auto simp: format_eth_addr_def parse_eth_addr_def kEthAddrLength_def split: option.splits sum.splits dest: parse_octets_length)
  show ?thesis
    by (cases "fa_type action"; cases "tn_type (fa_tunnel action)")
      (auto simp: build_reformat_buffer_def fill_tunnel_l2_l3_def Let_def flow_action_is_transform_def flow_action_wire_overhead_def
        flow_decap_wire_overhead_def be16_def be32_def le32_def set_u24_be_def eth sizeof_ethhdr_def sizeof_iphdr_def sizeof_udphdr_def
        split: option.splits)
qed


section \<open>A concrete installation\<close>

definition demo_rule_lib :: DrLib where
  "demo_rule_lib = \<lparr>dl_ok = \<lambda>_. True, dl_sample = \<lambda>n i. of_nat (16 * n + i)\<rparr>"

definition demo_rx_queue :: IbvRxQueue where
  "demo_rx_queue = \<lparr>rq_port_id = 0, rq_queue_id = 0, rq_state = ACTIVE, rq_dr_action = Some 0, rq_rqn = 5\<rparr>"

definition demo_steering :: PortSteering where
  "demo_steering = \<lparr>ps_table = True, ps_matchers = [], ps_rules = [], ps_tag_actions = [], ps_reformat_actions = [],
     ps_reformat_buffers = [], ps_rule_specs = [], ps_rss_destinations = [], ps_flex_nodes = [], ps_ipv4_len_node = None,
     ps_ecpri_node = None, ps_dropped = False, ps_dynamic_priority = 7\<rparr>"

definition demo_device :: Dr where
  "demo_device = \<lparr>dr_calls = 1, dr_objs = [0 \<mapsto> DrDest 0]\<rparr>"

definition pop_then_queue :: "FlowAction list" where
  "pop_then_queue = [default_FlowAction\<lparr>fa_type := VLAN_POP\<rparr>, default_FlowAction]"

definition demo_udp_rule :: FlowRuleConfig where
  "demo_udp_rule = \<lparr>fr_name = ''udp'', fr_action = default_FlowAction, fr_actions = pop_then_queue,
     fr_match = default_FlowMatch\<lparr>fm_udp_dst := 4000\<rparr>\<rparr>"

definition demo_ecpri_rule :: FlowRuleConfig where
  "demo_ecpri_rule = demo_udp_rule\<lparr>fr_match := default_FlowMatch\<lparr>fm_type := ECPRI,
     fm_ethernet_match := \<lparr>em_match_src = False, em_src = replicate 6 0, em_match_dst = True, em_dst = replicate 6 2\<rparr>\<rparr>\<rparr>"

abbreviation demo_install :: "FlowRuleConfig \<Rightarrow> Status \<times> DynamicFlowEntry \<times> PortSteering \<times> (nat \<times> RssDestination) list \<times> Dr" where
  "demo_install rule \<equiv> install_flow_rule_locked demo_rule_lib (\<lambda>_. None) False [demo_rx_queue] (\<lambda>_. False) 0 demo_if rule 9 7 True None
     demo_steering [] demo_device"

lemmas demo_rule_defs = demo_rule_lib_def demo_rx_queue_def demo_steering_def demo_device_def demo_udp_rule_def demo_ecpri_rule_def
  pop_then_queue_def default_FlowAction_def default_FlowMatch_def

lemmas install_defs = install_flow_rule_locked_def install_at_def install_match_def resolve_rx_destination_def find_rx_queue_def
  flow_rule_actions_def flow_queue_action_def flow_queue_ids_def flow_action_is_transform_def build_reformat_buffer_def
  dr_create_def build_match_def build_ecpri_match_locked_def create_dr_rule_locked_def new_entry_def any_field_def Let_def

lemma demo_device_wf: "dr_wf demo_device" "dests_wf [] demo_device"
  by (simp_all add: demo_device_def dr_wf_def dests_wf_def)

lemma demo_udp_installed: "\<exists>e st dests dr. demo_install demo_udp_rule = (SUCCESS, e, st, dests, dr) \<and> df_rule e = Some 4
    \<and> df_reformat_actions e = [1] \<and> df_rss_destination e = None"
  by (simp add: install_defs demo_rule_defs word_gt_0)

lemma demo_ecpri_installed: "\<exists>e st dests dr. demo_install demo_ecpri_rule = (SUCCESS, e, st, dests, dr) \<and> df_rule e = Some 4
    \<and> df_reformat_actions e = [1] \<and> df_rss_destination e = None"
  by (simp add: install_defs demo_rule_defs word_gt_0)


theorem protocol_rule_ignores_ethernet_witness:
  "em_match_dst (fm_ethernet_match (fr_match demo_ecpri_rule)) \<and>
   (\<exists>e st dests dr m mp acts. demo_install demo_ecpri_rule = (SUCCESS, e, st, dests, dr) \<and> dr_objs dr 4 = Some (DrRule m mp acts)
    \<and> (\<forall>pk dst src. dr_matches mp (pk\<lparr>pk_dmac := dst, pk_smac := src\<rparr>) \<longleftrightarrow> dr_matches mp pk))"
proof -
  obtain e st dests dr where i: "demo_install demo_ecpri_rule = (SUCCESS, e, st, dests, dr)" and e: "df_rule e = Some 4"
    using demo_ecpri_installed by blast
  have "fm_type (fr_match demo_ecpri_rule) = FLEX_ITEM \<or> fm_type (fr_match demo_ecpri_rule) = ECPRI" by (simp add: demo_rule_defs)
  from protocol_rule_ignores_ethernet [OF demo_device_wf this i] i e show ?thesis by (auto simp: demo_ecpri_rule_def)
qed

end
