(* ===== verification/Flow_History.thy ===== *)
theory Flow_History
  imports Flow_Ops Flow_Match
begin

text \<open>
  Histories of the asynchronous flow operations: any sequence of calls on the engine keeps the
  account of the device objects and of the identifiers, a batch gets its identifiers all or not at
  all, and the way in which the code loses device objects.
\<close>

section \<open>Calls\<close>

datatype FlowCall =
    AddFlow bool int FlowRuleConfig
  | AddFlows bool int "FlowRuleConfig list"
  | DeleteFlow bool u32
  | PollFlow bool
  | Cleanup

definition flow_call :: "DrLib \<Rightarrow> pton \<Rightarrow> FlowCall \<Rightarrow> FlowSys \<Rightarrow> FlowSys" where
  "flow_call lib inet_pton c sys =
     (case c of
        AddFlow ptr port flow \<Rightarrow> snd (snd (add_rx_flow_async lib inet_pton ptr port flow sys))
      | AddFlows ptr port flows \<Rightarrow> snd (snd (add_rx_flows_async lib inet_pton ptr port flows sys))
      | DeleteFlow ptr flow_id \<Rightarrow> snd (snd (delete_flow_async ptr flow_id sys))
      | PollFlow ptr \<Rightarrow> snd (snd (poll_flow_op ptr sys))
      | Cleanup \<Rightarrow> cleanup_dynamic_flows_locked sys)"

definition flow_calls :: "DrLib \<Rightarrow> pton \<Rightarrow> FlowCall list \<Rightarrow> FlowSys \<Rightarrow> FlowSys" where
  "flow_calls lib inet_pton cs sys = fold (flow_call lib inet_pton) cs sys"

text \<open>How many reformat actions a call may leave on the device without an owner.\<close>

definition call_may_lose :: "FlowCall \<Rightarrow> nat" where
  "call_may_lose c = (case c of AddFlow _ _ flow \<Rightarrow> may_lose flow | AddFlows _ _ flows \<Rightarrow> sum_list (map may_lose flows) | _ \<Rightarrow> 0)"

lemma flow_call_inv:
  assumes "flow_inv base {} sys"
  shows "\<exists>lost. flow_inv (base + lost) {} (flow_call lib p c sys) \<and> size lost \<le> call_may_lose c"
proof -
  have none: "\<exists>lost. flow_inv (base + lost) {} sys' \<and> size lost \<le> 0" if "flow_inv base {} sys'" for sys'
    using that by (intro exI [of _ "{#}"]) simp
  have "flow_inv base {} (snd (snd (poll_flow_op ptr sys)))" for ptr
    using assms by (auto simp: poll_flow_op_def flow_inv_other split: list.splits)
  then show ?thesis
    using none [OF cleanup_inv [OF assms]] none [OF delete_flow_inv [OF assms]] none
      add_rx_flow_inv [OF assms] add_rx_flows_inv [OF assms]
    by (cases c) (simp_all add: flow_call_def call_may_lose_def)
qed

lemma flow_calls_inv:
  "flow_inv base {} sys \<Longrightarrow> \<exists>lost. flow_inv (base + lost) {} (flow_calls lib p cs sys) \<and> size lost \<le> sum_list (map call_may_lose cs)"
proof (induction cs arbitrary: base sys)
  case Nil
  then show ?case by (intro exI [of _ "{#}"]) (simp add: flow_calls_def)
next
  case (Cons c cs)
  obtain l1 where l1: "flow_inv (base + l1) {} (flow_call lib p c sys)" "size l1 \<le> call_may_lose c"
    using flow_call_inv [OF Cons.prems] by blast
  obtain l2 where "flow_inv (base + l1 + l2) {} (flow_calls lib p cs (flow_call lib p c sys))" "size l2 \<le> sum_list (map call_may_lose cs)"
    using Cons.IH [OF l1(1)] by blast
  then show ?case using l1(2) by (intro exI [of _ "l1 + l2"]) (simp add: flow_calls_def add.assoc)
qed

section \<open>A concrete engine\<close>

definition demo_engine :: FlowSys where
  "demo_engine = \<lparr>fy_cfg = demo_cfg, fy_initialized = True, fy_queues = [demo_rx_queue], fy_steering = [(0, demo_steering)],
     fy_dests = [], fy_ids = \<lparr>fi_static = [9], fi_free = [], fi_next = 1\<rparr>, fy_next_op = 1, fy_dyn = [], fy_ready = [],
     fy_dr = demo_device\<rparr>"


lemma demo_engine_inv: "flow_inv {#0#} {} demo_engine"
  using demo_device_wf
  by (simp add: flow_inv_def demo_engine_def rss_held_def demo_steering_def flow_ids_ok_def kMaxIbverbsFlowTag_def flow_objs_def
      ports_objs_def port_objs_def node_objs_def live_def demo_device_def)

lemma demo_valid_rule: "validate_dynamic_rx_flow_locked demo_engine 0 demo_udp_rule"
  by (simp add: validate_dynamic_rx_flow_locked_def demo_engine_def find_interface_config_def demo_cfg_def demo_if_def Let_def
      demo_rule_defs flow_rule_actions_def flow_queue_action_def flow_queue_ids_def find_rx_queue_def word_gt_0)

lemma demo_tidy: "tidy_flow demo_udp_rule"
  by (simp add: tidy_flow_def demo_rule_defs)

lemma demo_alloc: "allocate_dynamic_flow_id_locked [] (fy_ids demo_engine) = (1, (fy_ids demo_engine)\<lparr>fi_next := 2\<rparr>)"
  by (simp add: allocate_dynamic_flow_id_locked_def demo_engine_def flow_id_taken_def alloc_fresh.simps [of _ 1] kMaxIbverbsFlowTag_def)

lemma demo_add: "dyn_ids (flow_calls demo_rule_lib (\<lambda>_. None) [AddFlow True 0 demo_udp_rule] demo_engine) = [1]"
proof -
  let ?sys = "demo_engine\<lparr>fy_ids := (fy_ids demo_engine)\<lparr>fi_next := 2\<rparr>, fy_next_op := 2\<rparr>"
  have "\<exists>sys. create_dynamic_flow_locked demo_rule_lib (\<lambda>_. None) 0 demo_udp_rule 1 ?sys = (SUCCESS, sys) \<and> dyn_ids sys = [1]"
    by (simp add: create_dynamic_flow_locked_def demo_engine_def find_interface_config_def demo_cfg_def demo_if_def
        install_defs demo_rule_defs word_gt_0)
  then obtain sys where "create_dynamic_flow_locked demo_rule_lib (\<lambda>_. None) 0 demo_udp_rule 1 ?sys = (SUCCESS, sys)" "dyn_ids sys = [1]"
    by (elim exE conjE)
  moreover have "allocate_flow_op_id_locked (fy_next_op demo_engine) = (1, 2)"
    by (simp add: allocate_flow_op_id_locked_def demo_engine_def)
  moreover have "dyn_ids demo_engine = []" by (simp add: demo_engine_def)
  ultimately show ?thesis
    using demo_valid_rule demo_alloc
    by (simp add: flow_calls_def flow_call_def add_rx_flow_async_def enqueue_flow_completion_locked_def)
qed

section \<open>Properties\<close>

text \<open>C4: after any sequence of flow calls, failures and shutdown included, the device holds exactly the objects
  that belong to the queues, to the ports, to the RSS destinations and to the installed flows, and those that were
  lost; an RSS destination exists exactly while a rule uses it, and the identifiers of the
  installed flows are distinct, non-zero, within the tag's range and none of the static ones. Lost are at most as many
  objects as the calls asked for transforms in flows that are not tidy (eCPRI flows, and flows that match the total
  length), so none when every flow is tidy.\<close>

theorem dynamic_flows_accounted:
  assumes "flow_inv base {} sys"
  shows "let sys' = flow_calls lib p cs sys
    in (\<exists>lost. live (fy_dr sys') = base + lost + ports_objs (fy_steering sys') + dest_objs (fy_dests sys') + dyn_objs (fy_dyn sys')
          \<and> size lost \<le> sum_list (map call_may_lose cs))
      \<and> (\<forall>d. d \<in> fst ` set (fy_dests sys') \<longleftrightarrow> rss_held sys' d)
      \<and> distinct (dyn_ids sys')
      \<and> (\<forall>i\<in>set (dyn_ids sys'). i \<noteq> 0 \<and> i \<le> kMaxIbverbsFlowTag \<and> i \<notin> set (fi_static (fy_ids sys')))"
proof -
  let ?sys' = "flow_calls lib p cs sys"
  obtain lost where inv: "flow_inv (base + lost) {} ?sys'" and l: "size lost \<le> sum_list (map call_may_lose cs)"
    using flow_calls_inv [OF assms] by blast
  note I = flow_invD [OF inv]
  have "i \<noteq> 0 \<and> i \<le> kMaxIbverbsFlowTag \<and> i \<notin> set (fi_static (fy_ids ?sys'))" if "i \<in> set (dyn_ids ?sys')" for i
    using I(7) that unfolding flow_ids_ok_def flow_id_valid_def by blast
  moreover have "live (fy_dr ?sys') = base + lost + ports_objs (fy_steering ?sys') + dest_objs (fy_dests ?sys') + dyn_objs (fy_dyn ?sys')"
    using I(8) by (simp add: flow_objs_def add.assoc)
  ultimately show ?thesis using I(4,6) l by (auto simp: Let_def)
qed

theorem dynamic_flows_accounted_witness:
  "(let sys' = flow_calls demo_rule_lib (\<lambda>_. None) [AddFlow True 0 demo_udp_rule] demo_engine
    in dyn_ids sys' = [1] \<and> live (fy_dr sys') = {#0#} + ports_objs (fy_steering sys') + dest_objs (fy_dests sys') + dyn_objs (fy_dyn sys'))
   \<and> (let sys' = flow_calls demo_rule_lib (\<lambda>_. None) [AddFlow True 0 demo_udp_rule, Cleanup] demo_engine
      in fy_dyn sys' = [] \<and> live (fy_dr sys') = {#0#} + ports_objs (fy_steering sys') + dest_objs (fy_dests sys'))"
proof -
  have none: "sum_list (map call_may_lose [AddFlow True 0 demo_udp_rule]) = 0" "sum_list (map call_may_lose [AddFlow True 0 demo_udp_rule, Cleanup]) = 0"
    using demo_tidy by (simp_all add: call_may_lose_def may_lose_def)
  have "fy_dyn (flow_calls demo_rule_lib (\<lambda>_. None) [AddFlow True 0 demo_udp_rule, Cleanup] demo_engine) = []"
    by (simp add: flow_calls_def flow_call_def cleanup_dynamic_flows_locked_def split: prod.splits)
  then show ?thesis
    using dynamic_flows_accounted [OF demo_engine_inv, of demo_rule_lib "\<lambda>_. None" "[AddFlow True 0 demo_udp_rule]"]
      dynamic_flows_accounted [OF demo_engine_inv, of demo_rule_lib "\<lambda>_. None" "[AddFlow True 0 demo_udp_rule, Cleanup]"] demo_add
    unfolding none Let_def by auto
qed

text \<open>C13: a batch of flows that passes validation is refused for lack of identifiers exactly when
  fewer are left than it needs, and then changes nothing. Otherwise it gets distinct unused
  identifiers, and its one completion reports for each flow its identifier or 0; the flows reported
  are installed, the others are not, and the status is a success exactly when all are.\<close>

theorem batch_reports_installed:
  assumes "flow_inv base {} sys" "flows \<noteq> []" "list_all (validate_dynamic_rx_flow_locked sys port) flows"
    "add_rx_flows_async lib p True port flows sys = (s, op, sys')"
  shows "if flow_ids_avail (dyn_ids sys) (fy_ids sys) < length flows then s = NO_SPACE_AVAILABLE \<and> op = 0 \<and> sys' = sys
    else s = SUCCESS \<and> op \<noteq> 0 \<and> (\<exists>ids status reported new.
      fy_ready sys' = fy_ready sys @ [\<lparr>fo_op_id = op, fo_type = ADD_RX_BATCH, fo_status = status, fo_flow_id = 0, fo_flow_ids = reported\<rparr>]
      \<and> length ids = length flows \<and> distinct ids \<and> set ids \<inter> set (dyn_ids sys) = {} \<and> (\<forall>i\<in>set ids. flow_id_valid (fy_ids sys) i)
      \<and> list_all2 (\<lambda>i r. r = i \<or> r = 0) ids reported \<and> fy_dyn sys' = new @ fy_dyn sys \<and> set (map fst new) = set reported - {0}
      \<and> (status = SUCCESS \<longleftrightarrow> 0 \<notin> set reported))"
proof (cases "flow_ids_avail (dyn_ids sys) (fy_ids sys) < length flows")
  case True
  then have "\<not> has_dynamic_flow_id_capacity_locked (dyn_ids sys) (fy_ids sys) (length flows)"
    using flow_ids.capacity_exact [OF flow_invD(7) [OF assms(1)]] by simp
  then show ?thesis using True assms by (simp add: add_rx_flows_async_def)
next
  case False
  then have room: "length flows \<le> flow_ids_avail (dyn_ids sys) (fy_ids sys)" by simp
  from add_rx_flows_cases [OF assms(1) TrueI assms(2,3) room assms(4)] obtain ids status reported new lost where
    r: "s = SUCCESS" "op \<noteq> 0" "length ids = length flows" "distinct ids"
    "set ids \<inter> set (dyn_ids sys) = {}" "\<forall>i\<in>set ids. flow_id_valid (fy_ids sys) i"
    "flow_inv (base + lost) {} sys'" "size lost \<le> sum_list (map may_lose flows)"
    "fy_ready sys' = fy_ready sys @ [\<lparr>fo_op_id = op, fo_type = ADD_RX_BATCH, fo_status = status, fo_flow_id = 0, fo_flow_ids = reported\<rparr>]"
    "list_all2 (\<lambda>i r. r = i \<or> r = 0) ids reported" "fy_dyn sys' = new @ fy_dyn sys" "fst ` set new = set reported - {0}"
    "status = SUCCESS \<longleftrightarrow> 0 \<notin> set reported" .
  show ?thesis
    unfolding if_not_P [OF False]
    by (intro conjI r(1,2), rule exI [of _ ids], rule exI [of _ status], rule exI [of _ reported], rule exI [of _ new])
      (use r in simp)
qed

theorem batch_reports_installed_witness:
  "\<exists>op sys' ids status reported new. add_rx_flows_async demo_rule_lib (\<lambda>_. None) True 0 [demo_udp_rule, demo_udp_rule] demo_engine = (SUCCESS, op, sys')
    \<and> op \<noteq> 0 \<and> length ids = 2 \<and> distinct ids \<and> list_all2 (\<lambda>i r. r = i \<or> r = 0) ids reported \<and> fy_dyn sys' = new
    \<and> set (map fst new) = set reported - {0} \<and> (status = SUCCESS \<longleftrightarrow> 0 \<notin> set reported)"
proof -
  let ?flows = "[demo_udp_rule, demo_udp_rule]"
  obtain s op sys' where out: "add_rx_flows_async demo_rule_lib (\<lambda>_. None) True 0 ?flows demo_engine = (s, op, sys')" by (rule prod_cases3)
  have "has_dynamic_flow_id_capacity_locked (dyn_ids demo_engine) (fy_ids demo_engine) 2"
    by (simp add: has_dynamic_flow_id_capacity_locked_def demo_engine_def flow_id_taken_def capacity_loop.simps [of _ 2 1]
        capacity_loop.simps [of _ 1 2] capacity_loop.simps [of _ "Suc 0" 2] capacity_loop.simps [of _ 0 3] kMaxIbverbsFlowTag_def)
  then have room: "\<not> flow_ids_avail (dyn_ids demo_engine) (fy_ids demo_engine) < length ?flows"
    using flow_ids.capacity_exact [OF flow_invD(7) [OF demo_engine_inv], of 2] by simp
  have "?flows \<noteq> []" "list_all (validate_dynamic_rx_flow_locked demo_engine 0) ?flows"
    using demo_valid_rule by simp_all
  from batch_reports_installed [OF demo_engine_inv this out, unfolded if_not_P [OF room]]
  obtain ids status reported new where "s = SUCCESS" "op \<noteq> 0" "length ids = length ?flows" "distinct ids"
    "list_all2 (\<lambda>i r. r = i \<or> r = 0) ids reported" "fy_dyn sys' = new @ fy_dyn demo_engine" "set (map fst new) = set reported - {0}"
    "status = SUCCESS \<longleftrightarrow> 0 \<notin> set reported" by blast
  moreover have "fy_dyn demo_engine = []" by (simp add: demo_engine_def)
  ultimately show ?thesis using out
    by (intro exI [of _ op], intro exI [of _ sys'], intro exI [of _ ids], intro exI [of _ status], intro exI [of _ reported], intro exI [of _ new])
      simp
qed

text \<open>C39: an eCPRI flow with transforms can lose device objects: whenever its installation is refused with a
  generic failure although all its reformat actions could be made, all of them stay on the device and belong to
  nothing.\<close>

theorem ecpri_failure_leaks:
  assumes "flow_inv base {} sys" "fm_type (fr_match flow) = ECPRI"
    "add_rx_flow_async lib p True port flow sys = (SUCCESS, op, sys')" "fo_status (last (fy_ready sys')) = GENERIC_FAILURE"
    "make_reformats lib p (flow_rule_actions flow) ([], []) (fy_dr sys) = (True, (acts, bufs), dr1)"
  shows "live (fy_dr sys') = base + mset acts + flow_objs sys'"
proof -
  obtain i ids where a: "allocate_dynamic_flow_id_locked (dyn_ids sys) (fy_ids sys) = (i, ids)" by fastforce
  have v: "validate_dynamic_rx_flow_locked sys port flow" and i: "i \<noteq> 0"
    using assms(3) a by (auto simp: add_rx_flow_async_def split: if_splits)
  from v assms(2) have "\<not> length (flow_queue_ids (flow_queue_action (flow_rule_actions flow))) > 1"
    by (auto simp: validate_dynamic_rx_flow_locked_def Let_def split: option.splits)
  then have one: "length (flow_queue_ids (flow_queue_action (flow_rule_actions flow))) = 1"
    by (auto simp: flow_queue_ids_def not_less le_Suc_eq split: if_splits)
  from add_rx_flow_cases [OF assms(1) v a i assms(3)] obtain status lost reported where
    l: "flow_inv (base + lost) {} sys'" "lost_by lib p flow (fy_dr sys) status lost"
    and r: "fy_ready sys' = fy_ready sys @ [\<lparr>fo_op_id = op, fo_type = ADD_RX, fo_status = status, fo_flow_id = reported, fo_flow_ids = [reported]\<rparr>]"
    by metis
  have "status = GENERIC_FAILURE" using r assms(4) by simp
  then have "lost = mset acts" using l(2) one assms(2,5) unfolding lost_by_def by blast
  then show ?thesis using flow_invD(8) [OF l(1)] by simp
qed

text \<open>On the demonstration engine the device refuses the matcher.\<close>

theorem ecpri_failure_leaks_witness:
  "\<exists>op sys'. add_rx_flow_async (demo_rule_lib\<lparr>dl_ok := \<lambda>n. n \<noteq> 2\<rparr>) (\<lambda>_. None) True 0 demo_ecpri_rule demo_engine = (SUCCESS, op, sys')
    \<and> live (fy_dr demo_engine) = {#0#} + flow_objs demo_engine \<and> live (fy_dr sys') = {#0#} + {#1#} + flow_objs sys'"
proof -
  let ?lib = "demo_rule_lib\<lparr>dl_ok := \<lambda>n. n \<noteq> 2\<rparr>"
  let ?sys = "demo_engine\<lparr>fy_ids := (fy_ids demo_engine)\<lparr>fi_next := 2\<rparr>, fy_next_op := 2\<rparr>"
  have v: "validate_dynamic_rx_flow_locked demo_engine 0 demo_ecpri_rule"
    by (simp add: validate_dynamic_rx_flow_locked_def demo_engine_def find_interface_config_def demo_cfg_def demo_if_def Let_def
        demo_rule_defs flow_rule_actions_def flow_queue_action_def flow_queue_ids_def find_rx_queue_def word_gt_0)
  have "\<exists>dr. create_dynamic_flow_locked ?lib (\<lambda>_. None) 0 demo_ecpri_rule 1 ?sys = (GENERIC_FAILURE, ?sys\<lparr>fy_dr := dr\<rparr>)"
    by (simp add: create_dynamic_flow_locked_def demo_engine_def find_interface_config_def demo_cfg_def demo_if_def put_steering_def
        install_fail_def drop_destination_def install_defs demo_rule_defs word_gt_0)
  then obtain dr where c: "create_dynamic_flow_locked ?lib (\<lambda>_. None) 0 demo_ecpri_rule 1 ?sys = (GENERIC_FAILURE, ?sys\<lparr>fy_dr := dr\<rparr>)" by blast
  have o: "allocate_flow_op_id_locked (fy_next_op demo_engine) = (1, 2)" "dyn_ids demo_engine = []"
    by (simp_all add: allocate_flow_op_id_locked_def demo_engine_def)
  obtain op sys' where out: "add_rx_flow_async ?lib (\<lambda>_. None) True 0 demo_ecpri_rule demo_engine = (SUCCESS, op, sys')"
    and st: "fo_status (last (fy_ready sys')) = GENERIC_FAILURE"
    using v demo_alloc c o by (simp add: add_rx_flow_async_def enqueue_flow_completion_locked_def)
  have "\<exists>bufs dr1. make_reformats ?lib (\<lambda>_. None) (flow_rule_actions demo_ecpri_rule) ([], []) (fy_dr demo_engine) = (True, ([1], bufs), dr1)"
    by (simp add: install_defs demo_engine_def demo_rule_defs)
  then obtain bufs dr1 where mk: "make_reformats ?lib (\<lambda>_. None) (flow_rule_actions demo_ecpri_rule) ([], []) (fy_dr demo_engine) = (True, ([1], bufs), dr1)"
    by blast
  have "fm_type (fr_match demo_ecpri_rule) = ECPRI" by (simp add: demo_rule_defs)
  from ecpri_failure_leaks [OF demo_engine_inv this out st mk] out flow_invD(8) [OF demo_engine_inv] show ?thesis by simp
qed

end
