(* ===== verification/Queue_Lifecycle.thy ===== *)
theory Queue_Lifecycle
  imports Daqiri_Types
begin

text \<open>
  The life of a queue of the ibverbs engine while other threads use it
  (\<^verbatim>\<open>src/src/engines/ibverbs/daqiri_ibverbs_engine.cpp\<close>): \<^verbatim>\<open>publish_queue\<close>, \<^verbatim>\<open>acquire_published_queue\<close>,
  \<^verbatim>\<open>QueueUse\<close>, \<^verbatim>\<open>close_queue_for_destroy\<close>, \<^verbatim>\<open>unpublish_queue\<close> and \<^verbatim>\<open>retire_queue\<close>, driven by
  \<^verbatim>\<open>add_*_queue_async\<close>, \<^verbatim>\<open>delete_*_queue_async\<close> and \<^verbatim>\<open>poll_resource_op\<close>. The receive and the transmit side
  share this code; the model is of one side. Every atomic access is one step, in one global order.
  A queue object is named by its address, and one call of an acquire function together with the
  \<^verbatim>\<open>QueueUse\<close> that holds its result is an activation. The work of the operations on the device
  is left out; of the data path the model keeps, per queue, the counters that must be zero before the queue is removed, which
  change freely.
\<close>

section \<open>Model\<close>

record QueueCtl =
  qc_key :: "int \<times> int"      \<comment> \<open>port and queue number\<close>
  qc_state :: ResourceState
  qc_users :: u64
  qc_freed :: bool            \<comment> \<open>its device resources and rings have been released\<close>
  qc_work :: "nat list"       \<comment> \<open>what is still outstanding, in the order in which \<^verbatim>\<open>poll_resource_op\<close> looks\<close>

text \<open>For a receive queue the counters are \<^verbatim>\<open>outstanding_strides\<close> and \<^verbatim>\<open>outstanding_reorder_outputs\<close>; for a transmit queue they are
  1 for a burst in \<^verbatim>\<open>direct_pending\<close>, 1 for one in \<^verbatim>\<open>worker_pending\<close>, the entries of the send ring, the slots between
  \<^verbatim>\<open>completed_tail\<close> and \<^verbatim>\<open>alloc_head\<close>, and the references to shared storage.\<close>

datatype UsePc =
    Outside
  | Found nat bool            \<comment> \<open>has loaded the table slot\<close>
  | Counted nat bool          \<comment> \<open>has raised the user count\<close>
  | Leaving nat               \<comment> \<open>found the queue closed\<close>
  | Using nat                 \<comment> \<open>\<^verbatim>\<open>QueueUse\<close> is alive\<close>

type_synonym QueueOp = "u64 \<times> int \<times> int"   \<comment> \<open>operation, port and queue number\<close>

datatype LockPc =
    Unlocked
  | Created nat
  | Published nat
  | Polling QueueOp nat           \<comment> \<open>saw no user, drains the queue\<close>
  | Checking QueueOp nat nat      \<comment> \<open>saw no user again, has found so many counters to be zero\<close>
  | Closing QueueOp nat           \<comment> \<open>found it idle, enters \<^verbatim>\<open>close_queue_for_destroy\<close>\<close>
  | Marked QueueOp nat            \<comment> \<open>has stored \<^verbatim>\<open>REMOVED\<close>\<close>
  | Reopening QueueOp nat         \<comment> \<open>saw a user\<close>
  | Closed QueueOp nat
  | Unpublished QueueOp nat
  | Destroyed QueueOp nat

record QueueSys =
  qs_heap :: "nat \<Rightarrow> QueueCtl"
  qs_fresh :: nat             \<comment> \<open>objects with a smaller address exist\<close>
  qs_table :: "int \<times> int \<Rightarrow> nat option"
  qs_live :: "nat list"
  qs_retired :: "nat list"
  qs_use :: "nat \<Rightarrow> UsePc"
  qs_lock :: LockPc           \<comment> \<open>what the holder of \<^verbatim>\<open>resource_lock_\<close> is doing\<close>
  qs_next_op :: u64
  qs_draining :: "QueueOp list"
  qs_ready :: "QueueOp list"

definition queue_table_index_valid :: "int \<times> int \<Rightarrow> bool" where
  "queue_table_index_valid k \<longleftrightarrow>
     fst k \<ge> 0 \<and> snd k \<ge> 0 \<and> nat (fst k) < MAX_INTERFACES \<and> nat (snd k) < MAX_NUM_RX_QUEUES"

definition on_queue :: "nat \<Rightarrow> (QueueCtl \<Rightarrow> QueueCtl) \<Rightarrow> QueueSys \<Rightarrow> QueueSys" where
  "on_queue q f s = s\<lparr>qs_heap := (qs_heap s)(q := f (qs_heap s q))\<rparr>"

definition publish_queue :: "nat \<Rightarrow> QueueSys \<Rightarrow> QueueSys" where
  "publish_queue q s =
     (let k = qc_key (qs_heap s q)
      in if queue_table_index_valid k then s\<lparr>qs_table := (qs_table s)(k := Some q)\<rparr> else s)"

definition unpublish_queue :: "nat \<Rightarrow> QueueSys \<Rightarrow> QueueSys" where
  "unpublish_queue q s =
     (let k = qc_key (qs_heap s q)
      in if queue_table_index_valid k \<and> qs_table s k = Some q then s\<lparr>qs_table := (qs_table s)(k := None)\<rparr> else s)"

definition retire_queue :: "nat \<Rightarrow> QueueSys \<Rightarrow> QueueSys" where
  "retire_queue q s =
     (if q \<in> set (qs_live s) then s\<lparr>qs_retired := qs_retired s @ [q], qs_live := remove1 q (qs_live s)\<rparr> else s)"

definition find_queue :: "QueueSys \<Rightarrow> int \<times> int \<Rightarrow> nat option" where
  "find_queue s k = find (\<lambda>q. qc_key (qs_heap s q) = k \<and> qc_state (qs_heap s q) = ACTIVE) (qs_live s)"

definition find_queue_any :: "QueueSys \<Rightarrow> int \<times> int \<Rightarrow> nat option" where
  "find_queue_any s k = find (\<lambda>q. qc_key (qs_heap s q) = k \<and> qc_state (qs_heap s q) \<noteq> REMOVED) (qs_live s)"

definition may_use :: "bool \<Rightarrow> ResourceState \<Rightarrow> bool" where
  "may_use allow_draining st \<longleftrightarrow> st = ACTIVE \<or> allow_draining \<and> st = DRAINING"

definition find_usable :: "QueueSys \<Rightarrow> int \<times> int \<Rightarrow> bool \<Rightarrow> nat option" where
  "find_usable s k allow = find (\<lambda>q. qc_key (qs_heap s q) = k \<and> may_use allow (qc_state (qs_heap s q))) (qs_live s)"

definition allocate_resource_op_id_locked :: "u64 \<Rightarrow> u64 \<times> u64" where
  "allocate_resource_op_id_locked next_op = (let n = (if next_op = 0 then 1 else next_op) in (n, n + 1))"

definition complete_op :: "QueueOp \<Rightarrow> QueueSys \<Rightarrow> QueueSys" where
  "complete_op op s = s\<lparr>qs_ready := qs_ready s @ [op], qs_draining := remove1 op (qs_draining s)\<rparr>"

text \<open>\<^verbatim>\<open>acquire_rx_queue\<close>, \<^verbatim>\<open>acquire_tx_queue\<close> and the destructor of \<^verbatim>\<open>QueueUse\<close>, for activation \<open>u\<close>.\<close>

inductive use_step :: "nat \<Rightarrow> QueueSys \<Rightarrow> QueueSys \<Rightarrow> bool" for u where
  lookup: "qs_use s u = Outside \<Longrightarrow> queue_table_index_valid k \<Longrightarrow> qs_table s k = Some q \<Longrightarrow>
    use_step u s (s\<lparr>qs_use := (qs_use s)(u := Found q allow)\<rparr>)"
| enter: "qs_use s u = Found q allow \<Longrightarrow>
    use_step u s (on_queue q (\<lambda>c. c\<lparr>qc_users := qc_users c + 1\<rparr>) s\<lparr>qs_use := (qs_use s)(u := Counted q allow)\<rparr>)"
| check: "qs_use s u = Counted q allow \<Longrightarrow>
    use_step u s (s\<lparr>qs_use := (qs_use s)(u := if may_use allow (qc_state (qs_heap s q)) then Using q else Leaving q)\<rparr>)"
| leave: "qs_use s u = Leaving q \<or> qs_use s u = Using q \<Longrightarrow>
    use_step u s (on_queue q (\<lambda>c. c\<lparr>qc_users := qc_users c - 1\<rparr>) s\<lparr>qs_use := (qs_use s)(u := Outside)\<rparr>)"
| locked_lookup: "qs_use s u = Outside \<Longrightarrow> \<not> queue_table_index_valid k \<Longrightarrow> qs_lock s = Unlocked \<Longrightarrow>
    find_usable s k allow = Some q \<Longrightarrow>
    use_step u s (on_queue q (\<lambda>c. c\<lparr>qc_users := qc_users c + 1\<rparr>) s\<lparr>qs_use := (qs_use s)(u := Using q)\<rparr>)"

text \<open>The holder of \<^verbatim>\<open>resource_lock_\<close>: adding a queue, starting to drain one, and one turn of the loop of
  \<^verbatim>\<open>poll_resource_op\<close>. \<^verbatim>\<open>resource_operation_lock_\<close> keeps the check that the number is free and the creation
  together.\<close>

inductive lock_step :: "QueueSys \<Rightarrow> QueueSys \<Rightarrow> bool" where
  create: "qs_lock s = Unlocked \<Longrightarrow> find_queue_any s k = None \<Longrightarrow>
    lock_step s (s\<lparr>qs_heap := (qs_heap s)(qs_fresh s :=
                     \<lparr>qc_key = k, qc_state = ACTIVE, qc_users = 0, qc_freed = False, qc_work = replicate n 0\<rparr>),
                   qs_fresh := Suc (qs_fresh s), qs_lock := Created (qs_fresh s)\<rparr>)"
| publish: "qs_lock s = Created q \<Longrightarrow> lock_step s (publish_queue q s\<lparr>qs_lock := Published q\<rparr>)"
| add: "qs_lock s = Published q \<Longrightarrow> lock_step s (s\<lparr>qs_live := qs_live s @ [q], qs_lock := Unlocked\<rparr>)"
| drain: "qs_lock s = Unlocked \<Longrightarrow> find_queue s k = Some q \<Longrightarrow> allocate_resource_op_id_locked (qs_next_op s) = (op, next_op) \<Longrightarrow>
    lock_step s (on_queue q (\<lambda>c. c\<lparr>qc_state := DRAINING\<rparr>) s\<lparr>qs_next_op := next_op, qs_draining := qs_draining s @ [(op, k)]\<rparr>)"
| poll_gone: "qs_lock s = Unlocked \<Longrightarrow> op \<in> set (qs_draining s) \<Longrightarrow> find_queue_any s (snd op) = None \<Longrightarrow>
    lock_step s (complete_op op s)"
| poll: "qs_lock s = Unlocked \<Longrightarrow> op \<in> set (qs_draining s) \<Longrightarrow> find_queue_any s (snd op) = Some q \<Longrightarrow>
    qc_users (qs_heap s q) = 0 \<Longrightarrow> lock_step s (s\<lparr>qs_lock := Polling op q\<rparr>)"
| busy: "qs_lock s = Polling op q \<Longrightarrow> qc_users (qs_heap s q) \<noteq> 0 \<Longrightarrow> lock_step s (s\<lparr>qs_lock := Unlocked\<rparr>)"
| unused: "qs_lock s = Polling op q \<Longrightarrow> qc_users (qs_heap s q) = 0 \<Longrightarrow> lock_step s (s\<lparr>qs_lock := Checking op q 0\<rparr>)"
| outstanding: "qs_lock s = Checking op q i \<Longrightarrow> i < length (qc_work (qs_heap s q)) \<Longrightarrow> qc_work (qs_heap s q) ! i \<noteq> 0 \<Longrightarrow>
    lock_step s (s\<lparr>qs_lock := Unlocked\<rparr>)"
| zero: "qs_lock s = Checking op q i \<Longrightarrow> i < length (qc_work (qs_heap s q)) \<Longrightarrow> qc_work (qs_heap s q) ! i = 0 \<Longrightarrow>
    lock_step s (s\<lparr>qs_lock := Checking op q (Suc i)\<rparr>)"
| idle: "qs_lock s = Checking op q i \<Longrightarrow> i = length (qc_work (qs_heap s q)) \<Longrightarrow> lock_step s (s\<lparr>qs_lock := Closing op q\<rparr>)"
| mark: "qs_lock s = Closing op q \<Longrightarrow>
    lock_step s (on_queue q (\<lambda>c. c\<lparr>qc_state := REMOVED\<rparr>) s\<lparr>qs_lock := Marked op q\<rparr>)"
| close: "qs_lock s = Marked op q \<Longrightarrow>
    lock_step s (s\<lparr>qs_lock := if qc_users (qs_heap s q) = 0 then Closed op q else Reopening op q\<rparr>)"
| reopen: "qs_lock s = Reopening op q \<Longrightarrow>
    lock_step s (on_queue q (\<lambda>c. c\<lparr>qc_state := DRAINING\<rparr>) s\<lparr>qs_lock := Unlocked\<rparr>)"
| unpublish: "qs_lock s = Closed op q \<Longrightarrow> lock_step s (unpublish_queue q s\<lparr>qs_lock := Unpublished op q\<rparr>)"
| destroy: "qs_lock s = Unpublished op q \<Longrightarrow>
    lock_step s (on_queue q (\<lambda>c. c\<lparr>qc_freed := True, qc_state := REMOVED\<rparr>) s\<lparr>qs_lock := Destroyed op q\<rparr>)"
| retire: "qs_lock s = Destroyed op q \<Longrightarrow> lock_step s (complete_op op (retire_queue q s)\<lparr>qs_lock := Unlocked\<rparr>)"

text \<open>The data path: sending, receiving, completions, and the draining done by \<^verbatim>\<open>poll_resource_op\<close> itself.\<close>

inductive work_step :: "QueueSys \<Rightarrow> QueueSys \<Rightarrow> bool" where
  work: "length w = length (qc_work (qs_heap s q)) \<Longrightarrow> work_step s (on_queue q (\<lambda>c. c\<lparr>qc_work := w\<rparr>) s)"

definition queue_init :: QueueSys where
  "queue_init =
     \<lparr>qs_heap = \<lambda>_. \<lparr>qc_key = (0, 0), qc_state = CREATING, qc_users = 0, qc_freed = False, qc_work = []\<rparr>, qs_fresh = 0,
      qs_table = \<lambda>_. None, qs_live = [], qs_retired = [], qs_use = \<lambda>_. Outside, qs_lock = Unlocked,
      qs_next_op = 1, qs_draining = [], qs_ready = []\<rparr>"

text \<open>Histories in which only the activations of \<open>T\<close> take part; their number is bounded by the width
  of the user count.\<close>

inductive queue_reach :: "nat set \<Rightarrow> QueueSys \<Rightarrow> bool" for T where
  init: "queue_reach T queue_init"
| use: "queue_reach T s \<Longrightarrow> u \<in> T \<Longrightarrow> use_step u s s' \<Longrightarrow> queue_reach T s'"
| lock: "queue_reach T s \<Longrightarrow> lock_step s s' \<Longrightarrow> queue_reach T s'"
| work: "queue_reach T s \<Longrightarrow> work_step s s' \<Longrightarrow> queue_reach T s'"

section \<open>Invariant\<close>

abbreviation q_state :: "QueueSys \<Rightarrow> nat \<Rightarrow> ResourceState" where "q_state s q \<equiv> qc_state (qs_heap s q)"
abbreviation q_key :: "QueueSys \<Rightarrow> nat \<Rightarrow> int \<times> int" where "q_key s q \<equiv> qc_key (qs_heap s q)"
abbreviation q_freed :: "QueueSys \<Rightarrow> nat \<Rightarrow> bool" where "q_freed s q \<equiv> qc_freed (qs_heap s q)"

fun deleting :: "LockPc \<Rightarrow> (QueueOp \<times> nat) option" where
  "deleting (Polling op q) = Some (op, q)"
| "deleting (Checking op q i) = Some (op, q)"
| "deleting (Closing op q) = Some (op, q)"
| "deleting (Marked op q) = Some (op, q)"
| "deleting (Reopening op q) = Some (op, q)"
| "deleting (Closed op q) = Some (op, q)"
| "deleting (Unpublished op q) = Some (op, q)"
| "deleting (Destroyed op q) = Some (op, q)"
| "deleting _ = None"

fun adding :: "LockPc \<Rightarrow> nat option" where
  "adding (Created q) = Some q"
| "adding (Published q) = Some q"
| "adding _ = None"

fun marked :: "LockPc \<Rightarrow> nat option" where
  "marked (Marked op q) = Some q"
| "marked (Reopening op q) = Some q"
| "marked (Closed op q) = Some q"
| "marked (Unpublished op q) = Some q"
| "marked (Destroyed op q) = Some q"
| "marked _ = None"

fun gone :: "LockPc \<Rightarrow> nat option" where
  "gone (Closed op q) = Some q"
| "gone (Unpublished op q) = Some q"
| "gone (Destroyed op q) = Some q"
| "gone _ = None"

fun hidden :: "LockPc \<Rightarrow> nat option" where
  "hidden (Unpublished op q) = Some q"
| "hidden (Destroyed op q) = Some q"
| "hidden _ = None"

fun destroyed :: "LockPc \<Rightarrow> nat option" where
  "destroyed (Destroyed op q) = Some q"
| "destroyed _ = None"

definition listed :: "QueueSys \<Rightarrow> bool" where
  "listed s \<longleftrightarrow> distinct (qs_live s) \<and> set (qs_live s) \<inter> set (qs_retired s) = {}
     \<and> {..<qs_fresh s} = set (qs_live s) \<union> set (qs_retired s) \<union> set_option (adding (qs_lock s))
     \<and> inj_on (q_key s) (set (qs_live s))
     \<and> (\<forall>q. adding (qs_lock s) = Some q \<longrightarrow> q \<notin> set (qs_live s) \<and> q \<notin> set (qs_retired s)
          \<and> q_state s q = ACTIVE \<and> \<not> q_freed s q \<and> q_key s q \<notin> q_key s ` set (qs_live s))"

definition staged :: "QueueSys \<Rightarrow> bool" where
  "staged s \<longleftrightarrow>
     (\<forall>q\<in>set (qs_live s). (q_freed s q \<longleftrightarrow> destroyed (qs_lock s) = Some q)
        \<and> (q_state s q = REMOVED \<longleftrightarrow> marked (qs_lock s) = Some q) \<and> q_state s q \<in> {ACTIVE, DRAINING, REMOVED})
     \<and> (\<forall>q\<in>set (qs_retired s). q_freed s q \<and> q_state s q = REMOVED)"

definition drained :: "QueueSys \<Rightarrow> bool" where
  "drained s \<longleftrightarrow> distinct (map snd (qs_draining s))
     \<and> snd ` set (qs_draining s) = q_key s ` {q \<in> set (qs_live s). q_state s q \<noteq> ACTIVE}
     \<and> (\<forall>op q. deleting (qs_lock s) = Some (op, q) \<longrightarrow> q \<in> set (qs_live s) \<and> op \<in> set (qs_draining s) \<and> snd op = q_key s q)"

definition tabled :: "QueueSys \<Rightarrow> bool" where
  "tabled s \<longleftrightarrow> (\<forall>k q. qs_table s k = Some q \<longleftrightarrow> queue_table_index_valid k \<and> q_key s q = k
     \<and> (q \<in> set (qs_live s) \<and> hidden (qs_lock s) \<noteq> Some q \<or> (qs_lock s = Published q)))"

lemmas queue_inv_defs = listed_def staged_def drained_def tabled_def

text \<open>What the holder of the lock sees does not depend on the activations.\<close>

lemma on_queue_simps [simp]:
  "qs_heap (on_queue q f s) = (qs_heap s)(q := f (qs_heap s q))" "qs_fresh (on_queue q f s) = qs_fresh s"
  "qs_table (on_queue q f s) = qs_table s" "qs_live (on_queue q f s) = qs_live s" "qs_retired (on_queue q f s) = qs_retired s"
  "qs_use (on_queue q f s) = qs_use s" "qs_lock (on_queue q f s) = qs_lock s" "qs_draining (on_queue q f s) = qs_draining s"
  "qs_ready (on_queue q f s) = qs_ready s" "qs_next_op (on_queue q f s) = qs_next_op s"
  by (simp_all add: on_queue_def)

lemma use_step_frame:
  assumes "use_step u s s'"
  shows "q_state s' = q_state s" "q_key s' = q_key s" "q_freed s' = q_freed s" "qs_fresh s' = qs_fresh s" "qs_table s' = qs_table s"
    "qs_live s' = qs_live s" "qs_retired s' = qs_retired s" "qs_lock s' = qs_lock s" "qs_draining s' = qs_draining s"
  using assms by (cases; auto simp: fun_eq_iff)+

lemma use_step_keeps:
  assumes "use_step u s s'"
  shows "listed s' = listed s" "staged s' = staged s" "drained s' = drained s" "tabled s' = tabled s"
  by (simp_all add: queue_inv_defs use_step_frame [OF assms] fun_cong [OF use_step_frame(1) [OF assms]]
      fun_cong [OF use_step_frame(2) [OF assms]] fun_cong [OF use_step_frame(3) [OF assms]])

lemma work_step_frame:
  assumes "work_step s s'"
  shows "q_state s' = q_state s" "q_key s' = q_key s" "q_freed s' = q_freed s" "qs_fresh s' = qs_fresh s" "qs_table s' = qs_table s"
    "qs_live s' = qs_live s" "qs_retired s' = qs_retired s" "qs_lock s' = qs_lock s" "qs_draining s' = qs_draining s"
    "qs_use s' = qs_use s" "(\<lambda>q. qc_users (qs_heap s' q)) = (\<lambda>q. qc_users (qs_heap s q))"
  using assms by (cases; auto simp: fun_eq_iff)+

lemma work_step_keeps:
  assumes "work_step s s'"
  shows "listed s' = listed s" "staged s' = staged s" "drained s' = drained s" "tabled s' = tabled s"
  by (simp_all add: queue_inv_defs work_step_frame [OF assms] fun_cong [OF work_step_frame(1) [OF assms]]
      fun_cong [OF work_step_frame(2) [OF assms]] fun_cong [OF work_step_frame(3) [OF assms]])

lemma find_queue_SomeD: "find_queue s k = Some q \<Longrightarrow> q \<in> set (qs_live s) \<and> q_key s q = k \<and> q_state s q = ACTIVE"
  unfolding find_queue_def by (auto simp: find_Some_iff)

lemma find_queue_any_SomeD: "find_queue_any s k = Some q \<Longrightarrow> q \<in> set (qs_live s) \<and> q_key s q = k \<and> q_state s q \<noteq> REMOVED"
  unfolding find_queue_any_def by (auto simp: find_Some_iff)

lemma find_queue_any_NoneD: "find_queue_any s k = None \<Longrightarrow> q \<in> set (qs_live s) \<Longrightarrow> q_key s q = k \<Longrightarrow> q_state s q = REMOVED"
  unfolding find_queue_any_def by (auto simp: find_None_iff)

lemma find_usable_SomeD:
  "find_usable s k allow = Some q \<Longrightarrow> q \<in> set (qs_live s) \<and> q_key s q = k \<and> may_use allow (q_state s q)"
  unfolding find_usable_def by (auto simp: find_Some_iff)

lemma publish_queue_simps [simp]:
  "qs_heap (publish_queue q s) = qs_heap s" "qs_fresh (publish_queue q s) = qs_fresh s" "qs_live (publish_queue q s) = qs_live s"
  "qs_retired (publish_queue q s) = qs_retired s" "qs_use (publish_queue q s) = qs_use s" "qs_draining (publish_queue q s) = qs_draining s"
  "qs_heap (unpublish_queue q s) = qs_heap s" "qs_fresh (unpublish_queue q s) = qs_fresh s" "qs_live (unpublish_queue q s) = qs_live s"
  "qs_retired (unpublish_queue q s) = qs_retired s" "qs_use (unpublish_queue q s) = qs_use s" "qs_draining (unpublish_queue q s) = qs_draining s"
  "qs_ready (unpublish_queue q s) = qs_ready s"
  by (simp_all add: publish_queue_def unpublish_queue_def Let_def)

lemma unpublish_table:
  "qs_table (unpublish_queue q s) k = (if k = q_key s q \<and> queue_table_index_valid k \<and> qs_table s k = Some q then None else qs_table s k)"
  by (simp add: unpublish_queue_def Let_def)

lemma listed_frame:
  "qs_live s' = qs_live s \<Longrightarrow> qs_retired s' = qs_retired s \<Longrightarrow> qs_fresh s' = qs_fresh s \<Longrightarrow> q_key s' = q_key s \<Longrightarrow>
   adding (qs_lock s') = None \<Longrightarrow> adding (qs_lock s) = None \<Longrightarrow> listed s \<Longrightarrow> listed s'"
  by (simp add: listed_def)

lemma lock_step_listed:
  assumes "lock_step s s'" "listed s" "staged s" "drained s"
  shows "listed s'"
  using assms(1)
proof cases
  case (create k)
  have "q_state s q \<noteq> REMOVED" if "q \<in> set (qs_live s)" for q using assms(3) create that by (auto simp: staged_def)
  then have k: "q_key s q \<noteq> k" if "q \<in> set (qs_live s)" for q using find_queue_any_NoneD create that by blast
  have f: "qs_fresh s \<notin> set (qs_live s)" "qs_fresh s \<notin> set (qs_retired s)" using assms(2) create unfolding listed_def by auto
  have set: "{..<qs_fresh s'} = set (qs_live s') \<union> set (qs_retired s') \<union> set_option (adding (qs_lock s'))"
    using assms(2) create by (simp add: listed_def lessThan_Suc)
  have keys: "q_key s' q = q_key s q" if "q \<in> set (qs_live s)" for q using create f that by auto
  have "inj_on (q_key s') (set (qs_live s'))"
    using assms(2) create(1) keys by (simp add: listed_def inj_on_def)
  moreover have "q_key s' (qs_fresh s) \<notin> q_key s' ` set (qs_live s)"
    using k keys create(1) by (auto simp: image_iff)
  ultimately show ?thesis using assms(2) create f set by (simp add: listed_def)
next
  case (add q)
  then show ?thesis using assms(2) unfolding listed_def by auto
next
  case (retire op q)
  then have "q \<in> set (qs_live s)" using assms(4) by (auto simp: drained_def)
  then show ?thesis using assms(2) retire unfolding listed_def complete_op_def retire_queue_def inj_on_def by auto
next
  case (publish q)
  then show ?thesis using assms(2) by (simp add: listed_def)
qed (rule listed_frame [OF _ _ _ _ _ _ assms(2)]; auto simp: complete_op_def)+

lemma lock_step_staged:
  assumes "lock_step s s'" "listed s" "staged s" "drained s"
  shows "staged s'"
  using assms(1)
proof cases
  case (create k)
  have "qs_fresh s \<notin> set (qs_live s)" "qs_fresh s \<notin> set (qs_retired s)" using assms(2) create unfolding listed_def by auto
  then show ?thesis using assms(3) create unfolding staged_def by auto
next
  case (add q)
  then show ?thesis using assms(2,3) unfolding staged_def listed_def by auto
next
  case (drain k q op next_op)
  then have "q \<in> set (qs_live s)" using find_queue_SomeD by blast
  moreover from this have "q \<notin> set (qs_retired s)" using assms(2) unfolding listed_def by blast
  ultimately show ?thesis using assms(3) drain unfolding staged_def by auto
next
  case (retire op q)
  then have "q \<in> set (qs_live s)" using assms(4) by (auto simp: drained_def)
  then show ?thesis using assms(2,3) retire unfolding staged_def listed_def complete_op_def retire_queue_def by auto
qed (use assms(2-4) in \<open>auto simp: staged_def drained_def listed_def complete_op_def\<close>)

lemma lock_step_drained:
  assumes "lock_step s s'" "listed s" "staged s" "drained s"
  shows "drained s'"
  using assms(1)
proof cases
  case (create k)
  have f: "qs_fresh s \<notin> set (qs_live s)" using assms(2) create unfolding listed_def by auto
  have "q_key s' ` {q \<in> set (qs_live s'). q_state s' q \<noteq> ACTIVE} = q_key s ` {q \<in> set (qs_live s). q_state s q \<noteq> ACTIVE}"
    by (rule image_cong) (use create f in auto)
  then show ?thesis using assms(4) create by (simp add: drained_def)
next
  case (add q)
  have "{x \<in> set (qs_live s'). q_state s' x \<noteq> ACTIVE} = {x \<in> set (qs_live s). q_state s x \<noteq> ACTIVE}"
    using assms(2) add by (auto simp: listed_def)
  then show ?thesis using assms(4) add by (simp add: drained_def)
next
  case (drain k q op next_op)
  note q = find_queue_SomeD [OF drain(3)]
  have new: "{x \<in> set (qs_live s'). q_state s' x \<noteq> ACTIVE} = insert q {x \<in> set (qs_live s). q_state s x \<noteq> ACTIVE}"
    using q drain by auto
  have keys: "q_key s' = q_key s" using drain by auto
  have "q' = q" if "q' \<in> set (qs_live s)" "q_key s q' = k" for q'
    using assms(2) that q unfolding listed_def inj_on_def by blast
  then have "k \<notin> snd ` set (qs_draining s)" using assms(4) q unfolding drained_def by auto
  then show ?thesis using assms(4) drain q by (auto simp: drained_def new keys)
next
  case (poll_gone op)
  obtain q where "q \<in> set (qs_live s)" "q_key s q = snd op"
    using assms(4) imageI [OF poll_gone(3), of snd] unfolding drained_def by auto
  then have "q_state s q = REMOVED" using find_queue_any_NoneD poll_gone(4) by metis
  then show ?thesis using assms(3) poll_gone \<open>q \<in> set (qs_live s)\<close> by (auto simp: staged_def)
next
  case (poll op q)
  then show ?thesis using assms(4) find_queue_any_SomeD [OF poll(4)] by (auto simp: drained_def)
next
  case (mark op q)
  have q: "q \<in> set (qs_live s)" "op \<in> set (qs_draining s)" "snd op = q_key s q" using assms(4) mark by (auto simp: drained_def)
  have "q_state s q \<noteq> ACTIVE"
  proof
    assume "q_state s q = ACTIVE"
    obtain q' where q': "q' \<in> set (qs_live s)" "q_state s q' \<noteq> ACTIVE" "snd op = q_key s q'"
      using assms(4) imageI [OF q(2), of snd] unfolding drained_def by auto
    then have "q' = q" using assms(2) q unfolding listed_def inj_on_def by metis
    with q' \<open>q_state s q = ACTIVE\<close> show False by simp
  qed
  then have "{x \<in> set (qs_live s'). q_state s' x \<noteq> ACTIVE} = {x \<in> set (qs_live s). q_state s x \<noteq> ACTIVE}"
    using mark by auto
  then show ?thesis using assms(4) mark by (auto simp: drained_def)
next
  case (reopen op q)
  have "q_state s q = REMOVED" using assms(3,4) reopen by (auto simp: drained_def staged_def)
  then have "{x \<in> set (qs_live s'). q_state s' x \<noteq> ACTIVE} = {x \<in> set (qs_live s). q_state s x \<noteq> ACTIVE}"
    using reopen by auto
  then show ?thesis using assms(4) reopen by (auto simp: drained_def)
next
  case (destroy op q)
  have "q_state s q = REMOVED" using assms(3,4) destroy by (auto simp: drained_def staged_def)
  then have "{x \<in> set (qs_live s'). q_state s' x \<noteq> ACTIVE} = {x \<in> set (qs_live s). q_state s x \<noteq> ACTIVE}"
    using destroy by auto
  then show ?thesis using assms(4) destroy by (auto simp: drained_def)
next
  case (retire op q)
  have q: "q \<in> set (qs_live s)" "op \<in> set (qs_draining s)" "snd op = q_key s q" and st: "q_state s q = REMOVED"
    using assms(3,4) retire by (auto simp: drained_def staged_def)
  have dist: "distinct (qs_live s)" "inj_on (q_key s) (set (qs_live s))" "distinct (map snd (qs_draining s))"
    using assms(2,4) by (auto simp: listed_def drained_def)
  have ops: "snd ` set (remove1 op (qs_draining s)) = snd ` set (qs_draining s) - {snd op}"
    using dist(3) q(2) by (auto simp: distinct_map inj_on_def)
  have "{x \<in> set (remove1 q (qs_live s)). q_state s x \<noteq> ACTIVE} = {x \<in> set (qs_live s). q_state s x \<noteq> ACTIVE} - {q}"
    using dist(1) by auto
  moreover have "q_key s ` ({x \<in> set (qs_live s). q_state s x \<noteq> ACTIVE} - {q}) = q_key s ` {x \<in> set (qs_live s). q_state s x \<noteq> ACTIVE} - {q_key s q}"
    using dist(2) q(1) by (auto simp: inj_on_def)
  ultimately show ?thesis
    using assms(4) retire q ops dist(3)
    by (simp add: drained_def retire_queue_def complete_op_def distinct_map distinct_remove1 inj_on_def)
qed (use assms(4) in \<open>auto simp: drained_def\<close>)

lemma tabledI:
  "(\<And>k q. (qs_table s k = Some q) = (queue_table_index_valid k \<and> q_key s q = k
     \<and> (q \<in> set (qs_live s) \<and> hidden (qs_lock s) \<noteq> Some q \<or> qs_lock s = Published q))) \<Longrightarrow> tabled s"
  unfolding tabled_def by blast

lemma tabledD:
  "tabled s \<Longrightarrow> (qs_table s k = Some q) = (queue_table_index_valid k \<and> q_key s q = k
     \<and> (q \<in> set (qs_live s) \<and> hidden (qs_lock s) \<noteq> Some q \<or> qs_lock s = Published q))"
  unfolding tabled_def by blast

lemma tabled_frame:
  "qs_live s' = qs_live s \<Longrightarrow> qs_table s' = qs_table s \<Longrightarrow> q_key s' = q_key s \<Longrightarrow> hidden (qs_lock s') = hidden (qs_lock s) \<Longrightarrow>
   (\<forall>q. qs_lock s' \<noteq> Published q) \<Longrightarrow> (\<forall>q. qs_lock s \<noteq> Published q) \<Longrightarrow> tabled s \<Longrightarrow> tabled s'"
  unfolding tabled_def by (simp add: fun_eq_iff)

lemma lock_step_tabled:
  assumes "lock_step s s'" "listed s" "drained s" "tabled s"
  shows "tabled s'"
  using assms(1)
proof cases
  case (create k)
  have "qs_fresh s \<notin> set (qs_live s)" using assms(2) create unfolding listed_def by auto
  then show ?thesis using create by (intro tabledI) (auto simp: tabledD [OF assms(4)])
next
  case (publish q)
  have q: "q \<notin> set (qs_live s)" "q_key s q \<notin> q_key s ` set (qs_live s)" using assms(2) publish by (auto simp: listed_def)
  have "x \<in> set (qs_live s) \<Longrightarrow> q_key s x \<noteq> q_key s q" for x using q(2) imageI [of x _ "q_key s"] by metis
  then show ?thesis using publish q(1) by (intro tabledI) (auto simp: tabledD [OF assms(4)] publish_queue_def Let_def)
next
  case (add q)
  then show ?thesis by (intro tabledI) (auto simp: tabledD [OF assms(4)])
next
  case (unpublish op q)
  have q: "q \<in> set (qs_live s)" using assms(3) unpublish by (auto simp: drained_def)
  have uniq: "x = q" if "x \<in> set (qs_live s)" "q_key s x = q_key s q" for x
    using assms(2) that q unfolding listed_def inj_on_def by blast
  have old: "(qs_table s k = Some x) = (queue_table_index_valid k \<and> q_key s x = k \<and> x \<in> set (qs_live s))" for k x
    using unpublish(2) by (simp add: tabledD [OF assms(4)])
  have new: "qs_table s' k = (if k = q_key s q \<and> queue_table_index_valid k \<and> qs_table s k = Some q then None else qs_table s k)" for k
    using unpublish(1) by (simp add: unpublish_table)
  have fields: "q_key s' x = q_key s x" "qs_live s' = qs_live s" "hidden (qs_lock s') = Some q" "qs_lock s' \<noteq> Published x" for x
    using unpublish(1) by simp_all
  have "(qs_table s' k = Some x) = (queue_table_index_valid k \<and> q_key s x = k \<and> x \<in> set (qs_live s) \<and> x \<noteq> q)" for k x
  proof (cases "k = q_key s q \<and> queue_table_index_valid k")
    case True
    then have "qs_table s k = Some q" using q by (auto simp: old)
    then have "qs_table s' k = None" using True by (auto simp: new)
    then show ?thesis using uniq [of x] True by auto
  next
    case False
    then have "qs_table s' k = qs_table s k" by (auto simp: new)
    then show ?thesis using False by (auto simp: old)
  qed
  then show ?thesis by (intro tabledI) (simp add: fields, blast)
next
  case (retire op q)
  have "q \<in> set (qs_live s)" "distinct (qs_live s)" using assms(2,3) retire by (auto simp: drained_def listed_def)
  then show ?thesis using retire by (intro tabledI) (auto simp: tabledD [OF assms(4)] retire_queue_def complete_op_def)
qed (rule tabled_frame [OF _ _ _ _ _ _ assms(4)]; auto simp: complete_op_def)+

section \<open>Users\<close>

fun counts :: "UsePc \<Rightarrow> nat option" where
  "counts (Counted q allow) = Some q"
| "counts (Leaving q) = Some q"
| "counts (Using q) = Some q"
| "counts _ = None"

fun refers :: "UsePc \<Rightarrow> nat option" where
  "refers Outside = None"
| "refers (Found q allow) = Some q"
| "refers (Counted q allow) = Some q"
| "refers (Leaving q) = Some q"
| "refers (Using q) = Some q"

definition users_of :: "QueueSys \<Rightarrow> nat \<Rightarrow> nat set" where
  "users_of s q = {u. counts (qs_use s u) = Some q}"

definition used :: "nat set \<Rightarrow> QueueSys \<Rightarrow> bool" where
  "used T s \<longleftrightarrow> (\<forall>u. qs_use s u \<noteq> Outside \<longrightarrow> u \<in> T) \<and> (\<forall>u q. refers (qs_use s u) = Some q \<longrightarrow> q < qs_fresh s)
     \<and> (\<forall>q<qs_fresh s. qc_users (qs_heap s q) = of_nat (card (users_of s q)))
     \<and> (\<forall>u q. qs_use s u = Using q \<longrightarrow> \<not> q_freed s q \<and> gone (qs_lock s) \<noteq> Some q)"

lemma counts_refers: "counts pc = Some q \<Longrightarrow> refers pc = Some q"
  by (cases pc) auto

lemma users_of_subset: "used T s \<Longrightarrow> users_of s q \<subseteq> T"
  unfolding used_def users_of_def by (metis (mono_tags, lifting) counts.simps(4) mem_Collect_eq option.distinct(1) subsetI)

lemma users_of_upd:
  "qs_use s' = (qs_use s)(u := pc) \<Longrightarrow> users_of s' q = (if counts pc = Some q then insert u (users_of s q) else users_of s q - {u})"
  by (auto simp: users_of_def)

lemma users_word:
  assumes "finite T" "card T < 2 ^ 64" "used T s" "q < qs_fresh s" "qc_users (qs_heap s q) = 0"
  shows "users_of s q = {}"
proof -
  have sub: "users_of s q \<subseteq> T" by (rule users_of_subset [OF assms(3)])
  then have "card (users_of s q) < 2 ^ 64" using assms(1,2) card_mono by (metis le_less_trans)
  moreover have "(of_nat (card (users_of s q)) :: u64) = 0" using assms(3-5) by (simp add: used_def)
  moreover have "unat (of_nat (card (users_of s q)) :: u64) = card (users_of s q)" using calculation(1) by (simp add: unat_of_nat)
  ultimately have "card (users_of s q) = 0" by (metis unat_0)
  then show ?thesis using sub assms(1) finite_subset by (metis card_0_eq)
qed

lemma usable_alive:
  assumes "listed s" "staged s" "q < qs_fresh s" "may_use allow (q_state s q)"
  shows "\<not> q_freed s q" "gone (qs_lock s) \<noteq> Some q"
proof -
  have "q \<in> {..<qs_fresh s}" using assms(3) by simp
  then consider "q \<in> set (qs_live s)" | "q \<in> set (qs_retired s)" | "adding (qs_lock s) = Some q"
    using assms(1) unfolding listed_def by (metis UnE elem_set)
  then have "\<not> q_freed s q \<and> gone (qs_lock s) \<noteq> Some q"
  proof cases
    case 1
    then show ?thesis using assms(2,4) by (cases "qs_lock s") (auto simp: staged_def may_use_def)
  next
    case 2
    then show ?thesis using assms(2,4) by (auto simp: staged_def may_use_def)
  next
    case 3
    then show ?thesis using assms(1) by (cases "qs_lock s") (auto simp: listed_def)
  qed
  then show "\<not> q_freed s q" "gone (qs_lock s) \<noteq> Some q" by auto
qed

lemma users_enter:
  assumes "finite T" "used T s" "q < qs_fresh s" "u \<notin> users_of s q"
  shows "qc_users (qs_heap s q) + 1 = of_nat (card (insert u (users_of s q)))"
proof -
  have "finite (users_of s q)" using users_of_subset [OF assms(2)] assms(1) finite_subset by blast
  then show ?thesis using assms by (simp add: used_def)
qed

lemma users_leave:
  assumes "finite T" "used T s" "q < qs_fresh s" "u \<in> users_of s q"
  shows "qc_users (qs_heap s q) - 1 = of_nat (card (users_of s q - {u}))"
proof -
  have "finite (users_of s q)" using users_of_subset [OF assms(2)] assms(1) finite_subset by blast
  then have "card (users_of s q) = Suc (card (users_of s q - {u}))" using assms(4) by (metis card.remove)
  then show ?thesis using assms(2,3) by (simp add: used_def)
qed

lemma use_step_used:
  assumes T: "finite T" "u \<in> T" and inv: "listed s" "staged s" "tabled s" "used T s" and step: "use_step u s s'"
  shows "used T s'"
proof -
  have ptr: "q < qs_fresh s" if "q \<in> set (qs_live s) \<or> qs_lock s = Published q" for q
    using inv(1) that unfolding listed_def by (metis UnCI adding.simps(2) elem_set lessThan_iff)
  have ref: "q < qs_fresh s" if "refers (qs_use s u) = Some q" for q using inv(4) that by (auto simp: used_def)
  from step show ?thesis
  proof cases
    case (lookup k q allow)
    have "users_of s' x = users_of s x" for x using lookup by (auto simp: users_of_def)
    moreover have "q < qs_fresh s" using inv(3) lookup ptr unfolding tabled_def by blast
    ultimately show ?thesis using inv(4) T lookup by (auto simp: used_def)
  next
    case (enter q allow)
    have q: "q < qs_fresh s" "u \<notin> users_of s x" for x using ref enter by (auto simp: users_of_def)
    have "users_of s' x = (if x = q then insert u (users_of s q) else users_of s x)" for x using enter q(2) by (auto simp: users_of_def)
    then show ?thesis using inv(4) T enter q users_enter [OF T(1) inv(4) q(1), of u] by (auto simp: used_def)
  next
    case (check q allow)
    have "users_of s' x = users_of s x" for x using check by (auto simp: users_of_def)
    then show ?thesis using inv(4) T check ref usable_alive [OF inv(1,2), of q allow] by (auto simp: used_def)
  next
    case (leave q)
    have q: "q < qs_fresh s" "u \<in> users_of s q" using ref leave by (auto simp: users_of_def)
    have "users_of s' x = (if x = q then users_of s q - {u} else users_of s x)" for x using leave by (auto simp: users_of_def)
    then show ?thesis using inv(4) T leave q users_leave [OF T(1) inv(4) q] by (auto simp: used_def)
  next
    case (locked_lookup k allow q)
    note f = find_usable_SomeD [OF locked_lookup(5)]
    have q: "q < qs_fresh s" "u \<notin> users_of s x" for x using f ptr locked_lookup by (auto simp: users_of_def)
    have "users_of s' x = (if x = q then insert u (users_of s q) else users_of s x)" for x using locked_lookup q(2) by (auto simp: users_of_def)
    then show ?thesis
      using inv(4) T locked_lookup q f users_enter [OF T(1) inv(4) q(1), of u] usable_alive [OF inv(1,2) q(1), of allow]
      by (auto simp: used_def)
  qed
qed

lemma used_frame:
  assumes "used T s" "qs_use s' = qs_use s" "qs_fresh s' = qs_fresh s" "(\<lambda>q. qc_users (qs_heap s' q)) = (\<lambda>q. qc_users (qs_heap s q))"
    "\<And>u q. qs_use s u = Using q \<Longrightarrow> \<not> q_freed s' q \<and> gone (qs_lock s') \<noteq> Some q"
  shows "used T s'"
  using assms unfolding used_def users_of_def by (simp add: fun_eq_iff)

lemma lock_step_used:
  assumes T: "finite T" "card T < 2 ^ 64" and inv: "used T s" "drained s" "listed s" and step: "lock_step s s'"
  shows "used T s'"
proof -
  have open': "\<not> q_freed s q \<and> gone (qs_lock s) \<noteq> Some q" if "qs_use s u = Using q" for u q using inv(1) that by (simp add: used_def)
  from step show ?thesis
  proof cases
    case (create k)
    have "refers (qs_use s u) \<noteq> Some (qs_fresh s)" for u using inv(1) unfolding used_def by blast
    then have none: "users_of s (qs_fresh s) = {}" "qs_use s u \<noteq> Using (qs_fresh s)" for u
      using counts_refers by (auto simp: users_of_def) (metis refers.simps(5))
    have "users_of s' x = users_of s x" for x using create by (simp add: users_of_def)
    then show ?thesis using inv(1) create none by (auto simp: used_def less_Suc_eq)
  next
    case (close op q)
    have q: "q < qs_fresh s" using inv(2,3) close unfolding drained_def listed_def by (metis UnCI deleting.simps(4) lessThan_iff)
    have "qs_use s u \<noteq> Using q" if "qc_users (qs_heap s q) = 0" for u
      using users_word [OF T inv(1) q that] unfolding users_of_def by (metis (mono_tags, lifting) counts.simps(3) empty_Collect_eq)
    then show ?thesis using close open' by (intro used_frame [OF inv(1)]) (auto split: if_splits)
  qed (rule used_frame [OF inv(1)]; auto simp: complete_op_def retire_queue_def dest: open')+
qed

definition queue_inv :: "nat set \<Rightarrow> QueueSys \<Rightarrow> bool" where
  "queue_inv T s \<longleftrightarrow> listed s \<and> staged s \<and> drained s \<and> tabled s \<and> used T s"

lemma queue_reach_inv:
  assumes "finite T" "card T < 2 ^ 64" "queue_reach T s"
  shows "queue_inv T s"
  using assms(3)
proof induction
  case init
  show ?case by (simp add: queue_inv_def queue_inv_defs used_def queue_init_def users_of_def)
next
  case (use s u s')
  then show ?case using use_step_used [OF assms(1)] use_step_keeps [OF use(3)] unfolding queue_inv_def by blast
next
  case (lock s s')
  note I = lock.IH [unfolded queue_inv_def]
  show ?case unfolding queue_inv_def
    using lock_step_listed [OF lock.hyps(2)] lock_step_staged [OF lock.hyps(2)] lock_step_drained [OF lock.hyps(2)]
      lock_step_tabled [OF lock.hyps(2)] lock_step_used [OF assms(1,2) _ _ _ lock.hyps(2)] I by blast
next
  case (work s s')
  note f = work_step_frame [OF work(2)]
  have u: "used T s" using work.IH by (simp add: queue_inv_def)
  then have "\<not> q_freed s' q \<and> gone (qs_lock s') \<noteq> Some q" if "qs_use s u = Using q" for u q
    using that fun_cong [OF f(3), of q] f(8) by (simp add: used_def)
  then have "used T s'" by (rule used_frame [OF u f(10,4,11)])
  then show ?case using work.IH work_step_keeps [OF work(2)] by (simp add: queue_inv_def)
qed

section \<open>Properties\<close>

text \<open>The holder of the lock has no choice once its turn has begun.\<close>

definition turn :: "QueueSys \<Rightarrow> QueueSys" where
  "turn s = (case qs_lock s of
      Unlocked \<Rightarrow> s
    | Created q \<Rightarrow> publish_queue q s\<lparr>qs_lock := Published q\<rparr>
    | Published q \<Rightarrow> s\<lparr>qs_live := qs_live s @ [q], qs_lock := Unlocked\<rparr>
    | Polling op q \<Rightarrow> s\<lparr>qs_lock := if qc_users (qs_heap s q) = 0 then Checking op q 0 else Unlocked\<rparr>
    | Checking op q i \<Rightarrow>
        s\<lparr>qs_lock := if i = length (qc_work (qs_heap s q)) then Closing op q
                     else if qc_work (qs_heap s q) ! i = 0 then Checking op q (Suc i) else Unlocked\<rparr>
    | Closing op q \<Rightarrow> on_queue q (\<lambda>c. c\<lparr>qc_state := REMOVED\<rparr>) s\<lparr>qs_lock := Marked op q\<rparr>
    | Marked op q \<Rightarrow> s\<lparr>qs_lock := if qc_users (qs_heap s q) = 0 then Closed op q else Reopening op q\<rparr>
    | Reopening op q \<Rightarrow> on_queue q (\<lambda>c. c\<lparr>qc_state := DRAINING\<rparr>) s\<lparr>qs_lock := Unlocked\<rparr>
    | Closed op q \<Rightarrow> unpublish_queue q s\<lparr>qs_lock := Unpublished op q\<rparr>
    | Unpublished op q \<Rightarrow> on_queue q (\<lambda>c. c\<lparr>qc_freed := True, qc_state := REMOVED\<rparr>) s\<lparr>qs_lock := Destroyed op q\<rparr>
    | Destroyed op q \<Rightarrow> complete_op op (retire_queue q s)\<lparr>qs_lock := Unlocked\<rparr>)"

lemma turn_deterministic:
  assumes "lock_step s a" "qs_lock s \<noteq> Unlocked"
  shows "a = turn s"
  using assms(1) by cases (use assms(2) in \<open>simp_all add: turn_def\<close>)

lemma checking_run:
  assumes "list_all (\<lambda>n. n = 0) (qc_work (qs_heap s q))" "i \<le> length (qc_work (qs_heap s q))"
  shows "lock_step\<^sup>*\<^sup>* (s\<lparr>qs_lock := Checking op q i\<rparr>) (s\<lparr>qs_lock := Closing op q\<rparr>)"
  using assms(2)
proof (induction "length (qc_work (qs_heap s q)) - i" arbitrary: i)
  case 0
  then have "lock_step (s\<lparr>qs_lock := Checking op q i\<rparr>) (s\<lparr>qs_lock := Checking op q i\<rparr>\<lparr>qs_lock := Closing op q\<rparr>)"
    by (intro lock_step.idle) simp_all
  then show ?case by (intro r_into_rtranclp) simp
next
  case (Suc n)
  then have i: "i < length (qc_work (qs_heap s q))" by simp
  then have "lock_step (s\<lparr>qs_lock := Checking op q i\<rparr>) (s\<lparr>qs_lock := Checking op q i\<rparr>\<lparr>qs_lock := Checking op q (Suc i)\<rparr>)"
    using assms(1) by (intro lock_step.zero) (simp_all add: list_all_length)
  then have "lock_step (s\<lparr>qs_lock := Checking op q i\<rparr>) (s\<lparr>qs_lock := Checking op q (Suc i)\<rparr>)" by simp
  moreover have "lock_step\<^sup>*\<^sup>* (s\<lparr>qs_lock := Checking op q (Suc i)\<rparr>) (s\<lparr>qs_lock := Closing op q\<rparr>)" using Suc.hyps i by simp
  ultimately show ?case by (rule converse_rtranclp_into_rtranclp)
qed

lemma removal_run:
  assumes "qs_lock s = Polling op q" "op \<in> set (qs_draining s)" "qc_users (qs_heap s q) = 0" "list_all (\<lambda>n. n = 0) (qc_work (qs_heap s q))"
    "q \<in> set (qs_live s)" "distinct (qs_draining s)" "\<And>k. qs_table s k = Some q \<Longrightarrow> k = q_key s q \<and> queue_table_index_valid k"
  shows "\<exists>s'. lock_step\<^sup>*\<^sup>* s s' \<and> q_freed s' q \<and> q \<in> set (qs_retired s') \<and> qs_lock s' = Unlocked
    \<and> qs_ready s' = qs_ready s @ [op] \<and> op \<notin> set (qs_draining s') \<and> (\<forall>k. qs_table s' k \<noteq> Some q)"
proof -
  let ?s2 = "s\<lparr>qs_lock := Closing op q\<rparr>"
  let ?s3 = "on_queue q (\<lambda>c. c\<lparr>qc_state := REMOVED\<rparr>) ?s2\<lparr>qs_lock := Marked op q\<rparr>"
  let ?s4 = "?s3\<lparr>qs_lock := if qc_users (qs_heap ?s3 q) = 0 then Closed op q else Reopening op q\<rparr>"
  let ?s5 = "unpublish_queue q ?s4\<lparr>qs_lock := Unpublished op q\<rparr>"
  let ?s6 = "on_queue q (\<lambda>c. c\<lparr>qc_freed := True, qc_state := REMOVED\<rparr>) ?s5\<lparr>qs_lock := Destroyed op q\<rparr>"
  let ?s7 = "complete_op op (retire_queue q ?s6)\<lparr>qs_lock := Unlocked\<rparr>"
  have steps: "lock_step s (s\<lparr>qs_lock := Checking op q 0\<rparr>)" "lock_step ?s2 ?s3" "lock_step ?s3 ?s4" "lock_step ?s4 ?s5" "lock_step ?s5 ?s6" "lock_step ?s6 ?s7"
    by (rule lock_step.unused [OF assms(1,3)], rule lock_step.mark, simp,
        rule lock_step.close, simp, rule lock_step.unpublish, simp add: assms(3), rule lock_step.destroy, simp, rule lock_step.retire, simp)
  have "lock_step\<^sup>*\<^sup>* s ?s2"
    by (rule converse_rtranclp_into_rtranclp [OF steps(1) checking_run]) (use assms(4) in simp_all)
  moreover have "lock_step\<^sup>*\<^sup>* ?s2 ?s7"
    by (intro converse_rtranclp_into_rtranclp [of lock_step, OF steps(2)] converse_rtranclp_into_rtranclp [of lock_step, OF steps(3)]
        converse_rtranclp_into_rtranclp [of lock_step, OF steps(4)] converse_rtranclp_into_rtranclp [of lock_step, OF steps(5)]
        r_into_rtranclp [of lock_step, OF steps(6)])
  ultimately have "lock_step\<^sup>*\<^sup>* s ?s7" by (rule rtranclp_trans)
  moreover have "q_freed ?s7 q \<and> q \<in> set (qs_retired ?s7) \<and> qs_lock ?s7 = Unlocked \<and> qs_ready ?s7 = qs_ready s @ [op] \<and> op \<notin> set (qs_draining ?s7)"
    using assms(3,5,6) by (simp add: complete_op_def retire_queue_def)
  moreover have "qs_table ?s7 k \<noteq> Some q" for k
    using assms(7) [of k] by (cases "qs_table s k = Some q") (auto simp: complete_op_def retire_queue_def unpublish_table)
  ultimately show ?thesis by (intro exI [of _ ?s7]) simp
qed

text \<open>C5: in every interleaving, a thread that holds a queue through \<^verbatim>\<open>QueueUse\<close> holds one whose resources
  have not been released; the table leads only to queues that have not been released, each under
  its own port and number; every address that a thread may still follow belongs to an object that
  is listed as live or retired, or is being added; and only a queue whose state is \<^verbatim>\<open>REMOVED\<close> was
  released.\<close>

theorem used_queue_not_destroyed:
  assumes "finite T" "card T < 2 ^ 64" "queue_reach T s"
  shows "(\<forall>u q. qs_use s u = Using q \<longrightarrow> \<not> q_freed s q)
    \<and> (\<forall>k q. qs_table s k = Some q \<longrightarrow> \<not> q_freed s q \<and> q_key s q = k)
    \<and> (\<forall>u q. refers (qs_use s u) = Some q \<longrightarrow> q \<in> set (qs_live s) \<or> q \<in> set (qs_retired s) \<or> adding (qs_lock s) = Some q)
    \<and> (\<forall>q<qs_fresh s. q_freed s q \<longrightarrow> q_state s q = REMOVED)"
proof -
  have I: "listed s" "staged s" "tabled s" "used T s" using queue_reach_inv [OF assms] by (simp_all add: queue_inv_def)
  have place: "q \<in> set (qs_live s) \<or> q \<in> set (qs_retired s) \<or> adding (qs_lock s) = Some q" if "q < qs_fresh s" for q
    using I(1) that unfolding listed_def by (metis UnE elem_set lessThan_iff)
  have "\<not> q_freed s q" if "adding (qs_lock s) = Some q" for q using I(1) that by (simp add: listed_def)
  moreover have "q_state s q = REMOVED" if "q \<in> set (qs_live s)" "q_freed s q" for q
    using I(2) that by (cases "qs_lock s") (auto simp: staged_def)
  moreover have "\<not> q_freed s q" if "qs_table s k = Some q" for k q
    using that I(1,2) unfolding tabledD [OF I(3)] by (cases "qs_lock s") (auto simp: staged_def listed_def)
  ultimately show ?thesis using I(2,4) place unfolding tabledD [OF I(3)] used_def staged_def by blast
qed

text \<open>C15: whenever no operation is in progress, the table leads to exactly the queues in use, at most one for each
  port and number, and each pending deletion is of such a queue, which is draining. Once nobody
  uses that queue and nothing of its data path is outstanding, polling can begin its turn on it, and the turn, which unless others intervene has
  no choice, removes the queue: its resources are released, the table forgets it and the
  operation is reported as completed.\<close>

theorem drained_queue_removed:
  assumes "finite T" "card T < 2 ^ 64" "queue_reach T s" "qs_lock s = Unlocked"
  shows "(\<forall>k q. qs_table s k = Some q \<longleftrightarrow> queue_table_index_valid k \<and> q \<in> set (qs_live s) \<and> q_key s q = k)
    \<and> inj_on (q_key s) (set (qs_live s))
    \<and> (\<forall>op\<in>set (qs_draining s). \<exists>q\<in>set (qs_live s). q_key s q = snd op \<and> q_state s q = DRAINING
        \<and> (users_of s q = {} \<and> list_all (\<lambda>n. n = 0) (qc_work (qs_heap s q)) \<longrightarrow>
            lock_step s (s\<lparr>qs_lock := Polling op q\<rparr>)
            \<and> (\<exists>s'. lock_step\<^sup>*\<^sup>* (s\<lparr>qs_lock := Polling op q\<rparr>) s' \<and> q_freed s' q \<and> q \<in> set (qs_retired s') \<and> qs_lock s' = Unlocked
                \<and> qs_ready s' = qs_ready s @ [op] \<and> op \<notin> set (qs_draining s') \<and> (\<forall>k. qs_table s' k \<noteq> Some q))))
    \<and> (\<forall>t a b. qs_lock t \<noteq> Unlocked \<and> lock_step t a \<and> lock_step t b \<longrightarrow> a = b)"
proof -
  have I: "listed s" "staged s" "drained s" "tabled s" "used T s" using queue_reach_inv [OF assms(1-3)] by (simp_all add: queue_inv_def)
  have inj: "inj_on (q_key s) (set (qs_live s))" "distinct (map snd (qs_draining s))" using I(1,3) by (simp_all add: listed_def drained_def)
  have dist: "distinct (qs_draining s)" using inj(2) by (simp add: distinct_map)
  have tab: "qs_table s k = Some q \<longleftrightarrow> queue_table_index_valid k \<and> q \<in> set (qs_live s) \<and> q_key s q = k" for k q
    using assms(4) by (auto simp: tabledD [OF I(4)])
  have "\<exists>q\<in>set (qs_live s). q_key s q = snd op \<and> q_state s q = DRAINING
        \<and> (users_of s q = {} \<and> list_all (\<lambda>n. n = 0) (qc_work (qs_heap s q)) \<longrightarrow>
            lock_step s (s\<lparr>qs_lock := Polling op q\<rparr>)
            \<and> (\<exists>s'. lock_step\<^sup>*\<^sup>* (s\<lparr>qs_lock := Polling op q\<rparr>) s' \<and> q_freed s' q \<and> q \<in> set (qs_retired s') \<and> qs_lock s' = Unlocked
                \<and> qs_ready s' = qs_ready s @ [op] \<and> op \<notin> set (qs_draining s') \<and> (\<forall>k. qs_table s' k \<noteq> Some q)))"
    if op: "op \<in> set (qs_draining s)" for op
  proof -
    obtain q where q: "q \<in> set (qs_live s)" "q_key s q = snd op" "q_state s q \<noteq> ACTIVE"
      using I(3) imageI [OF op, of snd] unfolding drained_def by auto
    have st: "q_state s q = DRAINING" using I(2) q assms(4) by (auto simp: staged_def)
    have fq: "find_queue_any s (snd op) = Some q"
    proof (cases "find_queue_any s (snd op)")
      case None
      then show ?thesis using find_queue_any_NoneD [OF None q(1,2)] st by simp
    next
      case (Some x)
      then show ?thesis using find_queue_any_SomeD [OF Some] inj_onD [OF inj(1), of x q] q by metis
    qed
    have "q \<in> {..<qs_fresh s}" using I(1) q(1) unfolding listed_def by (metis UnCI)
    then have u0: "qc_users (qs_heap s q) = 0" if "users_of s q = {}" using I(5) that by (simp add: used_def)
    let ?s1 = "s\<lparr>qs_lock := Polling op q\<rparr>"
    have "lock_step s ?s1 \<and> (\<exists>s'. lock_step\<^sup>*\<^sup>* ?s1 s' \<and> q_freed s' q \<and> q \<in> set (qs_retired s') \<and> qs_lock s' = Unlocked
        \<and> qs_ready s' = qs_ready s @ [op] \<and> op \<notin> set (qs_draining s') \<and> (\<forall>k. qs_table s' k \<noteq> Some q))"
      if "users_of s q = {}" "list_all (\<lambda>n. n = 0) (qc_work (qs_heap s q))"
      using removal_run [of ?s1 op q] lock_step.poll [OF assms(4) op fq u0 [OF that(1)]] u0 [OF that(1)] that(2) op q(1) dist by (simp add: tab)
    then show ?thesis by (intro bexI [OF _ q(1)] conjI impI q(2) st) simp_all
  qed
  moreover have "a = b" if "qs_lock t \<noteq> Unlocked" "lock_step t a" "lock_step t b" for t a b
    using turn_deterministic that by metis
  ultimately show ?thesis using tab inj(1) by blast
qed

section \<open>An example history\<close>

definition demo_added :: QueueSys where
  "demo_added = queue_init
     \<lparr>qs_heap := (qs_heap queue_init)(0 := \<lparr>qc_key = (0, 0), qc_state = ACTIVE, qc_users = 0, qc_freed = False, qc_work = [0, 0]\<rparr>),
      qs_fresh := 1, qs_table := (qs_table queue_init)((0, 0) := Some 0), qs_live := [0]\<rparr>"

lemma demo_added_reach: "queue_reach T demo_added"
proof -
  let ?s1 = "queue_init\<lparr>qs_heap := (qs_heap queue_init)(0 := \<lparr>qc_key = (0, 0), qc_state = ACTIVE, qc_users = 0, qc_freed = False, qc_work = [0, 0]\<rparr>),
    qs_fresh := 1, qs_lock := Created 0\<rparr>"
  let ?s2 = "publish_queue 0 ?s1\<lparr>qs_lock := Published 0\<rparr>"
  let ?s3 = "?s2\<lparr>qs_live := qs_live ?s2 @ [0], qs_lock := Unlocked\<rparr>"
  have "lock_step queue_init ?s1"
    using lock_step.create [of queue_init "(0, 0)" 2] by (simp add: queue_init_def find_queue_any_def numeral_2_eq_2)
  then have "queue_reach T ?s1" by (rule queue_reach.lock [OF queue_reach.init])
  then have "queue_reach T ?s2" by (rule queue_reach.lock) (rule lock_step.publish, simp)
  then have "queue_reach T ?s3" by (rule queue_reach.lock) (rule lock_step.add, simp)
  moreover have "?s3 = demo_added"
    by (simp add: demo_added_def queue_init_def publish_queue_def queue_table_index_valid_def MAX_INTERFACES_def MAX_NUM_RX_QUEUES_def Let_def)
  ultimately show ?thesis by simp
qed

lemma demo_added_fields [simp]:
  "qs_table demo_added (0, 0) = Some 0" "qs_use demo_added u = Outside" "qs_lock demo_added = Unlocked" "qs_live demo_added = [0]"
  "qs_draining demo_added = []" "qs_heap demo_added 0 = \<lparr>qc_key = (0, 0), qc_state = ACTIVE, qc_users = 0, qc_freed = False, qc_work = [0, 0]\<rparr>"
  "qs_next_op demo_added = 1" "qs_ready demo_added = []"
  by (simp_all add: demo_added_def queue_init_def)

theorem used_queue_not_destroyed_witness:
  "\<exists>s. queue_reach {7} s \<and> qs_use s 7 = Using 0 \<and> \<not> q_freed s 0"
proof -
  let ?s1 = "demo_added\<lparr>qs_use := (qs_use demo_added)(7 := Found 0 False)\<rparr>"
  let ?s2 = "on_queue 0 (\<lambda>c. c\<lparr>qc_users := qc_users c + 1\<rparr>) ?s1\<lparr>qs_use := (qs_use ?s1)(7 := Counted 0 False)\<rparr>"
  let ?s3 = "?s2\<lparr>qs_use := (qs_use ?s2)(7 := if may_use False (qc_state (qs_heap ?s2 0)) then Using 0 else Leaving 0)\<rparr>"
  have "queue_reach {7} ?s1"
    by (rule queue_reach.use [OF demo_added_reach _ use_step.lookup [of _ _ "(0, 0)"]])
      (simp_all add: queue_table_index_valid_def MAX_INTERFACES_def MAX_NUM_RX_QUEUES_def)
  then have "queue_reach {7} ?s2" by (rule queue_reach.use [where u = 7]) (simp, rule use_step.enter, simp)
  then have r: "queue_reach {7} ?s3" by (rule queue_reach.use [where u = 7]) (simp, rule use_step.check, simp)
  have "qs_use ?s3 7 = Using 0" by (simp add: may_use_def)
  then show ?thesis using r used_queue_not_destroyed [OF _ _ r] by (intro exI [of _ ?s3]) simp
qed

theorem drained_queue_removed_witness:
  "\<exists>s s'. queue_reach {} s \<and> qs_draining s = [(1, 0, 0)] \<and> lock_step\<^sup>*\<^sup>* s s' \<and> q_freed s' 0 \<and> qs_ready s' = [(1, 0, 0)]"
proof -
  let ?s = "on_queue 0 (\<lambda>c. c\<lparr>qc_state := DRAINING\<rparr>) demo_added\<lparr>qs_next_op := 2, qs_draining := qs_draining demo_added @ [(1, 0, 0)]\<rparr>"
  have r: "queue_reach {} ?s"
    by (rule queue_reach.lock [OF demo_added_reach lock_step.drain])
      (simp_all add: find_queue_def allocate_resource_op_id_locked_def)
  have u: "users_of ?s 0 = {}" "qs_live ?s = [0]" "qs_draining ?s = [(1, 0, 0)]" "qs_ready ?s = []" by (simp_all add: users_of_def)
  obtain s' where "lock_step ?s (?s\<lparr>qs_lock := Polling (1, 0, 0) 0\<rparr>)" "lock_step\<^sup>*\<^sup>* (?s\<lparr>qs_lock := Polling (1, 0, 0) 0\<rparr>) s'"
    "q_freed s' 0" "qs_ready s' = [(1, 0, 0)]"
    using drained_queue_removed [OF _ _ r] u by auto
  then have "lock_step\<^sup>*\<^sup>* ?s s'" "q_freed s' 0" "qs_ready s' = [(1, 0, 0)]"
    by (auto intro: converse_rtranclp_into_rtranclp [of lock_step])
  then show ?thesis using r u(3) by (intro exI [of _ ?s] exI [of _ s'] conjI)
qed

section \<open>The owner of a direct queue\<close>

text \<open>\<^verbatim>\<open>claim_direct_owner\<close>: a thread is named by its token, which is not 0.\<close>

datatype ClaimPc = NotClaiming | Saw u64 | Refused | Owner

record OwnerState =
  ow_owner :: u64
  ow_pc :: "u64 \<Rightarrow> ClaimPc"

inductive claim_step :: "u64 \<Rightarrow> OwnerState \<Rightarrow> OwnerState \<Rightarrow> bool" for caller where
  load: "caller \<noteq> 0 \<Longrightarrow> ow_pc s caller = NotClaiming \<Longrightarrow> claim_step caller s (s\<lparr>ow_pc := (ow_pc s)(caller := Saw (ow_owner s))\<rparr>)"
| decide: "ow_pc s caller = Saw current \<Longrightarrow> current \<noteq> 0 \<Longrightarrow>
    claim_step caller s (s\<lparr>ow_pc := (ow_pc s)(caller := if current = caller then Owner else Refused)\<rparr>)"
| cas: "ow_pc s caller = Saw 0 \<Longrightarrow>
    claim_step caller s
      (if ow_owner s = 0 then s\<lparr>ow_owner := caller, ow_pc := (ow_pc s)(caller := Owner)\<rparr>
       else s\<lparr>ow_pc := (ow_pc s)(caller := if ow_owner s = caller then Owner else Refused)\<rparr>)"
| finish: "ow_pc s caller = Owner \<or> ow_pc s caller = Refused \<Longrightarrow>
    claim_step caller s (s\<lparr>ow_pc := (ow_pc s)(caller := NotClaiming)\<rparr>)"

definition owner_init :: OwnerState where
  "owner_init = \<lparr>ow_owner = 0, ow_pc = \<lambda>_. NotClaiming\<rparr>"

inductive claim_reach :: "OwnerState \<Rightarrow> bool" where
  init: "claim_reach owner_init"
| step: "claim_reach s \<Longrightarrow> claim_step t s s' \<Longrightarrow> claim_reach s'"

definition claim_inv :: "OwnerState \<Rightarrow> bool" where
  "claim_inv s \<longleftrightarrow> (\<forall>t. (ow_pc s t = Owner \<longrightarrow> ow_owner s = t) \<and> (ow_pc s t = Refused \<longrightarrow> ow_owner s \<noteq> t \<and> ow_owner s \<noteq> 0)
     \<and> (\<forall>c. ow_pc s t = Saw c \<longrightarrow> c = 0 \<or> c = ow_owner s) \<and> (ow_pc s t \<noteq> NotClaiming \<longrightarrow> t \<noteq> 0))"

lemma claim_step_inv:
  assumes "claim_step t s s'" "claim_inv s"
  shows "claim_inv s'"
proof -
  have I: "ow_pc s x = Owner \<Longrightarrow> ow_owner s = x" "ow_pc s x = Refused \<Longrightarrow> ow_owner s \<noteq> x \<and> ow_owner s \<noteq> 0"
    "ow_pc s x = Saw c \<Longrightarrow> c = 0 \<or> c = ow_owner s" "ow_pc s x \<noteq> NotClaiming \<Longrightarrow> x \<noteq> 0" for x c
    using assms(2) by (auto simp: claim_inv_def)
  have "(ow_pc s' x = Owner \<longrightarrow> ow_owner s' = x) \<and> (ow_pc s' x = Refused \<longrightarrow> ow_owner s' \<noteq> x \<and> ow_owner s' \<noteq> 0)
     \<and> (\<forall>c. ow_pc s' x = Saw c \<longrightarrow> c = 0 \<or> c = ow_owner s') \<and> (ow_pc s' x \<noteq> NotClaiming \<longrightarrow> x \<noteq> 0)" for x
    using assms(1) by cases (use I [of x] I [of t] in \<open>auto split: if_splits\<close>)
  then show ?thesis by (simp add: claim_inv_def)
qed

lemma claim_step_owner: "claim_step t s s' \<Longrightarrow> ow_owner s \<noteq> 0 \<Longrightarrow> ow_owner s' = ow_owner s"
  by (cases rule: claim_step.cases) auto

lemma claim_reach_inv: "claim_reach s \<Longrightarrow> claim_inv s"
  by (induction rule: claim_reach.induct) (simp add: claim_inv_def owner_init_def, rule claim_step_inv)

text \<open>C24: the claims on a direct queue succeed for one thread only, for ever, and that thread is never refused: once a
  thread has succeeded, in all later states every thread that succeeds is this one and it is
  never refused.\<close>

theorem direct_owner_unique:
  assumes "claim_reach s" "ow_pc s t = Owner" "(\<lambda>s s'. \<exists>u. claim_step u s s')\<^sup>*\<^sup>* s s'"
  shows "(ow_pc s' t' = Owner \<longrightarrow> t' = t) \<and> ow_pc s' t \<noteq> Refused"
proof -
  have t: "ow_owner s = t" "t \<noteq> 0" using claim_reach_inv [OF assms(1)] assms(2) by (auto simp: claim_inv_def)
  from assms(3) have "claim_reach s' \<and> ow_owner s' = t"
  proof induction
    case base
    then show ?case using assms(1) t by simp
  next
    case (step y z)
    then show ?case using claim_step_owner t claim_reach.step by metis
  qed
  then show ?thesis using claim_reach_inv by (auto simp: claim_inv_def)
qed

theorem direct_owner_unique_witness:
  "\<exists>s. claim_reach s \<and> ow_pc s 5 = Owner \<and> (ow_pc s 6 = Owner \<longrightarrow> 6 = (5 :: u64))"
proof -
  let ?s1 = "owner_init\<lparr>ow_pc := (ow_pc owner_init)(5 := Saw (ow_owner owner_init))\<rparr>"
  let ?s2 = "if ow_owner ?s1 = 0 then ?s1\<lparr>ow_owner := 5, ow_pc := (ow_pc ?s1)(5 := Owner)\<rparr>
       else ?s1\<lparr>ow_pc := (ow_pc ?s1)(5 := if ow_owner ?s1 = 5 then Owner else Refused)\<rparr>"
  have "claim_reach ?s1" by (rule claim_reach.step [OF claim_reach.init claim_step.load]) (simp_all add: owner_init_def)
  then have r: "claim_reach ?s2" by (rule claim_reach.step) (rule claim_step.cas, simp add: owner_init_def)
  have o: "ow_pc ?s2 5 = Owner" by (simp add: owner_init_def)
  show ?thesis using r o direct_owner_unique [OF r o rtranclp.rtrancl_refl, of 6] by (intro exI [of _ ?s2] conjI) blast+
qed

end
