(* ===== verification/Completion_Queue.thy ===== *)
theory Completion_Queue
  imports Daqiri_Prelude
begin

text \<open>
  Reading a completion queue that the device writes
  (\<^verbatim>\<open>src/src/engines/ibverbs/daqiri_ibverbs_engine.cpp\<close>, the loops of \<^verbatim>\<open>poll_tx_completions\<close> and
  \<^verbatim>\<open>rx_poll_queue\<close>). The queue is an array of \<open>2 ^ k\<close> entries; the device writes entry \<open>i\<close> into
  slot \<open>i mod 2 ^ k\<close> with an owner bit that flips on every lap, and the reader, whose consumer index
  is a 32-bit word, takes an entry for new when the owner bit fits its own lap.
\<close>

unbundle bit_operations_syntax

section \<open>Model\<close>

record Cqe =
  ce_op_own :: u8
  ce_wqe_counter :: u16

record CompletionQueue =
  cq_cqe_cnt :: u32
  cq_mem :: "nat \<Rightarrow> Cqe"
  cq_ci :: u32

definition MLX5_CQE_REQ :: u8 where "MLX5_CQE_REQ = 0"
definition MLX5_CQE_REQ_ERR :: u8 where "MLX5_CQE_REQ_ERR = 13"
definition MLX5_CQE_RESP_ERR :: u8 where "MLX5_CQE_RESP_ERR = 14"
definition MLX5_CQE_INVALID :: u8 where "MLX5_CQE_INVALID = 15"

definition ce_opcode :: "Cqe \<Rightarrow> u8" where
  "ce_opcode c = drop_bit 4 (ce_op_own c)"

definition cqe_ready :: "CompletionQueue \<Rightarrow> bool" where
  "cqe_ready cq =
     (let cqe = cq_mem cq (unat (cq_ci cq AND (cq_cqe_cnt cq - 1)));
          owner = ce_op_own cqe AND 1;
          phase = (if cq_ci cq AND cq_cqe_cnt cq \<noteq> 0 then 1 else 0)
      in \<not> (ce_opcode cqe = MLX5_CQE_INVALID \<or> owner \<noteq> phase))"

primrec read_cqes :: "nat \<Rightarrow> CompletionQueue \<Rightarrow> Cqe list \<times> CompletionQueue" where
  "read_cqes 0 cq = ([], cq)"
| "read_cqes (Suc fuel) cq =
     (if cqe_ready cq
      then (let cqe = cq_mem cq (unat (cq_ci cq AND (cq_cqe_cnt cq - 1)));
                (rest, cq') = read_cqes fuel (cq\<lparr>cq_ci := cq_ci cq + 1\<rparr>)
            in (cqe # rest, cq'))
      else ([], cq))"

text \<open>The device: entry number \<open>i\<close> of \<open>2 ^ k\<close>.\<close>

definition lap_owner :: "nat \<Rightarrow> nat \<Rightarrow> u8" where
  "lap_owner k i = of_nat (i div 2 ^ k mod 2)"

definition device_cqe :: "nat \<Rightarrow> nat \<Rightarrow> u8 \<Rightarrow> u16 \<Rightarrow> Cqe" where
  "device_cqe k i opcode counter = \<lparr>ce_op_own = push_bit 4 opcode OR lap_owner k i, ce_wqe_counter = counter\<rparr>"

definition device_write :: "nat \<Rightarrow> nat \<Rightarrow> u8 \<Rightarrow> u16 \<Rightarrow> CompletionQueue \<Rightarrow> CompletionQueue" where
  "device_write k i opcode counter cq = cq\<lparr>cq_mem := (cq_mem cq)(i mod 2 ^ k := device_cqe k i opcode counter)\<rparr>"

text \<open>As the device leaves it at creation.\<close>

definition empty_cq :: "nat \<Rightarrow> CompletionQueue" where
  "empty_cq k = \<lparr>cq_cqe_cnt = 2 ^ k, cq_mem = \<lambda>_. \<lparr>ce_op_own = push_bit 4 MLX5_CQE_INVALID, ce_wqe_counter = 0\<rparr>, cq_ci = 0\<rparr>"

section \<open>Owner bits\<close>

definition looks_new :: "nat \<Rightarrow> nat \<Rightarrow> Cqe \<Rightarrow> bool" where
  "looks_new k i c \<longleftrightarrow> ce_opcode c \<noteq> MLX5_CQE_INVALID \<and> ce_op_own c AND 1 = lap_owner k i"

text \<open>\<open>n\<close> entries have been read, \<open>p\<close> written.\<close>

definition cq_holds :: "nat \<Rightarrow> nat \<Rightarrow> nat \<Rightarrow> CompletionQueue \<Rightarrow> bool" where
  "cq_holds k n p cq \<longleftrightarrow> k < 31 \<and> cq_cqe_cnt cq = 2 ^ k \<and> cq_ci cq = of_nat n \<and> n \<le> p \<and> p \<le> n + 2 ^ k
     \<and> (\<forall>i. n \<le> i \<and> i < n + 2 ^ k \<longrightarrow> looks_new k i (cq_mem cq (i mod 2 ^ k)) = (i < p))"

definition cq_unread :: "nat \<Rightarrow> nat \<Rightarrow> nat \<Rightarrow> CompletionQueue \<Rightarrow> Cqe list" where
  "cq_unread k n p cq = map (\<lambda>i. cq_mem cq (i mod 2 ^ k)) [n..<p]"

lemma ci_slot:
  assumes "k < 31"
  shows "unat ((of_nat n :: u32) AND (2 ^ k - 1)) = n mod 2 ^ k"
proof -
  have "(2::nat) ^ k dvd 2 ^ 32" using assms by (intro le_imp_power_dvd) simp
  then show ?thesis by (simp add: unat_and_pow2_mask unat_of_nat mod_mod_cancel)
qed

lemma ci_phase:
  assumes "k < 31"
  shows "(if (of_nat n :: u32) AND 2 ^ k \<noteq> 0 then 1 else 0) = lap_owner k n"
proof -
  have "((of_nat n :: u32) AND 2 ^ k \<noteq> 0) = bit (of_nat n :: u32) k"
    by (simp add: and_exp_eq_0_iff_not_bit)
  also have "\<dots> = bit n k" using assms by (simp add: bit_of_nat_iff)
  also have "\<dots> = odd (n div 2 ^ k)" by (simp add: bit_iff_odd)
  finally show ?thesis by (simp add: lap_owner_def mod_2_eq_odd)
qed

lemma lap_owner_flip: "lap_owner k (i + 2 ^ k) \<noteq> lap_owner k i"
proof -
  have "(i + 2 ^ k) div 2 ^ k = Suc (i div 2 ^ k)" by (simp add: div_add_self2)
  then show ?thesis by (simp add: lap_owner_def mod_2_eq_odd)
qed

lemma lap_owner_bit: "lap_owner k i = (if odd (i div 2 ^ k) then 1 else 0)"
  by (simp add: lap_owner_def mod_2_eq_odd)

lemma device_cqe_new:
  assumes "opcode < 15"
  shows "looks_new k i (device_cqe k i opcode counter)" "ce_opcode (device_cqe k i opcode counter) = opcode"
    "ce_wqe_counter (device_cqe k i opcode counter) = counter"
proof -
  have "unat opcode < 2 ^ 4" using assms by (simp add: word_less_nat_alt)
  then have "unat (take_bit 4 opcode) = unat opcode" by (simp add: unsigned_take_bit_eq take_bit_nat_eq_self)
  then have "take_bit 4 opcode = opcode" by (simp only: word_unat_eq_iff)
  then have high: "bit opcode n \<Longrightarrow> n < 4" for n by (metis bit_take_bit_iff)
  have op: "drop_bit 4 (push_bit 4 opcode OR lap_owner k i) = opcode"
    by (rule bit_word_eqI) (auto simp: bit_simps lap_owner_bit dest: high)
  have own: "(push_bit 4 opcode OR lap_owner k i) AND 1 = lap_owner k i"
    by (rule bit_word_eqI) (auto simp: bit_simps lap_owner_bit)
  have "opcode \<noteq> 15" using assms by auto
  moreover have "ce_opcode (device_cqe k i opcode counter) = opcode" "ce_op_own (device_cqe k i opcode counter) AND 1 = lap_owner k i"
    by (simp_all only: ce_opcode_def device_cqe_def Cqe.simps op own)
  ultimately show "looks_new k i (device_cqe k i opcode counter)" "ce_opcode (device_cqe k i opcode counter) = opcode"
    "ce_wqe_counter (device_cqe k i opcode counter) = counter"
    by (simp_all add: looks_new_def MLX5_CQE_INVALID_def) (simp add: device_cqe_def)
qed

section \<open>Reading and writing\<close>

lemma cqe_ready_iff:
  assumes "cq_holds k n p cq"
  shows "cqe_ready cq = (n < p)" "cq_mem cq (unat (cq_ci cq AND (cq_cqe_cnt cq - 1))) = cq_mem cq (n mod 2 ^ k)"
proof -
  have c: "k < 31" "cq_cqe_cnt cq = 2 ^ k" "cq_ci cq = of_nat n" using assms by (auto simp: cq_holds_def)
  show slot: "cq_mem cq (unat (cq_ci cq AND (cq_cqe_cnt cq - 1))) = cq_mem cq (n mod 2 ^ k)"
    by (simp add: c ci_slot [OF c(1)])
  have "looks_new k n (cq_mem cq (n mod 2 ^ k)) = (n < p)" using assms by (auto simp: cq_holds_def)
  then show "cqe_ready cq = (n < p)"
    unfolding cqe_ready_def Let_def slot by (simp add: c ci_phase [OF c(1), of n] looks_new_def)
qed

lemma cq_holds_read:
  assumes "cq_holds k n p cq" "n < p"
  shows "cq_holds k (Suc n) p (cq\<lparr>cq_ci := cq_ci cq + 1\<rparr>)"
proof -
  have old: "looks_new k i (cq_mem cq (i mod 2 ^ k)) = (i < p)" if "n \<le> i" "i < n + 2 ^ k" for i
    using assms(1) that by (simp add: cq_holds_def)
  have "looks_new k n (cq_mem cq (n mod 2 ^ k))" using old [of n] assms(2) by simp
  then have "\<not> looks_new k (n + 2 ^ k) (cq_mem cq ((n + 2 ^ k) mod 2 ^ k))"
    using lap_owner_flip [of k n] by (simp add: looks_new_def)
  then have "looks_new k i (cq_mem cq (i mod 2 ^ k)) = (i < p)" if "Suc n \<le> i" "i < Suc n + 2 ^ k" for i
    using old [of i] that assms(1) by (cases "i = n + 2 ^ k") (auto simp: cq_holds_def)
  then show ?thesis using assms by (simp add: cq_holds_def)
qed

lemma lap_slot_distinct: "i < j \<Longrightarrow> j < i + m \<Longrightarrow> i mod m \<noteq> (j :: nat) mod m"
  using mod_eq_dvd_iff_nat [of i j m] dvd_imp_le [of m "j - i"] by auto

lemma cq_holds_write:
  assumes "cq_holds k n p cq" "p < n + 2 ^ k" "opcode < 15"
  shows "cq_holds k n (Suc p) (device_write k p opcode counter cq)"
proof -
  have old: "looks_new k i (cq_mem cq (i mod 2 ^ k)) = (i < p)" if "n \<le> i" "i < n + 2 ^ k" for i
    using assms(1) that by (simp add: cq_holds_def)
  have "i mod 2 ^ k \<noteq> p mod 2 ^ k" if "n \<le> i" "i < n + 2 ^ k" "i \<noteq> p" for i
    using that assms lap_slot_distinct [of i p "2 ^ k"] lap_slot_distinct [of p i "2 ^ k"] unfolding cq_holds_def
    by (cases "i < p") auto
  then have "looks_new k i (cq_mem (device_write k p opcode counter cq) (i mod 2 ^ k)) = (i < Suc p)" if "n \<le> i" "i < n + 2 ^ k" for i
    using old [OF that] that device_cqe_new(1) [OF assms(3)] by (cases "i = p") (auto simp: device_write_def)
  then show ?thesis using assms by (simp add: cq_holds_def device_write_def)
qed

lemma cq_unread_write:
  assumes "cq_holds k n p cq" "p < n + 2 ^ k"
  shows "cq_unread k n (Suc p) (device_write k p opcode counter cq) = cq_unread k n p cq @ [device_cqe k p opcode counter]"
proof -
  have "n \<le> p" using assms(1) by (simp add: cq_holds_def)
  moreover have "i mod 2 ^ k \<noteq> p mod 2 ^ k" if "n \<le> i" "i < p" for i
    using that assms(2) lap_slot_distinct [of i p "2 ^ k"] by simp
  ultimately show ?thesis by (simp add: cq_unread_def device_write_def)
qed

text \<open>Polling a completion queue returns exactly the entries the device has written since the last
  poll, in their order, however often the consumer index and the owner bit have wrapped.\<close>

lemma cqes_read_exactly:
  assumes "cq_holds k n p cq" "2 ^ k \<le> fuel"
  shows "\<exists>cq'. read_cqes fuel cq = (cq_unread k n p cq, cq') \<and> cq_holds k p p cq' \<and> cq_mem cq' = cq_mem cq"
proof -
  have "p - n \<le> fuel" using assms by (auto simp: cq_holds_def)
  with assms(1) show ?thesis
  proof (induction fuel arbitrary: n cq)
    case 0
    then have "n = p" by (auto simp: cq_holds_def)
    then show ?case using 0 by (simp add: cq_unread_def)
  next
    case (Suc fuel)
    show ?case
    proof (cases "n < p")
      case True
      let ?cq = "cq\<lparr>cq_ci := cq_ci cq + 1\<rparr>"
      obtain cq' where r: "read_cqes fuel ?cq = (cq_unread k (Suc n) p ?cq, cq')" "cq_holds k p p cq'" "cq_mem cq' = cq_mem ?cq"
        using Suc.IH [OF cq_holds_read [OF Suc.prems(1) True]] Suc.prems(2) True by fastforce
      have "cq_unread k n p cq = cq_mem cq (n mod 2 ^ k) # cq_unread k (Suc n) p ?cq"
        using True by (simp add: cq_unread_def upt_conv_Cons)
      then show ?thesis using r True by (simp add: cqe_ready_iff [OF Suc.prems(1)] Let_def)
    next
      case False
      then have "n = p" using Suc.prems(1) by (simp add: cq_holds_def)
      then show ?thesis using Suc.prems(1) False by (simp add: cqe_ready_iff [OF Suc.prems(1)] cq_unread_def)
    qed
  qed
qed

lemma cq_holds_empty: "k < 31 \<Longrightarrow> cq_holds k 0 0 (empty_cq k)"
  by (simp add: cq_holds_def empty_cq_def looks_new_def ce_opcode_def MLX5_CQE_INVALID_def)

end
