(* ===== verification/Tx_Queue.thy ===== *)
theory Tx_Queue
  imports Completion_Queue Daqiri_Types
begin

text \<open>
  The transmit path of an indirect cyclic queue of the ibverbs engine
  (\<^verbatim>\<open>src/src/engines/ibverbs/daqiri_ibverbs_engine.cpp\<close>): the application takes packet slots
  (\<^verbatim>\<open>get_tx_packet_burst\<close>) and hands the burst over (\<^verbatim>\<open>send_tx_burst\<close>), the worker (\<^verbatim>\<open>tx_worker\<close>) checks the space
  of the send queue, builds work queue entries (\<^verbatim>\<open>post_tx_burst\<close>) and reclaims slots from the completion
  queue (\<^verbatim>\<open>poll_tx_completions\<close>). The two threads and the device interleave operation by operation; they
  share only the completed tail, the hand-off ring, represented by its contents, and the two queues.
  As the code demands of its caller, a burst is sent or given back before the next one is taken.
  Of the contents of a work queue entry the model keeps its place, its size, its packet slots and
  whether it asks for a completion. The device executes entries in order; it reports those that ask
  for it, and of the others, whose mode is \<^verbatim>\<open>MLX5_COMP_ONLY_FIRST_ERR\<close>, one that fails first (also a WAIT entry). Transmit timestamps are not modelled beyond the completions they request.
\<close>

unbundle bit_operations_syntax

section \<open>Bursts and their work queue entries\<close>

record TxBurst =
  tb_slots :: "nat list"            \<comment> \<open>one slot per packet\<close>
  tb_num_segs :: nat
  tb_endpoint :: bool               \<comment> \<open>\<^verbatim>\<open>IBV_TX_ENDPOINT_INLINE_FLAG\<close>\<close>
  tb_scheduled :: bool              \<comment> \<open>\<^verbatim>\<open>IBV_TX_SCHEDULED_FLAG\<close>\<close>
  tb_txtime :: "nat \<Rightarrow> u64"
  tb_timestamp :: bool              \<comment> \<open>\<^verbatim>\<open>IBV_TX_TIMESTAMP_FLAG\<close>\<close>
  tb_ids :: "nat \<Rightarrow> u64"

definition MLX5_SEND_WQE_BB :: nat where "MLX5_SEND_WQE_BB = 64"
definition EMPW_MAX_PACKETS :: nat where "EMPW_MAX_PACKETS = 32"

definition gather_wqe_ds :: "nat \<Rightarrow> bool \<Rightarrow> nat" where
  "gather_wqe_ds num_segs endpoint = ((if endpoint then 5 else 2) + num_segs) mod 256"

definition gather_wqe_wqebbs :: "nat \<Rightarrow> bool \<Rightarrow> nat" where
  "gather_wqe_wqebbs num_segs endpoint = (gather_wqe_ds num_segs endpoint * 16 + MLX5_SEND_WQE_BB - 1) div MLX5_SEND_WQE_BB"

definition empw_wqebbs :: "nat \<Rightarrow> nat" where
  "empw_wqebbs packets = (2 + packets + 3) div 4"

fun empw_burst_wqebbs :: "nat \<Rightarrow> nat" where
  "empw_burst_wqebbs packets =
     (if packets = 0 then 0
      else (let part = (if packets < EMPW_MAX_PACKETS then packets else EMPW_MAX_PACKETS)
            in if part = 0 then 0 else empw_wqebbs part + empw_burst_wqebbs (packets - part)))"

declare empw_burst_wqebbs.simps [simp del]

definition packet_tx_timestamp_id :: "TxBurst \<Rightarrow> nat \<Rightarrow> u64" where
  "packet_tx_timestamp_id b i = (if tb_timestamp b then tb_ids b i else 0)"

definition empw_compatible_burst :: "TxBurst \<Rightarrow> bool" where
  "empw_compatible_burst b =
     (let n = length (tb_slots b)
      in if tb_endpoint b \<or> tb_timestamp b \<or> tb_num_segs b \<noteq> 1 \<or> n < 2 then False
         else if \<not> tb_scheduled b then True
         else if n < 3 then False
         else tb_txtime b 0 \<noteq> 0 \<and> list_all (\<lambda>i. tb_txtime b i = 0) [1..<n])"

record TxQueue =
  tq_num_slots :: u32
  tq_num_segs :: nat
  tq_wqe_cnt :: u32                 \<comment> \<open>also \<^verbatim>\<open>sq_capacity_wqebbs\<close>\<close>
  tq_empw_enabled :: bool
  tq_alloc_head :: u64
  tq_completed_tail :: u64
  tq_slots_posted :: u64
  tq_sq_pi :: u64
  tq_sq_completed :: u64
  tq_wqe_slot_cum :: "nat \<Rightarrow> u64"
  tq_wqe_wqebb_cum :: "nat \<Rightarrow> u64"
  tq_cq :: CompletionQueue
  tq_force_quit :: bool
  tq_drop_bursts :: u64
  tq_drop_pkts :: u64

definition timed_packets :: "TxBurst \<Rightarrow> nat" where
  "timed_packets b = length (filter (\<lambda>i. tb_txtime b i \<noteq> 0) [0..<length (tb_slots b)])"

definition tx_burst_wqebbs :: "TxQueue \<Rightarrow> TxBurst \<Rightarrow> nat" where
  "tx_burst_wqebbs q b =
     (let packets = length (tb_slots b)
      in if tb_endpoint b
         then packets * gather_wqe_wqebbs (tq_num_segs q) True + (if tb_scheduled b then timed_packets b else 0)
         else if tq_empw_enabled q \<and> empw_compatible_burst b
         then (if tb_scheduled b then 2 + empw_burst_wqebbs (packets - 1) else empw_burst_wqebbs packets)
         else packets * gather_wqe_wqebbs (tq_num_segs q) False + (if tb_scheduled b then timed_packets b else 0))"

section \<open>Posting\<close>

text \<open>The entries of a burst: blocks, packet slots, whether a completion is requested.\<close>

type_synonym WqePlan = "nat \<times> nat list \<times> bool"

definition SIGNAL_EVERY :: nat where "SIGNAL_EVERY = 32"
definition SIGNAL_EVERY_WQE :: nat where "SIGNAL_EVERY_WQE = 16"

definition wait_wqe :: WqePlan where
  "wait_wqe = (1, [], False)"

definition send_plan :: "nat \<Rightarrow> bool \<Rightarrow> TxBurst \<Rightarrow> WqePlan list" where
  "send_plan num_segs endpoint b =
     (let n = length (tb_slots b)
      in concat (map (\<lambda>i.
           (if tb_scheduled b \<and> tb_txtime b i \<noteq> 0 then [wait_wqe] else [])
           @ [(gather_wqe_wqebbs num_segs endpoint, [tb_slots b ! i],
               packet_tx_timestamp_id b i \<noteq> 0 \<or> i mod SIGNAL_EVERY = SIGNAL_EVERY - 1 \<or> i = n - 1)]) [0..<n]))"

definition endpoint_inline_plan :: "TxQueue \<Rightarrow> TxBurst \<Rightarrow> WqePlan list" where
  [simp]: "endpoint_inline_plan q b = send_plan (tq_num_segs q) True b"

fun empw_plan :: "nat \<Rightarrow> nat list \<Rightarrow> WqePlan list" where
  "empw_plan burst_wqe [] = []"
| "empw_plan burst_wqe (x # xs) =
     (let part = take EMPW_MAX_PACKETS (x # xs);
          rest = drop EMPW_MAX_PACKETS (x # xs)
      in (empw_wqebbs (length part), part, burst_wqe mod SIGNAL_EVERY_WQE = SIGNAL_EVERY_WQE - 1 \<or> rest = [])
         # (if length rest < length (x # xs) then empw_plan (Suc burst_wqe) rest else []))"

definition burst_plan :: "TxQueue \<Rightarrow> TxBurst \<Rightarrow> WqePlan list" where
  "burst_plan q b =
     (if tb_slots b = [] then []
      else if tb_endpoint b then endpoint_inline_plan q b
      else if tq_empw_enabled q \<and> empw_compatible_burst b
      then (if tb_scheduled b
            then wait_wqe # (1, [hd (tb_slots b)], False) # empw_plan 0 (tl (tb_slots b))
            else empw_plan 0 (tb_slots b))
      else send_plan (tb_num_segs b) False b)"

record Wqe =
  w_pi :: u64
  w_wqebbs :: nat
  w_slots :: "nat list"
  w_signaled :: bool

definition post_wqe :: "WqePlan \<Rightarrow> TxQueue \<times> Wqe list \<Rightarrow> TxQueue \<times> Wqe list" where
  "post_wqe pl qs =
     (let (wqebbs, slots, signaled) = pl;
          (q, sq) = qs;
          idx = unat (tq_sq_pi q AND (ucast (tq_wqe_cnt q) - 1));
          posted = tq_slots_posted q + of_nat (length slots);
          pi = tq_sq_pi q + of_nat wqebbs
      in (q\<lparr>tq_slots_posted := posted, tq_wqe_slot_cum := (tq_wqe_slot_cum q)(idx := posted),
            tq_sq_pi := pi, tq_wqe_wqebb_cum := (tq_wqe_wqebb_cum q)(idx := pi)\<rparr>,
          sq @ [\<lparr>w_pi = tq_sq_pi q, w_wqebbs = wqebbs, w_slots = slots, w_signaled = signaled\<rparr>]))"

definition post_tx_burst :: "TxBurst \<Rightarrow> TxQueue \<times> Wqe list \<Rightarrow> TxQueue \<times> Wqe list" where
  "post_tx_burst b qs = fold post_wqe (burst_plan (fst qs) b) qs"

definition tx_sq_has_space :: "nat \<Rightarrow> TxQueue \<Rightarrow> bool \<times> TxQueue" where
  "tx_sq_has_space needed q =
     (if needed > unat (tq_wqe_cnt q) then (False, q\<lparr>tq_force_quit := True\<rparr>)
      else (let used = tq_sq_pi q - tq_sq_completed q
            in if used > ucast (tq_wqe_cnt q) then (False, q\<lparr>tq_force_quit := True\<rparr>)
               else (of_nat needed \<le> ucast (tq_wqe_cnt q) - used, q)))"

section \<open>Reclaiming\<close>

definition reclaim_cqe :: "TxQueue \<Rightarrow> Cqe \<Rightarrow> u64 \<times> u64 \<times> bool \<Rightarrow> u64 \<times> u64 \<times> bool" where
  "reclaim_cqe q cqe acc =
     (let map_idx = unat (ucast (ce_wqe_counter cqe) AND (tq_wqe_cnt q - 1))
      in (tq_wqe_slot_cum q map_idx, tq_wqe_wqebb_cum q map_idx,
          snd (snd acc) \<or> ce_opcode cqe = MLX5_CQE_REQ_ERR \<or> ce_opcode cqe = MLX5_CQE_RESP_ERR))"

definition poll_tx_completions :: "TxQueue \<Rightarrow> TxQueue" where
  "poll_tx_completions q =
     (let (cqes, cq) = read_cqes (unat (cq_cqe_cnt (tq_cq q))) (tq_cq q);
          (tail, sq_tail, quit) = fold (reclaim_cqe q) cqes (tq_completed_tail q, tq_sq_completed q, tq_force_quit q)
      in if cqes = [] then q
         else q\<lparr>tq_cq := cq, tq_completed_tail := tail, tq_sq_completed := sq_tail, tq_force_quit := quit\<rparr>)"

section \<open>The application\<close>

definition get_tx_packet_burst :: "nat \<Rightarrow> TxQueue \<Rightarrow> Status \<times> TxBurst option \<times> TxQueue" where
  "get_tx_packet_burst n q =
     (let in_flight = tq_alloc_head q - tq_completed_tail q
      in if ucast (tq_num_slots q) - in_flight < of_nat n then (NO_FREE_PACKET_BUFFERS, None, q)
         else (SUCCESS,
               Some \<lparr>tb_slots = map (\<lambda>i. unat ((tq_alloc_head q + of_nat i) mod ucast (tq_num_slots q))) [0..<n],
                     tb_num_segs = tq_num_segs q, tb_endpoint = False, tb_scheduled = False, tb_txtime = \<lambda>_. 0,
                     tb_timestamp = False, tb_ids = \<lambda>_. 0\<rparr>,
               q\<lparr>tq_alloc_head := tq_alloc_head q + of_nat n\<rparr>))"

definition kSendRing :: nat where "kSendRing = 4095"   \<comment> \<open>what a ring created for 4096 holds\<close>

definition send_tx_burst :: "TxBurst \<Rightarrow> TxQueue \<times> TxBurst list \<Rightarrow> Status \<times> TxQueue \<times> TxBurst list" where
  "send_tx_burst b qr =
     (let (q, ring) = qr
      in if tb_num_segs b \<noteq> tq_num_segs q then (INVALID_PARAMETER, q, ring)
         else if length ring < kSendRing then (SUCCESS, q, ring @ [b])
         else (NO_SPACE_AVAILABLE,
               q\<lparr>tq_alloc_head := tq_alloc_head q - of_nat (length (tb_slots b)), tq_drop_bursts := tq_drop_bursts q + 1,
                  tq_drop_pkts := tq_drop_pkts q + of_nat (length (tb_slots b))\<rparr>, ring))"

definition free_tx_packets :: "TxBurst \<Rightarrow> TxQueue \<Rightarrow> TxQueue" where
  "free_tx_packets b q = q\<lparr>tq_alloc_head := tq_alloc_head q - of_nat (length (tb_slots b))\<rparr>"

section \<open>Histories\<close>

record TxSys =
  ts_queue :: TxQueue
  ts_held :: "TxBurst option"             \<comment> \<open>in the hands of the application\<close>
  ts_ring :: "TxBurst list"
  ts_pending :: "(TxBurst \<times> nat) option"  \<comment> \<open>in the hands of the worker\<close>
  ts_sq :: "Wqe list"                     \<comment> \<open>posted and not yet executed\<close>
  ts_failed :: bool                       \<comment> \<open>an entry has failed\<close>
  ts_cqes :: nat                          \<comment> \<open>entries the device has written to the completion queue\<close>
  ts_cq_log :: nat                        \<comment> \<open>logarithm of its size\<close>

datatype TxEvent =
    Get nat
  | Fill TxBurst
  | Send
  | Cancel
  | Poll
  | Take
  | Post
  | Execute
  | Fault

definition device_report :: "u8 \<Rightarrow> Wqe \<Rightarrow> TxSys \<Rightarrow> TxSys" where
  "device_report opcode w s =
     s\<lparr>ts_queue := (ts_queue s)\<lparr>tq_cq := device_write (ts_cq_log s) (ts_cqes s) opcode (ucast (w_pi w)) (tq_cq (ts_queue s))\<rparr>,
       ts_cqes := Suc (ts_cqes s)\<rparr>"

fun tx_event :: "TxEvent \<Rightarrow> TxSys \<Rightarrow> TxSys option" where
  "tx_event (Get n) s =
     (if ts_held s \<noteq> None then None
      else (let (status, b, q) = get_tx_packet_burst n (ts_queue s) in Some (s\<lparr>ts_queue := q, ts_held := b\<rparr>)))"
| "tx_event (Fill b') s =
     (case ts_held s of
        None \<Rightarrow> None
      | Some b \<Rightarrow> if tb_slots b' = tb_slots b \<and> tb_num_segs b' = tb_num_segs b then Some (s\<lparr>ts_held := Some b'\<rparr>) else None)"
| "tx_event Send s =
     (case ts_held s of
        None \<Rightarrow> None
      | Some b \<Rightarrow>
          (let (status, q, ring) = send_tx_burst b (ts_queue s, ts_ring s)
           in Some (s\<lparr>ts_queue := q, ts_ring := ring, ts_held := if status = INVALID_PARAMETER then Some b else None\<rparr>)))"
| "tx_event Cancel s =
     (case ts_held s of
        None \<Rightarrow> None
      | Some b \<Rightarrow> Some (s\<lparr>ts_queue := free_tx_packets b (ts_queue s), ts_held := None\<rparr>))"
| "tx_event Poll s = (if tq_force_quit (ts_queue s) then None else Some (s\<lparr>ts_queue := poll_tx_completions (ts_queue s)\<rparr>))"
| "tx_event Take s =
     (if tq_force_quit (ts_queue s) \<or> ts_pending s \<noteq> None then None
      else (case ts_ring s of
              [] \<Rightarrow> None
            | b # ring \<Rightarrow> Some (s\<lparr>ts_ring := ring, ts_pending := Some (b, tx_burst_wqebbs (ts_queue s) b)\<rparr>)))"
| "tx_event Post s =
     (if tq_force_quit (ts_queue s) then None
      else (case ts_pending s of
              None \<Rightarrow> None
            | Some (b, needed) \<Rightarrow>
                (let (space, q) = tx_sq_has_space needed (ts_queue s)
                 in if space
                    then (let (q', sq) = post_tx_burst b (q, ts_sq s) in Some (s\<lparr>ts_queue := q', ts_sq := sq, ts_pending := None\<rparr>))
                    else Some (s\<lparr>ts_queue := q\<rparr>))))"
| "tx_event Execute s =
     (case ts_sq s of
        [] \<Rightarrow> None
      | w # ws \<Rightarrow> Some ((if w_signaled w then device_report MLX5_CQE_REQ w s else s)\<lparr>ts_sq := ws\<rparr>))"
| "tx_event Fault s =
     (case ts_sq s of
        [] \<Rightarrow> None
      | w # ws \<Rightarrow>
          Some ((if w_signaled w \<or> \<not> ts_failed s then device_report MLX5_CQE_REQ_ERR w s else s)\<lparr>ts_sq := ws, ts_failed := True\<rparr>))"

primrec tx_run :: "TxEvent list \<Rightarrow> TxSys \<Rightarrow> TxSys option" where
  "tx_run [] s = Some s"
| "tx_run (e # es) s = (case tx_event e s of None \<Rightarrow> None | Some s' \<Rightarrow> tx_run es s')"

definition allocated :: "TxEvent list \<Rightarrow> nat" where
  "allocated es = sum_list (map (\<lambda>e. case e of Get n \<Rightarrow> n | _ \<Rightarrow> 0) es)"

text \<open>A new queue: \<^verbatim>\<open>create_tx_raw_qp\<close>.\<close>

definition tx_init :: "u32 \<Rightarrow> nat \<Rightarrow> nat \<Rightarrow> nat \<Rightarrow> bool \<Rightarrow> TxSys" where
  "tx_init num_slots num_segs log_wqe_cnt log_cqe_cnt empw =
     \<lparr>ts_queue = \<lparr>tq_num_slots = num_slots, tq_num_segs = num_segs, tq_wqe_cnt = 2 ^ log_wqe_cnt, tq_empw_enabled = empw,
        tq_alloc_head = 0, tq_completed_tail = 0, tq_slots_posted = 0, tq_sq_pi = 0, tq_sq_completed = 0,
        tq_wqe_slot_cum = \<lambda>_. 0, tq_wqe_wqebb_cum = \<lambda>_. 0, tq_cq = empty_cq log_cqe_cnt, tq_force_quit = False, tq_drop_bursts = 0, tq_drop_pkts = 0\<rparr>,
      ts_held = None, ts_ring = [], ts_pending = None, ts_sq = [], ts_failed = False, ts_cqes = 0, ts_cq_log = log_cqe_cnt\<rparr>"

section \<open>Plans\<close>

definition plan_ok :: "WqePlan list \<Rightarrow> bool" where
  "plan_ok pl \<longleftrightarrow> (\<forall>(wqebbs, slots, signaled) \<in> set pl. 0 < wqebbs \<and> (signaled \<longrightarrow> slots \<noteq> [])) \<and> (pl \<noteq> [] \<longrightarrow> snd (snd (last pl)))"

lemma gather_wqe_wqebbs_pos: "num_segs \<le> 4 \<Longrightarrow> 0 < gather_wqe_wqebbs num_segs endpoint"
  by (simp add: gather_wqe_wqebbs_def gather_wqe_ds_def MLX5_SEND_WQE_BB_def div_greater_zero_iff)

lemma empw_plan_facts:
  "concat (map (fst \<circ> snd) (empw_plan k xs)) = xs"
  "sum_list (map fst (empw_plan k xs)) = empw_burst_wqebbs (length xs)"
  "plan_ok (empw_plan k xs)"
proof (induction k xs rule: empw_plan.induct)
  case (1 k)
  show "concat (map (fst \<circ> snd) (empw_plan k [])) = []" by simp
  show "sum_list (map fst (empw_plan k [])) = empw_burst_wqebbs (length [])" by (simp add: empw_burst_wqebbs.simps)
  show "plan_ok (empw_plan k [])" by (simp add: plan_ok_def)
next
  case (2 k x xs)
  let ?part = "take EMPW_MAX_PACKETS (x # xs)" and ?rest = "drop EMPW_MAX_PACKETS (x # xs)"
  have len: "length ?rest < length (x # xs)" by (simp add: EMPW_MAX_PACKETS_def)
  have eq: "empw_plan k (x # xs) = (empw_wqebbs (length ?part), ?part, k mod SIGNAL_EVERY_WQE = SIGNAL_EVERY_WQE - 1 \<or> ?rest = [])
      # empw_plan (Suc k) ?rest"
    using len by (simp add: Let_def)
  note IH = 2 [OF refl refl len]
  show "concat (map (fst \<circ> snd) (empw_plan k (x # xs))) = x # xs"
    unfolding eq using IH(1) by (simp add: comp_def)
  show "sum_list (map fst (empw_plan k (x # xs))) = empw_burst_wqebbs (length (x # xs))"
    unfolding eq using IH(2) by (subst empw_burst_wqebbs.simps) (auto simp: EMPW_MAX_PACKETS_def Let_def min_def)
  show "plan_ok (empw_plan k (x # xs))"
    unfolding eq using IH(3) by (cases ?rest) (auto simp: plan_ok_def EMPW_MAX_PACKETS_def empw_wqebbs_def)
qed

declare empw_plan.simps(2) [simp del]

lemma concat_map_concat: "concat (map f (concat xss)) = concat (map (\<lambda>xs. concat (map f xs)) xss)"
  by (induction xss) auto

lemma sum_list_map_concat: "sum_list (map f (concat xss)) = sum_list (map (\<lambda>xs. sum_list (map f xs)) xss)"
  for f :: "'a \<Rightarrow> nat"
  by (induction xss) auto

lemma sum_list_timed: "sum_list (map (\<lambda>i. (if P i then 1 else 0) + c) is) = length is * c + length (filter P is)" for c :: nat
  by (induction "is") auto

lemma send_plan_facts:
  assumes "num_segs \<le> 4"
  shows "concat (map (fst \<circ> snd) (send_plan num_segs e b)) = tb_slots b"
    "sum_list (map fst (send_plan num_segs e b)) =
       length (tb_slots b) * gather_wqe_wqebbs num_segs e + (if tb_scheduled b then timed_packets b else 0)"
    "plan_ok (send_plan num_segs e b)"
proof -
  let ?n = "length (tb_slots b)"
  let ?f = "\<lambda>i. (if tb_scheduled b \<and> tb_txtime b i \<noteq> 0 then [wait_wqe] else [])
    @ [(gather_wqe_wqebbs num_segs e, [tb_slots b ! i], packet_tx_timestamp_id b i \<noteq> 0 \<or> i mod SIGNAL_EVERY = SIGNAL_EVERY - 1 \<or> i = ?n - 1)]"
  have plan: "send_plan num_segs e b = concat (map ?f [0..<?n])" by (simp add: send_plan_def Let_def)
  have "concat (map (fst \<circ> snd) (?f i)) = [tb_slots b ! i]" for i by (simp add: wait_wqe_def)
  then have "concat (map (fst \<circ> snd) (send_plan num_segs e b)) = concat (map (\<lambda>i. [tb_slots b ! i]) [0..<?n])"
    unfolding plan concat_map_concat by (simp only: map_map comp_def)
  then show "concat (map (fst \<circ> snd) (send_plan num_segs e b)) = tb_slots b"
    by (simp add: map_nth flip: map_eq_conv)
  have one: "sum_list (map fst (?f i)) = (if tb_scheduled b \<and> tb_txtime b i \<noteq> 0 then 1 else 0) + gather_wqe_wqebbs num_segs e" for i
    by (simp add: wait_wqe_def)
  have "sum_list (map fst (send_plan num_segs e b)) =
      sum_list (map (\<lambda>i. (if tb_scheduled b \<and> tb_txtime b i \<noteq> 0 then 1 else 0) + gather_wqe_wqebbs num_segs e) [0..<?n])"
    unfolding plan sum_list_map_concat by (simp only: map_map comp_def one)
  then show "sum_list (map fst (send_plan num_segs e b)) = ?n * gather_wqe_wqebbs num_segs e + (if tb_scheduled b then timed_packets b else 0)"
    unfolding sum_list_timed by (simp add: timed_packets_def)
  have "\<forall>(wqebbs, slots, signaled) \<in> set (send_plan num_segs e b). 0 < wqebbs \<and> (signaled \<longrightarrow> slots \<noteq> [])"
    unfolding plan using gather_wqe_wqebbs_pos [OF assms] by (auto simp: wait_wqe_def split: if_splits)
  moreover have "snd (snd (last (send_plan num_segs e b)))" if ne: "send_plan num_segs e b \<noteq> []"
  proof -
    obtain m where m: "?n = Suc m" using ne by (cases ?n) (auto simp: send_plan_def)
    have "last (concat (map ?f [0..<Suc m])) = last (?f m)" by (simp del: append_assoc)
    then show ?thesis unfolding plan m by (simp add: m)
  qed
  ultimately show "plan_ok (send_plan num_segs e b)" by (simp add: plan_ok_def)
qed

lemma burst_plan_facts:
  assumes "tb_num_segs b = tq_num_segs q" "tq_num_segs q \<le> 4"
  shows "concat (map (fst \<circ> snd) (burst_plan q b)) = tb_slots b" "sum_list (map fst (burst_plan q b)) = tx_burst_wqebbs q b"
    "plan_ok (burst_plan q b)"
proof -
  note sp = send_plan_facts [OF assms(2), of _ b]
  have tl: "empw_burst_wqebbs (length (tl (tb_slots b))) = empw_burst_wqebbs (length (tb_slots b) - 1)" by simp
  show "concat (map (fst \<circ> snd) (burst_plan q b)) = tb_slots b"
    using sp(1) empw_plan_facts(1) assms(1) by (cases "tb_slots b") (auto simp: burst_plan_def wait_wqe_def)
  show "sum_list (map fst (burst_plan q b)) = tx_burst_wqebbs q b"
    using sp(2) empw_plan_facts(2) assms(1)
    by (cases "tb_slots b = []")
      (auto simp: burst_plan_def tx_burst_wqebbs_def wait_wqe_def Let_def timed_packets_def empw_compatible_burst_def split: if_splits)
  have "plan_ok (wait_wqe # (1, [hd (tb_slots b)], False) # empw_plan 0 (tl (tb_slots b)))" if "empw_compatible_burst b" "tb_scheduled b"
  proof -
    have "tl (tb_slots b) \<noteq> []" using that by (cases "tb_slots b") (auto simp: empw_compatible_burst_def)
    then have "empw_plan 0 (tl (tb_slots b)) \<noteq> []" by (cases "tl (tb_slots b)") (simp_all add: empw_plan.simps Let_def)
    then show ?thesis using empw_plan_facts(3) [of 0 "tl (tb_slots b)"] by (auto simp: plan_ok_def wait_wqe_def)
  qed
  then show "plan_ok (burst_plan q b)"
    using sp(3) empw_plan_facts(3) assms(1) by (auto simp: burst_plan_def plan_ok_def [of "[]"])
qed

end
