(* ===== verification/Tx_Safety.thy ===== *)
theory Tx_Safety
  imports Tx_Queue
begin

text \<open>
  The invariant of the transmit path: the counters are enough to keep the slots of all packets on
  their way apart, send queue entries are not overwritten before they are retired, and the
  completion queue does not overflow. Here the application's steps preserve it.
\<close>

unbundle bit_operations_syntax

section \<open>Indices\<close>

lemma ucast_pow2: "k < 32 \<Longrightarrow> (ucast (2 ^ k :: u32) :: u64) = 2 ^ k"
proof -
  assume k: "k < 32"
  then have "(2::nat) ^ k < 2 ^ 64" by (intro power_strict_increasing) simp_all
  then have "unat (ucast (2 ^ k :: u32) :: u64) = unat (2 ^ k :: u64)"
    using k by (simp add: unsigned_ucast_eq unat_pow2 take_bit_nat_eq_self)
  then show ?thesis by (simp only: word_unat_eq_iff)
qed

lemma sq_index:
  assumes "k \<le> 16"
  shows "unat ((of_nat n :: u64) AND (ucast (2 ^ k :: u32) - 1)) = n mod 2 ^ k"
proof -
  have "(2::nat) ^ k dvd 2 ^ 64" using assms by (intro le_imp_power_dvd) simp
  then show ?thesis using assms by (simp add: ucast_pow2 unat_and_pow2_mask unat_of_nat mod_mod_cancel)
qed

lemma cqe_index:
  assumes "k \<le> 16"
  shows "unat (ucast (ucast (of_nat n :: u64) :: u16) AND (2 ^ k - 1 :: u32)) = n mod 2 ^ k"
proof -
  have d: "(2::nat) ^ k dvd 2 ^ 16" "(2::nat) ^ 16 dvd 2 ^ 64" by (intro le_imp_power_dvd assms) simp
  have "unat (ucast (ucast (of_nat n :: u64) :: u16) :: u32) = n mod 2 ^ 16"
  proof -
    have low: "unat (ucast (of_nat n :: u64) :: u16) = n mod 2 ^ 16"
      unfolding unsigned_ucast_eq unat_of_nat take_bit_eq_mod using d(2) by (simp add: mod_mod_cancel)
    have "n mod 2 ^ 16 < 2 ^ 32" by (rule order.strict_trans [of _ "2 ^ 16"]) simp_all
    then show ?thesis unfolding unsigned_ucast_eq [of "ucast (of_nat n :: u64) :: u16"] low by (simp add: take_bit_nat_eq_self)
  qed
  then show ?thesis using d(1) by (simp add: unat_and_pow2_mask mod_mod_cancel)
qed

section \<open>Entries in the send queue\<close>

abbreviation blocks :: "Wqe list \<Rightarrow> nat" where "blocks ws \<equiv> sum_list (map w_wqebbs ws)"
abbreviation packets :: "Wqe list \<Rightarrow> nat list" where "packets ws \<equiv> concat (map w_slots ws)"

text \<open>From block \<open>d\<close> and packet \<open>c\<close> on, the queue holds these entries, with their running totals.\<close>

fun laid :: "nat \<Rightarrow> TxQueue \<Rightarrow> nat \<Rightarrow> nat \<Rightarrow> Wqe list \<Rightarrow> bool" where
  "laid k q d c [] \<longleftrightarrow> tq_sq_pi q = of_nat d \<and> tq_slots_posted q = of_nat c"
| "laid k q d c (w # ws) \<longleftrightarrow>
     w_pi w = of_nat d \<and> 0 < w_wqebbs w \<and> tq_wqe_slot_cum q (d mod 2 ^ k) = of_nat (c + length (w_slots w))
     \<and> tq_wqe_wqebb_cum q (d mod 2 ^ k) = of_nat (d + w_wqebbs w) \<and> laid k q (d + w_wqebbs w) (c + length (w_slots w)) ws"

lemma laid_append: "laid k q d c (xs @ ys) \<Longrightarrow> laid k q (d + blocks xs) (c + length (packets xs)) ys"
  by (induction xs arbitrary: d c) (fastforce simp: add.assoc [symmetric] simp del: of_nat_add)+

lemma laid_end: "laid k q d c ws \<Longrightarrow> tq_sq_pi q = of_nat (d + blocks ws) \<and> tq_slots_posted q = of_nat (c + length (packets ws))"
  using laid_append [of k q d c ws "[]"] by (simp del: of_nat_add)

definition same_but_sq :: "TxQueue \<Rightarrow> TxQueue \<Rightarrow> bool" where
  "same_but_sq q q' \<longleftrightarrow> tq_num_slots q' = tq_num_slots q \<and> tq_num_segs q' = tq_num_segs q \<and> tq_wqe_cnt q' = tq_wqe_cnt q
     \<and> tq_empw_enabled q' = tq_empw_enabled q \<and> tq_alloc_head q' = tq_alloc_head q \<and> tq_completed_tail q' = tq_completed_tail q
     \<and> tq_sq_completed q' = tq_sq_completed q \<and> tq_cq q' = tq_cq q \<and> tq_force_quit q' = tq_force_quit q"

lemma laid_cong:
  "tq_sq_pi q' = tq_sq_pi q \<Longrightarrow> tq_slots_posted q' = tq_slots_posted q \<Longrightarrow> tq_wqe_slot_cum q' = tq_wqe_slot_cum q \<Longrightarrow>
   tq_wqe_wqebb_cum q' = tq_wqe_wqebb_cum q \<Longrightarrow> laid k q' d c ws = laid k q d c ws"
  by (induction ws arbitrary: d c) auto

lemma laid_snoc:
  assumes "laid k q d c ws" "blocks ws < 2 ^ k" "i = (d + blocks ws) mod 2 ^ k" "w_pi w = of_nat (d + blocks ws)" "0 < w_wqebbs w"
    "tq_slots_posted q' = of_nat (c + length (packets (ws @ [w])))" "tq_sq_pi q' = of_nat (d + blocks (ws @ [w]))"
    "tq_wqe_slot_cum q' = (tq_wqe_slot_cum q)(i := of_nat (c + length (packets (ws @ [w]))))"
    "tq_wqe_wqebb_cum q' = (tq_wqe_wqebb_cum q)(i := of_nat (d + blocks (ws @ [w])))"
  shows "laid k q' d c (ws @ [w])"
  using assms
proof (induction ws arbitrary: d c)
  case Nil
  then show ?case by simp
next
  case (Cons v ws)
  have "d mod 2 ^ k \<noteq> i" using Cons.prems(1-3) lap_slot_distinct [of d "d + blocks (v # ws)" "2 ^ k"] by simp
  then show ?case using Cons.prems Cons.IH [of "d + w_wqebbs v" "c + length (w_slots v)"] by (simp add: add.assoc)
qed

lemma post_wqe_laid:
  assumes "laid k q d c ws" "tq_wqe_cnt q = 2 ^ k" "k \<le> 16" "blocks ws + n \<le> 2 ^ k" "0 < n" "post_wqe (n, slots, sig) (q, sq) = (q', sq')"
  shows "\<exists>w. sq' = sq @ [w] \<and> w_wqebbs w = n \<and> w_slots w = slots \<and> w_signaled w = sig \<and> laid k q' d c (ws @ [w])
    \<and> same_but_sq q q'"
proof -
  note e = laid_end [OF assms(1)]
  define w where "w = \<lparr>w_pi = tq_sq_pi q, w_wqebbs = n, w_slots = slots, w_signaled = sig\<rparr>"
  have idx: "unat (tq_sq_pi q AND (ucast (tq_wqe_cnt q) - 1)) = (d + blocks ws) mod 2 ^ k"
    using e sq_index [OF assms(3)] by (simp add: assms(2) del: of_nat_add)
  have q': "q' = q\<lparr>tq_slots_posted := tq_slots_posted q + of_nat (length slots),
      tq_wqe_slot_cum := (tq_wqe_slot_cum q)((d + blocks ws) mod 2 ^ k := tq_slots_posted q + of_nat (length slots)),
      tq_sq_pi := tq_sq_pi q + of_nat n, tq_wqe_wqebb_cum := (tq_wqe_wqebb_cum q)((d + blocks ws) mod 2 ^ k := tq_sq_pi q + of_nat n)\<rparr>"
    and sq': "sq' = sq @ [w]"
    using assms(6) by (auto simp: post_wqe_def Let_def idx w_def)
  have "laid k q' d c (ws @ [w])"
    by (rule laid_snoc [OF assms(1) _ refl]) (use assms(4,5) e q' in \<open>simp_all add: w_def add.assoc\<close>)
  then show ?thesis using sq' q' by (intro exI [of _ w]) (auto simp: w_def same_but_sq_def)
qed

lemma post_plan_laid:
  assumes "laid k q d c ws" "tq_wqe_cnt q = 2 ^ k" "k \<le> 16" "blocks ws + sum_list (map fst pl) \<le> 2 ^ k"
    "\<forall>p\<in>set pl. 0 < fst p" "fold post_wqe pl (q, sq) = (q', sq')"
  shows "\<exists>vs. sq' = sq @ vs \<and> map (\<lambda>w. (w_wqebbs w, w_slots w, w_signaled w)) vs = pl \<and> laid k q' d c (ws @ vs)
    \<and> same_but_sq q q'"
  using assms
proof (induction pl arbitrary: q sq ws)
  case Nil
  then show ?case by (simp add: same_but_sq_def)
next
  case (Cons p pl)
  obtain n slots sig where p: "p = (n, slots, sig)" by (rule prod_cases3)
  obtain q1 sq1 where one: "post_wqe (n, slots, sig) (q, sq) = (q1, sq1)" by fastforce
  obtain w where w: "sq1 = sq @ [w]" "w_wqebbs w = n" "w_slots w = slots" "w_signaled w = sig" "laid k q1 d c (ws @ [w])"
    and q1: "same_but_sq q q1"
    using post_wqe_laid [OF Cons.prems(1-3) _ _ one] Cons.prems(4,5) p by auto
  have "tq_wqe_cnt q1 = 2 ^ k" using q1 Cons.prems(2) by (simp add: same_but_sq_def)
  moreover have "blocks (ws @ [w]) + sum_list (map fst pl) \<le> 2 ^ k" using Cons.prems(4) w p by simp
  moreover have "fold post_wqe pl (q1, sq1) = (q', sq')" using Cons.prems(6) one p by simp
  ultimately obtain vs where vs: "sq' = sq1 @ vs" "map (\<lambda>w. (w_wqebbs w, w_slots w, w_signaled w)) vs = pl" "laid k q' d c ((ws @ [w]) @ vs)"
    and q': "same_but_sq q1 q'"
    using Cons.IH [OF w(5) _ Cons.prems(3)] Cons.prems(5) by auto
  have "same_but_sq q q'" using q1 q' by (simp add: same_but_sq_def)
  then show ?case using vs w p by (intro exI [of _ "w # vs"]) simp
qed

section \<open>Invariant\<close>

definition pending_slots :: "TxSys \<Rightarrow> nat list" where
  "pending_slots s = (case ts_pending s of None \<Rightarrow> [] | Some (b, needed) \<Rightarrow> tb_slots b)"

definition held_slots :: "TxSys \<Rightarrow> nat list" where
  "held_slots s = (case ts_held s of None \<Rightarrow> [] | Some b \<Rightarrow> tb_slots b)"

definition on_way :: "TxSys \<Rightarrow> nat list" where
  "on_way s = pending_slots s @ concat (map tb_slots (ts_ring s)) @ held_slots s"

text \<open>\<open>a\<close> slots have been taken, \<open>c\<close> of them reclaimed; \<open>ws\<close> are the entries that have not been retired.\<close>

definition tx_slots_ok :: "TxSys \<Rightarrow> nat \<Rightarrow> nat \<Rightarrow> Wqe list \<Rightarrow> bool" where
  "tx_slots_ok s a c ws \<longleftrightarrow> 0 < unat (tq_num_slots (ts_queue s)) \<and> a < 2 ^ 64
     \<and> tq_alloc_head (ts_queue s) = of_nat a \<and> tq_completed_tail (ts_queue s) = of_nat c \<and> c \<le> a \<and> a \<le> c + unat (tq_num_slots (ts_queue s))
     \<and> packets ws @ on_way s = map (\<lambda>i. i mod unat (tq_num_slots (ts_queue s))) [c..<a]"

definition sq_ok :: "nat \<Rightarrow> TxSys \<Rightarrow> nat \<Rightarrow> nat \<Rightarrow> Wqe list \<Rightarrow> bool" where
  "sq_ok k s c d ws \<longleftrightarrow> k \<le> 16 \<and> tq_wqe_cnt (ts_queue s) = 2 ^ k \<and> tq_num_segs (ts_queue s) \<le> 4
     \<and> laid k (ts_queue s) d c ws \<and> tq_sq_completed (ts_queue s) = of_nat d \<and> blocks ws \<le> 2 ^ k
     \<and> (\<forall>b\<in>set (ts_ring s) \<union> set_option (ts_held s). tb_num_segs b = tq_num_segs (ts_queue s))
     \<and> (\<forall>b needed. ts_pending s = Some (b, needed) \<longrightarrow> tb_num_segs b = tq_num_segs (ts_queue s) \<and> needed = tx_burst_wqebbs (ts_queue s) b)
     \<and> (\<forall>w\<in>set ws. w_signaled w \<longrightarrow> w_slots w \<noteq> []) \<and> (ws \<noteq> [] \<longrightarrow> w_signaled (last ws))"

text \<open>\<open>ex\<close> are the entries that the device has executed and the worker has not retired, with whether the device
  reported them. At most one entry without packets is among those reported, the first that failed.\<close>

definition cq_ok :: "TxSys \<Rightarrow> nat \<Rightarrow> (Wqe \<times> bool) list \<Rightarrow> bool" where
  "cq_ok s n ex \<longleftrightarrow> unat (tq_num_slots (ts_queue s)) < 2 ^ ts_cq_log s
     \<and> cq_holds (ts_cq_log s) n (ts_cqes s) (tq_cq (ts_queue s))
     \<and> map ce_wqe_counter (cq_unread (ts_cq_log s) n (ts_cqes s) (tq_cq (ts_queue s))) = map (\<lambda>x. ucast (w_pi (fst x))) (filter snd ex)
     \<and> (\<forall>x\<in>set ex. w_signaled (fst x) \<longrightarrow> snd x)
     \<and> length (filter (\<lambda>x. snd x \<and> w_slots (fst x) = []) ex) \<le> (if ts_failed s then 1 else 0)"

definition tx_inv :: "nat \<Rightarrow> nat \<Rightarrow> TxSys \<Rightarrow> bool" where
  "tx_inv k m s \<longleftrightarrow> (\<exists>a c d n ex. a \<le> m \<and> tx_slots_ok s a c (map fst ex @ ts_sq s) \<and> sq_ok k s c d (map fst ex @ ts_sq s) \<and> cq_ok s n ex)"

lemma tx_invI:
  "a \<le> m \<Longrightarrow> tx_slots_ok s a c (map fst ex @ ts_sq s) \<Longrightarrow> sq_ok k s c d (map fst ex @ ts_sq s) \<Longrightarrow> cq_ok s n ex \<Longrightarrow> tx_inv k m s"
  unfolding tx_inv_def by blast

lemma tx_invE:
  assumes "tx_inv k m s"
  obtains a c d n ex where "a \<le> m" "tx_slots_ok s a c (map fst ex @ ts_sq s)" "sq_ok k s c d (map fst ex @ ts_sq s)" "cq_ok s n ex"
  using assms unfolding tx_inv_def by blast

lemma unat_num_slots: "unat (ucast (w :: u32) :: u64) = unat w"
proof -
  have "unat w < 2 ^ 32" using unsigned_less [of w] by simp
  then have "unat w < 2 ^ 64" by (rule order.strict_trans) simp
  then show ?thesis by (simp add: unsigned_ucast_eq take_bit_nat_eq_self)
qed

lemma unat_of_nat_small: "n < 2 ^ 64 \<Longrightarrow> unat (of_nat n :: u64) = n"
  by (simp add: unat_of_nat)

lemma of_nat_diff_word: "c \<le> a \<Longrightarrow> (of_nat a :: u64) - of_nat c = of_nat (a - c)"
  by (simp add: of_nat_diff)

lemma get_spec:
  assumes "tx_slots_ok s a c ws" "a + n < 2 ^ 64"
  shows "get_tx_packet_burst n (ts_queue s) =
    (let nslots = unat (tq_num_slots (ts_queue s)); q = ts_queue s
     in if nslots - (a - c) < n then (NO_FREE_PACKET_BUFFERS, None, q)
        else (SUCCESS, Some \<lparr>tb_slots = map (\<lambda>i. i mod nslots) [a..<a + n], tb_num_segs = tq_num_segs q, tb_endpoint = False,
                tb_scheduled = False, tb_txtime = \<lambda>_. 0, tb_timestamp = False, tb_ids = \<lambda>_. 0\<rparr>,
              q\<lparr>tq_alloc_head := of_nat (a + n)\<rparr>))"
proof -
  let ?q = "ts_queue s" and ?N = "unat (tq_num_slots (ts_queue s))"
  have h: "0 < ?N" "tq_alloc_head ?q = of_nat a" "tq_completed_tail ?q = of_nat c" "c \<le> a" "a \<le> c + ?N" "a < 2 ^ 64"
    using assms(1) by (auto simp: tx_slots_ok_def)
  have "?N < 2 ^ 32" using unsigned_less [of "tq_num_slots ?q"] by simp
  then have N: "?N < 2 ^ 64" by (rule order.strict_trans) simp
  have "(ucast (tq_num_slots ?q) :: u64) = of_nat ?N" by simp
  then have diff: "(ucast (tq_num_slots ?q) :: u64) - (of_nat a - of_nat c) = of_nat (?N - (a - c))"
    using h(4,5) of_nat_diff_word [of c a] of_nat_diff_word [of "a - c" ?N] by simp
  have space: "(ucast (tq_num_slots ?q) - (tq_alloc_head ?q - tq_completed_tail ?q) < (of_nat n :: u64)) = (?N - (a - c) < n)"
    unfolding h(2,3) diff using N assms(2) by (simp add: word_less_nat_alt unat_of_nat_small)
  have "unat ((of_nat a + of_nat i :: u64) mod ucast (tq_num_slots ?q)) = (a + i) mod ?N" if "i < n" for i
    using that assms(2) unat_of_nat_small [of "a + i"] by (simp add: unat_mod_distrib unat_num_slots)
  then have slots: "map (\<lambda>i. unat ((of_nat a + of_nat i :: u64) mod ucast (tq_num_slots ?q))) [0..<n] = map (\<lambda>i. i mod ?N) [a..<a + n]"
    by (intro nth_equalityI) simp_all
  show ?thesis unfolding get_tx_packet_burst_def Let_def space using slots h(2) by simp
qed

lemma give_back:
  assumes "xs @ ys = map f [c..<a]" "c \<le> a"
  shows "length ys \<le> a - c" "xs = map f [c..<a - length ys]"
proof -
  have l: "length xs + length ys = a - c" using arg_cong [OF assms(1), of length] by simp
  then show "length ys \<le> a - c" by simp
  have "xs = take (length xs) (map f [c..<a])" by (metis append_eq_conv_conj assms(1))
  also have "\<dots> = map f [c..<c + length xs]" using l assms(2) by (simp add: take_map take_upt)
  also have "c + length xs = a - length ys" using l assms(2) by simp
  finally show "xs = map f [c..<a - length ys]" .
qed

section \<open>The application's steps\<close>

lemma sq_ok_cong:
  assumes "sq_ok k s c d ws" "tq_wqe_cnt (ts_queue s') = tq_wqe_cnt (ts_queue s)"
    "tq_num_segs (ts_queue s') = tq_num_segs (ts_queue s)" "tq_empw_enabled (ts_queue s') = tq_empw_enabled (ts_queue s)"
    "tq_sq_pi (ts_queue s') = tq_sq_pi (ts_queue s)" "tq_slots_posted (ts_queue s') = tq_slots_posted (ts_queue s)"
    "tq_wqe_slot_cum (ts_queue s') = tq_wqe_slot_cum (ts_queue s)" "tq_wqe_wqebb_cum (ts_queue s') = tq_wqe_wqebb_cum (ts_queue s)"
    "tq_sq_completed (ts_queue s') = tq_sq_completed (ts_queue s)" "ts_pending s' = ts_pending s"
    "\<forall>b\<in>set (ts_ring s') \<union> set_option (ts_held s'). tb_num_segs b = tq_num_segs (ts_queue s)"
  shows "sq_ok k s' c d ws"
proof -
  have "laid k (ts_queue s') d c ws = laid k (ts_queue s) d c ws" by (rule laid_cong) (use assms in simp_all)
  moreover have "tx_burst_wqebbs (ts_queue s') = tx_burst_wqebbs (ts_queue s)" by (intro ext) (simp only: tx_burst_wqebbs_def Let_def assms)
  ultimately show ?thesis using assms by (simp add: sq_ok_def)
qed

lemma tx_get_inv:
  assumes "tx_inv k m s" "tx_event (Get n) s = Some s'" "m + n < 2 ^ 64"
  shows "tx_inv k (m + n) s'"
  using assms(1)
proof (rule tx_invE)
  fix a c d p ex
  let ?N = "unat (tq_num_slots (ts_queue s))"
  assume a: "a \<le> m" and S: "tx_slots_ok s a c (map fst ex @ ts_sq s)" and Q: "sq_ok k s c d (map fst ex @ ts_sq s)" and C: "cq_ok s p ex"
  have h: "ts_held s = None" using assms(2) by (auto split: if_splits)
  have g: "get_tx_packet_burst n (ts_queue s) =
    (if ?N - (a - c) < n then (NO_FREE_PACKET_BUFFERS, None, ts_queue s)
     else (SUCCESS, Some \<lparr>tb_slots = map (\<lambda>i. i mod ?N) [a..<a + n], tb_num_segs = tq_num_segs (ts_queue s), tb_endpoint = False,
             tb_scheduled = False, tb_txtime = \<lambda>_. 0, tb_timestamp = False, tb_ids = \<lambda>_. 0\<rparr>,
           (ts_queue s)\<lparr>tq_alloc_head := of_nat (a + n)\<rparr>))"
    using get_spec [OF S, of n] a assms(3) by (simp add: Let_def)
  show ?thesis
  proof (cases "?N - (a - c) < n")
    case True
    then have "s' = s" using assms(2) h g by (cases s) (simp add: Let_def)
    then show ?thesis using tx_invI [OF _ S Q C, of "m + n"] a by simp
  next
    case False
    let ?b = "\<lparr>tb_slots = map (\<lambda>i. i mod ?N) [a..<a + n], tb_num_segs = tq_num_segs (ts_queue s), tb_endpoint = False,
             tb_scheduled = False, tb_txtime = \<lambda>_. 0, tb_timestamp = False, tb_ids = \<lambda>_. 0 :: u64\<rparr>"
    have s': "s' = s\<lparr>ts_queue := (ts_queue s)\<lparr>tq_alloc_head := of_nat (a + n)\<rparr>, ts_held := Some ?b\<rparr>"
      using assms(2) h g False by (simp add: Let_def)
    have sl: "packets (map fst ex @ ts_sq s) @ on_way s = map (\<lambda>i. i mod ?N) [c..<a]" "c \<le> a" "a \<le> c + ?N" using S by (simp_all add: tx_slots_ok_def)
    have "[c..<a + n] = [c..<a] @ [a..<a + n]" using sl(2) by (rule upt_add_eq_append)
    moreover have "on_way s' = on_way s @ map (\<lambda>i. i mod ?N) [a..<a + n]"
      using h s' by (simp add: on_way_def held_slots_def pending_slots_def)
    ultimately have "tx_slots_ok s' (a + n) c (map fst ex @ ts_sq s')"
      using S s' False sl a assms(3) by (simp add: tx_slots_ok_def flip: sl(1))
    moreover have "sq_ok k s' c d (map fst ex @ ts_sq s')"
      using sq_ok_cong [OF Q, of s'] Q s' by (simp add: sq_ok_def)
    moreover have "cq_ok s' p ex" using C s' by (simp add: cq_ok_def)
    ultimately show ?thesis using a by (intro tx_invI [of "a + n"]) auto
  qed
qed

lemma on_way_held: "ts_held s = Some b \<Longrightarrow> on_way s = pending_slots s @ concat (map tb_slots (ts_ring s)) @ tb_slots b"
  by (simp add: on_way_def held_slots_def)

lemma slots_given_back:
  assumes "tx_slots_ok s a c ws" "ts_held s = Some b" "ts_held s' = None" "ts_ring s' = ts_ring s" "ts_pending s' = ts_pending s"
    "tq_num_slots (ts_queue s') = tq_num_slots (ts_queue s)" "tq_completed_tail (ts_queue s') = tq_completed_tail (ts_queue s)"
    "tq_alloc_head (ts_queue s') = tq_alloc_head (ts_queue s) - of_nat (length (tb_slots b))"
  shows "tx_slots_ok s' (a - length (tb_slots b)) c ws"
proof -
  let ?N = "unat (tq_num_slots (ts_queue s))"
  have S: "0 < ?N" "a < 2 ^ 64" "c \<le> a" "a \<le> c + ?N" "tq_alloc_head (ts_queue s) = of_nat a" "tq_completed_tail (ts_queue s) = of_nat c"
    using assms(1) by (simp_all add: tx_slots_ok_def)
  have eq: "(packets ws @ on_way s') @ tb_slots b = map (\<lambda>i. i mod ?N) [c..<a]"
    using assms(1-5) by (simp add: tx_slots_ok_def on_way_def held_slots_def pending_slots_def)
  note g = give_back [OF eq S(3)]
  have "tq_alloc_head (ts_queue s') = of_nat (a - length (tb_slots b))"
    unfolding assms(8) S(5) using g(1) by (intro of_nat_diff_word) simp
  then show ?thesis using g S assms(6,7) by (auto simp: tx_slots_ok_def)
qed

lemma tx_fill_inv:
  assumes "tx_inv k m s" "tx_event (Fill b') s = Some s'"
  shows "tx_inv k m s'"
  using assms(1)
proof (rule tx_invE)
  fix a c d p ex
  assume a: "a \<le> m" and S: "tx_slots_ok s a c (map fst ex @ ts_sq s)" and Q: "sq_ok k s c d (map fst ex @ ts_sq s)" and C: "cq_ok s p ex"
  obtain b where b: "ts_held s = Some b" "tb_slots b' = tb_slots b" "tb_num_segs b' = tb_num_segs b" "s' = s\<lparr>ts_held := Some b'\<rparr>"
    using assms(2) by (auto split: option.splits if_splits)
  have "on_way s' = on_way s" using b by (simp add: on_way_def held_slots_def pending_slots_def)
  then have slots: "tx_slots_ok s' a c (map fst ex @ ts_sq s')" using S b(4) by (simp add: tx_slots_ok_def)
  have segs: "\<forall>x\<in>set (ts_ring s). tb_num_segs x = tq_num_segs (ts_queue s)" "tb_num_segs b = tq_num_segs (ts_queue s)"
    using Q b(1) by (simp_all add: sq_ok_def)
  then have "sq_ok k s' c d (map fst ex @ ts_sq s')" using sq_ok_cong [OF Q, of s'] b(3,4) by simp
  moreover have "cq_ok s' p ex" using C b(4) by (simp add: cq_ok_def)
  ultimately show ?thesis using a slots by (intro tx_invI)
qed

lemma tx_cancel_inv:
  assumes "tx_inv k m s" "tx_event Cancel s = Some s'"
  shows "tx_inv k m s'"
  using assms(1)
proof (rule tx_invE)
  fix a c d p ex
  assume a: "a \<le> m" and S: "tx_slots_ok s a c (map fst ex @ ts_sq s)" and Q: "sq_ok k s c d (map fst ex @ ts_sq s)" and C: "cq_ok s p ex"
  obtain b where b: "ts_held s = Some b" "s' = s\<lparr>ts_queue := free_tx_packets b (ts_queue s), ts_held := None\<rparr>"
    using assms(2) by (auto split: option.splits)
  have "tx_slots_ok s' (a - length (tb_slots b)) c (map fst ex @ ts_sq s')"
    using slots_given_back [OF S b(1), of s'] b(2) by (simp add: free_tx_packets_def)
  moreover have "sq_ok k s' c d (map fst ex @ ts_sq s')" using sq_ok_cong [OF Q, of s'] Q b by (simp add: sq_ok_def free_tx_packets_def)
  moreover have "cq_ok s' p ex" using C b(2) by (simp add: cq_ok_def free_tx_packets_def)
  ultimately show ?thesis using a by (intro tx_invI [of "a - length (tb_slots b)"]) simp_all
qed

lemma tx_send_inv:
  assumes "tx_inv k m s" "tx_event Send s = Some s'"
  shows "tx_inv k m s'"
  using assms(1)
proof (rule tx_invE)
  fix a c d p ex
  assume a: "a \<le> m" and S: "tx_slots_ok s a c (map fst ex @ ts_sq s)" and Q: "sq_ok k s c d (map fst ex @ ts_sq s)" and C: "cq_ok s p ex"
  obtain b where b: "ts_held s = Some b" using assms(2) by (auto split: option.splits)
  have segs: "tb_num_segs b = tq_num_segs (ts_queue s)" using Q b by (simp add: sq_ok_def)
  show ?thesis
  proof (cases "length (ts_ring s) < kSendRing")
    case True
    then have s': "s' = s\<lparr>ts_ring := ts_ring s @ [b], ts_held := None\<rparr>"
      using assms(2) b segs by (cases s) (auto simp: send_tx_burst_def)
    have "on_way s' = on_way s" using b s' by (simp add: on_way_def held_slots_def pending_slots_def)
    then have "tx_slots_ok s' a c (map fst ex @ ts_sq s')" using S s' by (simp add: tx_slots_ok_def)
    moreover have "sq_ok k s' c d (map fst ex @ ts_sq s')" using sq_ok_cong [OF Q, of s'] Q segs s' by (simp add: sq_ok_def)
    moreover have "cq_ok s' p ex" using C s' by (simp add: cq_ok_def)
    ultimately show ?thesis using a by (intro tx_invI)
  next
    case False
    then have s': "s' = s\<lparr>ts_queue := (ts_queue s)\<lparr>tq_alloc_head := tq_alloc_head (ts_queue s) - of_nat (length (tb_slots b)),
        tq_drop_bursts := tq_drop_bursts (ts_queue s) + 1, tq_drop_pkts := tq_drop_pkts (ts_queue s) + of_nat (length (tb_slots b))\<rparr>, ts_held := None\<rparr>"
      using assms(2) b segs by (cases s) (auto simp: send_tx_burst_def)
    have "tx_slots_ok s' (a - length (tb_slots b)) c (map fst ex @ ts_sq s')"
      using slots_given_back [OF S b(1), of s'] s' by simp
    moreover have "sq_ok k s' c d (map fst ex @ ts_sq s')" using sq_ok_cong [OF Q, of s'] Q s' by (simp add: sq_ok_def)
    moreover have "cq_ok s' p ex" using C s' by (simp add: cq_ok_def)
    ultimately show ?thesis using a by (intro tx_invI [of "a - length (tb_slots b)"]) simp_all
  qed
qed

lemma tx_take_inv:
  assumes "tx_inv k m s" "tx_event Take s = Some s'"
  shows "tx_inv k m s'"
  using assms(1)
proof (rule tx_invE)
  fix a c d p ex
  assume a: "a \<le> m" and S: "tx_slots_ok s a c (map fst ex @ ts_sq s)" and Q: "sq_ok k s c d (map fst ex @ ts_sq s)" and C: "cq_ok s p ex"
  obtain b ring where b: "ts_ring s = b # ring" "ts_pending s = None"
    "s' = s\<lparr>ts_ring := ring, ts_pending := Some (b, tx_burst_wqebbs (ts_queue s) b)\<rparr>"
    using assms(2) by (cases "ts_pending s") (auto split: list.splits if_splits)
  have "on_way s' = on_way s" using b by (simp add: on_way_def held_slots_def pending_slots_def)
  then have "tx_slots_ok s' a c (map fst ex @ ts_sq s')" using S b(3) by (simp add: tx_slots_ok_def)
  moreover have "sq_ok k s' c d (map fst ex @ ts_sq s')" using Q b by (simp add: sq_ok_def)
  moreover have "cq_ok s' p ex" using C b(3) by (simp add: cq_ok_def)
  ultimately show ?thesis using a by (intro tx_invI)
qed

end
