(* ===== verification/Tx_Worker.thy ===== *)
theory Tx_Worker
  imports Tx_Safety
begin

text \<open>The device's execution of a send queue entry and the worker's posting preserve the transmit path's invariant.\<close>

section \<open>The device's steps\<close>

lemma length_packets_filter:
  "length (filter snd ex) \<le> length (packets (map fst ex)) + length (filter (\<lambda>x. snd x \<and> w_slots (fst x) = []) ex)"
proof (induction ex)
  case (Cons x ex)
  then show ?case by (cases "w_slots (fst x)") auto
qed simp

lemma tx_slots_ok_length: "tx_slots_ok s a c ws \<Longrightarrow> length (packets ws) \<le> unat (tq_num_slots (ts_queue s))"
proof -
  assume S: "tx_slots_ok s a c ws"
  then have "length (packets ws @ on_way s) = a - c" by (simp only: tx_slots_ok_def length_map length_upt)
  moreover have "a \<le> c + unat (tq_num_slots (ts_queue s))" using S by (simp add: tx_slots_ok_def)
  ultimately show ?thesis by simp
qed

lemma cq_ok_unread:
  assumes "cq_ok s n ex"
  shows "ts_cqes s - n \<le> length (packets (map fst ex)) + (if ts_failed s then 1 else 0)"
proof -
  have C: "map ce_wqe_counter (cq_unread (ts_cq_log s) n (ts_cqes s) (tq_cq (ts_queue s))) = map (\<lambda>x. ucast (w_pi (fst x))) (filter snd ex)"
    "length (filter (\<lambda>x. snd x \<and> w_slots (fst x) = []) ex) \<le> (if ts_failed s then 1 else 0)"
    using assms by (simp_all add: cq_ok_def)
  have "ts_cqes s - n = length (filter snd ex)" using arg_cong [OF C(1), of length] by (simp add: cq_unread_def)
  then show ?thesis using length_packets_filter [of ex] C(2) by (simp split: if_splits)
qed

lemma cq_ok_room:
  assumes "tx_slots_ok s a c (map fst ex @ w # ws)" "cq_ok s n ex" "w_slots w \<noteq> [] \<or> \<not> ts_failed s"
  shows "ts_cqes s < n + 2 ^ ts_cq_log s"
proof -
  have C: "n \<le> ts_cqes s" "unat (tq_num_slots (ts_queue s)) < 2 ^ ts_cq_log s"
    using assms(2) by (auto simp: cq_ok_def cq_holds_def)
  have "ts_cqes s - n \<le> length (packets (map fst ex @ w # ws))"
    using cq_ok_unread [OF assms(2)] assms(3) by (cases "w_slots w") (auto split: if_splits)
  then show ?thesis using tx_slots_ok_length [OF assms(1)] C by simp
qed

lemma cq_ok_report:
  assumes "tx_slots_ok s a c (map fst ex @ w # ws)" "cq_ok s n ex" "w_slots w \<noteq> [] \<or> \<not> ts_failed s" "opcode < 15"
    "ts_failed s \<or> w_slots w = [] \<longrightarrow> failed"
  shows "cq_ok (device_report opcode w s\<lparr>ts_sq := ws, ts_failed := failed\<rparr>) n (ex @ [(w, True)])"
proof -
  note room = cq_ok_room [OF assms(1-3)]
  have C: "cq_holds (ts_cq_log s) n (ts_cqes s) (tq_cq (ts_queue s))"
    and f: "length (filter (\<lambda>x. snd x \<and> w_slots (fst x) = []) ex) \<le> (if ts_failed s then 1 else 0)"
    using assms(2) by (simp_all add: cq_ok_def)
  have "length (filter (\<lambda>x. snd x \<and> w_slots (fst x) = []) (ex @ [(w, True)])) \<le> (if failed then 1 else 0)"
    using f assms(3,5) by (auto split: if_splits)
  then show ?thesis
    using assms(2) cq_holds_write [OF C room assms(4)]
    by (simp add: cq_ok_def device_report_def cq_unread_write [OF C room] device_cqe_new(3) [OF assms(4)])
qed

lemma cq_ok_silent:
  assumes "cq_ok s n ex" "\<not> w_signaled w" "ts_failed s \<longrightarrow> failed"
  shows "cq_ok (s\<lparr>ts_sq := ws, ts_failed := failed\<rparr>) n (ex @ [(w, False)])"
  using assms by (auto simp: cq_ok_def split: if_splits)

lemma tx_device_inv:
  assumes "tx_inv k m s" "tx_event Execute s = Some s' \<or> tx_event Fault s = Some s'"
  shows "tx_inv k m s'"
  using assms(1)
proof (rule tx_invE)
  fix a c d p ex
  assume a: "a \<le> m" and S: "tx_slots_ok s a c (map fst ex @ ts_sq s)" and Q: "sq_ok k s c d (map fst ex @ ts_sq s)" and C: "cq_ok s p ex"
  obtain w ws where w: "ts_sq s = w # ws" using assms(2) by (auto split: list.splits)
  have sig: "w_signaled w \<Longrightarrow> w_slots w \<noteq> []" using Q w by (simp add: sq_ok_def)
  have ops: "MLX5_CQE_REQ < 15" "MLX5_CQE_REQ_ERR < 15" by (simp_all add: MLX5_CQE_REQ_def MLX5_CQE_REQ_ERR_def)
  have same: "device_report MLX5_CQE_REQ w s\<lparr>ts_sq := ws\<rparr> = device_report MLX5_CQE_REQ w s\<lparr>ts_sq := ws, ts_failed := ts_failed s\<rparr>"
    "s\<lparr>ts_sq := ws\<rparr> = s\<lparr>ts_sq := ws, ts_failed := ts_failed s\<rparr>" by (cases s; simp add: device_report_def)+
  consider (silent) failed where "\<not> w_signaled w" "ts_failed s \<longrightarrow> failed" "s' = s\<lparr>ts_sq := ws, ts_failed := failed\<rparr>"
    | (report) opcode failed where "w_slots w \<noteq> [] \<or> \<not> ts_failed s" "opcode < 15" "ts_failed s \<or> w_slots w = [] \<longrightarrow> failed"
        "s' = device_report opcode w s\<lparr>ts_sq := ws, ts_failed := failed\<rparr>"
  proof (cases "tx_event Execute s = Some s'")
    case True
    show thesis
    proof (cases "w_signaled w")
      case sg: True
      have "s' = device_report MLX5_CQE_REQ w s\<lparr>ts_sq := ws, ts_failed := ts_failed s\<rparr>"
        using True sg w same(1) by simp
      then show thesis using report sig [OF sg] ops(1) by blast
    next
      case False
      have "s' = s\<lparr>ts_sq := ws, ts_failed := ts_failed s\<rparr>" using True False w same(2) by simp
      then show thesis using silent False by blast
    qed
  next
    case False
    then have f: "tx_event Fault s = Some s'" using assms(2) by blast
    show thesis
    proof (cases "w_signaled w \<or> \<not> ts_failed s")
      case True
      have "s' = device_report MLX5_CQE_REQ_ERR w s\<lparr>ts_sq := ws, ts_failed := True\<rparr>" using f True w by simp
      then show thesis using report True sig ops(2) by blast
    next
      case False
      then show thesis using f w silent [of True] by simp
    qed
  qed
  then show ?thesis
  proof cases
    case silent
    have "tx_slots_ok s' a c (map fst (ex @ [(w, False)]) @ ts_sq s')"
      using S silent(3) w by (simp add: tx_slots_ok_def on_way_def held_slots_def pending_slots_def)
    moreover have "sq_ok k s' c d (map fst (ex @ [(w, False)]) @ ts_sq s')"
      using sq_ok_cong [OF Q, of s'] Q silent(3) w by (simp add: sq_ok_def)
    moreover have "cq_ok s' p (ex @ [(w, False)])" using cq_ok_silent [OF C silent(1,2)] silent(3) by simp
    ultimately show ?thesis using a by (intro tx_invI)
  next
    case report
    have "tx_slots_ok s' a c (map fst (ex @ [(w, True)]) @ ts_sq s')"
      using S report(4) w by (simp add: tx_slots_ok_def on_way_def held_slots_def pending_slots_def device_report_def)
    moreover have "sq_ok k s' c d (map fst (ex @ [(w, True)]) @ ts_sq s')"
      using sq_ok_cong [OF Q, of s'] Q report(4) w by (simp add: sq_ok_def device_report_def)
    moreover have "cq_ok s' p (ex @ [(w, True)])" using cq_ok_report [OF S [unfolded w] C report(1-3)] report(4) by simp
    ultimately show ?thesis using a by (intro tx_invI)
  qed
qed

section \<open>The worker's steps\<close>

lemma sq_space:
  assumes "sq_ok k s c d ws" "needed \<le> 2 ^ k"
  shows "tx_sq_has_space needed (ts_queue s) = (needed \<le> 2 ^ k - blocks ws, ts_queue s)"
proof -
  have Q: "k \<le> 16" "tq_wqe_cnt (ts_queue s) = 2 ^ k" "blocks ws \<le> 2 ^ k" "tq_sq_completed (ts_queue s) = of_nat d"
    "laid k (ts_queue s) d c ws" using assms(1) by (simp_all add: sq_ok_def)
  have "(2::nat) ^ k \<le> 2 ^ 16" using Q(1) by (intro power_increasing) simp_all
  then have k: "(2::nat) ^ k < 2 ^ 32" "(2::nat) ^ k < 2 ^ 64" by simp_all
  have cnt: "unat (tq_wqe_cnt (ts_queue s)) = 2 ^ k" using Q(1,2) by (simp add: unat_pow2)
  have "(ucast (tq_wqe_cnt (ts_queue s)) :: u64) = of_nat (2 ^ k)" using Q(1,2) ucast_pow2 [of k] by simp
  then have cap: "(ucast (tq_wqe_cnt (ts_queue s)) :: u64) = of_nat (2 ^ k)" .
  have used: "tq_sq_pi (ts_queue s) - tq_sq_completed (ts_queue s) = of_nat (blocks ws)"
    using laid_end [OF Q(5)] Q(4) by simp
  have "\<not> (of_nat (blocks ws) > (of_nat (2 ^ k) :: u64))"
    using Q(3) k(2) by (simp add: word_less_nat_alt unat_of_nat_small del: of_nat_power)
  moreover have "((of_nat needed :: u64) \<le> of_nat (2 ^ k) - of_nat (blocks ws)) = (needed \<le> 2 ^ k - blocks ws)"
    unfolding of_nat_diff_word [OF Q(3)] using assms(2) k(2)
    by (simp add: word_le_nat_alt unat_of_nat_small del: of_nat_power)
  ultimately show ?thesis using assms(2) unfolding tx_sq_has_space_def Let_def used cap cnt by simp
qed

lemma sq_too_big: "sq_ok k s c d ws \<Longrightarrow> 2 ^ k < needed \<Longrightarrow> tx_sq_has_space needed (ts_queue s) = (False, (ts_queue s)\<lparr>tq_force_quit := True\<rparr>)"
  by (simp add: tx_sq_has_space_def sq_ok_def unat_pow2)

lemma post_spec:
  assumes "sq_ok k s c d ws" "ts_pending s = Some (b, needed)" "needed + blocks ws \<le> 2 ^ k" "post_tx_burst b (ts_queue s, sq) = (q', sq')"
  shows "\<exists>vs. sq' = sq @ vs \<and> packets vs = tb_slots b \<and> laid k q' d c (ws @ vs) \<and> blocks (ws @ vs) \<le> 2 ^ k \<and> same_but_sq (ts_queue s) q'
    \<and> (\<forall>w\<in>set vs. w_signaled w \<longrightarrow> w_slots w \<noteq> []) \<and> (vs \<noteq> [] \<longrightarrow> w_signaled (last vs))"
proof -
  let ?pl = "burst_plan (ts_queue s) b" and ?f = "\<lambda>w. (w_wqebbs w, w_slots w, w_signaled w)"
  have Q: "laid k (ts_queue s) d c ws" "tq_wqe_cnt (ts_queue s) = 2 ^ k" "k \<le> 16" "tq_num_segs (ts_queue s) \<le> 4"
    "tb_num_segs b = tq_num_segs (ts_queue s)" "needed = tx_burst_wqebbs (ts_queue s) b"
    using assms(1,2) by (simp_all add: sq_ok_def)
  note P = burst_plan_facts [OF Q(5,4)]
  have "\<forall>p\<in>set ?pl. 0 < fst p" using P(3) by (auto simp: plan_ok_def)
  moreover have "blocks ws + sum_list (map fst ?pl) \<le> 2 ^ k" using P(2) Q(6) assms(3) by simp
  moreover have "fold post_wqe ?pl (ts_queue s, sq) = (q', sq')" using assms(4) by (simp add: post_tx_burst_def)
  ultimately obtain vs where vs: "sq' = sq @ vs" "map ?f vs = ?pl" "laid k q' d c (ws @ vs)" "same_but_sq (ts_queue s) q'"
    using post_plan_laid [OF Q(1-3)] by blast
  have "packets vs = tb_slots b" "blocks (ws @ vs) \<le> 2 ^ k"
    using P(1,2) Q(6) assms(3) unfolding vs(2) [symmetric] by (simp_all add: comp_def)
  moreover have "\<forall>w\<in>set vs. w_signaled w \<longrightarrow> w_slots w \<noteq> []" "vs \<noteq> [] \<longrightarrow> w_signaled (last vs)"
    using P(3) unfolding vs(2) [symmetric] by (auto simp: plan_ok_def last_map)
  ultimately show ?thesis using vs by blast
qed

lemma tx_burst_wqebbs_cong: "same_but_sq q q' \<Longrightarrow> tx_burst_wqebbs q' = tx_burst_wqebbs q"
  by (intro ext) (simp add: tx_burst_wqebbs_def same_but_sq_def Let_def)

lemma tx_post_inv:
  assumes "tx_inv k m s" "tx_event Post s = Some s'"
  shows "tx_inv k m s'"
  using assms(1)
proof (rule tx_invE)
  fix a c d p and ex :: "(Wqe \<times> bool) list"
  let ?ws = "map fst ex @ ts_sq s"
  assume a: "a \<le> m" and S: "tx_slots_ok s a c ?ws" and Q: "sq_ok k s c d ?ws" and C: "cq_ok s p ex"
  obtain b needed where b: "ts_pending s = Some (b, needed)" using assms(2) by (auto split: if_splits option.splits)
  consider (space) q' sq' where "needed + blocks ?ws \<le> 2 ^ k" "post_tx_burst b (ts_queue s, ts_sq s) = (q', sq')"
      "s' = s\<lparr>ts_queue := q', ts_sq := sq', ts_pending := None\<rparr>"
    | (full) "s' = s"
    | (oversize) "s' = s\<lparr>ts_queue := (ts_queue s)\<lparr>tq_force_quit := True\<rparr>\<rparr>"
  proof (cases "needed \<le> 2 ^ k")
    case True
    have "blocks ?ws \<le> 2 ^ k" using Q by (simp add: sq_ok_def)
    then show ?thesis using assms(2) b sq_space [OF Q True] space full
      by (cases "needed \<le> 2 ^ k - blocks ?ws") (auto simp: Let_def split: if_splits prod.splits)
  next
    case False
    then show ?thesis using assms(2) b sq_too_big [OF Q, of needed] oversize by (auto split: if_splits)
  qed
  then show ?thesis
  proof cases
    case space
    obtain vs where vs: "sq' = ts_sq s @ vs" "packets vs = tb_slots b" "laid k q' d c (?ws @ vs)" "blocks (?ws @ vs) \<le> 2 ^ k"
      and same: "same_but_sq (ts_queue s) q'" and sig: "\<forall>w\<in>set vs. w_signaled w \<longrightarrow> w_slots w \<noteq> []" "vs \<noteq> [] \<longrightarrow> w_signaled (last vs)"
      using post_spec [OF Q b space(1,2)] by blast
    have "tx_slots_ok s' a c (map fst ex @ ts_sq s')"
      using S same b vs(1,2) space(3) by (simp add: tx_slots_ok_def on_way_def held_slots_def pending_slots_def same_but_sq_def)
    moreover have "sq_ok k s' c d (map fst ex @ ts_sq s')"
    proof -
      have "\<forall>w\<in>set (?ws @ vs). w_signaled w \<longrightarrow> w_slots w \<noteq> []" using Q sig(1) by (auto simp: sq_ok_def)
      moreover have "?ws @ vs \<noteq> [] \<longrightarrow> w_signaled (last (?ws @ vs))" using Q sig(2) by (cases "vs = []") (simp_all add: sq_ok_def)
      moreover have "map fst ex @ ts_sq s' = ?ws @ vs" using vs(1) space(3) by simp
      moreover have "k \<le> 16" "tq_wqe_cnt q' = 2 ^ k" "tq_num_segs q' \<le> 4" "tq_sq_completed q' = of_nat d"
        "\<forall>b\<in>set (ts_ring s) \<union> set_option (ts_held s). tb_num_segs b = tq_num_segs q'"
        using Q same by (simp_all add: sq_ok_def same_but_sq_def)
      ultimately show ?thesis using vs(3,4) space(3) by (simp only: sq_ok_def TxSys.simps option.distinct) simp
    qed
    moreover have "cq_ok s' p ex" using C same space(3) by (simp add: cq_ok_def same_but_sq_def)
    ultimately show ?thesis using a by (intro tx_invI)
  next
    case full
    then show ?thesis using assms(1) by simp
  next
    case oversize
    have "tx_slots_ok s' a c (map fst ex @ ts_sq s')"
      using S oversize by (simp add: tx_slots_ok_def on_way_def held_slots_def pending_slots_def)
    moreover have "sq_ok k s' c d (map fst ex @ ts_sq s')" using sq_ok_cong [OF Q, of s'] Q oversize by (simp add: sq_ok_def)
    moreover have "cq_ok s' p ex" using C oversize by (simp add: cq_ok_def)
    ultimately show ?thesis using a by (intro tx_invI)
  qed
qed

end
