(* ===== verification/Tx_History.thy ===== *)
theory Tx_History
  imports Tx_Worker
begin

text \<open>
  Retiring (\<^verbatim>\<open>poll_tx_completions\<close>) preserves the transmit path's invariant; so every history keeps the
  slots of packets on their way apart and both queues within their size, and nothing stays unreclaimed.
\<close>

unbundle bit_operations_syntax

section \<open>Retiring\<close>

lemma fold_reclaim:
  assumes "cqes \<noteq> []"
  shows "\<exists>quit. fold (reclaim_cqe q) cqes acc =
    (let i = unat (ucast (ce_wqe_counter (last cqes)) AND (tq_wqe_cnt q - 1)) in (tq_wqe_slot_cum q i, tq_wqe_wqebb_cum q i, quit))"
  using assms by (induction cqes arbitrary: acc) (auto simp: reclaim_cqe_def Let_def)

lemma split_last_reported:
  assumes "filter snd ex \<noteq> []"
  shows "\<exists>ys w zs. ex = ys @ (w, True) # zs \<and> filter snd zs = [] \<and> last (filter snd ex) = (w, True)"
proof -
  have "\<exists>x\<in>set ex. snd x" using assms by (auto simp: filter_empty_conv)
  then obtain ys x zs where x: "ex = ys @ x # zs" "snd x" "\<forall>z\<in>set zs. \<not> snd z" by (rule split_list_last_propE)
  then have "x = (fst x, True)" "filter snd zs = []" by (auto simp: prod_eq_iff)
  then show ?thesis using x(1,2) by (metis filter.simps(2) filter_append last_snoc)
qed

lemma poll_spec:
  assumes "sq_ok k s c d (map fst ex @ sq)" "cq_ok s n ex"
  shows "(filter snd ex = [] \<and> poll_tx_completions (ts_queue s) = ts_queue s)
    \<or> (\<exists>ys w zs cq quit. ex = ys @ (w, True) # zs \<and> filter snd zs = []
        \<and> cq_holds (ts_cq_log s) (ts_cqes s) (ts_cqes s) cq
        \<and> poll_tx_completions (ts_queue s) = (ts_queue s)\<lparr>tq_cq := cq, tq_completed_tail := of_nat (c + length (packets (map fst ys @ [w]))),
            tq_sq_completed := of_nat (d + blocks (map fst ys @ [w])), tq_force_quit := quit\<rparr>)"
proof -
  let ?q = "ts_queue s" and ?k = "ts_cq_log s" and ?p = "ts_cqes s"
  have C: "cq_holds ?k n ?p (tq_cq ?q)"
    "map ce_wqe_counter (cq_unread ?k n ?p (tq_cq ?q)) = map (\<lambda>x. ucast (w_pi (fst x))) (filter snd ex)"
    using assms(2) by (simp_all add: cq_ok_def)
  have Q: "k \<le> 16" "tq_wqe_cnt ?q = 2 ^ k" "laid k ?q d c (map fst ex @ sq)" using assms(1) by (simp_all add: sq_ok_def)
  have "2 ^ ?k \<le> unat (cq_cqe_cnt (tq_cq ?q))" using C(1) by (simp add: cq_holds_def unat_pow2)
  then obtain cq where r: "read_cqes (unat (cq_cqe_cnt (tq_cq ?q))) (tq_cq ?q) = (cq_unread ?k n ?p (tq_cq ?q), cq)" "cq_holds ?k ?p ?p cq"
    using cqes_read_exactly [OF C(1)] by blast
  let ?cqes = "cq_unread ?k n ?p (tq_cq ?q)"
  show ?thesis
  proof (cases "filter snd ex = []")
    case True
    then have "?cqes = []" using C(2) by simp
    then show ?thesis using True r by (simp add: poll_tx_completions_def split: prod.splits)
  next
    case False
    then obtain ys w zs where w: "ex = ys @ (w, True) # zs" "filter snd zs = []" "last (filter snd ex) = (w, True)"
      using split_last_reported by blast
    have ne: "?cqes \<noteq> []" using C(2) False by auto
    have "ce_wqe_counter (last ?cqes) = last (map ce_wqe_counter ?cqes)" using ne by (simp add: last_map)
    also have "\<dots> = ucast (w_pi w)" unfolding C(2) using False w(3) by (simp add: last_map)
    finally have ctr: "ce_wqe_counter (last ?cqes) = ucast (w_pi w)" .
    have "laid k ?q (d + blocks (map fst ys)) (c + length (packets (map fst ys))) (w # map fst zs @ sq)"
      using laid_append [of k ?q d c "map fst ys" "w # map fst zs @ sq"] Q(3) w(1) by simp
    then have l: "w_pi w = of_nat (d + blocks (map fst ys))"
      "tq_wqe_slot_cum ?q ((d + blocks (map fst ys)) mod 2 ^ k) = of_nat (c + length (packets (map fst ys @ [w])))"
      "tq_wqe_wqebb_cum ?q ((d + blocks (map fst ys)) mod 2 ^ k) = of_nat (d + blocks (map fst ys @ [w]))"
      by (simp_all add: add.assoc)
    have i: "unat (ucast (ce_wqe_counter (last ?cqes)) AND (tq_wqe_cnt ?q - 1)) = (d + blocks (map fst ys)) mod 2 ^ k"
      unfolding ctr l(1) Q(2) by (rule cqe_index [OF Q(1)])
    obtain quit where "fold (reclaim_cqe ?q) ?cqes (tq_completed_tail ?q, tq_sq_completed ?q, tq_force_quit ?q) =
        (of_nat (c + length (packets (map fst ys @ [w]))), of_nat (d + blocks (map fst ys @ [w])), quit)"
      using fold_reclaim [OF ne, of ?q "(tq_completed_tail ?q, tq_sq_completed ?q, tq_force_quit ?q)"] unfolding Let_def i l(2,3) by blast
    then have "poll_tx_completions ?q = ?q\<lparr>tq_cq := cq, tq_completed_tail := of_nat (c + length (packets (map fst ys @ [w]))),
            tq_sq_completed := of_nat (d + blocks (map fst ys @ [w])), tq_force_quit := quit\<rparr>"
      unfolding poll_tx_completions_def r(1) Let_def using ne by simp
    then show ?thesis using w(1,2) r(2) by blast
  qed
qed

lemma sq_ok_retired:
  assumes "sq_ok k s c d (xs @ ws)" "s' = s\<lparr>ts_queue := (ts_queue s)\<lparr>tq_cq := cq, tq_completed_tail := t,
      tq_sq_completed := of_nat (d + blocks xs), tq_force_quit := quit\<rparr>\<rparr>"
  shows "sq_ok k s' (c + length (packets xs)) (d + blocks xs) ws"
proof -
  have "laid k (ts_queue s) (d + blocks xs) (c + length (packets xs)) ws" using assms(1) laid_append by (simp add: sq_ok_def)
  then have "laid k (ts_queue s') (d + blocks xs) (c + length (packets xs)) ws"
    using laid_cong [of "ts_queue s'" "ts_queue s"] assms(2) by simp
  moreover have "tx_burst_wqebbs (ts_queue s') = tx_burst_wqebbs (ts_queue s)"
    by (intro ext) (simp add: tx_burst_wqebbs_def Let_def assms(2))
  moreover have "ws \<noteq> [] \<longrightarrow> w_signaled (last ws)" "blocks ws \<le> 2 ^ k" "\<forall>w\<in>set ws. w_signaled w \<longrightarrow> w_slots w \<noteq> []"
    using assms(1) by (auto simp: sq_ok_def)
  ultimately show ?thesis using assms by (simp add: sq_ok_def)
qed

lemma tx_slots_ok_retired:
  assumes "tx_slots_ok s a c (xs @ ws)" "tq_num_slots (ts_queue s') = tq_num_slots (ts_queue s)" "tq_alloc_head (ts_queue s') = tq_alloc_head (ts_queue s)"
    "tq_completed_tail (ts_queue s') = of_nat (c + length (packets xs))" "on_way s' = on_way s"
  shows "tx_slots_ok s' a (c + length (packets xs)) ws"
proof -
  let ?f = "\<lambda>i. i mod unat (tq_num_slots (ts_queue s))" and ?n = "length (packets xs)"
  have S: "c \<le> a" "a \<le> c + unat (tq_num_slots (ts_queue s))" "packets xs @ (packets ws @ on_way s) = map ?f [c..<a]"
    using assms(1) by (simp_all add: tx_slots_ok_def)
  have len: "c + ?n \<le> a" using arg_cong [OF S(3), of length] S(1) by simp
  have "packets ws @ on_way s = drop ?n (map ?f [c..<a])" unfolding S(3) [symmetric] by simp
  also have "\<dots> = map ?f [c + ?n..<a]" by (simp add: drop_map)
  finally show ?thesis using assms len S by (simp add: tx_slots_ok_def)
qed

lemma tx_poll_inv:
  assumes "tx_inv k m s" "tx_event Poll s = Some s'"
  shows "tx_inv k m s'"
  using assms(1)
proof (rule tx_invE)
  fix a c d p and ex :: "(Wqe \<times> bool) list"
  assume a: "a \<le> m" and S: "tx_slots_ok s a c (map fst ex @ ts_sq s)" and Q: "sq_ok k s c d (map fst ex @ ts_sq s)" and C: "cq_ok s p ex"
  have s': "s' = s\<lparr>ts_queue := poll_tx_completions (ts_queue s)\<rparr>" using assms(2) by (simp split: if_splits)
  from poll_spec [OF Q C] show ?thesis
  proof (elim disjE exE conjE)
    assume "poll_tx_completions (ts_queue s) = ts_queue s"
    then have "s' = s" using s' by simp
    then show ?thesis using assms(1) by simp
  next
    fix ys zs :: "(Wqe \<times> bool) list" and w cq quit
    let ?xs = "map fst ys @ [w]"
    assume ex: "ex = ys @ (w, True) # zs" and zs: "filter snd zs = []" and cq: "cq_holds (ts_cq_log s) (ts_cqes s) (ts_cqes s) cq"
      and poll: "poll_tx_completions (ts_queue s) = (ts_queue s)\<lparr>tq_cq := cq, tq_completed_tail := of_nat (c + length (packets ?xs)),
            tq_sq_completed := of_nat (d + blocks ?xs), tq_force_quit := quit\<rparr>"
    have ws: "map fst ex @ ts_sq s = ?xs @ (map fst zs @ ts_sq s)" using ex by simp
    have sq': "ts_sq s' = ts_sq s" "on_way s' = on_way s" using s' by (simp_all add: on_way_def held_slots_def pending_slots_def)
    have "tx_slots_ok s' a (c + length (packets ?xs)) (map fst zs @ ts_sq s')"
      unfolding sq'(1) by (rule tx_slots_ok_retired [OF S [unfolded ws]]) (use s' poll sq'(2) in simp_all)
    moreover have "sq_ok k s' (c + length (packets ?xs)) (d + blocks ?xs) (map fst zs @ ts_sq s')"
      unfolding sq'(1) using s' poll by (intro sq_ok_retired [OF Q [unfolded ws]]) simp
    moreover have "filter (\<lambda>x. snd x \<and> w_slots (fst x) = []) zs = []" using zs by (auto simp: filter_empty_conv)
    then have "cq_ok s' (ts_cqes s) zs" using C cq zs ex s' poll by (simp add: cq_ok_def cq_unread_def)
    ultimately show ?thesis using a by (intro tx_invI)
  qed
qed

section \<open>Histories\<close>

lemma tx_event_inv:
  assumes "tx_inv k m s" "tx_event e s = Some s'" "m + allocated [e] < 2 ^ 64"
  shows "tx_inv k (m + allocated [e]) s'"
proof (cases "\<exists>n. e = Get n")
  case True
  then show ?thesis using tx_get_inv [OF assms(1)] assms(2,3) by (auto simp: allocated_def simp del: tx_event.simps)
next
  case False
  note steps = tx_fill_inv tx_send_inv tx_cancel_inv tx_poll_inv tx_take_inv tx_post_inv tx_device_inv
  have "allocated [e] = 0" using False by (cases e) (simp_all add: allocated_def)
  moreover have "tx_inv k m s'" using False assms(1,2) by (cases e) (blast intro: steps)+
  ultimately show ?thesis by simp
qed

lemma allocated_Cons: "allocated (e # es) = allocated [e] + allocated es"
  by (simp add: allocated_def)

lemma tx_run_inv:
  "tx_inv k m s \<Longrightarrow> tx_run es s = Some s' \<Longrightarrow> m + allocated es < 2 ^ 64 \<Longrightarrow> tx_inv k (m + allocated es) s'"
proof (induction es arbitrary: m s)
  case Nil
  then show ?case by (simp add: allocated_def)
next
  case (Cons e es)
  obtain t where t: "tx_event e s = Some t" "tx_run es t = Some s'" using Cons.prems(2) by (auto split: option.splits)
  have "tx_inv k (m + allocated [e]) t" using tx_event_inv [OF Cons.prems(1) t(1)] Cons.prems(3) allocated_Cons [of e es] by simp
  then show ?case using Cons.IH [OF _ t(2), of "m + allocated [e]"] Cons.prems(3) by (simp add: allocated_Cons [of e es] add.assoc)
qed

text \<open>What creating a queue guarantees: a completion queue of at least \<^verbatim>\<open>num_slots + 1\<close> entries, at most
  \<^verbatim>\<open>MAX_NUM_SEGS\<close> segments, and a send queue that the 16-bit counter of a completion can address.\<close>

definition tx_sizes_ok :: "u32 \<Rightarrow> nat \<Rightarrow> nat \<Rightarrow> nat \<Rightarrow> bool" where
  "tx_sizes_ok num_slots num_segs log_wqe_cnt log_cqe_cnt \<longleftrightarrow>
     0 < num_slots \<and> num_segs \<le> 4 \<and> log_wqe_cnt \<le> 16 \<and> log_cqe_cnt < 31 \<and> unat num_slots < 2 ^ log_cqe_cnt"

lemma tx_init_inv: "tx_sizes_ok num_slots num_segs kw kc \<Longrightarrow> tx_inv kw 0 (tx_init num_slots num_segs kw kc empw)"
  using cq_holds_empty [of kc]
  by (intro tx_invI [of 0 _ _ 0 "[]" _ 0 0])
    (simp_all add: tx_sizes_ok_def tx_init_def tx_slots_ok_def sq_ok_def cq_ok_def on_way_def held_slots_def pending_slots_def cq_unread_def word_less_nat_alt)

lemma post_fold_num_slots: "fold post_wqe pl (q, sq) = (q', sq') \<Longrightarrow> tq_num_slots q' = tq_num_slots q"
  by (induction pl arbitrary: q sq) (auto simp: post_wqe_def Let_def split: prod.splits)

lemma tx_event_num_slots: "tx_event e s = Some s' \<Longrightarrow> tq_num_slots (ts_queue s') = tq_num_slots (ts_queue s)"
  by (cases e)
    (auto simp: get_tx_packet_burst_def send_tx_burst_def free_tx_packets_def poll_tx_completions_def tx_sq_has_space_def post_tx_burst_def
      device_report_def Let_def dest: post_fold_num_slots split: if_splits option.splits prod.splits list.splits)

lemma tx_run_num_slots: "tx_run es s = Some s' \<Longrightarrow> tq_num_slots (ts_queue s') = tq_num_slots (ts_queue s)"
  by (induction es arbitrary: s) (auto dest: tx_event_num_slots split: option.splits)

lemma cyclic_distinct: "a \<le> c + n \<Longrightarrow> distinct (map (\<lambda>i. i mod n) [c..<a])" for n :: nat
proof -
  assume "a \<le> c + n"
  then have "i mod n \<noteq> j mod n" if "c \<le> i" "i < j" "j < a" for i j using that lap_slot_distinct [of i j n] by simp
  then have "inj_on (\<lambda>i. i mod n) {c..<a}" by (intro linorder_inj_onI) auto
  then show ?thesis by (simp add: distinct_map)
qed

lemma tx_run_init_inv:
  assumes "tx_sizes_ok num_slots num_segs kw kc" "tx_run evs (tx_init num_slots num_segs kw kc empw) = Some s" "allocated evs < 2 ^ 64"
  shows "tx_inv kw (allocated evs) s" "tq_num_slots (ts_queue s) = num_slots"
  using tx_run_inv [OF tx_init_inv [OF assms(1)] assms(2)] assms(3) tx_run_num_slots [OF assms(2)] by (simp_all add: tx_init_def)

text \<open>C6: whatever the application, the worker and the device do, and in whichever order, the packets on
  their way (in the burst the application is filling, in the hand-off ring, in the worker's hands and in the
  send queue) occupy different slots of the packet memory, all of them in range: no frame is overwritten
  before the device has sent it. Fewer than \<open>2 ^ 64\<close> slots are taken in all.\<close>

theorem tx_slots_exclusive:
  assumes "tx_sizes_ok num_slots num_segs kw kc" "tx_run evs (tx_init num_slots num_segs kw kc empw) = Some s" "allocated evs < 2 ^ 64"
  shows "distinct (packets (ts_sq s) @ on_way s) \<and> list_all (\<lambda>i. i < unat num_slots) (packets (ts_sq s) @ on_way s)"
  using tx_run_init_inv(1) [OF assms]
proof (rule tx_invE)
  fix a c d n and ex :: "(Wqe \<times> bool) list"
  assume "tx_slots_ok s a c (map fst ex @ ts_sq s)"
  then have eq: "packets (map fst ex) @ (packets (ts_sq s) @ on_way s) = map (\<lambda>i. i mod unat num_slots) [c..<a]"
    and b: "a \<le> c + unat num_slots" "0 < unat num_slots"
    using tx_run_init_inv(2) [OF assms] by (simp_all add: tx_slots_ok_def)
  have "distinct (packets (map fst ex) @ (packets (ts_sq s) @ on_way s))" unfolding eq by (rule cyclic_distinct [OF b(1)])
  moreover have "\<forall>i\<in>set (packets (map fst ex) @ (packets (ts_sq s) @ on_way s)). i < unat num_slots" unfolding eq using b(2) by auto
  ultimately show ?thesis by (simp add: list_all_iff)
qed

text \<open>C16: the send queue never holds more blocks than it has, so no entry is overwritten before it is retired
  and the accounting check of \<^verbatim>\<open>tx_sq_has_space\<close> never fires; and the device never has more than
  \<open>num_slots + 1\<close> unread completions, one of them for a failed entry without packets, so its completion
  queue, which was created for as many, does not overflow.\<close>

theorem tx_queues_bounded:
  assumes "tx_sizes_ok num_slots num_segs kw kc" "tx_run evs (tx_init num_slots num_segs kw kc empw) = Some s" "allocated evs < 2 ^ 64"
  shows "unat (tq_sq_pi (ts_queue s) - tq_sq_completed (ts_queue s)) \<le> 2 ^ kw
    \<and> unat (of_nat (ts_cqes s) - cq_ci (tq_cq (ts_queue s))) \<le> min (unat num_slots + 1) (2 ^ kc)"
  using tx_run_init_inv(1) [OF assms]
proof (rule tx_invE)
  fix a c d n and ex :: "(Wqe \<times> bool) list"
  assume S: "tx_slots_ok s a c (map fst ex @ ts_sq s)" and Q: "sq_ok kw s c d (map fst ex @ ts_sq s)" and C: "cq_ok s n ex"
  let ?ws = "map fst ex @ ts_sq s"
  have q: "laid kw (ts_queue s) d c ?ws" "tq_sq_completed (ts_queue s) = of_nat d" "blocks ?ws \<le> 2 ^ kw" using Q by (simp_all add: sq_ok_def)
  have "tq_sq_pi (ts_queue s) - tq_sq_completed (ts_queue s) = of_nat (blocks ?ws)" using laid_end [OF q(1)] q(2) by simp
  then have "unat (tq_sq_pi (ts_queue s) - tq_sq_completed (ts_queue s)) \<le> blocks ?ws" by (simp add: unat_of_nat del: of_nat_add)
  moreover have c: "cq_ci (tq_cq (ts_queue s)) = of_nat n" "n \<le> ts_cqes s" using C by (simp_all add: cq_ok_def cq_holds_def)
  have "unat (of_nat (ts_cqes s) - cq_ci (tq_cq (ts_queue s)) :: u32) \<le> ts_cqes s - n"
    using c by (simp add: unat_of_nat flip: of_nat_diff)
  moreover have "ts_cqes s - n \<le> length (packets (map fst ex)) + 1" using cq_ok_unread [OF C] by (simp split: if_splits)
  moreover have "unat num_slots + 1 \<le> 2 ^ kc" using assms(1) by (simp add: tx_sizes_ok_def)
  ultimately show ?thesis using q(3) tx_slots_ok_length [OF S] tx_run_init_inv(2) [OF assms] by simp
qed

text \<open>C14: once the device has executed every entry of the send queue, one poll retires all of them: the
  completed tail reaches the number of slots posted and the send queue is empty again.\<close>

theorem tx_all_reclaimed:
  assumes "tx_sizes_ok num_slots num_segs kw kc" "tx_run evs (tx_init num_slots num_segs kw kc empw) = Some s" "allocated evs < 2 ^ 64"
    "ts_sq s = []"
  shows "tq_completed_tail (poll_tx_completions (ts_queue s)) = tq_slots_posted (ts_queue s)
    \<and> tq_sq_completed (poll_tx_completions (ts_queue s)) = tq_sq_pi (ts_queue s)"
  using tx_run_init_inv(1) [OF assms(1-3)]
proof (rule tx_invE)
  fix a c d n and ex :: "(Wqe \<times> bool) list"
  assume S: "tx_slots_ok s a c (map fst ex @ ts_sq s)" and Q: "sq_ok kw s c d (map fst ex @ ts_sq s)" and C: "cq_ok s n ex"
  have L: "laid kw (ts_queue s) d c (map fst ex)" using Q assms(4) by (simp add: sq_ok_def)
  have reported: "snd (last ex)" if "ex \<noteq> []"
    using Q C assms(4) that by (simp add: sq_ok_def cq_ok_def last_map)
  from poll_spec [OF Q C] show ?thesis
  proof (elim disjE exE conjE)
    assume "filter snd ex = []" and same: "poll_tx_completions (ts_queue s) = ts_queue s"
    then have "ex = []" using reported by (metis filter_empty_conv last_in_set)
    then show ?thesis using S Q L same by (simp add: tx_slots_ok_def sq_ok_def)
  next
    fix ys zs :: "(Wqe \<times> bool) list" and w cq quit
    assume ex: "ex = ys @ (w, True) # zs" and zs: "filter snd zs = []"
      and poll: "poll_tx_completions (ts_queue s) = (ts_queue s)\<lparr>tq_cq := cq, tq_completed_tail := of_nat (c + length (packets (map fst ys @ [w]))),
            tq_sq_completed := of_nat (d + blocks (map fst ys @ [w])), tq_force_quit := quit\<rparr>"
    have "zs = []" using reported zs ex by (metis append_is_Nil_conv filter_empty_conv last.simps last_appendR last_in_set list.distinct(1))
    then show ?thesis using laid_end [OF L] poll ex by simp
  qed
qed

text \<open>C21: the worker reserves exactly what posting consumes: the blocks \<^verbatim>\<open>tx_burst_wqebbs\<close> counts are those
  of the entries \<^verbatim>\<open>post_tx_burst\<close> builds, whether the burst is packed, scheduled, timestamped or sent to an
  endpoint, and these carry every packet of the burst once and in order.\<close>

theorem tx_reservation_exact:
  assumes "tb_num_segs b = tq_num_segs q" "tq_num_segs q \<le> 4"
  shows "sum_list (map fst (burst_plan q b)) = tx_burst_wqebbs q b \<and> concat (map (fst \<circ> snd) (burst_plan q b)) = tb_slots b"
  using burst_plan_facts [OF assms] by simp

section \<open>Witnesses\<close>

definition tx_demo :: "TxEvent list" where
  "tx_demo = [Get 3, Send, Take, Post, Execute, Get 1, Execute, Fault, Send]"

lemma tx_demo_runs:
  "tx_sizes_ok 5 1 3 3" "\<exists>s. tx_run tx_demo (tx_init 5 1 3 3 False) = Some s \<and> ts_sq s = []" "allocated tx_demo < 2 ^ 64"
proof -
  show "tx_sizes_ok 5 1 3 3" by (simp add: tx_sizes_ok_def)
  have "(case tx_run tx_demo (tx_init 5 1 3 3 False) of Some s \<Rightarrow> ts_sq s = [] | None \<Rightarrow> False)" by code_simp
  then show "\<exists>s. tx_run tx_demo (tx_init 5 1 3 3 False) = Some s \<and> ts_sq s = []" by (auto split: option.splits)
  show "allocated tx_demo < 2 ^ 64" by (simp add: allocated_def tx_demo_def)
qed

theorem tx_slots_exclusive_witness:
  "\<exists>s. tx_run tx_demo (tx_init 5 1 3 3 False) = Some s
    \<and> distinct (packets (ts_sq s) @ on_way s) \<and> list_all (\<lambda>i. i < unat (5 :: u32)) (packets (ts_sq s) @ on_way s)"
  using tx_demo_runs tx_slots_exclusive by meson

theorem tx_queues_bounded_witness:
  "\<exists>s. tx_run tx_demo (tx_init 5 1 3 3 False) = Some s \<and> unat (tq_sq_pi (ts_queue s) - tq_sq_completed (ts_queue s)) \<le> 2 ^ 3
    \<and> unat (of_nat (ts_cqes s) - cq_ci (tq_cq (ts_queue s))) \<le> min (unat (5 :: u32) + 1) (2 ^ 3)"
  using tx_demo_runs tx_queues_bounded by meson

theorem tx_all_reclaimed_witness:
  "\<exists>s. tx_run tx_demo (tx_init 5 1 3 3 False) = Some s
    \<and> tq_completed_tail (poll_tx_completions (ts_queue s)) = tq_slots_posted (ts_queue s)
    \<and> tq_sq_completed (poll_tx_completions (ts_queue s)) = tq_sq_pi (ts_queue s)"
  using tx_demo_runs tx_all_reclaimed by meson

theorem tx_reservation_exact_witness:
  "sum_list (map fst (burst_plan (ts_queue (tx_init 99 1 9 9 True))
      \<lparr>tb_slots = [0..<40], tb_num_segs = 1, tb_endpoint = False, tb_scheduled = False, tb_txtime = \<lambda>_. 0, tb_timestamp = False, tb_ids = \<lambda>_. 0\<rparr>)) = 12"
proof -
  let ?q = "ts_queue (tx_init 99 1 9 9 True)"
  let ?b = "\<lparr>tb_slots = [0..<40], tb_num_segs = 1, tb_endpoint = False, tb_scheduled = False, tb_txtime = \<lambda>_. 0, tb_timestamp = False, tb_ids = \<lambda>_. 0\<rparr>"
  have "tx_burst_wqebbs ?q ?b = 12"
    by (simp add: tx_burst_wqebbs_def tx_init_def empw_compatible_burst_def empw_burst_wqebbs.simps EMPW_MAX_PACKETS_def empw_wqebbs_def Let_def)
  then show ?thesis using tx_reservation_exact [of ?b ?q] by (simp add: tx_init_def)
qed

end
