(* ===== verification/Spec2Isabelle.thy ===== *)
theory Spec2Isabelle
  imports Ring_Concurrent Shared_Tx Rdma_Gate Buffer_Pools Rx_Schedule Yaml_Decode Flow_History Queue_Lifecycle Tx_History
begin

text \<open>
  \<^bold>\<open>DAQIRI: a verification library.\<close>

  DAQIRI moves packets between a network card and host or GPU memory. An application gives it a YAML
  configuration; the library reads and validates it, sizes and allocates memory regions, creates an engine
  (DPDK, ibverbs, RDMA or sockets) and then hands bursts of packets back and forth through lock-free
  rings and pools. This development models the parts of the library that decide something on their
  own. What it calls outside the repository is an argument of the definitions.

  \<^bold>\<open>Rings and pools.\<close>
  \<^item> \<open>Queue_Interface\<close>: the locale \<open>bounded_queue\<close>, the contract of a bounded queue of pointers.
  \<^item> \<open>Ring_Buffer\<close> (\<^verbatim>\<open>src/src/daqiri_ring.h\<close>, \<^verbatim>\<open>src/src/rss.h\<close>): the ring with its four 32-bit cursors, executed by one
    thread; it refines a bounded FIFO for every sequence of bulk operations, across the wrap-around of the
    cursors. \<open>rss_loop\<close> has fuel 65, one more than the doublings a 64-bit size allows.
  \<^item> \<open>Ring_Concurrent\<close>: the same code as a step relation over any number of threads, one step per atomic access.
    Every object is given out once and in order, a refusal is justified by a state the ring was in,
    some thread can always move. The hypothesis of proper use keeps fewer than \<open>2 ^ 31\<close> elements
    per call and the thread roles of the ring's mode. Accesses take effect in one global order.
  \<^item> \<open>Object_Pool\<close> (\<^verbatim>\<open>src/src/daqiri_pool.h\<close>): the slab over a ring, with the locale \<open>element_pool\<close>; an element is never
    handed out twice. \<open>Shared_Tx\<close> (\<^verbatim>\<open>src/src/engines/ibverbs/shared_tx.h\<close>): reference-counted transmit buffers
    and their release when the card has sent them. \<open>Buffer_Pools\<close> (\<^verbatim>\<open>Engine::populate_pool\<close>): rings filled from
    allocated regions.

  \<^bold>\<open>RDMA.\<close>
  \<^item> \<open>Rdma_Work\<close> (\<^verbatim>\<open>rdma_work_tracking.h\<close>, \<^verbatim>\<open>rdma_queue_index.h\<close>): range checks, the ordered map of posted work, and the
    choice of a client queue. \<open>Rdma_Direct\<close> (\<^verbatim>\<open>rdma_direct.h\<close>, \<^verbatim>\<open>rdma_direct.cpp\<close>): posting and polling on a caller-driven
    connection; every burst accepted is completed exactly once, whatever the verbs library answers. \<open>Rdma_Gate\<close>: the lease
    that keeps two threads out of a connection, as an interleaving step relation with spurious failures of the weak
    compare-and-exchange.

  \<^bold>\<open>Configuration.\<close>
  \<^item> \<open>Daqiri_Types\<close> (\<^verbatim>\<open>include/daqiri/types.h\<close>): the configuration records and enumerations. \<open>Cpp_Strings\<close>: what the
    sources use of the text functions of the C++ library. \<open>Endpoint_Addr\<close> (\<^verbatim>\<open>src/src/common.cpp\<close>): textual addresses.
  \<^item> \<open>Yaml_Values\<close>, \<open>Yaml_Flows\<close>, \<open>Yaml_Reorder\<close>, \<open>Yaml_Queues\<close>, \<open>Yaml_Decode\<close> (\<^verbatim>\<open>include/daqiri/common.h\<close>,
    \<^verbatim>\<open>src/src/common.cpp\<close>): the reader of the configuration file. The operations of the YAML library on nodes are a record
    argument. An accepted configuration is consistent; integers are read exactly or refused.
  \<^item> \<open>Config_Validation\<close> (\<^verbatim>\<open>validate_network_config\<close> in \<^verbatim>\<open>src/src/engine.cpp\<close>): every check, and what an
    accepted configuration guarantees. The address parser \<^verbatim>\<open>inet_pton\<close> is an argument, the build-time engine
    switches are the record \<open>BuildFlags\<close>.

  \<^bold>\<open>Memory.\<close>
  \<^item> \<open>Memory_Sizing\<close>, \<open>External_Memory\<close>, \<open>Hugepages\<close>, \<open>Memory_Allocation\<close> (\<^verbatim>\<open>src/src/engine.cpp\<close>, \<^verbatim>\<open>engine.h\<close>,
    \<^verbatim>\<open>common.cpp\<close>): sizes on 64-bit words, bindings of memory supplied by the application, huge-page arenas, and allocation
    and release of all regions. The answers of the kernel and of CUDA are environment records, and each call that obtains or
    gives back memory is recorded, so that a failed or finished allocation can be shown to call the deallocator of everything once, apart
    from the device blocks that the code keeps when a CUDA context cannot be read or activated.

  \<^bold>\<open>Receiving.\<close>
  \<^item> \<open>Rx_Schedule\<close> (\<^verbatim>\<open>Engine::get_rx_burst\<close>): rotation over queues and ports (locale \<open>fair_rotation\<close>): no queue is starved.
  \<^item> \<open>Flow_Ids\<close>, \<open>Flow_Steering\<close>, \<open>Flow_Objects\<close>, \<open>Flow_Match\<close>, \<open>Flow_Ops\<close>, \<open>Flow_History\<close>
    (\<^verbatim>\<open>src/src/engines/ibverbs/daqiri_ibverbs_engine.cpp\<close>): receive flows that are added and deleted while the engine runs.
    Identifiers are allocated and recycled (locale \<open>id_allocator\<close>), a rule is built from match parameters, transform actions and
    a queue or RSS destination, and the asynchronous operations report completions. The mlx5 library is the record \<open>DrLib\<close>:
    which calls succeed and which sample registers the device assigns. The theorems say that the device objects are accounted for
    after every sequence of calls, failures and the clean-up included, and bound what can be lost: only the transform actions of eCPRI flows and
    of flows that match the total length (the flows that are not \<open>tidy_flow\<close>), on whose failure paths the code does not release them. An installed rule
    selects the packets its flow describes, applies its transforms in order and delivers to its queues.
  \<^item> \<open>Queue_Lifecycle\<close> (same file): adding, draining and removing a queue while other threads look it up without a lock,
    as a step relation over any number of threads (fewer than \<open>2 ^ 64\<close> at a time, the width of the user count). A queue in use is never
    destroyed, and a poll removes a draining queue that nobody uses once the counters of its outstanding work, which the data path changes freely, are zero. \<^verbatim>\<open>claim_direct_owner\<close> gives a direct queue to one thread.

  \<^item> \<open>Completion_Queue\<close>, \<open>Tx_Queue\<close>, \<open>Tx_Safety\<close>, \<open>Tx_Worker\<close>, \<open>Tx_History\<close> (same file): the transmit path of an indirect queue with cyclic
    slots. The application takes, fills, sends or gives back bursts, the worker checks the space of the send queue, posts and polls, and the
    device executes entries and writes completions; the three interleave freely, for fewer than \<open>2 ^ 64\<close> slots in all. Packets on their
    way never share a slot, the send queue and the completion queue keep within their sizes, also when entries fail (\<open>num_slots + 1\<close> unread completions at most), what is reserved is what is posted, and
    everything executed is retired by one poll. The sizes assumed of a new queue (\<open>tx_sizes_ok\<close>) are those \<^verbatim>\<open>create_tx_raw_qp\<close>
    asks for, and a send queue of at most \<open>2 ^ 16\<close> blocks, the range of the counter in a completion. The loop over the completion queue
    has the number of its entries as fuel, which \<open>cqes_read_exactly\<close> shows to be enough.
  \<^bold>\<open>Conventions.\<close> Structs are records, enumerations datatypes with the source's constructors, machine integers words of their
  width, errors and exceptions values of option or sum types, a spin loop that can never end the result \<open>None\<close>.
  The locales state the contracts between components; each is interpreted on the model's own definitions.

  \<^bold>\<open>Not modelled.\<close> The packet paths of the ibverbs, DPDK and socket engines and the connection management of the RDMA engine are
  sequences of calls on devices, kernel sockets and libraries that are not part of the repository; hardware reorder, neighbour
  resolution, pause frames, storage back ends, metrics, logging and GPU kernels are input and output or device code. The weak memory
  orders of the atomic accesses are not modelled: steps are sequentially consistent. Python bindings, applications and examples are clients of
  the library.
\<close>

end
